(* ===== verification/Prelude.thy ===== *)
theory Prelude
  imports Main "HOL-Library.Word"
begin

text \<open>
  The vocabulary the component theories share: the integer types of \<open>common/cputypes.h\<close>
  as words of their width, the C shift operators, pairs of 32-bit halves read as one number,
  the lemmas that relate shifts, borrows and carries of such pairs to arithmetic on \<open>nat\<close>,
  and a few facts on folds that several components use.
\<close>

unbundle bit_operations_syntax

section \<open>Machine types\<close>

type_synonym u8 = "8 word"
type_synonym u16 = "16 word"
type_synonym u32 = "32 word"
type_synonym u64 = "64 word"

text \<open>
  The shift operators of C on an unsigned operand. A shift by the width or more, which C
  leaves undefined, is 0 here; the theories say where the code gets there.
\<close>

definition shl :: "'a::len word \<Rightarrow> nat \<Rightarrow> 'a word" where
  "shl w n = push_bit n w"

definition shr :: "'a::len word \<Rightarrow> nat \<Rightarrow> 'a word" where
  "shr w n = drop_bit n w"

text \<open>\<open>halves\<close>: facts that turn words and pairs of words into arithmetic on \<open>nat\<close>.\<close>

named_theorems halves

section \<open>Words and disjoint bits\<close>

lemma or_eq_plus:
  fixes a b :: "'a::len word"
  assumes "\<And>n. bit a n \<Longrightarrow> bit b n \<Longrightarrow> False"
  shows "a OR b = a + b"
proof -
  have "a AND b = 0"
    by (rule bit_eqI) (use assms in \<open>auto simp: bit_and_iff\<close>)
  then show ?thesis by (simp add: disjunctive_add_eq_or)
qed

lemma bit_shl: "bit (shl w n) m \<longleftrightarrow> m < LENGTH('a) \<and> n \<le> m \<and> bit (w::'a::len word) (m - n)"
  by (auto simp: shl_def bit_push_bit_iff)

lemma bit_shr: "bit (shr w n) m \<longleftrightarrow> bit (w::'a::len word) (n + m)"
  by (simp add: shr_def bit_drop_bit_eq)

lemma unat_shr: "unat (shr w n) = unat (w::'a::len word) div 2 ^ n"
  by (simp only: shr_def unat_drop_bit_eq) (simp only: drop_bit_eq_div)

lemma unat_shl: "unat (shl w n) = (unat (w::'a::len word) * 2 ^ n) mod 2 ^ LENGTH('a)"
  unfolding shl_def unsigned_push_bit_eq unfolding take_bit_eq_mod push_bit_eq_mult ..

lemma unat_u32_bound: "unat (w::u32) < 4294967296"
  using unsigned_less [of w] by simp

lemma unat_u32_le: "unat (w::u32) \<le> 4294967295"
  using unat_u32_bound [of w] by linarith

lemma unat_eqI: "unat a = unat b \<Longrightarrow> a = (b::'a::len word)"
  by (rule unsigned_word_eqI)

lemma unat_plus_u32: "unat (a + b :: u32) = (unat a + unat b) mod 4294967296"
  by (simp add: unat_word_ariths)

lemma unat_plus_u32_if: "unat (a + b :: u32) =
    (if unat a + unat b < 4294967296 then unat a + unat b else unat a + unat b - 4294967296)"
  using unat_u32_bound [of a] unat_u32_bound [of b] unfolding unat_plus_u32
  by (cases "unat a + unat b < 4294967296") (simp_all add: le_mod_geq)

lemma unat_minus_u32: "unat (a - b :: u32) = (if unat b \<le> unat a then unat a - unat b
    else unat a + 4294967296 - unat b)"
  unfolding unat_sub_if_size word_size by simp

lemma u32_add_carry: "(a + b < (a::u32)) \<longleftrightarrow> 4294967296 \<le> unat a + unat b"
  using unat_u32_bound [of a] unat_u32_bound [of b]
  unfolding word_less_nat_alt unat_plus_u32_if
  by (cases "unat a + unat b < 4294967296"; simp; linarith)

lemma u32_add_carry': "(a + b < (b::u32)) \<longleftrightarrow> 4294967296 \<le> unat a + unat b"
  using u32_add_carry [of b a] by (simp add: add.commute)

lemma u32_sub_borrow: "((a::u32) < a - b) \<longleftrightarrow> unat a < unat b"
  using unat_u32_bound [of b]
  unfolding word_less_nat_alt unat_minus_u32 by (cases "unat b \<le> unat a"; simp; linarith)

section \<open>A pair of 32-bit halves as one number\<close>

definition v64 :: "u32 \<Rightarrow> u32 \<Rightarrow> nat" where
  "v64 hi lo = unat hi * 4294967296 + unat lo"

lemma v64_bound: "v64 hi lo < 18446744073709551616"
  using unat_u32_bound [of hi] unat_u32_bound [of lo] unfolding v64_def by linarith

lemma v64_0 [simp]: "v64 0 0 = 0"
  by (simp add: v64_def)

lemma v64_eq_0_iff: "v64 hi lo = 0 \<longleftrightarrow> hi = 0 \<and> lo = 0"
  by (auto simp: v64_def unat_eq_zero)

lemma v64_hi_0: "v64 0 lo = unat lo"
  by (simp add: v64_def)

lemma v64_hi: "unat hi = v64 hi lo div 4294967296"
  and v64_lo: "unat lo = v64 hi lo mod 4294967296"
  using unat_u32_bound [of lo] by (simp_all add: v64_def)

lemma v64_inject: "v64 a b = v64 c d \<longleftrightarrow> a = c \<and> b = d"
  by (metis v64_hi v64_lo unat_eqI)

lemma v64_less_iff [halves]: "hi < hi' \<or> (hi = hi' \<and> lo < lo') \<longleftrightarrow> v64 hi lo < v64 hi' lo'"
  using unat_u32_bound [of lo] unat_u32_bound [of lo']
  unfolding v64_def word_less_nat_alt word_eq_iff_unsigned [of hi, where ?'a = nat] by linarith

lemma v64_le_iff [halves]: "hi < hi' \<or> (hi = hi' \<and> lo \<le> lo') \<longleftrightarrow> v64 hi lo \<le> v64 hi' lo'"
  using unat_u32_bound [of lo] unat_u32_bound [of lo']
  unfolding v64_def word_less_nat_alt word_le_nat_alt word_eq_iff_unsigned [of hi, where ?'a = nat]
  by linarith

lemma v64_eqI:
  assumes "n < 18446744073709551616" "unat hi = n div 4294967296" "unat lo = n mod 4294967296"
  shows "v64 hi lo = n"
  using assms by (simp add: v64_def)

text \<open>\<open>hi <<= 1; hi |= lo >> 31; lo <<= 1\<close> doubles the pair modulo \<open>2^64\<close>.\<close>

lemma double_digits:
  fixes h l H B :: nat
  assumes "B = 2 * H" "0 < H"
  shows "((2 * h) mod B + l div H) mod B * B + (2 * l) mod B = (2 * (h * B + l)) mod (B * B)"
proof -
  have "2 * (h * B + l) = 2 * l + B * (2 * h)" by (simp add: algebra_simps)
  moreover have "B \<noteq> 0" "(2 * l) div B = l div H"
    using assms by (simp_all add: div_mult_mult1)
  ultimately have "(2 * (h * B + l)) div B = 2 * h + l div H" "(2 * (h * B + l)) mod B = (2 * l) mod B"
    by (metis div_mult_self2, metis mod_mult_self2)
  then show ?thesis
    by (simp add: mod_mult2_eq mod_simps mult.commute)
qed

lemma v64_shl1:
  "v64 (shl hi 1 OR shr lo 31) (shl lo 1) = (2 * v64 hi lo) mod 18446744073709551616"
proof -
  have "shl hi 1 OR shr lo 31 = shl hi 1 + shr lo 31"
    by (rule or_eq_plus) (auto simp: bit_shl bit_shr dest: bit_imp_le_length)
  moreover have "unat (shl w 1) = (2 * unat w) mod 4294967296" for w :: u32
    by (simp add: unat_shl mult.commute)
  ultimately show ?thesis
    using double_digits [of 4294967296 2147483648 "unat hi" "unat lo"]
    by (simp add: v64_def unat_plus_u32 unat_shr)
qed

text \<open>\<open>lo >>= 1; lo |= hi << 31; hi >>= 1\<close> halves the pair.\<close>

lemma halve_digits:
  fixes h l H B :: nat
  assumes "B = 2 * H" "0 < H" "h < B" "l < B"
  shows "h div 2 * B + (l div 2 + h * H mod B) mod B = (h * B + l) div 2"
proof -
  obtain q b where h: "h = 2 * q + b" "b < 2" "q = h div 2"
    by (rule that [of "h div 2" "h mod 2"]) simp_all
  have "h * H = b * H + B * q" by (simp add: h(1) assms(1) algebra_simps)
  then have "h * H mod B = b * H"
    using h(2) assms by (cases b) simp_all
  moreover have "l div 2 < H" "b = 0 \<or> b = 1"
    using h(2) assms by auto
  then have "l div 2 + b * H < B"
    using assms by auto
  moreover have "h * B + l = 2 * (q * B + b * H) + l"
    by (simp add: h(1) assms(1) algebra_simps)
  ultimately show ?thesis
    using h(3) by simp
qed

lemma v64_shr1: "v64 (shr hi 1) (shr lo 1 OR shl hi 31) = v64 hi lo div 2"
proof -
  have "shr lo 1 OR shl hi 31 = shr lo 1 + shl hi 31"
    by (rule or_eq_plus) (auto simp: bit_shl bit_shr dest: bit_imp_le_length)
  then show ?thesis
    using halve_digits [of 4294967296 2147483648 "unat hi" "unat lo"] unat_u32_bound
    by (simp add: v64_def unat_plus_u32 unat_shr unat_shl)
qed

lemmas v64_shift1 = v64_shl1 v64_shr1

text \<open>Addition of pairs with the carry tested by comparison, as the code does everywhere.\<close>

lemma add_digits:
  fixes ah al bh bl B :: nat
  assumes "al < B" "bl < B"
  shows "(ah + bh + (if B \<le> al + bl then 1 else 0)) mod B * B + (al + bl) mod B
      = ((ah * B + al) + (bh * B + bl)) mod (B * B)"
proof -
  have "(ah * B + al) + (bh * B + bl) = (al + bl) + B * (ah + bh)"
    by (simp add: algebra_simps)
  moreover have "B \<noteq> 0" using assms by simp
  ultimately have "((ah * B + al) + (bh * B + bl)) div B = (ah + bh) + (al + bl) div B"
    "((ah * B + al) + (bh * B + bl)) mod B = (al + bl) mod B"
    by (metis div_mult_self2, metis mod_mult_self2)
  moreover have "(al + bl) div B = (if B \<le> al + bl then 1 else 0)"
    using assms by (simp add: div_if [of "al + bl"])
  ultimately show ?thesis
    by (simp add: mod_mult2_eq ac_simps)
qed

lemma v64_add:
  "v64 (ah + bh + (if al + bl < al then 1 else 0)) (al + bl)
     = (v64 ah al + v64 bh bl) mod 18446744073709551616"
proof -
  have "unat (ah + bh + (if al + bl < al then 1 else 0))
      = (unat ah + unat bh + (if 4294967296 \<le> unat al + unat bl then 1 else 0)) mod 4294967296"
    by (simp add: unat_plus_u32 mod_simps u32_add_carry)
  then show ?thesis
    using add_digits [of "unat al" 4294967296 "unat bl" "unat ah" "unat bh"] unat_u32_bound
    by (simp only: v64_def unat_plus_u32) simp
qed

lemma v64_sub:
  assumes "v64 bh bl \<le> v64 ah al"
  shows "v64 (ah - bh - (if al < al - bl then 1 else 0)) (al - bl) = v64 ah al - v64 bh bl"
proof (cases "unat al < unat bl")
  case True
  with assms have lt: "unat bh < unat ah"
    using unat_u32_bound [of bl] unfolding v64_def by linarith
  then have "unat (ah - bh - 1) = unat ah - unat bh - 1"
    by (simp add: unat_minus_u32)
  moreover obtain k where "unat ah = unat bh + Suc k"
    using lt less_imp_add_positive by (metis gr0_implies_Suc)
  moreover obtain m where "unat al + 4294967296 = unat bl + m"
    using unat_u32_bound [of bl] less_imp_add_positive by (metis trans_less_add2)
  moreover have "unat (al - bl) = m"
    using True calculation by (simp add: unat_minus_u32)
  ultimately show ?thesis
    using True unat_u32_bound [of bl] less_imp_le by (simp add: v64_def u32_sub_borrow)
next
  case False
  with assms have "unat bh \<le> unat ah"
    using unat_u32_bound [of al] unfolding v64_def by linarith
  then obtain k where "unat ah = unat bh + k"
    using le_iff_add by blast
  with False show ?thesis
    by (simp add: v64_def unat_minus_u32 u32_sub_borrow)
qed

section \<open>Characters\<close>

text \<open>\<open>isspace\<close>, \<open>isdigit\<close> and \<open>tolower\<close> of the C library in its standard locale, and the blanks at
  the ends of a text.\<close>

definition c_isspace :: "char \<Rightarrow> bool" where
  "c_isspace c \<longleftrightarrow> of_char c \<in> {9, 10, 11, 12, 13, 32 :: nat}"

definition c_tolower :: "char \<Rightarrow> char" where
  "c_tolower c = (if (65::nat) \<le> of_char c \<and> of_char c \<le> (90::nat) then char_of (of_char c + 32 :: nat) else c)"

definition c_isdigit :: "char \<Rightarrow> bool" where
  "c_isdigit c \<longleftrightarrow> (48::nat) \<le> of_char c \<and> of_char c \<le> (57::nat)"

definition trim_end :: "string \<Rightarrow> string" where
  "trim_end s = rev (dropWhile c_isspace (rev s))"

lemma length_trim_end: "length (trim_end s) \<le> length s"
  using length_dropWhile_le [of c_isspace "rev s"] by (simp add: trim_end_def)

lemma trim_end_last: "trim_end s \<noteq> [] \<Longrightarrow> \<not> c_isspace (last (trim_end s))"
  using hd_dropWhile [of c_isspace "rev s"] by (auto simp: trim_end_def last_rev)

section \<open>Folds\<close>

lemma foldl_pair:
  "foldl (\<lambda>(a, b) x. (f a x, g b x)) (a, b) xs = (foldl f a xs, foldl g b xs)"
  by (induction xs arbitrary: a b) auto

end
