(* ===== verification/U64Ops.thy ===== *)
theory U64Ops
  imports Prelude
begin

text \<open>
  The 64-bit arithmetic on pairs of 32-bit halves of \<open>common/problem.cpp\<close>: \<open>__u64mul\<close> and
  \<open>__u64div\<close>, each in its two builds (native 64-bit \<open>unsigned long\<close>, and shift-and-add or
  shift-and-subtract on \<open>u32\<close>), and \<open>ProblemComputeRate\<close>, which is built on them. The lemmas show
  that the two builds agree and that both compute product, quotient and remainder of \<open>v64\<close>.
\<close>

text \<open>Shift amounts are written \<open>1\<close> here, so the simplifier keeps them that way.\<close>

declare One_nat_def [simp del]

section \<open>Multiplication\<close>

text \<open>The build for a 64-bit \<open>unsigned long\<close>.\<close>

definition u64_join :: "u32 \<Rightarrow> u32 \<Rightarrow> u64" where
  "u64_join hi lo = shl (ucast hi) 32 + ucast lo"

definition u64mul :: "u32 \<Rightarrow> u32 \<Rightarrow> u32 \<Rightarrow> u32 \<Rightarrow> u32 \<times> u32" where
  "u64mul ahi alo bhi blo =
     (let d = u64_join ahi alo;
          r = u64_join bhi blo;
          r = r * d
      in (ucast (shr r 32), ucast (r AND 0xffffffff)))"

text \<open>The 32-bit build: long multiplication by shift and add.\<close>

function u64mul_loop :: "u32 \<Rightarrow> u32 \<Rightarrow> u32 \<Rightarrow> u32 \<Rightarrow> u32 \<Rightarrow> u32 \<Rightarrow> u32 \<times> u32" where
  "u64mul_loop ahi alo bhi blo rhi rlo =
     (if bhi \<noteq> 0 \<or> blo \<noteq> 0 then
        let (rhi, rlo) =
          (if blo AND 1 \<noteq> 0 then
             let lo = rlo + alo;
                 rhi = (if lo < rlo then rhi + 1 else rhi);
                 rhi = rhi + ahi
             in (rhi, lo)
           else (rhi, rlo))
        in u64mul_loop (shl ahi 1 OR shr alo 31) (shl alo 1)
             (shr bhi 1) (shr blo 1 OR shl bhi 31) rhi rlo
      else (rhi, rlo))"
  by pat_completeness auto
termination
proof (relation "measure (\<lambda>(ahi, alo, bhi, blo, rhi, rlo). v64 bhi blo)", goal_cases)
  case (2 ahi alo bhi blo rhi rlo x xa y)
  then have "v64 bhi blo \<noteq> 0" by (auto simp: v64_eq_0_iff)
  then show ?case by (simp add: v64_shift1)
qed simp

declare u64mul_loop.simps [simp del]

definition u64mul_32 :: "u32 \<Rightarrow> u32 \<Rightarrow> u32 \<Rightarrow> u32 \<Rightarrow> u32 \<times> u32" where
  "u64mul_32 ahi alo bhi blo = u64mul_loop ahi alo bhi blo 0 0"

lemma u32_and_1: "(w AND 1 \<noteq> (0::u32)) \<longleftrightarrow> odd (unat w)"
proof -
  have "unat (w AND 1) = unat w mod 2"
    by (simp add: and_one_eq unat_mod_distrib)
  then show ?thesis
    by (metis odd_iff_mod_2_eq_one even_iff_mod_2_eq_zero unat_eq_zero)
qed

lemma odd_v64: "odd (v64 hi lo) \<longleftrightarrow> odd (unat lo)"
  by (simp add: v64_def)

lemma mod_digit_step:
  fixes a b r M :: nat
  shows "(r + (2 * a mod M) * (b div 2)) mod M = (r + 2 * a * (b div 2)) mod M"
  by (metis mod_add_right_eq mod_mult_left_eq)

lemma u64mul_loop_v64:
  "case_prod v64 (u64mul_loop ahi alo bhi blo rhi rlo)
     = (v64 rhi rlo + v64 ahi alo * v64 bhi blo) mod 18446744073709551616"
proof (induction ahi alo bhi blo rhi rlo rule: u64mul_loop.induct)
  case (1 ahi alo bhi blo rhi rlo)
  show ?case
  proof (cases "bhi \<noteq> 0 \<or> blo \<noteq> 0")
    case False
    then show ?thesis
      using v64_bound [of rhi rlo] by (simp add: u64mul_loop.simps [of ahi alo 0 0])
  next
    case True
    define r' where "r' = (if blo AND 1 \<noteq> 0
      then (rhi + ahi + (if rlo + alo < rlo then 1 else 0), rlo + alo) else (rhi, rlo))"
    have r'_code: "r' = (if blo AND 1 \<noteq> 0 then
             let lo = rlo + alo; rhi = (if lo < rlo then rhi + 1 else rhi); rhi = rhi + ahi
             in (rhi, lo)
           else (rhi, rlo))"
      by (simp add: r'_def Let_def)
    obtain h l where hl: "r' = (h, l)" by (cases r') auto
    have r'_val: "v64 h l = (v64 rhi rlo + (if odd (v64 bhi blo) then v64 ahi alo else 0))
        mod 18446744073709551616"
      using hl v64_add [of rhi ahi rlo alo] v64_bound [of rhi rlo]
      by (auto simp: r'_def u32_and_1 odd_v64 split: if_splits)
    let ?b = "v64 bhi blo" and ?a = "v64 ahi alo" and ?M = "18446744073709551616 :: nat"
    have "u64mul_loop ahi alo bhi blo rhi rlo = u64mul_loop (shl ahi 1 OR shr alo 31) (shl alo 1)
        (shr bhi 1) (shr blo 1 OR shl bhi 31) h l"
      by (subst u64mul_loop.simps, simp only: True if_True r'_code [symmetric] simp_thms)
        (simp only: hl Let_def prod.case)
    then have "case_prod v64 (u64mul_loop ahi alo bhi blo rhi rlo)
        = (v64 h l + (2 * ?a mod ?M) * (?b div 2)) mod ?M"
      using 1 [OF True r'_code hl [symmetric]] by (simp only: v64_shl1 v64_shr1)
    also have "\<dots> = (v64 rhi rlo + ((if odd ?b then ?a else 0) + 2 * ?a * (?b div 2))) mod ?M"
      unfolding mod_digit_step r'_val by (simp add: mod_simps add.assoc)
    also have "(if odd ?b then ?a else 0) + 2 * ?a * (?b div 2) = ?a * ?b"
      by (cases "odd ?b") (auto elim!: oddE evenE simp: algebra_simps)
    finally show ?thesis .
  qed
qed

lemma u64_join_unat: "unat (u64_join hi lo) = v64 hi lo"
proof -
  have "unat (shl (ucast hi :: u64) 32) = unat hi * 4294967296"
    using unat_u32_bound [of hi] by (simp add: unat_shl unsigned_ucast_eq take_bit_eq_mod)
  moreover have "unat (ucast lo :: u64) = unat lo"
    using unat_u32_bound [of lo] by (simp add: unsigned_ucast_eq take_bit_eq_mod)
  ultimately show ?thesis
    using v64_bound [of hi lo] by (simp add: u64_join_def unat_word_ariths v64_def)
qed

lemma u64_split_v64:
  "v64 (ucast (shr r 32)) (ucast (r AND 0xffffffff)) = unat (r::u64)"
proof -
  have "unat (ucast (shr r 32) :: u32) = unat r div 4294967296"
    using unsigned_less [of r, where ?'a = nat]
    by (simp add: unsigned_ucast_eq unat_shr take_bit_eq_mod div_less_iff_less_mult)
  moreover have "r AND 0xffffffff = take_bit 32 r"
    by (simp add: take_bit_eq_mask mask_eq_exp_minus_1)
  then have "unat (ucast (r AND 0xffffffff) :: u32) = unat r mod 4294967296"
    by (simp add: unsigned_ucast_eq unsigned_take_bit_eq) (simp add: take_bit_eq_mod)
  ultimately show ?thesis by (simp add: v64_def)
qed

lemma u64mul_v64:
  "case_prod v64 (u64mul ahi alo bhi blo) = (v64 ahi alo * v64 bhi blo) mod 18446744073709551616"
  by (simp add: u64mul_def Let_def u64_split_v64 unat_word_ariths u64_join_unat mult.commute)

lemma case_prod_v64_inject: "case_prod v64 p = case_prod v64 q \<longleftrightarrow> p = q"
  by (cases p; cases q) (auto simp: v64_inject)

text \<open>The two builds of \<open>__u64mul\<close> return the same halves.\<close>

lemma u64mul_32_eq: "u64mul_32 ahi alo bhi blo = u64mul ahi alo bhi blo"
  by (subst case_prod_v64_inject [symmetric])
    (simp only: u64mul_32_def u64mul_loop_v64 u64mul_v64 v64_0 add_0)

section \<open>Division\<close>

text \<open>
  The results of \<open>__u64div\<close> are the quotient and the remainder, each as a pair of halves. A
  division by zero is treated as a division by "an extremely small number".
\<close>

definition u64div :: "u32 \<Rightarrow> u32 \<Rightarrow> u32 \<Rightarrow> u32 \<Rightarrow> (u32 \<times> u32) \<times> (u32 \<times> u32)" where
  "u64div numerhi numerlo denomhi denomlo =
     (if denomhi = 0 \<and> denomlo = 0 then ((numerhi, numerlo), (0, 0))
      else
        let n = u64_join numerhi numerlo;
            d = u64_join denomhi denomlo;
            q = n div d;
            r = n mod d
        in ((ucast (shr q 32), ucast (q AND 0xffffffff)),
            (ucast (shr r 32), ucast (r AND 0xffffffff))))"

text \<open>
  The 32-bit build: shift the denominator left until it passes the numerator or its top bit
  is set, then shift it back down, subtracting where it fits. The first loop only stops because
  the denominator is not zero, so it is a partial function.
\<close>

partial_function (option) u64div_norm ::
  "u32 \<Rightarrow> u32 \<Rightarrow> u32 \<Rightarrow> u32 \<Rightarrow> int \<Rightarrow> (u32 \<times> u32 \<times> int) option" where
  "u64div_norm nhi nlo dhi dlo count =
     (if dhi AND 0x80000000 = 0 then
        if nhi < dhi \<or> (nhi = dhi \<and> nlo \<le> dlo) then Some (dhi, dlo, count)
        else u64div_norm nhi nlo (shl dhi 1 OR shr dlo 31) (shl dlo 1) (count + 1)
      else Some (dhi, dlo, count))"

function u64div_sub ::
  "u32 \<Rightarrow> u32 \<Rightarrow> u32 \<Rightarrow> u32 \<Rightarrow> u32 \<Rightarrow> u32 \<Rightarrow> int \<Rightarrow> (u32 \<times> u32) \<times> (u32 \<times> u32)" where
  "u64div_sub qhi qlo nhi nlo dhi dlo count =
     (if count \<ge> 0 then
        let qhi = shl qhi 1 OR shr qlo 31;
            qlo = shl qlo 1;
            (nhi, nlo, qlo) =
              (if nhi > dhi \<or> (nhi = dhi \<and> nlo \<ge> dlo) then
                 let t = nlo - dlo;
                     nhi = nhi - dhi;
                     nhi = (if t > nlo then nhi - 1 else nhi)
                 in (nhi, t, qlo OR 1)
               else (nhi, nlo, qlo))
        in u64div_sub qhi qlo nhi nlo (shr dhi 1) (shr dlo 1 OR shl dhi 31) (count - 1)
      else ((qhi, qlo), (nhi, nlo)))"
  by pat_completeness auto
termination
  by (relation "measure (\<lambda>(qhi, qlo, nhi, nlo, dhi, dlo, count). nat (count + 1))") auto

declare u64div_sub.simps [simp del]

definition u64div_32 ::
  "u32 \<Rightarrow> u32 \<Rightarrow> u32 \<Rightarrow> u32 \<Rightarrow> ((u32 \<times> u32) \<times> (u32 \<times> u32)) option" where
  "u64div_32 numerhi numerlo denomhi denomlo =
     (if denomhi = 0 \<and> denomlo = 0 then Some ((numerhi, numerlo), (0, 0))
      else if (numerhi = 0 \<and> denomhi = 0) \<or> (denomlo = 0 \<and> denomhi = 0) then
        Some ((0, numerlo div denomlo), (0, numerlo mod denomlo))
      else
        case u64div_norm numerhi numerlo denomhi denomlo 0 of
          None \<Rightarrow> None
        | Some (dhi, dlo, count) \<Rightarrow> Some (u64div_sub 0 0 numerhi numerlo dhi dlo count))"

lemma u64div_v64:
  assumes "v64 dhi dlo \<noteq> 0" and "u64div nhi nlo dhi dlo = (q, r)"
  shows "case_prod v64 q = v64 nhi nlo div v64 dhi dlo"
    and "case_prod v64 r = v64 nhi nlo mod v64 dhi dlo"
  using assms
  by (auto simp: u64div_def Let_def v64_eq_0_iff u64_split_v64 unat_div_distrib unat_mod_distrib
      u64_join_unat split: if_splits)

lemma top_bit_v64: "dhi AND 0x80000000 = 0 \<longleftrightarrow> v64 dhi dlo < 9223372036854775808"
proof -
  have "(0x80000000 :: u32) = push_bit 31 1" by simp
  then have "dhi AND 0x80000000 = 0 \<longleftrightarrow> \<not> bit dhi 31"
    by (simp only: bit_iff_and_push_bit_not_eq_0 not_not)
  also have "bit dhi 31 \<longleftrightarrow> odd (unat dhi div 2147483648)"
    using bit_unsigned_iff [of dhi 31, where ?'a = nat] by (simp add: bit_iff_odd)
  also have "\<dots> \<longleftrightarrow> \<not> unat dhi < 2147483648"
    using unat_u32_bound [of dhi] by (cases "unat dhi < 2147483648") (auto simp: div_if [of "unat dhi"])
  finally show ?thesis
    using unat_u32_bound [of dlo] unfolding v64_def by linarith
qed

text \<open>
  The first loop returns, with the denominator scaled by a power of two so that the numerator
  is below twice the scaled denominator.
\<close>

lemma u64div_norm_total:
  assumes "v64 dhi dlo \<noteq> 0"
  shows "\<exists>k dhi' dlo'. u64div_norm nhi nlo dhi dlo count = Some (dhi', dlo', count + int k)
    \<and> v64 dhi' dlo' = v64 dhi dlo * 2 ^ k \<and> v64 nhi nlo < 2 * v64 dhi' dlo'"
  using assms
proof (induction "18446744073709551616 - v64 dhi dlo" arbitrary: dhi dlo count rule: less_induct)
  case less
  let ?d = "v64 dhi dlo" and ?n = "v64 nhi nlo"
  let ?dhi = "shl dhi 1 OR shr dlo 31" and ?dlo = "shl dlo 1"
  show ?case
  proof (cases "?d < 9223372036854775808 \<and> \<not> ?n \<le> ?d")
    case False
    then have "u64div_norm nhi nlo dhi dlo count = Some (dhi, dlo, count + int 0)"
      by (subst u64div_norm.simps) (auto simp: top_bit_v64 [of _ dlo] v64_le_iff)
    moreover have "?n < 2 * ?d"
      using False v64_bound [of nhi nlo] less.prems by linarith
    ultimately show ?thesis
      by (metis mult.right_neutral power_0)
  next
    case True
    then have v: "v64 ?dhi ?dlo = 2 * ?d"
      by (simp only: v64_shl1) simp
    have "u64div_norm nhi nlo dhi dlo count = u64div_norm nhi nlo ?dhi ?dlo (count + 1)"
      using True by (subst u64div_norm.simps) (auto simp: top_bit_v64 [of _ dlo] v64_le_iff)
    moreover have "18446744073709551616 - v64 ?dhi ?dlo < 18446744073709551616 - ?d" "v64 ?dhi ?dlo \<noteq> 0"
      using True less.prems unfolding v by auto
    from less.hyps [OF this] obtain k dhi' dlo' where
      "u64div_norm nhi nlo ?dhi ?dlo (count + 1) = Some (dhi', dlo', count + 1 + int k)"
      "v64 dhi' dlo' = v64 ?dhi ?dlo * 2 ^ k" "?n < 2 * v64 dhi' dlo'"
      by blast
    ultimately have "u64div_norm nhi nlo dhi dlo count = Some (dhi', dlo', count + int (Suc k))
      \<and> v64 dhi' dlo' = ?d * 2 ^ Suc k \<and> ?n < 2 * v64 dhi' dlo'"
      by (simp add: v)
    then show ?thesis by blast
  qed
qed

lemma v64_or_1:
  assumes "even (unat lo)"
  shows "v64 hi (lo OR 1) = v64 hi lo + 1"
proof -
  have "lo OR 1 = lo + 1"
    using assms u32_and_1 [of lo] by (intro disjunctive_add_eq_or [symmetric]) simp
  moreover have "unat lo \<noteq> 4294967295"
    using assms by auto
  then have "unat (lo + 1) = unat lo + 1"
    using unat_u32_bound [of lo] by (simp add: unat_plus_u32_if)
  ultimately show ?thesis by (simp add: v64_def)
qed

lemma u64div_sub_step:
  assumes "0 \<le> count" "2 * v64 qhi qlo + 1 < 18446744073709551616"
  shows "\<exists>qh ql nh nl. u64div_sub qhi qlo nhi nlo dhi dlo count
      = u64div_sub qh ql nh nl (shr dhi 1) (shr dlo 1 OR shl dhi 31) (count - 1)
    \<and> v64 qh ql = 2 * v64 qhi qlo + (if v64 dhi dlo \<le> v64 nhi nlo then 1 else 0)
    \<and> v64 nh nl = v64 nhi nlo - (if v64 dhi dlo \<le> v64 nhi nlo then v64 dhi dlo else 0)"
proof -
  let ?qh = "shl qhi 1 OR shr qlo 31" and ?ql = "shl qlo 1"
  have q: "v64 ?qh ?ql = 2 * v64 qhi qlo"
    using assms(2) by (simp only: v64_shl1) simp
  have fits: "nhi > dhi \<or> (nhi = dhi \<and> nlo \<ge> dlo) \<longleftrightarrow> v64 dhi dlo \<le> v64 nhi nlo"
    using v64_le_iff [of dhi nhi dlo nlo] by blast
  show ?thesis
  proof (cases "v64 dhi dlo \<le> v64 nhi nlo")
    case True
    have "even (unat ?ql)"
      using q odd_v64 [of ?qh ?ql] by simp
    then have "v64 ?qh (?ql OR 1) = 2 * v64 qhi qlo + 1"
      by (simp only: v64_or_1 q)
    moreover have "u64div_sub qhi qlo nhi nlo dhi dlo count
      = u64div_sub ?qh (?ql OR 1) (nhi - dhi - (if nlo < nlo - dlo then 1 else 0)) (nlo - dlo)
          (shr dhi 1) (shr dlo 1 OR shl dhi 31) (count - 1)"
      using assms(1) True
      by (subst u64div_sub.simps, simp only: fits if_True Let_def prod.case)
        (cases "nlo < nlo - dlo"; simp)
    ultimately show ?thesis
      using True v64_sub [OF True] by (intro exI conjI) (assumption, simp_all)
  next
    case False
    have "u64div_sub qhi qlo nhi nlo dhi dlo count
      = u64div_sub ?qh ?ql nhi nlo (shr dhi 1) (shr dlo 1 OR shl dhi 31) (count - 1)"
      using assms(1) False
      by (subst u64div_sub.simps, simp only: fits if_True if_False Let_def prod.case)
    with False q show ?thesis by (intro exI conjI) (assumption, simp_all)
  qed
qed

text \<open>
  The second loop, entered with the denominator \<open>D\<close> scaled by \<open>2^k\<close> and the counter at
  \<open>k\<close>, appends the \<open>k + 1\<close> bits of \<open>n div D\<close> to the quotient and leaves \<open>n mod D\<close>.
\<close>

lemma div_take_off:
  fixes n D :: nat
  assumes "D * 2 ^ k \<le> n" "0 < D"
  shows "n div D = 2 ^ k + (n - D * 2 ^ k) div D" "n mod D = (n - D * 2 ^ k) mod D"
proof -
  obtain m where m: "n = m + D * 2 ^ k"
    using assms(1) le_iff_add by (metis add.commute)
  show "n div D = 2 ^ k + (n - D * 2 ^ k) div D"
    using assms(2) by (simp add: m)
  show "n mod D = (n - D * 2 ^ k) mod D"
    by (simp add: m)
qed

lemma u64div_sub_v64:
  assumes "v64 nhi nlo < 2 * (D * 2 ^ k)" "v64 dhi dlo = D * 2 ^ k" "0 < D"
    and "v64 qhi qlo * 2 ^ Suc k + v64 nhi nlo div D < 18446744073709551616"
  shows "case u64div_sub qhi qlo nhi nlo dhi dlo (int k) of (q, r) \<Rightarrow>
    case_prod v64 q = v64 qhi qlo * 2 ^ Suc k + v64 nhi nlo div D \<and>
    case_prod v64 r = v64 nhi nlo mod D"
  using assms
proof (induction k arbitrary: qhi qlo nhi nlo dhi dlo)
  case (0 qhi qlo nhi nlo dhi dlo)
  let ?n = "v64 nhi nlo"
  have n: "?n div D = (if D \<le> ?n then 1 else 0)" "?n mod D = ?n - (if D \<le> ?n then D else 0)"
    using 0 by (auto simp: div_if [of ?n] le_mod_geq)
  have "v64 qhi qlo < 9223372036854775808" using "0.prems"(4) by simp
  then have "2 * v64 qhi qlo + 1 < 18446744073709551616" by linarith
  from u64div_sub_step [OF order_refl this, of nhi nlo dhi dlo] obtain qh ql nh nl where
    "u64div_sub qhi qlo nhi nlo dhi dlo 0
      = u64div_sub qh ql nh nl (shr dhi 1) (shr dlo 1 OR shl dhi 31) (-1)"
    "v64 qh ql = 2 * v64 qhi qlo + ?n div D" "v64 nh nl = ?n mod D"
    using "0.prems"(2) n by auto
  then show ?case by (simp add: u64div_sub.simps)
next
  case (Suc k qhi qlo nhi nlo dhi dlo)
  let ?n = "v64 nhi nlo" and ?d = "D * 2 ^ Suc k"
  let ?e = "if ?d \<le> ?n then 1 else 0 :: nat"
  define m where "m = ?n - (if ?d \<le> ?n then ?d else 0)"
  have n: "?n div D = ?e * 2 ^ Suc k + m div D" "?n mod D = m mod D"
    using div_take_off [of D "Suc k" ?n] Suc.prems(3) by (auto simp: m_def)
  have "v64 qhi qlo * 2 ^ Suc (Suc k) < 18446744073709551616" 
    using Suc.prems(4) by linarith
  then have "2 * v64 qhi qlo * 2 ^ Suc k < 2 * 9223372036854775808" by simp
  then have "v64 qhi qlo * 2 ^ Suc k < 9223372036854775808" by simp
  moreover have "v64 qhi qlo * 1 \<le> v64 qhi qlo * 2 ^ Suc k" by (rule mult_le_mono2, rule one_le_power) simp
  ultimately have "2 * v64 qhi qlo + 1 < 18446744073709551616" by linarith
  then obtain qh ql nh nl where step: "u64div_sub qhi qlo nhi nlo dhi dlo (int (Suc k))
      = u64div_sub qh ql nh nl (shr dhi 1) (shr dlo 1 OR shl dhi 31) (int k)"
    "v64 qh ql = 2 * v64 qhi qlo + ?e" "v64 nh nl = m"
    using u64div_sub_step [of "int (Suc k)" qhi qlo nhi nlo dhi dlo] Suc.prems(2)
    by (auto simp: m_def)
  have "v64 qh ql * 2 ^ Suc k + v64 nh nl div D = v64 qhi qlo * 2 ^ Suc (Suc k) + ?n div D"
    unfolding step(2,3) n(1) by (simp add: algebra_simps)
  moreover have "v64 nh nl < 2 * (D * 2 ^ k)"
    using Suc.prems(1) unfolding step(3) m_def by auto
  moreover have "v64 (shr dhi 1) (shr dlo 1 OR shl dhi 31) = D * 2 ^ k"
    unfolding v64_shr1 Suc.prems(2) by simp
  ultimately show ?case
    using Suc.IH [of nh nl "shr dhi 1" "shr dlo 1 OR shl dhi 31" qh ql] Suc.prems(3,4)
    unfolding step(1) n(2) by (simp only: step(3))
qed

lemma u64div_unique:
  assumes "v64 dhi dlo \<noteq> 0"
    and "case_prod v64 q = v64 nhi nlo div v64 dhi dlo" "case_prod v64 r = v64 nhi nlo mod v64 dhi dlo"
  shows "u64div nhi nlo dhi dlo = (q, r)"
proof -
  obtain q' r' where e: "u64div nhi nlo dhi dlo = (q', r')" by (rule prod.exhaust)
  from u64div_v64 [OF assms(1) e] assms(2,3) have "q' = q" "r' = r"
    by (metis case_prod_v64_inject)+
  with e show ?thesis by simp
qed

lemma u64div_32_returns: "u64div_32 nhi nlo dhi dlo = Some (u64div nhi nlo dhi dlo)"
proof -
  let ?n = "v64 nhi nlo" and ?d = "v64 dhi dlo"
  consider "dhi = 0 \<and> dlo = 0" | "?d \<noteq> 0" "nhi = 0 \<and> dhi = 0" | "?d \<noteq> 0" "\<not> (nhi = 0 \<and> dhi = 0)"
    using v64_eq_0_iff by blast
  then show ?thesis
  proof cases
    case 1
    then show ?thesis by (simp add: u64div_32_def u64div_def)
  next
    case 2
    have "u64div nhi nlo dhi dlo = ((0, nlo div dlo), (0, nlo mod dlo))"
      by (rule u64div_unique [OF 2(1)]) (use 2(2) in \<open>simp_all add: v64_hi_0 unat_div_distrib unat_mod_distrib\<close>)
    with 2 show ?thesis by (auto simp: u64div_32_def v64_eq_0_iff)
  next
    case 3
    obtain k dhi' dlo' where norm: "u64div_norm nhi nlo dhi dlo 0 = Some (dhi', dlo', int k)"
      "v64 dhi' dlo' = ?d * 2 ^ k" "?n < 2 * v64 dhi' dlo'"
      using u64div_norm_total [OF 3(1), of nhi nlo 0] by auto
    have small: "v64 0 0 * 2 ^ Suc k + ?n div ?d < 18446744073709551616"
      using v64_bound [of nhi nlo] by (simp add: le_less_trans [OF div_le_dividend])
    obtain q r where sub: "u64div_sub 0 0 nhi nlo dhi' dlo' (int k) = (q, r)" by (rule prod.exhaust)
    have "u64div nhi nlo dhi dlo = (q, r)"
      using u64div_sub_v64 [of nhi nlo ?d k dhi' dlo' 0 0] 3(1) norm(2,3) small sub
      by (intro u64div_unique) simp_all
    with 3 norm(1) sub show ?thesis by (auto simp: u64div_32_def v64_eq_0_iff)
  qed
qed

section \<open>Rates\<close>

text \<open>
  \<open>ProblemComputeRate\<close>: iterations per second, computed as thousandfold iterations over
  milliseconds, the microseconds rounded to milliseconds. The formatted rate string is left out.
\<close>

definition ProblemComputeRate :: "u32 \<Rightarrow> u32 \<Rightarrow> u32 \<Rightarrow> u32 \<Rightarrow> u32 \<times> u32" where
  "ProblemComputeRate secs usecs iterhi iterlo =
     (if iterhi \<noteq> 0 \<or> iterlo \<noteq> 0 then
        let (thi, tlo) = u64mul 0 secs 0 1000;
            t = tlo + ((usecs + 499) div 1000);
            thi = (if t < tlo then thi + 1 else thi);
            tlo = t
        in if thi \<noteq> 0 \<or> tlo \<noteq> 0 then
             let (hi, lo) = u64mul iterhi iterlo 0 1000
             in fst (u64div hi lo thi tlo)
           else (iterhi, iterlo)
      else (iterhi, iterlo))"

lemma rate_millisecs:
  assumes "u64mul 0 secs 0 1000 = (thi, tlo)" "unat usecs < 1000000" "t = tlo + ((usecs + 499) div 1000)"
  shows "v64 (if t < tlo then thi + 1 else thi) t = unat secs * 1000 + (unat usecs + 499) div 1000"
proof -
  have u: "unat ((usecs + 499) div 1000) = (unat usecs + 499) div 1000"
    using assms(2) by (simp add: unat_div_distrib unat_plus_u32_if)
  have "v64 thi tlo = unat secs * 1000"
    using u64mul_v64 [of 0 secs 0 1000] assms(1) unat_u32_bound [of secs] by (simp add: v64_hi_0)
  moreover have "(unat usecs + 499) div 1000 < 1001" using assms(2) by simp
  ultimately show ?thesis
    using v64_add [of thi 0 tlo "(usecs + 499) div 1000"] assms(3) unat_u32_bound [of secs]
    by (simp add: v64_hi_0 u split: if_splits)
qed

lemma ProblemComputeRate_v64:
  assumes "unat usecs < 1000000" and "v64 iterhi iterlo * 1000 < 18446744073709551616"
    and "unat secs * 1000 + (unat usecs + 499) div 1000 \<noteq> 0"
  shows "case_prod v64 (ProblemComputeRate secs usecs iterhi iterlo)
    = v64 iterhi iterlo * 1000 div (unat secs * 1000 + (unat usecs + 499) div 1000)"
proof (cases "iterhi = 0 \<and> iterlo = 0")
  case True
  then show ?thesis by (simp add: ProblemComputeRate_def)
next
  case False
  obtain thi tlo where t: "u64mul 0 secs 0 1000 = (thi, tlo)" by (rule prod.exhaust)
  obtain hi lo where i: "u64mul iterhi iterlo 0 1000 = (hi, lo)" by (rule prod.exhaust)
  let ?t = "tlo + ((usecs + 499) div 1000)"
  let ?thi = "if ?t < tlo then thi + 1 else thi"
  obtain q r where d: "u64div hi lo ?thi ?t = (q, r)" by (rule prod.exhaust)
  have ms: "v64 ?thi ?t = unat secs * 1000 + (unat usecs + 499) div 1000"
    by (rule rate_millisecs [OF t assms(1) refl])
  then have nz: "v64 ?thi ?t \<noteq> 0" using assms(3) by simp
  have "v64 hi lo = v64 iterhi iterlo * 1000"
    using u64mul_v64 [of iterhi iterlo 0 1000] i assms(2) by (simp add: v64_hi_0)
  then have "case_prod v64 q = v64 iterhi iterlo * 1000 div (unat secs * 1000 + (unat usecs + 499) div 1000)"
    using u64div_v64(1) [OF nz d] ms by simp
  moreover have "ProblemComputeRate secs usecs iterhi iterlo = q"
    using False nz unfolding v64_eq_0_iff
    by (auto simp: ProblemComputeRate_def Let_def t i d)
  ultimately show ?thesis by simp
qed

declare One_nat_def [simp]

section \<open>Properties\<close>

text \<open>\<open>__u64div\<close> by a nonzero denominator returns the quotient and the remainder of the
  64-bit numbers, and the shift-and-subtract build ends and returns the same halves.\<close>

theorem u64div_correct:
  assumes "v64 dhi dlo \<noteq> 0"
  shows "\<exists>qhi qlo rhi rlo. u64div nhi nlo dhi dlo = ((qhi, qlo), (rhi, rlo))
    \<and> u64div_32 nhi nlo dhi dlo = Some ((qhi, qlo), (rhi, rlo))
    \<and> v64 nhi nlo = v64 qhi qlo * v64 dhi dlo + v64 rhi rlo \<and> v64 rhi rlo < v64 dhi dlo"
proof -
  obtain qhi qlo rhi rlo where e: "u64div nhi nlo dhi dlo = ((qhi, qlo), (rhi, rlo))"
    by (metis prod.exhaust)
  with u64div_v64 [OF assms e] show ?thesis
    using assms div_mult_mod_eq [of "v64 nhi nlo" "v64 dhi dlo"] by (simp add: u64div_32_returns)
qed

theorem u64div_correct_witness:
  "\<exists>qhi qlo rhi rlo. u64div 7 5 0 3 = ((qhi, qlo), (rhi, rlo)) \<and> v64 7 5 = v64 qhi qlo * v64 0 3 + v64 rhi rlo"
  using u64div_correct [of 0 3 7 5] by (auto simp: v64_eq_0_iff)

text \<open>\<open>ProblemComputeRate\<close> is the number of iterations per second, rounded down, the time
  taken to the nearest millisecond, as long as a thousand times the iterations fits 64 bits.\<close>

theorem ProblemComputeRate_floor:
  assumes "unat usecs < 1000000" and "v64 iterhi iterlo * 1000 < 2 ^ 64"
    and "unat secs * 1000 + (unat usecs + 499) div 1000 \<noteq> 0"
  shows "case_prod v64 (ProblemComputeRate secs usecs iterhi iterlo)
    = v64 iterhi iterlo * 1000 div (unat secs * 1000 + (unat usecs + 499) div 1000)"
  using ProblemComputeRate_v64 assms by simp

theorem ProblemComputeRate_floor_witness:
  "case_prod v64 (ProblemComputeRate 2 500000 0 5000) = 2000"
  using ProblemComputeRate_floor [of 500000 0 5000 2] by (simp add: v64_def)

end
