(* ===== verification/Bytes.thy ===== *)
theory Bytes
  imports Prelude
begin

text \<open>
  The four bytes of a 32-bit word: selection, assembly and byte reversal. The key formats of
  \<open>common/problem.cpp\<close> and the record codec of \<open>common/moo521.cpp\<close> are byte permutations, and
  their proofs reduce to the lemmas of this theory.
\<close>

definition byte :: "u32 \<Rightarrow> nat \<Rightarrow> u32" where
  "byte w k = take_bit 8 (drop_bit (8 * k) w)"

definition bytes4 :: "u32 \<Rightarrow> u32 \<Rightarrow> u32 \<Rightarrow> u32 \<Rightarrow> u32" where
  "bytes4 a b c d = a OR shl b 8 OR shl c 16 OR shl d 24"

definition is_byte :: "u32 \<Rightarrow> bool" where
  "is_byte a \<longleftrightarrow> take_bit 8 a = a"

named_theorems byte_simps

lemma bit_byte: "bit (byte w k) n \<longleftrightarrow> n < 8 \<and> bit w (8 * k + n)"
  by (auto simp: byte_def bit_take_bit_iff bit_drop_bit_eq)

lemma is_byte_byte [byte_simps, simp]: "is_byte (byte w k)"
  by (simp add: is_byte_def byte_def)

lemma is_byte_iff: "is_byte a \<longleftrightarrow> unat a < 256"
proof -
  have "unat (take_bit 8 a) = unat a mod 256"
    by (simp add: unsigned_take_bit_eq) (simp add: take_bit_eq_mod)
  then show ?thesis
    unfolding is_byte_def by (metis mod_less mod_less_divisor unat_eqI zero_less_numeral)
qed

lemma is_byte_bit: "is_byte a \<Longrightarrow> bit a n \<Longrightarrow> n < 8"
  by (metis bit_take_bit_iff is_byte_def)

lemma unat_byte: "unat (byte w k) = unat w div 2 ^ (8 * k) mod 256"
  by (simp add: byte_def unsigned_take_bit_eq unat_drop_bit_eq)
    (simp add: take_bit_eq_mod drop_bit_eq_div)

text \<open>The code's masks with a shift select one byte and place it.\<close>

lemma bit_masks:
  "bit (0xFF::u32) n \<longleftrightarrow> n < 8" "bit (0xFF00::u32) n \<longleftrightarrow> 8 \<le> n \<and> n < 16"
  "bit (0xFF0000::u32) n \<longleftrightarrow> 16 \<le> n \<and> n < 24" "bit (0xFF000000::u32) n \<longleftrightarrow> 24 \<le> n \<and> n < 32"
proof -
  have m: "(0xFF::u32) = mask 8" "(0xFF00::u32) = push_bit 8 (mask 8)"
    "(0xFF0000::u32) = push_bit 16 (mask 8)" "(0xFF000000::u32) = push_bit 24 (mask 8)"
    by (simp_all add: mask_eq_exp_minus_1)
  show "bit (0xFF::u32) n \<longleftrightarrow> n < 8" "bit (0xFF00::u32) n \<longleftrightarrow> 8 \<le> n \<and> n < 16"
    "bit (0xFF0000::u32) n \<longleftrightarrow> 16 \<le> n \<and> n < 24" "bit (0xFF000000::u32) n \<longleftrightarrow> 24 \<le> n \<and> n < 32"
    unfolding m by (auto simp only: bit_push_bit_iff bit_mask_iff possible_bit_word) auto
qed

lemma mask_byte [byte_simps]:
  "w AND 0xFF = byte w 0"
  "w AND 0xFF00 = shl (byte w 1) 8"
  "w AND 0xFF0000 = shl (byte w 2) 16"
  "w AND 0xFF000000 = shl (byte w 3) 24"
  by (rule bit_word_eqI; simp only: bit_and_iff bit_masks bit_byte bit_shl; force)+

lemma shr_mask_byte [byte_simps]:
  "shr w 16 AND 0xFF00 = shl (byte w 3) 8"
  "shr (w AND 0xFF0000) 8 = shl (byte w 2) 8"
  "shr (w AND 0xFF000000) 24 = byte w 3"
  by (rule bit_word_eqI; simp only: bit_and_iff bit_masks bit_byte bit_shl bit_shr; force)+

lemma shl_mask_byte [byte_simps]:
  "shl w 16 AND 0xFF000000 = shl (byte w 1) 24"
  "shl (w AND 0xFF) 24 = shl (byte w 0) 24"
  "shl (w AND 0xFF00) 8 = shl (byte w 1) 16"
  by (rule bit_word_eqI; simp only: bit_and_iff bit_masks bit_byte bit_shl; force)+

lemma byte_bytes4 [byte_simps]:
  assumes "is_byte a" "is_byte b" "is_byte c" "is_byte d"
  shows "byte (bytes4 a b c d) 0 = a" "byte (bytes4 a b c d) 1 = b"
    "byte (bytes4 a b c d) 2 = c" "byte (bytes4 a b c d) 3 = d"
  by (rule bit_word_eqI; use assms in \<open>auto simp: bytes4_def bit_or_iff bit_byte bit_shl dest: is_byte_bit\<close>)+

lemma bytes4_byte [byte_simps]: "bytes4 (byte w 0) (byte w 1) (byte w 2) (byte w 3) = w"
proof (rule bit_word_eqI)
  fix n
  assume "n < LENGTH(32)"
  then consider "n < 8" | "8 \<le> n" "n < 16" | "16 \<le> n" "n < 24" | "24 \<le> n" "n < 32"
    by fastforce
  then show "bit (bytes4 (byte w 0) (byte w 1) (byte w 2) (byte w 3)) n = bit w n"
    by cases (auto simp: bytes4_def bit_or_iff bit_byte bit_shl)
qed

text \<open>The same facts in the form the simplifier gives the literal \<open>1\<close>.\<close>

lemmas byte_1_simps [byte_simps] =
  byte_bytes4(2) [unfolded One_nat_def] bytes4_byte [unfolded One_nat_def]

lemma bytes4_inject:
  assumes "is_byte a" "is_byte b" "is_byte c" "is_byte d"
    and "is_byte a'" "is_byte b'" "is_byte c'" "is_byte d'"
  shows "bytes4 a b c d = bytes4 a' b' c' d' \<longleftrightarrow> a = a' \<and> b = b' \<and> c = c' \<and> d = d'"
  using byte_bytes4 assms by metis

lemma unat_bytes4:
  assumes "is_byte a" "is_byte b" "is_byte c" "is_byte d"
  shows "unat (bytes4 a b c d) = unat a + 256 * unat b + 65536 * unat c + 16777216 * unat d"
proof -
  have lt: "unat a < 256" "unat b < 256" "unat c < 256" "unat d < 256"
    using assms by (simp_all add: is_byte_iff)
  have "shl c 16 OR shl d 24 = shl c 16 + shl d 24"
    by (rule or_eq_plus) (auto simp: bit_shl dest: is_byte_bit [OF assms(3)])
  moreover have "shl b 8 OR (shl c 16 OR shl d 24) = shl b 8 + (shl c 16 OR shl d 24)"
    by (rule or_eq_plus) (auto simp: bit_shl bit_or_iff dest: is_byte_bit [OF assms(2)])
  moreover have "bytes4 a b c d = a + (shl b 8 OR (shl c 16 OR shl d 24))"
    unfolding bytes4_def
    by (rule or_eq_plus) (auto simp: bit_shl bit_or_iff dest: is_byte_bit [OF assms(1)])
  ultimately have "bytes4 a b c d = a + (shl b 8 + (shl c 16 + shl d 24))" by simp
  then show ?thesis
    using lt by (simp add: unat_plus_u32 unat_shl)
qed

section \<open>Byte reversal\<close>

text \<open>\<open>bswap32\<close> of \<open>common/moo521.cpp\<close>.\<close>

definition bswap32 :: "u32 \<Rightarrow> u32" where
  "bswap32 x = shl (x AND 0x000000FF) 24 OR shl (x AND 0x0000FF00) 8
             OR shr (x AND 0x00FF0000) 8 OR shr (x AND 0xFF000000) 24"

lemma bswap32_bytes: "bswap32 x = bytes4 (byte x 3) (byte x 2) (byte x 1) (byte x 0)"
proof -
  have "bswap32 x = shl (byte x 0) 24 OR shl (byte x 1) 16 OR shl (byte x 2) 8 OR byte x 3"
    unfolding bswap32_def shl_mask_byte shr_mask_byte ..
  then show ?thesis
    by (simp add: bytes4_def or.commute or.left_commute)
qed

lemma bswap32_bytes4:
  assumes "is_byte a" "is_byte b" "is_byte c" "is_byte d"
  shows "bswap32 (bytes4 a b c d) = bytes4 d c b a"
  by (simp add: bswap32_bytes byte_simps assms)

lemma bswap32_bswap32 [simp]: "bswap32 (bswap32 x) = x"
  by (simp add: bswap32_bytes [of x] bswap32_bytes4 byte_simps)

lemma bswap32_inject [simp]: "bswap32 x = bswap32 y \<longleftrightarrow> x = y"
  by (metis bswap32_bswap32)

lemma bswap32_0 [simp]: "bswap32 0 = 0"
  by (simp add: bswap32_def shl_def shr_def)

end
