(* ===== verification/Rc5Key.thy ===== *)
theory Rc5Key
  imports Bytes
begin

text \<open>
  The 72-bit keys of RC5-72 and their two formats. A key is three 32-bit words; in the plain
  format they are the digits of the key number, in the mangled format, which the cores work on,
  the nine bytes are reversed. \<open>SwitchRC572Format\<close> and \<open>IncrementKey\<close> are
  \<open>__SwitchRC572Format\<close> and \<open>__IncrementKey\<close> of \<open>common/problem.cpp\<close>; \<open>core_key_add\<close> is the
  carry chain at the end of the loop of every core under \<open>rc5-72/ansi/\<close>. The lemmas show that
  the switch is an involution that maps one reading of the key number to the other, and that
  both increments add to the key number modulo \<open>2^72\<close>.
\<close>

section \<open>Keys and projects\<close>

record key72 =
  k_hi :: u32
  k_mid :: u32
  k_lo :: u32

text \<open>The project ids of \<open>common/projdata.h\<close>, in the order of the enumeration.\<close>

datatype project = RC5 | DES | OGR | CSC | OGR_NG | RC5_72 | OGR_P2

text \<open>The key number of a key in plain format, and of a key in mangled format.\<close>

definition plain_val :: "key72 \<Rightarrow> nat" where
  "plain_val k = unat (k_hi k) * 2 ^ 64 + unat (k_mid k) * 2 ^ 32 + unat (k_lo k)"

definition mangled_val :: "key72 \<Rightarrow> nat" where
  "mangled_val k = unat (bswap32 (k_lo k)) * 2 ^ 40 + unat (bswap32 (k_mid k)) * 2 ^ 8 + unat (k_hi k)"

text \<open>The top word of a key holds one byte.\<close>

definition key_ok :: "key72 \<Rightarrow> bool" where
  "key_ok k \<longleftrightarrow> is_byte (k_hi k)"

section \<open>Switching the format\<close>

definition SwitchRC572Format :: "key72 \<Rightarrow> key72" where
  "SwitchRC572Format k =
     (let tempkeylo = k_lo k; tempkeymid = k_mid k; tempkeyhi = k_hi k
      in \<lparr>k_hi = tempkeylo AND 0x000000FF,
          k_mid = (tempkeymid AND 0x000000FF) OR (shr tempkeylo 16 AND 0x0000FF00)
                  OR (tempkeylo AND 0x00FF0000) OR (shl tempkeylo 16 AND 0xFF000000),
          k_lo = (tempkeyhi AND 0x000000FF) OR (shr tempkeymid 16 AND 0x0000FF00)
                  OR (tempkeymid AND 0x00FF0000) OR (shl tempkeymid 16 AND 0xFF000000)\<rparr>)"

lemma Switch_bytes:
  "SwitchRC572Format k =
     \<lparr>k_hi = byte (k_lo k) 0,
      k_mid = bytes4 (byte (k_mid k) 0) (byte (k_lo k) 3) (byte (k_lo k) 2) (byte (k_lo k) 1),
      k_lo = bytes4 (byte (k_hi k) 0) (byte (k_mid k) 3) (byte (k_mid k) 2) (byte (k_mid k) 1)\<rparr>"
  unfolding SwitchRC572Format_def Let_def shr_mask_byte(1) shl_mask_byte(1)
  unfolding mask_byte bytes4_def ..

lemma byte_0_is_byte: "is_byte a \<Longrightarrow> byte a 0 = a"
  by (simp add: is_byte_def byte_def)

lemma Switch_key_ok [simp]: "key_ok (SwitchRC572Format k)"
  by (simp add: key_ok_def Switch_bytes)

lemma Switch_Switch: "key_ok k \<Longrightarrow> SwitchRC572Format (SwitchRC572Format k) = k"
  by (simp add: Switch_bytes byte_simps key_ok_def byte_0_is_byte)

lemma unat_word_bytes:
  "unat w = unat (byte w 0) + 256 * unat (byte w 1) + 65536 * unat (byte w 2) + 16777216 * unat (byte w 3)"
  using unat_bytes4 [of "byte w 0" "byte w 1" "byte w 2" "byte w 3"] by (simp add: byte_simps)

lemma mangled_val_Switch_mod:
  "mangled_val (SwitchRC572Format k) =
     unat (k_hi k) mod 256 * 2 ^ 64 + unat (k_mid k) * 2 ^ 32 + unat (k_lo k)"
proof -
  have "unat (byte (k_hi k) 0) = unat (k_hi k) mod 256" by (simp add: unat_byte)
  then show ?thesis
    by (simp add: mangled_val_def Switch_bytes bswap32_bytes4 unat_bytes4
        unat_word_bytes [of "k_mid k"] unat_word_bytes [of "k_lo k"] algebra_simps)
qed

lemma mangled_val_Switch:
  assumes "key_ok k"
  shows "mangled_val (SwitchRC572Format k) = plain_val k"
  using assms by (simp add: mangled_val_Switch_mod plain_val_def key_ok_def is_byte_iff)

lemma plain_val_Switch:
  assumes "key_ok k"
  shows "plain_val (SwitchRC572Format k) = mangled_val k"
  using mangled_val_Switch [of "SwitchRC572Format k"] Switch_Switch [OF assms] by simp

lemma plain_val_less: "key_ok k \<Longrightarrow> plain_val k < 2 ^ 72"
  using unat_u32_bound [of "k_mid k"] unat_u32_bound [of "k_lo k"]
  by (simp add: plain_val_def key_ok_def is_byte_iff)

lemma mangled_val_less: "key_ok k \<Longrightarrow> mangled_val k < 2 ^ 72"
  using plain_val_less [OF Switch_key_ok] plain_val_Switch by metis

lemma plain_val_inject:
  assumes "key_ok k" "key_ok k'" "plain_val k = plain_val k'"
  shows "k = k'"
proof -
  have d: "plain_val k div 2 ^ 64 = unat (k_hi k) \<and> plain_val k div 2 ^ 32 mod 2 ^ 32 = unat (k_mid k)
      \<and> plain_val k mod 2 ^ 32 = unat (k_lo k)" for k
  proof -
    define m where "m = unat (k_hi k) * 4294967296 + unat (k_mid k)"
    have "plain_val k = m * 4294967296 + unat (k_lo k)" by (simp add: plain_val_def m_def)
    then have "plain_val k div 4294967296 = m" "plain_val k mod 4294967296 = unat (k_lo k)"
      using unat_u32_bound [of "k_lo k"] by simp_all
    moreover have "plain_val k div 2 ^ 64 = plain_val k div 4294967296 div 4294967296"
      by (simp add: div_mult2_eq [symmetric])
    ultimately show ?thesis using unat_u32_bound [of "k_mid k"] by (simp add: m_def)
  qed
  have "unat (k_hi k) = unat (k_hi k')" "unat (k_mid k) = unat (k_mid k')" "unat (k_lo k) = unat (k_lo k')"
    using d [of k] d [of k'] assms(3) by metis+
  then show ?thesis by (auto intro!: key72.equality dest: unat_eqI)
qed

lemma mangled_val_inject:
  assumes "key_ok k" "key_ok k'" "mangled_val k = mangled_val k'"
  shows "k = k'"
  using plain_val_inject [OF Switch_key_ok Switch_key_ok] plain_val_Switch Switch_Switch assms
  by metis

section \<open>Incrementing\<close>

text \<open>\<open>__IncrementKey\<close>: the key is in mangled format, the count is 32 bits.\<close>

definition IncrementKey :: "key72 \<Rightarrow> u32 \<Rightarrow> project \<Rightarrow> key72" where
  "IncrementKey key iters contest =
     (case contest of
        RC5_72 \<Rightarrow>
          (let key = SwitchRC572Format key;
               key = key\<lparr>k_lo := k_lo key + iters\<rparr>;
               key = (if k_lo key < iters then
                        let key = key\<lparr>k_mid := k_mid key + 1\<rparr>
                        in if k_mid key = 0 then key\<lparr>k_hi := k_hi key + 1\<rparr> else key
                      else key)
           in SwitchRC572Format key)
      | _ \<Rightarrow> key)"

text \<open>
  The carry chain of the cores: \<open>n\<close> is the number of keys the core does at once. The bytes of a
  mangled key are counted up one after the other, from the byte in \<open>hi\<close> to the low byte of \<open>lo\<close>.
\<close>

definition core_key_add :: "u32 \<Rightarrow> key72 \<Rightarrow> key72" where
  "core_key_add n key =
     (let key = key\<lparr>k_hi := (k_hi key + n) AND 0x000000FF\<rparr> in
      if k_hi key = 0 then
        let key = key\<lparr>k_mid := k_mid key + 0x01000000\<rparr> in
        if k_mid key AND 0xFF000000 = 0 then
          let key = key\<lparr>k_mid := (k_mid key + 0x00010000) AND 0x00FFFFFF\<rparr> in
          if k_mid key AND 0x00FF0000 = 0 then
            let key = key\<lparr>k_mid := (k_mid key + 0x00000100) AND 0x0000FFFF\<rparr> in
            if k_mid key AND 0x0000FF00 = 0 then
              let key = key\<lparr>k_mid := (k_mid key + 0x00000001) AND 0x000000FF\<rparr> in
              if k_mid key = 0 then
                let key = key\<lparr>k_lo := k_lo key + 0x01000000\<rparr> in
                if k_lo key AND 0xFF000000 = 0 then
                  let key = key\<lparr>k_lo := (k_lo key + 0x00010000) AND 0x00FFFFFF\<rparr> in
                  if k_lo key AND 0x00FF0000 = 0 then
                    let key = key\<lparr>k_lo := (k_lo key + 0x00000100) AND 0x0000FFFF\<rparr> in
                    if k_lo key AND 0x0000FF00 = 0 then
                      key\<lparr>k_lo := (k_lo key + 0x00000001) AND 0x000000FF\<rparr>
                    else key
                  else key
                else key
              else key
            else key
          else key
        else key
      else key)"

text \<open>The part of the chain that counts up one word, most significant byte first.\<close>

definition rev_incr :: "u32 \<Rightarrow> u32" where
  "rev_incr w =
     (let w = w + 0x01000000 in
      if w AND 0xFF000000 = 0 then
        let w = (w + 0x00010000) AND 0x00FFFFFF in
        if w AND 0x00FF0000 = 0 then
          let w = (w + 0x00000100) AND 0x0000FFFF in
          if w AND 0x0000FF00 = 0 then (w + 0x00000001) AND 0x000000FF else w
        else w
      else w)"

lemma core_key_add_alt:
  "core_key_add n key =
     (let h = (k_hi key + n) AND 0x000000FF; m = rev_incr (k_mid key) in
      if h = 0 then
        if m = 0 then \<lparr>k_hi = h, k_mid = m, k_lo = rev_incr (k_lo key)\<rparr>
        else \<lparr>k_hi = h, k_mid = m, k_lo = k_lo key\<rparr>
      else \<lparr>k_hi = h, k_mid = k_mid key, k_lo = k_lo key\<rparr>)"
proof -
  let ?m1 = "k_mid key + 0x01000000"
  let ?m2 = "(?m1 + 0x00010000) AND 0x00FFFFFF"
  let ?m3 = "(?m2 + 0x00000100) AND 0x0000FFFF"
  have nz: "w AND v \<noteq> 0 \<Longrightarrow> w \<noteq> 0" for w v :: u32 by auto
  show ?thesis
    unfolding core_key_add_def rev_incr_def Let_def key72.select_convs key72.update_convs
    by (cases key; cases "(k_hi key + n) AND 0x000000FF = 0"; cases "?m1 AND 0xFF000000 = 0";
        cases "?m2 AND 0x00FF0000 = 0"; cases "?m3 AND 0x0000FF00 = 0")
      (simp_all only: key72.simps if_True if_False nz simp_thms cong: if_cong, simp_all)
qed

text \<open>Each test of the chain asks whether the byte just counted has wrapped.\<close>

definition inc8 :: "u32 \<Rightarrow> u32" where
  "inc8 b = (b + 1) AND 0xFF"

lemma unat_and_low [halves]:
  "unat (w AND 0xFF :: u32) = unat w mod 256"
  "unat (w AND 0xFFFF :: u32) = unat w mod 65536"
  "unat (w AND 0xFFFFFF :: u32) = unat w mod 16777216"
proof -
  have m: "(0xFF::u32) = mask 8" "(0xFFFF::u32) = mask 16" "(0xFFFFFF::u32) = mask 24"
    by (simp_all add: mask_eq_exp_minus_1)
  show "unat (w AND 0xFF :: u32) = unat w mod 256" "unat (w AND 0xFFFF :: u32) = unat w mod 65536"
    "unat (w AND 0xFFFFFF :: u32) = unat w mod 16777216"
    unfolding m take_bit_eq_mask [symmetric] unsigned_take_bit_eq
    by (simp_all only: take_bit_eq_mod) simp_all
qed

lemma is_byte_inc8 [simp]: "is_byte (inc8 b)"
  by (simp add: is_byte_iff inc8_def halves)

lemma unat_inc8: "is_byte b \<Longrightarrow> unat (inc8 b) = (if unat b = 255 then 0 else unat b + 1)"
  by (auto simp: inc8_def halves unat_plus_u32 is_byte_iff)

lemma inc8_eq_0: "is_byte b \<Longrightarrow> inc8 b = 0 \<longleftrightarrow> unat b = 255"
  by (metis unat_inc8 unat_0 unat_eqI add_eq_0_iff_both_eq_0 zero_neq_one)

lemma shl_byte_eq_0: "is_byte x \<Longrightarrow> n \<le> 24 \<Longrightarrow> shl x n = 0 \<longleftrightarrow> x = 0"
proof
  assume h: "is_byte x" "n \<le> 24" "shl x n = 0"
  show "x = 0"
  proof (rule bit_word_eqI)
    fix m
    have "\<not> bit (shl x n) (n + m)" using h(3) by simp
    then show "bit x m = bit (0::u32) m"
      using h(1,2) is_byte_bit [of x m] by (auto simp: bit_shl)
  qed
qed (simp add: shl_def)

lemma is_byte_0 [simp]: "is_byte 0"
  by (simp add: is_byte_iff)

lemma rev_incr_bytes:
  assumes "is_byte a" "is_byte b" "is_byte c" "is_byte d"
  shows "rev_incr (bytes4 a b c d) =
    (if inc8 d = 0 then
       if inc8 c = 0 then
         if inc8 b = 0 then bytes4 (inc8 a) 0 0 0 else bytes4 a (inc8 b) 0 0
       else bytes4 a b (inc8 c) 0
     else bytes4 a b c (inc8 d))"
proof -
  note lt = assms [unfolded is_byte_iff]
  have 1: "bytes4 a b c d + 0x01000000 = bytes4 a b c (inc8 d)"
    by (rule unat_eqI) (use assms lt in \<open>simp add: unat_bytes4 unat_plus_u32 unat_inc8\<close>)
  have 2: "(bytes4 a b c 0 + 0x00010000) AND 0x00FFFFFF = bytes4 a b (inc8 c) 0"
    by (rule unat_eqI) (use assms lt in \<open>simp add: unat_bytes4 unat_plus_u32 unat_inc8 halves\<close>)
  have 3: "(bytes4 a b 0 0 + 0x00000100) AND 0x0000FFFF = bytes4 a (inc8 b) 0 0"
    by (rule unat_eqI) (use assms lt in \<open>simp add: unat_bytes4 unat_plus_u32 unat_inc8 halves\<close>)
  have 4: "(bytes4 a 0 0 0 + 0x00000001) AND 0x000000FF = bytes4 (inc8 a) 0 0 0"
    by (rule unat_eqI) (use assms lt in \<open>simp add: unat_bytes4 unat_plus_u32 unat_inc8 halves\<close>)
  have t: "is_byte x \<Longrightarrow> (bytes4 a b c x AND 0xFF000000 = 0) = (x = 0)"
    "is_byte x \<Longrightarrow> (bytes4 a b x 0 AND 0x00FF0000 = 0) = (x = 0)"
    "is_byte x \<Longrightarrow> (bytes4 a x 0 0 AND 0x0000FF00 = 0) = (x = 0)" for x
    using assms by (simp_all add: mask_byte shl_byte_eq_0 byte_simps)
  show ?thesis
    unfolding rev_incr_def Let_def
    by (cases "inc8 d = 0"; cases "inc8 c = 0"; cases "inc8 b = 0") (simp_all add: 1 2 3 4 t)
qed

lemma bswap32_rev_incr: "bswap32 (rev_incr w) = bswap32 w + 1"
proof -
  define a b c d where "a = byte w 0" and "b = byte w 1" and "c = byte w 2" and "d = byte w 3"
  have w: "w = bytes4 a b c d" and ok: "is_byte a" "is_byte b" "is_byte c" "is_byte d"
    by (simp_all add: a_def b_def c_def d_def byte_simps)
  note lt = ok [unfolded is_byte_iff]
  show ?thesis
    by (rule unat_eqI)
      (use ok lt in \<open>simp add: w rev_incr_bytes bswap32_bytes4 unat_bytes4 unat_plus_u32 inc8_eq_0
        unat_inc8\<close>)
qed

lemma rev_incr_eq_0: "rev_incr w = 0 \<longleftrightarrow> unat (bswap32 w) = 4294967295"
proof -
  have "rev_incr w = 0 \<longleftrightarrow> unat (bswap32 w + 1) = 0"
    by (metis bswap32_rev_incr bswap32_inject bswap32_0 unat_0 unat_eqI)
  then show ?thesis
    using unat_u32_bound [of "bswap32 w"] by (auto simp: unat_plus_u32_if)
qed

text \<open>
  The chain adds \<open>n\<close> to the key number when the low byte of the key is a multiple of \<open>n\<close>, as
  it is for a core with \<open>n\<close> pipelines.
\<close>

lemma dvd_less_add:
  fixes n a b :: nat
  assumes "n dvd a" "n dvd b" "a < b"
  shows "a + n \<le> b"
proof -
  obtain q r where "a = n * q" "b = n * r"
    using assms(1,2) by (meson dvdE)
  moreover then have "q + 1 \<le> r" using assms(3) by (metis Suc_eq_plus1 Suc_leI mult_less_cancel1)
  then have "n * (q + 1) \<le> n * r" by (rule mult_le_mono2)
  ultimately show ?thesis by simp
qed

lemma core_key_add_mangled:
  assumes "key_ok k" "n dvd 256" "0 < n" "n dvd unat (k_hi k)"
  shows "key_ok (core_key_add (of_nat n) k)"
    and "mangled_val (core_key_add (of_nat n) k) = (mangled_val k + n) mod 2 ^ 72"
    and "n dvd unat (k_hi (core_key_add (of_nat n) k))"
proof -
  have n: "n \<le> 256" "unat (of_nat n :: u32) = n"
    using assms(2) dvd_imp_le [OF assms(2)] by (simp_all add: unat_of_nat)
  have hi: "unat (k_hi k) < 256" using assms(1) by (simp add: key_ok_def is_byte_iff)
  let ?h = "(k_hi k + of_nat n) AND 0xFF"
  have h: "unat ?h = (unat (k_hi k) + n) mod 256"
    using hi n by (simp add: halves unat_plus_u32)
  have wrap: "unat (k_hi k) + n \<le> 256"
    using dvd_less_add [OF assms(4,2) hi] .
  have h0: "?h = 0 \<longleftrightarrow> unat (k_hi k) + n = 256"
    using h wrap assms(3) by (metis le_neq_implies_less mod_less mod_self unat_0 unat_eqI add_is_0 less_not_refl)
  show "key_ok (core_key_add (of_nat n) k)"
    using h by (simp add: core_key_add_alt Let_def key_ok_def is_byte_iff)
  show "n dvd unat (k_hi (core_key_add (of_nat n) k))"
    using assms(2,4) h by (simp add: core_key_add_alt Let_def dvd_mod)
  show "mangled_val (core_key_add (of_nat n) k) = (mangled_val k + n) mod 2 ^ 72"
  proof -
    define h M L where "h = unat (k_hi k)" and "M = unat (bswap32 (k_mid k))" and "L = unat (bswap32 (k_lo k))"
    have lt: "M < 4294967296" "L < 4294967296" by (simp_all add: M_def L_def unat_u32_bound)
    have val: "mangled_val k = L * 1099511627776 + M * 256 + h"
      by (simp add: mangled_val_def h_def M_def L_def)
    have succ: "unat (bswap32 (rev_incr w)) = (unat (bswap32 w) + 1) mod 4294967296" for w
      by (simp add: bswap32_rev_incr unat_plus_u32)
    show ?thesis
    proof (cases "h + n = 256")
      case False
      then have "mangled_val (core_key_add (of_nat n) k) = L * 1099511627776 + M * 256 + (h + n)"
        using h h0 wrap by (simp add: core_key_add_alt Let_def mangled_val_def h_def M_def L_def)
      then show ?thesis using val lt False wrap by (simp add: h_def)
    next
      case True
      then have z: "?h = 0" using h0 h_def by simp
      have "mangled_val (core_key_add (of_nat n) k) =
          (if M = 4294967295 then (L + 1) mod 4294967296 * 1099511627776
           else L * 1099511627776 + (M + 1) * 256)"
        using lt(1) rev_incr_eq_0 [of "k_mid k"] succ [of "k_mid k"] succ [of "k_lo k"]
        by (simp add: core_key_add_alt Let_def z mangled_val_def M_def L_def)
      moreover have "mangled_val k + n = L * 1099511627776 + (M + 1) * 256"
        using val True by simp
      ultimately show ?thesis
        using lt by (cases "M = 4294967295"; cases "L = 4294967295") simp_all
    qed
  qed
qed

lemma core_key_add_plain:
  assumes "key_ok k" "n dvd 256" "0 < n" "n dvd unat (k_hi k)"
  shows "plain_val (SwitchRC572Format (core_key_add (of_nat n) k)) = (mangled_val k + n) mod 2 ^ 72"
  using plain_val_Switch core_key_add_mangled [OF assms] by metis

text \<open>
  \<open>__IncrementKey\<close> adds its 32-bit count to the key number of a mangled key. The top byte of
  the sum is cut off by the switch back, so the addition is modulo \<open>2^72\<close>.
\<close>

lemma IncrementKey_mangled:
  assumes "key_ok k"
  shows "key_ok (IncrementKey k iters RC5_72)"
    and "mangled_val (IncrementKey k iters RC5_72) = (mangled_val k + unat iters) mod 2 ^ 72"
proof -
  define p where "p = SwitchRC572Format k"
  have p: "key_ok p" "plain_val p = mangled_val k"
    using assms by (simp_all add: p_def plain_val_Switch)
  define c where "c = (if k_lo p + iters < iters then 1 else 0 :: u32)"
  define q where "q = \<lparr>k_hi = k_hi p + (if k_lo p + iters < iters \<and> k_mid p + 1 = 0 then 1 else 0),
    k_mid = k_mid p + c, k_lo = k_lo p + iters\<rparr>"
  have r: "IncrementKey k iters RC5_72 = SwitchRC572Format q"
    by (cases p) (simp add: IncrementKey_def Let_def p_def [symmetric] q_def c_def)
  show "key_ok (IncrementKey k iters RC5_72)" by (simp add: r)
  define h M L n where "h = unat (k_hi p)" and "M = unat (k_mid p)" and "L = unat (k_lo p)"
    and "n = unat iters"
  have lt: "h < 256" "M < 4294967296" "L < 4294967296" "n < 4294967296"
    using p(1) by (simp_all add: h_def M_def L_def n_def unat_u32_bound key_ok_def is_byte_iff)
  show "mangled_val (IncrementKey k iters RC5_72) = (mangled_val k + unat iters) mod 2 ^ 72"
  proof -
    have sum: "mangled_val k + n = (h * 4294967296 + M) * 4294967296 + (L + n)"
      using p(2) by (simp add: plain_val_def h_def M_def L_def)
    have carry: "k_lo p + iters < iters \<longleftrightarrow> 4294967296 \<le> L + n" "k_mid p + 1 = 0 \<longleftrightarrow> M = 4294967295"
      using u32_add_carry' [of "k_lo p" iters] word_eq_iff_unsigned [of "k_mid p + 1" 0, where ?'a = nat] lt(2)
      by (auto simp: L_def n_def M_def unat_plus_u32_if)
    have "unat (k_lo q) = (if 4294967296 \<le> L + n then L + n - 4294967296 else L + n)"
      "unat (k_mid q) = (if 4294967296 \<le> L + n then if M = 4294967295 then 0 else M + 1 else M)"
      "unat (k_hi q) mod 256 = (if 4294967296 \<le> L + n \<and> M = 4294967295 then (h + 1) mod 256 else h)"
      using lt carry by (auto simp: q_def c_def L_def n_def M_def h_def unat_plus_u32_if)
    then have "mangled_val (SwitchRC572Format q) = (mangled_val k + n) mod 4722366482869645213696"
      unfolding sum mangled_val_Switch_mod using lt
      by (cases "4294967296 \<le> L + n"; cases "M = 4294967295"; cases "h = 255")
        (simp_all add: le_mod_geq)
    then show ?thesis by (simp add: r n_def)
  qed
qed

section \<open>Properties\<close>

text \<open>C40: \<open>__SwitchRC572Format\<close> is its own inverse on keys whose top word is a byte, it
  changes the reading of the key number and not the number, and it is injective.\<close>

theorem SwitchRC572Format_same_key:
  assumes "key_ok k"
  shows "SwitchRC572Format (SwitchRC572Format k) = k
    \<and> plain_val (SwitchRC572Format k) = mangled_val k
    \<and> mangled_val (SwitchRC572Format k) = plain_val k
    \<and> (\<forall>k'. key_ok k' \<longrightarrow> plain_val k' = mangled_val k \<longrightarrow> k' = SwitchRC572Format k)"
  using assms Switch_Switch plain_val_Switch mangled_val_Switch plain_val_inject Switch_key_ok
  by metis

theorem SwitchRC572Format_same_key_witness:
  "SwitchRC572Format (SwitchRC572Format \<lparr>k_hi = 0x12, k_mid = 0x3456789A, k_lo = 0xBCDEF012\<rparr>)
     = \<lparr>k_hi = 0x12, k_mid = 0x3456789A, k_lo = 0xBCDEF012\<rparr>"
  using SwitchRC572Format_same_key [of "\<lparr>k_hi = 0x12, k_mid = 0x3456789A, k_lo = 0xBCDEF012\<rparr>"]
  by (simp add: key_ok_def is_byte_iff)

text \<open>The carry chain of the cores and \<open>__IncrementKey\<close> agree: on a mangled key whose low
  byte is a multiple of the number \<open>n\<close> of pipelines, both add \<open>n\<close> to the key number, modulo
  \<open>2^72\<close>.\<close>

theorem core_key_add_eq_IncrementKey:
  assumes "key_ok k" "n dvd 256" "0 < n" "n dvd unat (k_hi k)"
  shows "core_key_add (of_nat n) k = IncrementKey k (of_nat n) RC5_72
    \<and> mangled_val (core_key_add (of_nat n) k) = (mangled_val k + n) mod 2 ^ 72"
proof -
  have n: "unat (of_nat n :: u32) = n"
    using dvd_imp_le [OF assms(2)] by (simp add: unat_of_nat)
  show ?thesis
    using core_key_add_mangled(1,2) [OF assms] IncrementKey_mangled [OF assms(1), of "of_nat n"] n
    by (metis mangled_val_inject)
qed

theorem core_key_add_eq_IncrementKey_witness:
  "core_key_add (of_nat 4) \<lparr>k_hi = 252, k_mid = 0xFFFFFFFF, k_lo = 0xFE000000\<rparr>
     = IncrementKey \<lparr>k_hi = 252, k_mid = 0xFFFFFFFF, k_lo = 0xFE000000\<rparr> (of_nat 4) RC5_72"
  by (rule core_key_add_eq_IncrementKey [THEN conjunct1]) (simp_all add: key_ok_def is_byte_iff)

end
