(* ===== verification/Rc5Core.thy ===== *)
theory Rc5Core
  imports Rc5Key
begin

text \<open>
  The portable cores of RC5-72 under \<open>rc5-72/ansi/\<close>: the reference core \<open>r72-ref.cpp\<close> and the
  unrolled cores \<open>r72ansi1.cpp\<close>, \<open>r72ansi2.cpp\<close> and \<open>r72ansi4.cpp\<close> with one, two and four
  pipelines, with the rotation macros of \<open>rotate.h\<close>. The arrays \<open>S\<close> and \<open>L\<close> are lists updated by
  index; every index the cores use is below 26 and 3. They are not initialised in the code and every
  entry is written before it is read, so they start as zeros here. The blocks that the macros
  unroll are lists of functions on the arrays, in the order of the source.
\<close>

section \<open>Rotations\<close>

text \<open>
  The macros of \<open>rotate.h\<close> for a compiler without inline assembler. For a count of 0 modulo 32 the
  macro \<open>SHR\<close> shifts by 32, which C leaves undefined; the shift is 0 here, and any result whose
  bits are bits of \<open>x\<close> gives the same rotation.
\<close>

definition SHL :: "u32 \<Rightarrow> u32 \<Rightarrow> u32" where
  "SHL x s = shl x (unat (s AND 31))"

definition SHR :: "u32 \<Rightarrow> u32 \<Rightarrow> u32" where
  "SHR x s = shr x (32 - unat (s AND 31))"

definition ROTL :: "u32 \<Rightarrow> u32 \<Rightarrow> u32" where
  "ROTL x s = SHL x s OR SHR x s"

definition ROTL3 :: "u32 \<Rightarrow> u32" where
  "ROTL3 x = ROTL x 3"

section \<open>The unit of work\<close>

text \<open>\<open>RC5_72UnitWork\<close> and the result codes of \<open>ccoreio.h\<close>.\<close>

record unitwork72 =
  plain_hi :: u32
  plain_lo :: u32
  cypher_hi :: u32
  cypher_lo :: u32
  L0 :: key72
  check_count :: u32
  check_key :: key72

datatype resultcode = RESULT_WORKING | RESULT_NOTHING | RESULT_FOUND

definition rc5_P :: u32 where
  "rc5_P = 0xB7E15163"

definition rc5_Q :: u32 where
  "rc5_Q = 0x9E3779B9"

text \<open>
  What every core does with the results \<open>A\<close> and \<open>B\<close> of the pipeline whose key is \<open>p\<close> keys after
  \<open>L0\<close>: a match of the low half is counted and recorded; the result says if both halves match.
\<close>

definition check_pipe :: "unitwork72 \<Rightarrow> u32 \<Rightarrow> u32 \<Rightarrow> u32 \<Rightarrow> unitwork72 \<times> bool" where
  "check_pipe w A B p =
     (if A = cypher_lo w then
        let w = w\<lparr>check_count := check_count w + 1,
                  check_key := \<lparr>k_hi = k_hi (L0 w) + p, k_mid = k_mid (L0 w), k_lo = k_lo (L0 w)\<rparr>\<rparr>
        in (w, B = cypher_hi w)
      else (w, False))"

section \<open>The reference core\<close>

definition ref_init :: "u32 list" where
  "ref_init = foldl (\<lambda>S i. S[i := S ! (i - 1) + rc5_Q]) ((replicate 26 0)[0 := rc5_P]) [1..<26]"

text \<open>One pass of the mixing loop; the state is \<open>A\<close>, \<open>B\<close>, \<open>i\<close>, \<open>j\<close> and the arrays.\<close>

fun ref_mix_step :: "u32 \<times> u32 \<times> nat \<times> nat \<times> u32 list \<times> u32 list
    \<Rightarrow> u32 \<times> u32 \<times> nat \<times> nat \<times> u32 list \<times> u32 list" where
  "ref_mix_step (A, B, i, j, S, L) =
     (let S = S[i := ROTL3 (S ! i + (A + B))];
          A = S ! i;
          L = L[j := ROTL (L ! j + (A + B)) (A + B)];
          B = L ! j
      in (A, B, (i + 1) mod 26, (j + 1) mod 3, S, L))"

definition ref_mix :: "u32 list \<Rightarrow> u32 list \<Rightarrow> u32 list" where
  "ref_mix S L =
     (case (ref_mix_step ^^ (3 * 26)) (0, 0, 0, 0, S, L) of (A, B, i, j, S, L) \<Rightarrow> S)"

definition ref_crypt :: "u32 list \<Rightarrow> u32 \<Rightarrow> u32 \<Rightarrow> u32 \<times> u32" where
  "ref_crypt S plainhi plainlo =
     foldl (\<lambda>(A, B) i.
         let A = ROTL (A XOR B) B + S ! (2 * i);
             B = ROTL (B XOR A) A + S ! (2 * i + 1)
         in (A, B))
       (plainlo + S ! 0, plainhi + S ! 1) [1..<13]"

fun ref_loop :: "nat \<Rightarrow> unitwork72 \<Rightarrow> u32 \<Rightarrow> resultcode \<times> unitwork72 \<times> u32" where
  "ref_loop 0 w iterations = (RESULT_NOTHING, w, iterations)"
| "ref_loop (Suc kiter) w iterations =
     (let L = [k_lo (L0 w), k_mid (L0 w), k_hi (L0 w)];
          (A, B) = ref_crypt (ref_mix ref_init L) (plain_hi w) (plain_lo w);
          (w, found) = check_pipe w A B 0
      in if found then (RESULT_FOUND, w, iterations - (of_nat kiter + 1))
         else ref_loop kiter (w\<lparr>L0 := core_key_add 1 (L0 w)\<rparr>) iterations)"

definition rc5_72_unit_func_ansi_ref :: "unitwork72 \<Rightarrow> u32 \<Rightarrow> resultcode \<times> unitwork72 \<times> u32" where
  "rc5_72_unit_func_ansi_ref w iterations = ref_loop (unat iterations) w iterations"

section \<open>The core with one pipeline\<close>

text \<open>The state of the blocks is the arrays \<open>S\<close> and \<open>L\<close> of every pipeline.\<close>

type_synonym ansi1_st = "u32 list \<times> u32 list"

definition ansi1_KEY_INIT :: "nat \<Rightarrow> u32 list \<Rightarrow> u32 list" where
  "ansi1_KEY_INIT i S = S[i := rc5_P + of_nat i * rc5_Q]"

definition ansi1_key_init :: "u32 list" where
  "ansi1_key_init = foldl (\<lambda>S init. init S) (replicate 26 0)
     [ansi1_KEY_INIT 0, ansi1_KEY_INIT 1, ansi1_KEY_INIT 2, ansi1_KEY_INIT 3,
      ansi1_KEY_INIT 4, ansi1_KEY_INIT 5, ansi1_KEY_INIT 6, ansi1_KEY_INIT 7,
      ansi1_KEY_INIT 8, ansi1_KEY_INIT 9, ansi1_KEY_INIT 10, ansi1_KEY_INIT 11,
      ansi1_KEY_INIT 12, ansi1_KEY_INIT 13, ansi1_KEY_INIT 14, ansi1_KEY_INIT 15,
      ansi1_KEY_INIT 16, ansi1_KEY_INIT 17, ansi1_KEY_INIT 18, ansi1_KEY_INIT 19,
      ansi1_KEY_INIT 20, ansi1_KEY_INIT 21, ansi1_KEY_INIT 22, ansi1_KEY_INIT 23,
      ansi1_KEY_INIT 24, ansi1_KEY_INIT 25]"

definition ansi1_block_i0_j1 :: "ansi1_st \<Rightarrow> ansi1_st" where
  "ansi1_block_i0_j1 = (\<lambda>(S, L).
     let S = S[0 := ROTL3 (S ! 0 + (S ! 25 + L ! 0))];
         L = L[1 := ROTL (L ! 1 + (S ! 0 + L ! 0)) (S ! 0 + L ! 0)]
     in (S, L))"

definition ansi1_block_i0_j2 :: "ansi1_st \<Rightarrow> ansi1_st" where
  "ansi1_block_i0_j2 = (\<lambda>(S, L).
     let S = S[0 := ROTL3 (S ! 0 + (S ! 25 + L ! 1))];
         L = L[2 := ROTL (L ! 2 + (S ! 0 + L ! 1)) (S ! 0 + L ! 1)]
     in (S, L))"

definition ansi1_block_j0 :: "nat \<Rightarrow> ansi1_st \<Rightarrow> ansi1_st" where
  "ansi1_block_j0 i = (\<lambda>(S, L).
     let S = S[i := ROTL3 (S ! i + (S ! (i - 1) + L ! 2))];
         L = L[0 := ROTL (L ! 0 + (S ! i + L ! 2)) (S ! i + L ! 2)]
     in (S, L))"

definition ansi1_block_j1 :: "nat \<Rightarrow> ansi1_st \<Rightarrow> ansi1_st" where
  "ansi1_block_j1 i = (\<lambda>(S, L).
     let S = S[i := ROTL3 (S ! i + (S ! (i - 1) + L ! 0))];
         L = L[1 := ROTL (L ! 1 + (S ! i + L ! 0)) (S ! i + L ! 0)]
     in (S, L))"

definition ansi1_block_j2 :: "nat \<Rightarrow> ansi1_st \<Rightarrow> ansi1_st" where
  "ansi1_block_j2 i = (\<lambda>(S, L).
     let S = S[i := ROTL3 (S ! i + (S ! (i - 1) + L ! 1))];
         L = L[2 := ROTL (L ! 2 + (S ! i + L ! 1)) (S ! i + L ! 1)]
     in (S, L))"

definition ansi1_first :: "ansi1_st \<Rightarrow> ansi1_st" where
  "ansi1_first = (\<lambda>(S, L).
     let S = S[0 := ROTL3 (S ! 0)];
         L = L[0 := ROTL (L ! 0 + S ! 0) (S ! 0)]
     in (S, L))"

definition ansi1_round1 :: "(ansi1_st \<Rightarrow> ansi1_st) list" where
  "ansi1_round1 =
     [ansi1_block_j1 1, ansi1_block_j2 2, ansi1_block_j0 3, ansi1_block_j1 4, ansi1_block_j2 5,
      ansi1_block_j0 6, ansi1_block_j1 7, ansi1_block_j2 8, ansi1_block_j0 9, ansi1_block_j1 10,
      ansi1_block_j2 11, ansi1_block_j0 12, ansi1_block_j1 13, ansi1_block_j2 14, ansi1_block_j0 15,
      ansi1_block_j1 16, ansi1_block_j2 17, ansi1_block_j0 18, ansi1_block_j1 19, ansi1_block_j2 20,
      ansi1_block_j0 21, ansi1_block_j1 22, ansi1_block_j2 23, ansi1_block_j0 24, ansi1_block_j1 25]"

definition ansi1_round2 :: "(ansi1_st \<Rightarrow> ansi1_st) list" where
  "ansi1_round2 =
     [ansi1_block_i0_j2, ansi1_block_j0 1, ansi1_block_j1 2, ansi1_block_j2 3, ansi1_block_j0 4,
      ansi1_block_j1 5, ansi1_block_j2 6, ansi1_block_j0 7, ansi1_block_j1 8, ansi1_block_j2 9,
      ansi1_block_j0 10, ansi1_block_j1 11, ansi1_block_j2 12, ansi1_block_j0 13, ansi1_block_j1 14,
      ansi1_block_j2 15, ansi1_block_j0 16, ansi1_block_j1 17, ansi1_block_j2 18, ansi1_block_j0 19,
      ansi1_block_j1 20, ansi1_block_j2 21, ansi1_block_j0 22, ansi1_block_j1 23, ansi1_block_j2 24,
      ansi1_block_j0 25]"

definition ansi1_round3 :: "(ansi1_st \<Rightarrow> ansi1_st) list" where
  "ansi1_round3 =
     [ansi1_block_i0_j1, ansi1_block_j2 1, ansi1_block_j0 2, ansi1_block_j1 3, ansi1_block_j2 4,
      ansi1_block_j0 5, ansi1_block_j1 6, ansi1_block_j2 7, ansi1_block_j0 8, ansi1_block_j1 9,
      ansi1_block_j2 10, ansi1_block_j0 11, ansi1_block_j1 12, ansi1_block_j2 13, ansi1_block_j0 14,
      ansi1_block_j1 15, ansi1_block_j2 16, ansi1_block_j0 17, ansi1_block_j1 18, ansi1_block_j2 19,
      ansi1_block_j0 20, ansi1_block_j1 21, ansi1_block_j2 22, ansi1_block_j0 23, ansi1_block_j1 24,
      ansi1_block_j2 25]"

definition ansi1_mix :: "ansi1_st \<Rightarrow> ansi1_st" where
  "ansi1_mix st = foldl (\<lambda>st block. block st) (ansi1_first st) (ansi1_round1 @ ansi1_round2 @ ansi1_round3)"

definition ansi1_final_block :: "u32 list \<Rightarrow> nat
    \<Rightarrow> u32 \<times> u32 \<Rightarrow> u32 \<times> u32" where
  "ansi1_final_block S i = (\<lambda>(A, B).
     let A = ROTL (A XOR B) B + S ! (2 * i);
         B = ROTL (B XOR A) A + S ! (2 * i + 1)
     in (A, B))"

definition ansi1_crypt :: "u32 list \<Rightarrow> u32 \<Rightarrow> u32
    \<Rightarrow> u32 \<times> u32" where
  "ansi1_crypt S plainhi plainlo =
     foldl (\<lambda>ab block. block ab) (plainlo + S ! 0, plainhi + S ! 1)
     [ansi1_final_block S 1, ansi1_final_block S 2, ansi1_final_block S 3,
      ansi1_final_block S 4, ansi1_final_block S 5, ansi1_final_block S 6,
      ansi1_final_block S 7, ansi1_final_block S 8, ansi1_final_block S 9,
      ansi1_final_block S 10, ansi1_final_block S 11, ansi1_final_block S 12]"

fun ansi1_loop :: "nat \<Rightarrow> unitwork72 \<Rightarrow> u32 \<Rightarrow> resultcode \<times> unitwork72 \<times> u32" where
  "ansi1_loop 0 w iterations = (RESULT_NOTHING, w, iterations)"
| "ansi1_loop (Suc kiter) w iterations =
     (let L = [k_lo (L0 w), k_mid (L0 w), k_hi (L0 w)];
          S = ansi1_key_init;
          (S, L) = ansi1_mix (S, L);
          (A, B) = ansi1_crypt S (plain_hi w) (plain_lo w);
          (w, found) = check_pipe w A B 0
      in if found then (RESULT_FOUND, w, iterations - (of_nat kiter + 1))
         else ansi1_loop kiter (w\<lparr>L0 := core_key_add 1 (L0 w)\<rparr>) iterations)"

definition rc5_72_unit_func_ansi_1 :: "unitwork72 \<Rightarrow> u32 \<Rightarrow> resultcode \<times> unitwork72 \<times> u32" where
  "rc5_72_unit_func_ansi_1 w iterations = ansi1_loop (unat iterations) w iterations"

section \<open>The core with two pipelines\<close>

type_synonym ansi2_st = "u32 list \<times> u32 list \<times> u32 list \<times> u32 list"

definition ansi2_KEY_INIT :: "nat \<Rightarrow> u32 list \<times> u32 list \<Rightarrow> u32 list \<times> u32 list" where
  "ansi2_KEY_INIT i = (\<lambda>(S1, S2).
     (S1[i := rc5_P + of_nat i * rc5_Q], S2[i := rc5_P + of_nat i * rc5_Q]))"

definition ansi2_key_init :: "u32 list \<times> u32 list" where
  "ansi2_key_init = foldl (\<lambda>S init. init S) (replicate 26 0, replicate 26 0)
     [ansi2_KEY_INIT 0, ansi2_KEY_INIT 1, ansi2_KEY_INIT 2, ansi2_KEY_INIT 3,
      ansi2_KEY_INIT 4, ansi2_KEY_INIT 5, ansi2_KEY_INIT 6, ansi2_KEY_INIT 7,
      ansi2_KEY_INIT 8, ansi2_KEY_INIT 9, ansi2_KEY_INIT 10, ansi2_KEY_INIT 11,
      ansi2_KEY_INIT 12, ansi2_KEY_INIT 13, ansi2_KEY_INIT 14, ansi2_KEY_INIT 15,
      ansi2_KEY_INIT 16, ansi2_KEY_INIT 17, ansi2_KEY_INIT 18, ansi2_KEY_INIT 19,
      ansi2_KEY_INIT 20, ansi2_KEY_INIT 21, ansi2_KEY_INIT 22, ansi2_KEY_INIT 23,
      ansi2_KEY_INIT 24, ansi2_KEY_INIT 25]"

definition ansi2_block_i0_j1 :: "ansi2_st \<Rightarrow> ansi2_st" where
  "ansi2_block_i0_j1 = (\<lambda>(S1, S2, L1, L2).
     let S1 = S1[0 := ROTL3 (S1 ! 0 + (S1 ! 25 + L1 ! 0))];
         S2 = S2[0 := ROTL3 (S2 ! 0 + (S2 ! 25 + L2 ! 0))];
         L1 = L1[1 := ROTL (L1 ! 1 + (S1 ! 0 + L1 ! 0)) (S1 ! 0 + L1 ! 0)];
         L2 = L2[1 := ROTL (L2 ! 1 + (S2 ! 0 + L2 ! 0)) (S2 ! 0 + L2 ! 0)]
     in (S1, S2, L1, L2))"

definition ansi2_block_i0_j2 :: "ansi2_st \<Rightarrow> ansi2_st" where
  "ansi2_block_i0_j2 = (\<lambda>(S1, S2, L1, L2).
     let S1 = S1[0 := ROTL3 (S1 ! 0 + (S1 ! 25 + L1 ! 1))];
         S2 = S2[0 := ROTL3 (S2 ! 0 + (S2 ! 25 + L2 ! 1))];
         L1 = L1[2 := ROTL (L1 ! 2 + (S1 ! 0 + L1 ! 1)) (S1 ! 0 + L1 ! 1)];
         L2 = L2[2 := ROTL (L2 ! 2 + (S2 ! 0 + L2 ! 1)) (S2 ! 0 + L2 ! 1)]
     in (S1, S2, L1, L2))"

definition ansi2_block_j0 :: "nat \<Rightarrow> ansi2_st \<Rightarrow> ansi2_st" where
  "ansi2_block_j0 i = (\<lambda>(S1, S2, L1, L2).
     let S1 = S1[i := ROTL3 (S1 ! i + (S1 ! (i - 1) + L1 ! 2))];
         S2 = S2[i := ROTL3 (S2 ! i + (S2 ! (i - 1) + L2 ! 2))];
         L1 = L1[0 := ROTL (L1 ! 0 + (S1 ! i + L1 ! 2)) (S1 ! i + L1 ! 2)];
         L2 = L2[0 := ROTL (L2 ! 0 + (S2 ! i + L2 ! 2)) (S2 ! i + L2 ! 2)]
     in (S1, S2, L1, L2))"

definition ansi2_block_j1 :: "nat \<Rightarrow> ansi2_st \<Rightarrow> ansi2_st" where
  "ansi2_block_j1 i = (\<lambda>(S1, S2, L1, L2).
     let S1 = S1[i := ROTL3 (S1 ! i + (S1 ! (i - 1) + L1 ! 0))];
         S2 = S2[i := ROTL3 (S2 ! i + (S2 ! (i - 1) + L2 ! 0))];
         L1 = L1[1 := ROTL (L1 ! 1 + (S1 ! i + L1 ! 0)) (S1 ! i + L1 ! 0)];
         L2 = L2[1 := ROTL (L2 ! 1 + (S2 ! i + L2 ! 0)) (S2 ! i + L2 ! 0)]
     in (S1, S2, L1, L2))"

definition ansi2_block_j2 :: "nat \<Rightarrow> ansi2_st \<Rightarrow> ansi2_st" where
  "ansi2_block_j2 i = (\<lambda>(S1, S2, L1, L2).
     let S1 = S1[i := ROTL3 (S1 ! i + (S1 ! (i - 1) + L1 ! 1))];
         S2 = S2[i := ROTL3 (S2 ! i + (S2 ! (i - 1) + L2 ! 1))];
         L1 = L1[2 := ROTL (L1 ! 2 + (S1 ! i + L1 ! 1)) (S1 ! i + L1 ! 1)];
         L2 = L2[2 := ROTL (L2 ! 2 + (S2 ! i + L2 ! 1)) (S2 ! i + L2 ! 1)]
     in (S1, S2, L1, L2))"

definition ansi2_first :: "ansi2_st \<Rightarrow> ansi2_st" where
  "ansi2_first = (\<lambda>(S1, S2, L1, L2).
     let S1 = S1[0 := ROTL3 (S1 ! 0)];
         S2 = S2[0 := ROTL3 (S2 ! 0)];
         L1 = L1[0 := ROTL (L1 ! 0 + S1 ! 0) (S1 ! 0)];
         L2 = L2[0 := ROTL (L2 ! 0 + S2 ! 0) (S2 ! 0)]
     in (S1, S2, L1, L2))"

definition ansi2_round1 :: "(ansi2_st \<Rightarrow> ansi2_st) list" where
  "ansi2_round1 =
     [ansi2_block_j1 1, ansi2_block_j2 2, ansi2_block_j0 3, ansi2_block_j1 4, ansi2_block_j2 5,
      ansi2_block_j0 6, ansi2_block_j1 7, ansi2_block_j2 8, ansi2_block_j0 9, ansi2_block_j1 10,
      ansi2_block_j2 11, ansi2_block_j0 12, ansi2_block_j1 13, ansi2_block_j2 14, ansi2_block_j0 15,
      ansi2_block_j1 16, ansi2_block_j2 17, ansi2_block_j0 18, ansi2_block_j1 19, ansi2_block_j2 20,
      ansi2_block_j0 21, ansi2_block_j1 22, ansi2_block_j2 23, ansi2_block_j0 24, ansi2_block_j1 25]"

definition ansi2_round2 :: "(ansi2_st \<Rightarrow> ansi2_st) list" where
  "ansi2_round2 =
     [ansi2_block_i0_j2, ansi2_block_j0 1, ansi2_block_j1 2, ansi2_block_j2 3, ansi2_block_j0 4,
      ansi2_block_j1 5, ansi2_block_j2 6, ansi2_block_j0 7, ansi2_block_j1 8, ansi2_block_j2 9,
      ansi2_block_j0 10, ansi2_block_j1 11, ansi2_block_j2 12, ansi2_block_j0 13, ansi2_block_j1 14,
      ansi2_block_j2 15, ansi2_block_j0 16, ansi2_block_j1 17, ansi2_block_j2 18, ansi2_block_j0 19,
      ansi2_block_j1 20, ansi2_block_j2 21, ansi2_block_j0 22, ansi2_block_j1 23, ansi2_block_j2 24,
      ansi2_block_j0 25]"

definition ansi2_round3 :: "(ansi2_st \<Rightarrow> ansi2_st) list" where
  "ansi2_round3 =
     [ansi2_block_i0_j1, ansi2_block_j2 1, ansi2_block_j0 2, ansi2_block_j1 3, ansi2_block_j2 4,
      ansi2_block_j0 5, ansi2_block_j1 6, ansi2_block_j2 7, ansi2_block_j0 8, ansi2_block_j1 9,
      ansi2_block_j2 10, ansi2_block_j0 11, ansi2_block_j1 12, ansi2_block_j2 13, ansi2_block_j0 14,
      ansi2_block_j1 15, ansi2_block_j2 16, ansi2_block_j0 17, ansi2_block_j1 18, ansi2_block_j2 19,
      ansi2_block_j0 20, ansi2_block_j1 21, ansi2_block_j2 22, ansi2_block_j0 23, ansi2_block_j1 24,
      ansi2_block_j2 25]"

definition ansi2_mix :: "ansi2_st \<Rightarrow> ansi2_st" where
  "ansi2_mix st = foldl (\<lambda>st block. block st) (ansi2_first st) (ansi2_round1 @ ansi2_round2 @ ansi2_round3)"

definition ansi2_final_block :: "u32 list \<Rightarrow> u32 list \<Rightarrow> nat
    \<Rightarrow> u32 \<times> u32 \<times> u32 \<times> u32 \<Rightarrow> u32 \<times> u32 \<times> u32 \<times> u32" where
  "ansi2_final_block S1 S2 i = (\<lambda>(A1, A2, B1, B2).
     let A1 = ROTL (A1 XOR B1) B1 + S1 ! (2 * i);
         A2 = ROTL (A2 XOR B2) B2 + S2 ! (2 * i);
         B1 = ROTL (B1 XOR A1) A1 + S1 ! (2 * i + 1);
         B2 = ROTL (B2 XOR A2) A2 + S2 ! (2 * i + 1)
     in (A1, A2, B1, B2))"

definition ansi2_crypt :: "u32 list \<Rightarrow> u32 list \<Rightarrow> u32 \<Rightarrow> u32
    \<Rightarrow> u32 \<times> u32 \<times> u32 \<times> u32" where
  "ansi2_crypt S1 S2 plainhi plainlo =
     foldl (\<lambda>ab block. block ab) (plainlo + S1 ! 0, plainlo + S2 ! 0, plainhi + S1 ! 1, plainhi + S2 ! 1)
     [ansi2_final_block S1 S2 1, ansi2_final_block S1 S2 2, ansi2_final_block S1 S2 3,
      ansi2_final_block S1 S2 4, ansi2_final_block S1 S2 5, ansi2_final_block S1 S2 6,
      ansi2_final_block S1 S2 7, ansi2_final_block S1 S2 8, ansi2_final_block S1 S2 9,
      ansi2_final_block S1 S2 10, ansi2_final_block S1 S2 11, ansi2_final_block S1 S2 12]"

fun ansi2_loop :: "nat \<Rightarrow> unitwork72 \<Rightarrow> u32 \<Rightarrow> resultcode \<times> unitwork72 \<times> u32" where
  "ansi2_loop 0 w iterations = (RESULT_NOTHING, w, iterations)"
| "ansi2_loop (Suc kiter) w iterations =
     (let L1 = [k_lo (L0 w), k_mid (L0 w), k_hi (L0 w)];
          L2 = [k_lo (L0 w), k_mid (L0 w), L1 ! 2 + 1];
          (S1, S2) = ansi2_key_init;
          (S1, S2, L1, L2) = ansi2_mix (S1, S2, L1, L2);
          (A1, A2, B1, B2) = ansi2_crypt S1 S2 (plain_hi w) (plain_lo w)
      in
      let (w, found) = check_pipe w A1 B1 0 in
      if found then (RESULT_FOUND, w, iterations - ((of_nat kiter + 1) * 2))
      else
        let (w, found) = check_pipe w A2 B2 1 in
        if found then (RESULT_FOUND, w, iterations - ((of_nat kiter + 1) * 2 - 1))
        else
          ansi2_loop kiter (w\<lparr>L0 := core_key_add 2 (L0 w)\<rparr>) iterations)"

definition rc5_72_unit_func_ansi_2 :: "unitwork72 \<Rightarrow> u32 \<Rightarrow> resultcode \<times> unitwork72 \<times> u32" where
  "rc5_72_unit_func_ansi_2 w iterations = ansi2_loop (unat (iterations div 2)) w iterations"

section \<open>The core with four pipelines\<close>

type_synonym ansi4_st = "u32 list \<times> u32 list \<times> u32 list \<times> u32 list \<times> u32 list \<times> u32 list \<times> u32 list \<times> u32 list"

definition ansi4_KEY_INIT :: "nat \<Rightarrow> u32 list \<times> u32 list \<times> u32 list \<times> u32 list \<Rightarrow> u32 list \<times> u32 list \<times> u32 list \<times> u32 list" where
  "ansi4_KEY_INIT i = (\<lambda>(S1, S2, S3, S4).
     (S1[i := rc5_P + of_nat i * rc5_Q], S2[i := rc5_P + of_nat i * rc5_Q], S3[i := rc5_P + of_nat i * rc5_Q], S4[i := rc5_P + of_nat i * rc5_Q]))"

definition ansi4_key_init :: "u32 list \<times> u32 list \<times> u32 list \<times> u32 list" where
  "ansi4_key_init = foldl (\<lambda>S init. init S) (replicate 26 0, replicate 26 0, replicate 26 0, replicate 26 0)
     [ansi4_KEY_INIT 0, ansi4_KEY_INIT 1, ansi4_KEY_INIT 2, ansi4_KEY_INIT 3,
      ansi4_KEY_INIT 4, ansi4_KEY_INIT 5, ansi4_KEY_INIT 6, ansi4_KEY_INIT 7,
      ansi4_KEY_INIT 8, ansi4_KEY_INIT 9, ansi4_KEY_INIT 10, ansi4_KEY_INIT 11,
      ansi4_KEY_INIT 12, ansi4_KEY_INIT 13, ansi4_KEY_INIT 14, ansi4_KEY_INIT 15,
      ansi4_KEY_INIT 16, ansi4_KEY_INIT 17, ansi4_KEY_INIT 18, ansi4_KEY_INIT 19,
      ansi4_KEY_INIT 20, ansi4_KEY_INIT 21, ansi4_KEY_INIT 22, ansi4_KEY_INIT 23,
      ansi4_KEY_INIT 24, ansi4_KEY_INIT 25]"

definition ansi4_block_i0_j1 :: "ansi4_st \<Rightarrow> ansi4_st" where
  "ansi4_block_i0_j1 = (\<lambda>(S1, S2, S3, S4, L1, L2, L3, L4).
     let S1 = S1[0 := ROTL3 (S1 ! 0 + (S1 ! 25 + L1 ! 0))];
         S2 = S2[0 := ROTL3 (S2 ! 0 + (S2 ! 25 + L2 ! 0))];
         S3 = S3[0 := ROTL3 (S3 ! 0 + (S3 ! 25 + L3 ! 0))];
         S4 = S4[0 := ROTL3 (S4 ! 0 + (S4 ! 25 + L4 ! 0))];
         L1 = L1[1 := ROTL (L1 ! 1 + (S1 ! 0 + L1 ! 0)) (S1 ! 0 + L1 ! 0)];
         L2 = L2[1 := ROTL (L2 ! 1 + (S2 ! 0 + L2 ! 0)) (S2 ! 0 + L2 ! 0)];
         L3 = L3[1 := ROTL (L3 ! 1 + (S3 ! 0 + L3 ! 0)) (S3 ! 0 + L3 ! 0)];
         L4 = L4[1 := ROTL (L4 ! 1 + (S4 ! 0 + L4 ! 0)) (S4 ! 0 + L4 ! 0)]
     in (S1, S2, S3, S4, L1, L2, L3, L4))"

definition ansi4_block_i0_j2 :: "ansi4_st \<Rightarrow> ansi4_st" where
  "ansi4_block_i0_j2 = (\<lambda>(S1, S2, S3, S4, L1, L2, L3, L4).
     let S1 = S1[0 := ROTL3 (S1 ! 0 + (S1 ! 25 + L1 ! 1))];
         S2 = S2[0 := ROTL3 (S2 ! 0 + (S2 ! 25 + L2 ! 1))];
         S3 = S3[0 := ROTL3 (S3 ! 0 + (S3 ! 25 + L3 ! 1))];
         S4 = S4[0 := ROTL3 (S4 ! 0 + (S4 ! 25 + L4 ! 1))];
         L1 = L1[2 := ROTL (L1 ! 2 + (S1 ! 0 + L1 ! 1)) (S1 ! 0 + L1 ! 1)];
         L2 = L2[2 := ROTL (L2 ! 2 + (S2 ! 0 + L2 ! 1)) (S2 ! 0 + L2 ! 1)];
         L3 = L3[2 := ROTL (L3 ! 2 + (S3 ! 0 + L3 ! 1)) (S3 ! 0 + L3 ! 1)];
         L4 = L4[2 := ROTL (L4 ! 2 + (S4 ! 0 + L4 ! 1)) (S4 ! 0 + L4 ! 1)]
     in (S1, S2, S3, S4, L1, L2, L3, L4))"

definition ansi4_block_j0 :: "nat \<Rightarrow> ansi4_st \<Rightarrow> ansi4_st" where
  "ansi4_block_j0 i = (\<lambda>(S1, S2, S3, S4, L1, L2, L3, L4).
     let S1 = S1[i := ROTL3 (S1 ! i + (S1 ! (i - 1) + L1 ! 2))];
         S2 = S2[i := ROTL3 (S2 ! i + (S2 ! (i - 1) + L2 ! 2))];
         S3 = S3[i := ROTL3 (S3 ! i + (S3 ! (i - 1) + L3 ! 2))];
         S4 = S4[i := ROTL3 (S4 ! i + (S4 ! (i - 1) + L4 ! 2))];
         L1 = L1[0 := ROTL (L1 ! 0 + (S1 ! i + L1 ! 2)) (S1 ! i + L1 ! 2)];
         L2 = L2[0 := ROTL (L2 ! 0 + (S2 ! i + L2 ! 2)) (S2 ! i + L2 ! 2)];
         L3 = L3[0 := ROTL (L3 ! 0 + (S3 ! i + L3 ! 2)) (S3 ! i + L3 ! 2)];
         L4 = L4[0 := ROTL (L4 ! 0 + (S4 ! i + L4 ! 2)) (S4 ! i + L4 ! 2)]
     in (S1, S2, S3, S4, L1, L2, L3, L4))"

definition ansi4_block_j1 :: "nat \<Rightarrow> ansi4_st \<Rightarrow> ansi4_st" where
  "ansi4_block_j1 i = (\<lambda>(S1, S2, S3, S4, L1, L2, L3, L4).
     let S1 = S1[i := ROTL3 (S1 ! i + (S1 ! (i - 1) + L1 ! 0))];
         S2 = S2[i := ROTL3 (S2 ! i + (S2 ! (i - 1) + L2 ! 0))];
         S3 = S3[i := ROTL3 (S3 ! i + (S3 ! (i - 1) + L3 ! 0))];
         S4 = S4[i := ROTL3 (S4 ! i + (S4 ! (i - 1) + L4 ! 0))];
         L1 = L1[1 := ROTL (L1 ! 1 + (S1 ! i + L1 ! 0)) (S1 ! i + L1 ! 0)];
         L2 = L2[1 := ROTL (L2 ! 1 + (S2 ! i + L2 ! 0)) (S2 ! i + L2 ! 0)];
         L3 = L3[1 := ROTL (L3 ! 1 + (S3 ! i + L3 ! 0)) (S3 ! i + L3 ! 0)];
         L4 = L4[1 := ROTL (L4 ! 1 + (S4 ! i + L4 ! 0)) (S4 ! i + L4 ! 0)]
     in (S1, S2, S3, S4, L1, L2, L3, L4))"

definition ansi4_block_j2 :: "nat \<Rightarrow> ansi4_st \<Rightarrow> ansi4_st" where
  "ansi4_block_j2 i = (\<lambda>(S1, S2, S3, S4, L1, L2, L3, L4).
     let S1 = S1[i := ROTL3 (S1 ! i + (S1 ! (i - 1) + L1 ! 1))];
         S2 = S2[i := ROTL3 (S2 ! i + (S2 ! (i - 1) + L2 ! 1))];
         S3 = S3[i := ROTL3 (S3 ! i + (S3 ! (i - 1) + L3 ! 1))];
         S4 = S4[i := ROTL3 (S4 ! i + (S4 ! (i - 1) + L4 ! 1))];
         L1 = L1[2 := ROTL (L1 ! 2 + (S1 ! i + L1 ! 1)) (S1 ! i + L1 ! 1)];
         L2 = L2[2 := ROTL (L2 ! 2 + (S2 ! i + L2 ! 1)) (S2 ! i + L2 ! 1)];
         L3 = L3[2 := ROTL (L3 ! 2 + (S3 ! i + L3 ! 1)) (S3 ! i + L3 ! 1)];
         L4 = L4[2 := ROTL (L4 ! 2 + (S4 ! i + L4 ! 1)) (S4 ! i + L4 ! 1)]
     in (S1, S2, S3, S4, L1, L2, L3, L4))"

definition ansi4_first :: "ansi4_st \<Rightarrow> ansi4_st" where
  "ansi4_first = (\<lambda>(S1, S2, S3, S4, L1, L2, L3, L4).
     let S1 = S1[0 := ROTL3 (S1 ! 0)];
         S2 = S2[0 := ROTL3 (S2 ! 0)];
         S3 = S3[0 := ROTL3 (S3 ! 0)];
         S4 = S4[0 := ROTL3 (S4 ! 0)];
         L1 = L1[0 := ROTL (L1 ! 0 + S1 ! 0) (S1 ! 0)];
         L2 = L2[0 := ROTL (L2 ! 0 + S2 ! 0) (S2 ! 0)];
         L3 = L3[0 := ROTL (L3 ! 0 + S3 ! 0) (S3 ! 0)];
         L4 = L4[0 := ROTL (L4 ! 0 + S4 ! 0) (S4 ! 0)]
     in (S1, S2, S3, S4, L1, L2, L3, L4))"

definition ansi4_round1 :: "(ansi4_st \<Rightarrow> ansi4_st) list" where
  "ansi4_round1 =
     [ansi4_block_j1 1, ansi4_block_j2 2, ansi4_block_j0 3, ansi4_block_j1 4, ansi4_block_j2 5,
      ansi4_block_j0 6, ansi4_block_j1 7, ansi4_block_j2 8, ansi4_block_j0 9, ansi4_block_j1 10,
      ansi4_block_j2 11, ansi4_block_j0 12, ansi4_block_j1 13, ansi4_block_j2 14, ansi4_block_j0 15,
      ansi4_block_j1 16, ansi4_block_j2 17, ansi4_block_j0 18, ansi4_block_j1 19, ansi4_block_j2 20,
      ansi4_block_j0 21, ansi4_block_j1 22, ansi4_block_j2 23, ansi4_block_j0 24, ansi4_block_j1 25]"

definition ansi4_round2 :: "(ansi4_st \<Rightarrow> ansi4_st) list" where
  "ansi4_round2 =
     [ansi4_block_i0_j2, ansi4_block_j0 1, ansi4_block_j1 2, ansi4_block_j2 3, ansi4_block_j0 4,
      ansi4_block_j1 5, ansi4_block_j2 6, ansi4_block_j0 7, ansi4_block_j1 8, ansi4_block_j2 9,
      ansi4_block_j0 10, ansi4_block_j1 11, ansi4_block_j2 12, ansi4_block_j0 13, ansi4_block_j1 14,
      ansi4_block_j2 15, ansi4_block_j0 16, ansi4_block_j1 17, ansi4_block_j2 18, ansi4_block_j0 19,
      ansi4_block_j1 20, ansi4_block_j2 21, ansi4_block_j0 22, ansi4_block_j1 23, ansi4_block_j2 24,
      ansi4_block_j0 25]"

definition ansi4_round3 :: "(ansi4_st \<Rightarrow> ansi4_st) list" where
  "ansi4_round3 =
     [ansi4_block_i0_j1, ansi4_block_j2 1, ansi4_block_j0 2, ansi4_block_j1 3, ansi4_block_j2 4,
      ansi4_block_j0 5, ansi4_block_j1 6, ansi4_block_j2 7, ansi4_block_j0 8, ansi4_block_j1 9,
      ansi4_block_j2 10, ansi4_block_j0 11, ansi4_block_j1 12, ansi4_block_j2 13, ansi4_block_j0 14,
      ansi4_block_j1 15, ansi4_block_j2 16, ansi4_block_j0 17, ansi4_block_j1 18, ansi4_block_j2 19,
      ansi4_block_j0 20, ansi4_block_j1 21, ansi4_block_j2 22, ansi4_block_j0 23, ansi4_block_j1 24,
      ansi4_block_j2 25]"

definition ansi4_mix :: "ansi4_st \<Rightarrow> ansi4_st" where
  "ansi4_mix st = foldl (\<lambda>st block. block st) (ansi4_first st) (ansi4_round1 @ ansi4_round2 @ ansi4_round3)"

definition ansi4_final_block :: "u32 list \<Rightarrow> u32 list \<Rightarrow> u32 list \<Rightarrow> u32 list \<Rightarrow> nat
    \<Rightarrow> u32 \<times> u32 \<times> u32 \<times> u32 \<times> u32 \<times> u32 \<times> u32 \<times> u32 \<Rightarrow> u32 \<times> u32 \<times> u32 \<times> u32 \<times> u32 \<times> u32 \<times> u32 \<times> u32" where
  "ansi4_final_block S1 S2 S3 S4 i = (\<lambda>(A1, A2, A3, A4, B1, B2, B3, B4).
     let A1 = ROTL (A1 XOR B1) B1 + S1 ! (2 * i);
         A2 = ROTL (A2 XOR B2) B2 + S2 ! (2 * i);
         A3 = ROTL (A3 XOR B3) B3 + S3 ! (2 * i);
         A4 = ROTL (A4 XOR B4) B4 + S4 ! (2 * i);
         B1 = ROTL (B1 XOR A1) A1 + S1 ! (2 * i + 1);
         B2 = ROTL (B2 XOR A2) A2 + S2 ! (2 * i + 1);
         B3 = ROTL (B3 XOR A3) A3 + S3 ! (2 * i + 1);
         B4 = ROTL (B4 XOR A4) A4 + S4 ! (2 * i + 1)
     in (A1, A2, A3, A4, B1, B2, B3, B4))"

definition ansi4_crypt :: "u32 list \<Rightarrow> u32 list \<Rightarrow> u32 list \<Rightarrow> u32 list \<Rightarrow> u32 \<Rightarrow> u32
    \<Rightarrow> u32 \<times> u32 \<times> u32 \<times> u32 \<times> u32 \<times> u32 \<times> u32 \<times> u32" where
  "ansi4_crypt S1 S2 S3 S4 plainhi plainlo =
     foldl (\<lambda>ab block. block ab) (plainlo + S1 ! 0, plainlo + S2 ! 0, plainlo + S3 ! 0, plainlo + S4 ! 0, plainhi + S1 ! 1, plainhi + S2 ! 1, plainhi + S3 ! 1, plainhi + S4 ! 1)
     [ansi4_final_block S1 S2 S3 S4 1, ansi4_final_block S1 S2 S3 S4 2, ansi4_final_block S1 S2 S3 S4 3,
      ansi4_final_block S1 S2 S3 S4 4, ansi4_final_block S1 S2 S3 S4 5, ansi4_final_block S1 S2 S3 S4 6,
      ansi4_final_block S1 S2 S3 S4 7, ansi4_final_block S1 S2 S3 S4 8, ansi4_final_block S1 S2 S3 S4 9,
      ansi4_final_block S1 S2 S3 S4 10, ansi4_final_block S1 S2 S3 S4 11, ansi4_final_block S1 S2 S3 S4 12]"

fun ansi4_loop :: "nat \<Rightarrow> unitwork72 \<Rightarrow> u32 \<Rightarrow> resultcode \<times> unitwork72 \<times> u32" where
  "ansi4_loop 0 w iterations = (RESULT_NOTHING, w, iterations)"
| "ansi4_loop (Suc kiter) w iterations =
     (let L1 = [k_lo (L0 w), k_mid (L0 w), k_hi (L0 w)];
          L2 = [k_lo (L0 w), k_mid (L0 w), 1 + L1 ! 2];
          L3 = [k_lo (L0 w), k_mid (L0 w), 1 + L2 ! 2];
          L4 = [k_lo (L0 w), k_mid (L0 w), 1 + L3 ! 2];
          (S1, S2, S3, S4) = ansi4_key_init;
          (S1, S2, S3, S4, L1, L2, L3, L4) = ansi4_mix (S1, S2, S3, S4, L1, L2, L3, L4);
          (A1, A2, A3, A4, B1, B2, B3, B4) = ansi4_crypt S1 S2 S3 S4 (plain_hi w) (plain_lo w)
      in
      let (w, found) = check_pipe w A1 B1 0 in
      if found then (RESULT_FOUND, w, iterations - ((of_nat kiter + 1) * 4))
      else
        let (w, found) = check_pipe w A2 B2 1 in
        if found then (RESULT_FOUND, w, iterations - ((of_nat kiter + 1) * 4 - 1))
        else
          let (w, found) = check_pipe w A3 B3 2 in
          if found then (RESULT_FOUND, w, iterations - ((of_nat kiter + 1) * 4 - 2))
          else
            let (w, found) = check_pipe w A4 B4 3 in
            if found then (RESULT_FOUND, w, iterations - ((of_nat kiter + 1) * 4 - 3))
            else
              ansi4_loop kiter (w\<lparr>L0 := core_key_add 4 (L0 w)\<rparr>) iterations)"

definition rc5_72_unit_func_ansi_4 :: "unitwork72 \<Rightarrow> u32 \<Rightarrow> resultcode \<times> unitwork72 \<times> u32" where
  "rc5_72_unit_func_ansi_4 w iterations = ansi4_loop (unat (iterations div 4)) w iterations"

section \<open>Rotation\<close>

lemma unat_and_31: "unat (s AND 31 :: u32) = unat s mod 32"
proof -
  have "(31::u32) = mask 5" by (simp add: mask_eq_exp_minus_1)
  then show ?thesis
    by (simp only: take_bit_eq_mask [symmetric] unsigned_take_bit_eq) (simp add: take_bit_eq_mod)
qed

lemma ROTL_rotl: "ROTL x s = word_rotl (unat s) x"
proof (rule bit_word_eqI)
  fix n assume n: "n < LENGTH(32)"
  define r where "r = unat s mod 32"
  have r: "r < 32" by (simp add: r_def)
  have "bit (ROTL x s) n \<longleftrightarrow> (r \<le> n \<and> bit x (n - r)) \<or> bit x (32 - r + n)"
    using n by (auto simp: ROTL_def SHL_def SHR_def bit_or_iff bit_shl bit_shr unat_and_31 r_def [symmetric])
  also have "\<dots> \<longleftrightarrow> bit x ((n + (32 - r)) mod 32)"
  proof (cases "r \<le> n")
    case True
    then have "n + (32 - r) = (n - r) + 32" using r by simp
    then have "(n + (32 - r)) mod 32 = (n - r) mod 32" by (simp only: mod_add_self2)
    then have "(n + (32 - r)) mod 32 = n - r" using n by simp
    moreover have "\<not> bit x (32 - r + n)" using True r by (auto dest: bit_imp_le_length)
    ultimately show ?thesis using True by simp
  next
    case False
    then show ?thesis using r by (simp add: add.commute)
  qed
  finally show "bit (ROTL x s) n \<longleftrightarrow> bit (word_rotl (unat s) x) n"
    using n by (simp add: bit_word_rotl_iff r_def)
qed

section \<open>The schedule of the unrolled core\<close>

definition prev :: "nat \<Rightarrow> nat \<Rightarrow> nat" where
  "prev n i = (if i = 0 then n - 1 else i - 1)"

lemma prev_Suc_mod: "0 < n \<Longrightarrow> prev n (Suc k mod n) = k mod n"
  by (cases n) (auto simp: prev_def mod_Suc)

definition mix_block :: "nat \<Rightarrow> nat \<Rightarrow> u32 list \<times> u32 list \<Rightarrow> u32 list \<times> u32 list" where
  "mix_block i j = (\<lambda>(S, L).
     let B = L ! prev 3 j;
         S = S[i := ROTL3 (S ! i + (S ! prev 26 i + B))]
     in (S, L[j := ROTL (L ! j + (S ! i + B)) (S ! i + B)]))"

lemma ansi1_blocks:
  "ansi1_block_i0_j1 = mix_block 0 1" "ansi1_block_i0_j2 = mix_block 0 2"
  "0 < i \<Longrightarrow> i < 26 \<Longrightarrow> ansi1_block_j0 i = mix_block i 0"
  "0 < i \<Longrightarrow> i < 26 \<Longrightarrow> ansi1_block_j1 i = mix_block i 1"
  "0 < i \<Longrightarrow> i < 26 \<Longrightarrow> ansi1_block_j2 i = mix_block i 2"
  by (simp_all add: mix_block_def prev_def fun_eq_iff Let_def ansi1_block_i0_j1_def
      ansi1_block_i0_j2_def ansi1_block_j0_def ansi1_block_j1_def ansi1_block_j2_def)

lemma ansi1_rounds:
  "ansi1_round1 @ ansi1_round2 @ ansi1_round3 = map (\<lambda>k. mix_block (k mod 26) (k mod 3)) [1..<78]"
proof -
  have "[1..<78] = 1 # [2..<78]" by (simp add: upt_conv_Cons)
  then show ?thesis
    by (simp add: ansi1_round1_def ansi1_round2_def ansi1_round3_def ansi1_blocks)
qed

definition mixed :: "nat \<Rightarrow> u32 list \<times> u32 list \<Rightarrow> u32 list \<times> u32 list" where
  "mixed n st = foldl (\<lambda>st k. mix_block (k mod 26) (k mod 3) st) (ansi1_first st) [1..<n]"

lemma ansi1_mix_mixed: "ansi1_mix st = mixed 78 st"
  by (simp only: ansi1_mix_def ansi1_rounds mixed_def foldl_map)

lemma mixed_Suc: "0 < n \<Longrightarrow> mixed (Suc n) st = mix_block (n mod 26) (n mod 3) (mixed n st)"
  by (simp add: mixed_def)

lemma ref_mix_steps:
  assumes "length S = 26" "length L = 3"
  shows "\<exists>S' L'. mixed (Suc n) (S, L) = (S', L') \<and> length S' = 26 \<and> length L' = 3
    \<and> (ref_mix_step ^^ Suc n) (0, 0, 0, 0, S, L)
        = (S' ! (n mod 26), L' ! (n mod 3), Suc n mod 26, Suc n mod 3, S', L')"
proof (induction n)
  case 0
  show ?case
    using assms by (simp add: mixed_def ansi1_first_def Let_def ROTL3_def)
next
  case (Suc n)
  then obtain S' L' where IH: "mixed (Suc n) (S, L) = (S', L')" "length S' = 26" "length L' = 3"
    "(ref_mix_step ^^ Suc n) (0, 0, 0, 0, S, L)
        = (S' ! (n mod 26), L' ! (n mod 3), Suc n mod 26, Suc n mod 3, S', L')"
    by blast
  let ?i = "Suc n mod 26" and ?j = "Suc n mod 3"
  have i: "prev 26 ?i = n mod 26" "prev 3 ?j = n mod 3"
    by (simp_all add: prev_Suc_mod)
  define S'' where "S'' = S'[?i := ROTL3 (S' ! ?i + (S' ! (n mod 26) + L' ! (n mod 3)))]"
  define L'' where "L'' = L'[?j := ROTL (L' ! ?j + (S'' ! ?i + L' ! (n mod 3))) (S'' ! ?i + L' ! (n mod 3))]"
  have "mixed (Suc (Suc n)) (S, L) = (S'', L'')"
    by (simp only: mixed_Suc [OF zero_less_Suc] IH(1)) (simp add: mix_block_def Let_def i S''_def L''_def)
  moreover have "(ref_mix_step ^^ Suc (Suc n)) (0, 0, 0, 0, S, L)
      = ref_mix_step (S' ! (n mod 26), L' ! (n mod 3), ?i, ?j, S', L')"
    by (simp only: funpow.simps(2) [of "Suc n"] o_apply IH(4))
  moreover have "\<dots> = (S'' ! ?i, L'' ! ?j, Suc (Suc n) mod 26, Suc (Suc n) mod 3, S'', L'')"
    by (simp add: S''_def L''_def Let_def mod_Suc_eq)
  ultimately show ?case
    using IH(2,3) by (simp add: S''_def L''_def)
qed

lemma ref_mix_mixed:
  assumes "length S = 26" "length L = 3"
  shows "ref_mix S L = fst (ansi1_mix (S, L))"
  using ref_mix_steps [OF assms, of 77] by (auto simp: ref_mix_def ansi1_mix_mixed)

lemma ref_init_eq: "ref_init = ansi1_key_init"
  by code_simp

lemma ansi1_crypt_eq: "ansi1_crypt S hi lo = ref_crypt S hi lo"
proof -
  have u: "[1, 2, 3, 4, 5, 6, 7, 8, 9, 10, 11, 12::nat] = [1..<13]" by (simp add: upt_conv_Cons)
  have "ansi1_crypt S hi lo = foldl (\<lambda>ab i. ansi1_final_block S i ab) (lo + S ! 0, hi + S ! 1) [1..<13]"
    unfolding ansi1_crypt_def u [symmetric] by simp
  also have "(\<lambda>ab i. ansi1_final_block S i ab) = (\<lambda>(A, B) i.
      let A = ROTL (A XOR B) B + S ! (2 * i); B = ROTL (B XOR A) A + S ! (2 * i + 1) in (A, B))"
    by (auto simp: fun_eq_iff ansi1_final_block_def)
  finally show ?thesis by (simp only: ref_crypt_def)
qed

lemma length_ref_init [simp]: "length ref_init = 26"
  by (simp add: ref_init_eq ansi1_key_init_def ansi1_KEY_INIT_def)


section \<open>The pipelines are independent\<close>

definition pipe2 :: "('a \<times> 'b \<Rightarrow> 'a \<times> 'b) \<Rightarrow> ('a \<times> 'b \<Rightarrow> 'a \<times> 'b)
    \<Rightarrow> 'a \<times> 'a \<times> 'b \<times> 'b \<Rightarrow> 'a \<times> 'a \<times> 'b \<times> 'b" where
  "pipe2 f1 f2 = (\<lambda>(x1, x2, y1, y2).
     (fst (f1 (x1, y1)), fst (f2 (x2, y2)), snd (f1 (x1, y1)), snd (f2 (x2, y2))))"

definition pipe4 :: "('a \<times> 'b \<Rightarrow> 'a \<times> 'b) \<Rightarrow> ('a \<times> 'b \<Rightarrow> 'a \<times> 'b) \<Rightarrow> ('a \<times> 'b \<Rightarrow> 'a \<times> 'b)
    \<Rightarrow> ('a \<times> 'b \<Rightarrow> 'a \<times> 'b) \<Rightarrow> 'a \<times> 'a \<times> 'a \<times> 'a \<times> 'b \<times> 'b \<times> 'b \<times> 'b
    \<Rightarrow> 'a \<times> 'a \<times> 'a \<times> 'a \<times> 'b \<times> 'b \<times> 'b \<times> 'b" where
  "pipe4 f1 f2 f3 f4 = (\<lambda>(x1, x2, x3, x4, y1, y2, y3, y4).
     (fst (f1 (x1, y1)), fst (f2 (x2, y2)), fst (f3 (x3, y3)), fst (f4 (x4, y4)),
      snd (f1 (x1, y1)), snd (f2 (x2, y2)), snd (f3 (x3, y3)), snd (f4 (x4, y4))))"

definition both :: "('a \<Rightarrow> 'a) list \<Rightarrow> 'a \<Rightarrow> 'a" where
  "both fs x = foldl (\<lambda>x f. f x) x fs"

lemma both_simps [simp]: "both [] x = x" "both (f # fs) x = both fs (f x)"
  by (simp_all add: both_def)

lemma pipe2_both: "length fs = length gs \<Longrightarrow>
    both (map2 pipe2 fs gs) st = pipe2 (both fs) (both gs) st"
  by (induction fs gs arbitrary: st rule: list_induct2) (auto simp: pipe2_def)

lemma pipe4_both: "length fs = length gs \<Longrightarrow> length gs = length hs \<Longrightarrow> length hs = length is \<Longrightarrow>
    both (map2 (\<lambda>(f, g) (h, i). pipe4 f g h i) (zip fs gs) (zip hs is)) st
      = pipe4 (both fs) (both gs) (both hs) (both is) st"
  by (induction fs gs hs "is" arbitrary: st rule: list_induct4) (auto simp: pipe4_def)

lemma ansi2_blocks:
  "ansi2_block_i0_j1 = pipe2 ansi1_block_i0_j1 ansi1_block_i0_j1"
  "ansi2_block_i0_j2 = pipe2 ansi1_block_i0_j2 ansi1_block_i0_j2"
  "ansi2_block_j0 i = pipe2 (ansi1_block_j0 i) (ansi1_block_j0 i)"
  "ansi2_block_j1 i = pipe2 (ansi1_block_j1 i) (ansi1_block_j1 i)"
  "ansi2_block_j2 i = pipe2 (ansi1_block_j2 i) (ansi1_block_j2 i)"
  "ansi2_first = pipe2 ansi1_first ansi1_first"
  "ansi2_final_block S1 S2 i = pipe2 (ansi1_final_block S1 i) (ansi1_final_block S2 i)"
  by (simp_all add: fun_eq_iff pipe2_def Let_def ansi2_block_i0_j1_def ansi1_block_i0_j1_def
      ansi2_block_i0_j2_def ansi1_block_i0_j2_def ansi2_block_j0_def ansi1_block_j0_def
      ansi2_block_j1_def ansi1_block_j1_def ansi2_block_j2_def ansi1_block_j2_def
      ansi2_first_def ansi1_first_def ansi2_final_block_def ansi1_final_block_def)

lemma ansi4_blocks:
  "ansi4_block_i0_j1 = pipe4 ansi1_block_i0_j1 ansi1_block_i0_j1 ansi1_block_i0_j1 ansi1_block_i0_j1"
  "ansi4_block_i0_j2 = pipe4 ansi1_block_i0_j2 ansi1_block_i0_j2 ansi1_block_i0_j2 ansi1_block_i0_j2"
  "ansi4_block_j0 i = pipe4 (ansi1_block_j0 i) (ansi1_block_j0 i) (ansi1_block_j0 i) (ansi1_block_j0 i)"
  "ansi4_block_j1 i = pipe4 (ansi1_block_j1 i) (ansi1_block_j1 i) (ansi1_block_j1 i) (ansi1_block_j1 i)"
  "ansi4_block_j2 i = pipe4 (ansi1_block_j2 i) (ansi1_block_j2 i) (ansi1_block_j2 i) (ansi1_block_j2 i)"
  "ansi4_first = pipe4 ansi1_first ansi1_first ansi1_first ansi1_first"
  "ansi4_final_block S1 S2 S3 S4 i = pipe4 (ansi1_final_block S1 i) (ansi1_final_block S2 i)
     (ansi1_final_block S3 i) (ansi1_final_block S4 i)"
  by (simp_all add: fun_eq_iff pipe4_def Let_def ansi4_block_i0_j1_def ansi1_block_i0_j1_def
      ansi4_block_i0_j2_def ansi1_block_i0_j2_def ansi4_block_j0_def ansi1_block_j0_def
      ansi4_block_j1_def ansi1_block_j1_def ansi4_block_j2_def ansi1_block_j2_def
      ansi4_first_def ansi1_first_def ansi4_final_block_def ansi1_final_block_def)

lemma ansi2_mix_pipes: "ansi2_mix = pipe2 ansi1_mix ansi1_mix"
proof
  fix st
  let ?fs = "ansi1_first # ansi1_round1 @ ansi1_round2 @ ansi1_round3"
  have "ansi2_first # ansi2_round1 @ ansi2_round2 @ ansi2_round3 = map2 pipe2 ?fs ?fs"
    by (simp add: ansi2_round1_def ansi2_round2_def ansi2_round3_def ansi1_round1_def
        ansi1_round2_def ansi1_round3_def ansi2_blocks)
  then have "both (ansi2_first # ansi2_round1 @ ansi2_round2 @ ansi2_round3) st
      = pipe2 (both ?fs) (both ?fs) st"
    by (simp only: pipe2_both)
  moreover have "both ?fs = ansi1_mix"
    by (simp add: fun_eq_iff both_def ansi1_mix_def)
  ultimately show "ansi2_mix st = pipe2 ansi1_mix ansi1_mix st"
    by (simp only: both_def foldl.simps ansi2_mix_def)
qed

lemma ansi4_mix_pipes: "ansi4_mix = pipe4 ansi1_mix ansi1_mix ansi1_mix ansi1_mix"
proof
  fix st
  let ?fs = "ansi1_first # ansi1_round1 @ ansi1_round2 @ ansi1_round3"
  have "ansi4_first # ansi4_round1 @ ansi4_round2 @ ansi4_round3
      = map2 (\<lambda>(f, g) (h, i). pipe4 f g h i) (zip ?fs ?fs) (zip ?fs ?fs)"
    by (simp add: ansi4_round1_def ansi4_round2_def ansi4_round3_def ansi1_round1_def
        ansi1_round2_def ansi1_round3_def ansi4_blocks)
  then have "both (ansi4_first # ansi4_round1 @ ansi4_round2 @ ansi4_round3) st
      = pipe4 (both ?fs) (both ?fs) (both ?fs) (both ?fs) st"
    by (simp only: pipe4_both)
  moreover have "both ?fs = ansi1_mix"
    by (simp add: fun_eq_iff both_def ansi1_mix_def)
  ultimately show "ansi4_mix st = pipe4 ansi1_mix ansi1_mix ansi1_mix ansi1_mix st"
    by (simp only: both_def foldl.simps ansi4_mix_def)
qed

lemma ansi2_key_init_pipes: "ansi2_key_init = (ansi1_key_init, ansi1_key_init)"
  by (simp add: ansi2_key_init_def ansi1_key_init_def ansi2_KEY_INIT_def ansi1_KEY_INIT_def)

lemma ansi4_key_init_pipes:
  "ansi4_key_init = (ansi1_key_init, ansi1_key_init, ansi1_key_init, ansi1_key_init)"
  by (simp add: ansi4_key_init_def ansi1_key_init_def ansi4_KEY_INIT_def ansi1_KEY_INIT_def)

definition final_blocks :: "u32 list \<Rightarrow> (u32 \<times> u32 \<Rightarrow> u32 \<times> u32) list" where
  "final_blocks S = map (ansi1_final_block S) [1, 2, 3, 4, 5, 6, 7, 8, 9, 10, 11, 12]"

lemma final_blocks_crypt: "both (final_blocks S) (lo + S ! 0, hi + S ! 1) = ref_crypt S hi lo"
  by (simp add: ansi1_crypt_eq [symmetric] ansi1_crypt_def final_blocks_def)

lemma ansi2_crypt_pipes:
  "ansi2_crypt S1 S2 hi lo =
     (fst (ref_crypt S1 hi lo), fst (ref_crypt S2 hi lo), snd (ref_crypt S1 hi lo), snd (ref_crypt S2 hi lo))"
proof -
  have "ansi2_crypt S1 S2 hi lo = both (map2 pipe2 (final_blocks S1) (final_blocks S2))
      (lo + S1 ! 0, lo + S2 ! 0, hi + S1 ! 1, hi + S2 ! 1)"
    by (simp add: ansi2_crypt_def final_blocks_def ansi2_blocks)
  also have "\<dots> = pipe2 (both (final_blocks S1)) (both (final_blocks S2))
      (lo + S1 ! 0, lo + S2 ! 0, hi + S1 ! 1, hi + S2 ! 1)"
    by (rule pipe2_both) (simp add: final_blocks_def)
  finally show ?thesis by (simp only: pipe2_def final_blocks_crypt prod.case)
qed

lemma ansi4_crypt_pipes:
  "ansi4_crypt S1 S2 S3 S4 hi lo =
     (fst (ref_crypt S1 hi lo), fst (ref_crypt S2 hi lo), fst (ref_crypt S3 hi lo), fst (ref_crypt S4 hi lo),
      snd (ref_crypt S1 hi lo), snd (ref_crypt S2 hi lo), snd (ref_crypt S3 hi lo), snd (ref_crypt S4 hi lo))"
proof -
  let ?st = "(lo + S1 ! 0, lo + S2 ! 0, lo + S3 ! 0, lo + S4 ! 0,
      hi + S1 ! 1, hi + S2 ! 1, hi + S3 ! 1, hi + S4 ! 1)"
  have "ansi4_crypt S1 S2 S3 S4 hi lo = both (map2 (\<lambda>(f, g) (h, i). pipe4 f g h i)
      (zip (final_blocks S1) (final_blocks S2)) (zip (final_blocks S3) (final_blocks S4))) ?st"
    by (simp add: ansi4_crypt_def final_blocks_def ansi4_blocks)
  also have "\<dots> = pipe4 (both (final_blocks S1)) (both (final_blocks S2)) (both (final_blocks S3))
      (both (final_blocks S4)) ?st"
    by (rule pipe4_both) (simp_all add: final_blocks_def)
  finally show ?thesis by (simp only: pipe4_def final_blocks_crypt prod.case)
qed


section \<open>What a core computes\<close>

text \<open>
  The key \<open>d\<close> keys after a mangled key, the encryption of the plain text under a mangled key, and
  the search of \<open>n\<close> keys in order, with the offset of the first one that matches.
\<close>

definition nth_key :: "key72 \<Rightarrow> nat \<Rightarrow> key72" where
  "nth_key k d = (core_key_add 1 ^^ d) k"

definition rc5_encrypt :: "key72 \<Rightarrow> u32 \<Rightarrow> u32 \<Rightarrow> u32 \<times> u32" where
  "rc5_encrypt k plainhi plainlo =
     ref_crypt (ref_mix ref_init [k_lo k, k_mid k, k_hi k]) plainhi plainlo"

definition check_one :: "unitwork72 \<Rightarrow> key72 \<Rightarrow> unitwork72 \<times> bool" where
  "check_one w k =
     (case rc5_encrypt k (plain_hi w) (plain_lo w) of (A, B) \<Rightarrow>
        if A = cypher_lo w then (w\<lparr>check_count := check_count w + 1, check_key := k\<rparr>, B = cypher_hi w)
        else (w, False))"

fun search :: "unitwork72 \<Rightarrow> key72 \<Rightarrow> nat \<Rightarrow> unitwork72 \<times> nat option" where
  "search w k 0 = (w, None)"
| "search w k (Suc n) =
     (let (w, found) = check_one w k in
      if found then (w, Some 0)
      else let (w, d) = search w (core_key_add 1 k) n in (w, map_option Suc d))"

lemma nth_key_0 [simp]: "nth_key k 0 = k"
  by (simp add: nth_key_def)

lemma nth_key_Suc: "nth_key (core_key_add 1 k) n = nth_key k (Suc n)"
  by (simp add: nth_key_def funpow_swap1)

lemma nth_key_add: "nth_key (nth_key k m) n = nth_key k (m + n)"
  by (simp add: nth_key_def funpow_add add.commute [of m])

lemma nth_key_val:
  assumes "key_ok k"
  shows "key_ok (nth_key k d) \<and> mangled_val (nth_key k d) = (mangled_val k + d) mod 2 ^ 72"
proof (induction d)
  case 0
  then show ?case using assms mangled_val_less [OF assms] by simp
next
  case (Suc d)
  then have IH: "key_ok (nth_key k d)" by simp
  have "nth_key k (Suc d) = core_key_add (of_nat 1) (nth_key k d)"
    by (simp add: nth_key_def)
  then show ?case
    using core_key_add_mangled(1,2) [OF IH, of 1] Suc by (simp add: mod_simps)
qed

lemmas nth_key_ok = nth_key_val [THEN conjunct1] and nth_key_mangled = nth_key_val [THEN conjunct2]

text \<open>The frame of the search, and its split into two consecutive ranges.\<close>

definition same_problem :: "unitwork72 \<Rightarrow> unitwork72 \<Rightarrow> bool" where
  "same_problem w w' \<longleftrightarrow> plain_hi w' = plain_hi w \<and> plain_lo w' = plain_lo w
     \<and> cypher_hi w' = cypher_hi w \<and> cypher_lo w' = cypher_lo w \<and> L0 w' = L0 w"

lemma same_problem_refl [simp]: "same_problem w w"
  by (simp add: same_problem_def)

lemma same_problem_trans: "same_problem w w' \<Longrightarrow> same_problem w' w'' \<Longrightarrow> same_problem w w''"
  by (simp add: same_problem_def)

lemma check_one_frame: "same_problem w (fst (check_one w k))"
  by (simp add: check_one_def same_problem_def split: prod.split)

lemma search_frame: "same_problem w (fst (search w k n))"
proof (induction n arbitrary: w k)
  case (Suc n)
  then show ?case
    using check_one_frame [of w k] same_problem_trans by (auto simp: Let_def split: prod.splits)
      (metis fst_conv)
qed simp

definition hit :: "unitwork72 \<Rightarrow> key72 \<Rightarrow> bool" where
  "hit w k \<longleftrightarrow> rc5_encrypt k (plain_hi w) (plain_lo w) = (cypher_lo w, cypher_hi w)"

lemma check_one_hit: "snd (check_one w k) = hit w k"
  by (auto simp: check_one_def hit_def split: prod.split)

lemma hit_same_problem: "same_problem w w' \<Longrightarrow> hit w' k = hit w k"
  by (simp add: hit_def same_problem_def)

lemma search_None: "snd (search w k n) = None \<longleftrightarrow> (\<forall>d<n. \<not> hit w (nth_key k d))"
proof (induction n arbitrary: w k)
  case (Suc n)
  obtain w' found where c: "check_one w k = (w', found)" by (rule prod.exhaust)
  then have "found = hit w k" "\<And>k. hit w' k = hit w k"
    using check_one_hit [of w k] check_one_frame [of w k] hit_same_problem by auto
  then show ?case
    using Suc [of w' "core_key_add 1 k"]
    by (auto simp: c All_less_Suc2 nth_key_Suc split: prod.split)
qed simp

lemma search_Some: "snd (search w k n) = Some d \<Longrightarrow>
    d < n \<and> hit w (nth_key k d) \<and> (\<forall>d'<d. \<not> hit w (nth_key k d'))"
proof (induction n arbitrary: w k d)
  case (Suc n)
  obtain w' found where c: "check_one w k = (w', found)" by (rule prod.exhaust)
  then have h: "found = hit w k" "\<And>k. hit w' k = hit w k"
    using check_one_hit [of w k] check_one_frame [of w k] hit_same_problem by auto
  show ?case
  proof (cases found)
    case True
    then show ?thesis using Suc.prems h by (simp add: c)
  next
    case False
    then obtain d' where d': "snd (search w' (core_key_add 1 k) n) = Some d'" "d = Suc d'"
      using Suc.prems by (auto simp: c split: prod.splits)
    then show ?thesis
      using Suc.IH [OF d'(1)] False h by (auto simp: All_less_Suc2 nth_key_Suc)
  qed
qed simp

text \<open>The last key recorded in the check fields is the key that matched.\<close>

lemma search_check: "snd (search w k n) = Some d \<Longrightarrow> check_key (fst (search w k n)) = nth_key k d"
proof (induction n arbitrary: w k d)
  case (Suc n)
  obtain w' found where c: "check_one w k = (w', found)" by (rule prod.exhaust)
  show ?case
  proof (cases found)
    case True
    then show ?thesis using Suc.prems c by (auto simp: check_one_def split: prod.splits if_splits)
  next
    case False
    then show ?thesis
      using Suc.prems Suc.IH [of w' "core_key_add 1 k"] by (auto simp: c nth_key_Suc split: prod.splits)
  qed
qed simp

lemma search_add:
  "search w k (m + n) =
     (case search w k m of
        (w', Some d) \<Rightarrow> (w', Some d)
      | (w', None) \<Rightarrow> (case search w' (nth_key k m) n of (w'', d) \<Rightarrow> (w'', map_option ((+) m) d)))"
proof (induction m arbitrary: w k)
  case 0
  have "(+) (0::nat) = id" by auto
  then show ?case by (auto split: prod.split simp: option.map_id)
next
  case (Suc m)
  obtain w' found where c: "check_one w k = (w', found)" by (rule prod.exhaust)
  show ?case
    by (cases "search w' (core_key_add 1 k) m"; cases found)
      (auto simp: c Suc nth_key_Suc option.map_comp o_def fun_eq_iff [of "(+) (Suc m)"]
        intro!: option.map_cong0 split: prod.splits option.splits)
qed

section \<open>Blocks of keys\<close>

definition pipe_key :: "key72 \<Rightarrow> u32 \<Rightarrow> key72" where
  "pipe_key k p = \<lparr>k_hi = k_hi k + p, k_mid = k_mid k, k_lo = k_lo k\<rparr>"

lemma pipe_key_0 [simp]: "pipe_key k 0 = k"
  by (simp add: pipe_key_def)

lemma check_pipe_one:
  "rc5_encrypt (pipe_key (L0 w) p) (plain_hi w) (plain_lo w) = (A, B) \<Longrightarrow>
    check_pipe w A B p = check_one w (pipe_key (L0 w) p)"
  by (simp add: check_pipe_def check_one_def pipe_key_def Let_def)

lemma pipe_key_nth:
  assumes "key_ok k" "n dvd 256" "n dvd unat (k_hi k)" "p < n"
  shows "pipe_key k (of_nat p) = nth_key k p"
proof -
  have hi: "unat (k_hi k) < 256" using assms(1) by (simp add: key_ok_def is_byte_iff)
  have n: "n \<le> 256" using assms(2) by (simp add: dvd_imp_le)
  have "unat (k_hi k) + n \<le> 256"
    using dvd_less_add [OF assms(3,2) hi] by simp
  then have p: "unat (k_hi k + of_nat p) = unat (k_hi k) + p" "unat (k_hi k) + p < 256"
    using assms(4) n by (simp_all add: unat_plus_u32_if unat_of_nat)
  then have "key_ok (pipe_key k (of_nat p))"
    by (simp add: pipe_key_def key_ok_def is_byte_iff)
  moreover have "mangled_val (pipe_key k (of_nat p)) = mangled_val k + p"
    using p by (simp add: pipe_key_def mangled_val_def)
  moreover have "mangled_val (pipe_key k (of_nat p)) < 2 ^ 72"
    using calculation(1) mangled_val_less by blast
  ultimately show ?thesis
    using nth_key_val [OF assms(1), of p] by (intro mangled_val_inject) simp_all
qed

lemma core_key_add_nth:
  assumes "key_ok k" "n dvd 256" "0 < n" "n dvd unat (k_hi k)"
  shows "core_key_add (of_nat n) k = nth_key k n"
  using core_key_add_mangled [OF assms] nth_key_val [OF assms(1), of n]
  by (intro mangled_val_inject) simp_all


text \<open>
  A core that takes \<open>N\<close> keys per pass: the passes are a search of all the keys, except that on a
  match \<open>L0\<close> is left at the first key of the pass.
\<close>

fun block_loop :: "nat \<Rightarrow> nat \<Rightarrow> unitwork72 \<Rightarrow> u32 \<Rightarrow> resultcode \<times> unitwork72 \<times> u32" where
  "block_loop N 0 w it = (RESULT_NOTHING, w, it)"
| "block_loop N (Suc m) w it =
     (case search w (L0 w) N of
        (w, Some p) \<Rightarrow> (RESULT_FOUND, w, it - ((of_nat m + 1) * of_nat N - of_nat p))
      | (w, None) \<Rightarrow> block_loop N m (w\<lparr>L0 := nth_key (L0 w) N\<rparr>) it)"

definition search_result :: "nat \<Rightarrow> unitwork72 \<Rightarrow> nat \<Rightarrow> resultcode \<times> unitwork72 \<times> u32" where
  "search_result N w n =
     (case search w (L0 w) n of
        (w', None) \<Rightarrow> (RESULT_NOTHING, w'\<lparr>L0 := nth_key (L0 w) n\<rparr>, of_nat n)
      | (w', Some d) \<Rightarrow> (RESULT_FOUND, w'\<lparr>L0 := nth_key (L0 w) (d - d mod N)\<rparr>, of_nat d))"

lemma search_L0: "search (w\<lparr>L0 := x\<rparr>) k n = (case search w k n of (w', d) \<Rightarrow> (w'\<lparr>L0 := x\<rparr>, d))"
proof (induction n arbitrary: w k)
  case (Suc n)
  have "check_one (w\<lparr>L0 := x\<rparr>) k = (case check_one w k of (w', b) \<Rightarrow> (w'\<lparr>L0 := x\<rparr>, b))"
    by (simp add: check_one_def split: prod.split)
  then show ?case by (simp add: Suc Let_def split: prod.split)
qed simp

lemma block_loop_search:
  assumes "0 < N"
  shows "block_loop N m w it =
    (case search w (L0 w) (m * N) of
       (w', None) \<Rightarrow> (RESULT_NOTHING, w'\<lparr>L0 := nth_key (L0 w) (m * N)\<rparr>, it)
     | (w', Some d) \<Rightarrow> (RESULT_FOUND, w'\<lparr>L0 := nth_key (L0 w) (d - d mod N)\<rparr>,
         it - (of_nat (m * N) - of_nat d)))"
proof (induction m arbitrary: w)
  case 0
  show ?case by simp
next
  case (Suc m)
  obtain w' p where s: "search w (L0 w) N = (w', p)" by (rule prod.exhaust)
  have L0: "L0 w' = L0 w" using search_frame [of w "L0 w" N] s by (simp add: same_problem_def)
  show ?case
  proof (cases p)
    case None
    obtain w'' d where s2: "search w' (nth_key (L0 w) N) (m * N) = (w'', d)" by (rule prod.exhaust)
    have all: "search w (L0 w) (Suc m * N) = (w'', map_option ((+) N) d)"
      by (simp add: search_add s None s2)
    have s3: "search (w'\<lparr>L0 := nth_key (L0 w) N\<rparr>) (nth_key (L0 w) N) (m * N)
        = (w''\<lparr>L0 := nth_key (L0 w) N\<rparr>, d)"
      by (simp only: search_L0 s2 prod.case)
    have "block_loop N (Suc m) w it = block_loop N m (w'\<lparr>L0 := nth_key (L0 w) N\<rparr>) it"
      by (simp add: s None L0)
    moreover have "N + d - (N + d) mod N = N + (d - d mod N)" for d
      by simp
    ultimately show ?thesis
      unfolding all using Suc [of "w'\<lparr>L0 := nth_key (L0 w) N\<rparr>"]
      by (cases d) (simp_all add: s3 nth_key_add)
  next
    case (Some d)
    have d: "d < N" using search_Some [of w "L0 w" N d] s Some by simp
    have all: "search w (L0 w) (Suc m * N) = (w', Some d)"
      by (simp add: search_add s Some)
    have "of_nat (Suc m * N) = (of_nat m + 1) * (of_nat N :: u32)"
      by (simp add: algebra_simps)
    then show ?thesis
      using d L0 unfolding all by (simp add: s Some)
  qed
qed

lemma block_loop_result:
  assumes "0 < N" "N dvd unat it"
  shows "block_loop N (unat it div N) w it = search_result N w (unat it)"
  using assms by (simp add: block_loop_search search_result_def split: prod.split option.split)

lemma search_2: "search w k 2 =
    (let (w, f) = check_one w k in if f then (w, Some 0) else
     let (w, f) = check_one w (nth_key k 1) in if f then (w, Some 1) else (w, None))"
  by (simp add: numeral_2_eq_2 Let_def nth_key_def split: prod.split)

lemma search_4: "search w k 4 =
    (let (w, f) = check_one w k in if f then (w, Some 0) else
     let (w, f) = check_one w (nth_key k 1) in if f then (w, Some 1) else
     let (w, f) = check_one w (nth_key k 2) in if f then (w, Some 2) else
     let (w, f) = check_one w (nth_key k 3) in if f then (w, Some 3) else (w, None))"
  by (simp add: eval_nat_numeral Let_def nth_key_def split: prod.split)

section \<open>The cores are searches\<close>

lemma ref_loop_block: "ref_loop m w it = block_loop 1 m w it"
proof (induction m arbitrary: w)
  case (Suc m)
  obtain A B where e: "rc5_encrypt (L0 w) (plain_hi w) (plain_lo w) = (A, B)" by (rule prod.exhaust)
  have "check_pipe w A B 0 = check_one w (L0 w)"
    using check_pipe_one [of w 0 A B] e by simp
  moreover have "L0 (fst (check_one w (L0 w))) = L0 w"
    using check_one_frame [of w "L0 w"] by (simp add: same_problem_def)
  ultimately show ?case
    using e by (auto simp: Suc rc5_encrypt_def Let_def nth_key_def split: prod.split)
qed simp

lemma encrypt_mix: "ref_crypt (fst (ansi1_mix (ansi1_key_init, [a, b, c]))) hi lo
    = rc5_encrypt \<lparr>k_hi = c, k_mid = b, k_lo = a\<rparr> hi lo"
  using ref_mix_mixed [of ref_init "[a, b, c]"] by (simp add: rc5_encrypt_def ref_init_eq [symmetric])

lemma encrypt_mix_pipe:
  "ref_crypt (fst (ansi1_mix (ansi1_key_init, [k_lo k, k_mid k, k_hi k + p]))) = rc5_encrypt (pipe_key k p)"
  by (simp add: encrypt_mix fun_eq_iff pipe_key_def)

lemma encrypt_mix_key:
  "ref_crypt (fst (ansi1_mix (ansi1_key_init, [k_lo k, k_mid k, k_hi k]))) = rc5_encrypt k"
  using encrypt_mix_pipe [of k 0] by simp

lemma ansi1_loop_ref: "ansi1_loop m w it = ref_loop m w it"
proof (induction m arbitrary: w)
  case (Suc m)
  let ?L = "[k_lo (L0 w), k_mid (L0 w), k_hi (L0 w)]"
  obtain S L where m: "ansi1_mix (ansi1_key_init, ?L) = (S, L)" by (rule prod.exhaust)
  then have "ref_mix ref_init ?L = S"
    using ref_mix_mixed [of ref_init ?L] by (simp add: ref_init_eq [symmetric])
  then show ?case
    by (simp only: ansi1_loop.simps ref_loop.simps Let_def m prod.case ansi1_crypt_eq Suc)
qed simp


definition aligned :: "nat \<Rightarrow> key72 \<Rightarrow> bool" where
  "aligned N k \<longleftrightarrow> key_ok k \<and> N dvd unat (k_hi k)"

lemma aligned_nth:
  assumes "aligned N k" "N dvd 256"
  shows "aligned N (nth_key k N)"
proof -
  have "0 < N" using assms(2) by (cases N) simp_all
  then show ?thesis
    using core_key_add_mangled [of k N] core_key_add_nth [of k N] assms by (simp add: aligned_def)
qed

lemma check_pipe_nth:
  assumes "aligned N (L0 w0)" "N dvd 256" "p < N" "same_problem w0 w"
    and "rc5_encrypt (pipe_key (L0 w0) (of_nat p)) (plain_hi w0) (plain_lo w0) = (A, B)"
  shows "check_pipe w A B (of_nat p) = check_one w (nth_key (L0 w0) p)"
proof -
  have "L0 w = L0 w0" "plain_hi w = plain_hi w0" "plain_lo w = plain_lo w0"
    using assms(4) by (simp_all add: same_problem_def)
  then show ?thesis
    using check_pipe_one [of w "of_nat p" A B] pipe_key_nth [of "L0 w0" N p] assms by (simp add: aligned_def)
qed

lemma ansi2_loop_block: "aligned 2 (L0 w) \<Longrightarrow> ansi2_loop m w it = block_loop 2 m w it"
proof (induction m arbitrary: w)
  case (Suc m)
  define hi lo where "hi = plain_hi w" and "lo = plain_lo w"
  define k where "k = L0 w"
  obtain A1 B1 A2 B2 where e: "rc5_encrypt k hi lo = (A1, B1)" "rc5_encrypt (pipe_key k 1) hi lo = (A2, B2)"
    by (metis prod.exhaust)
  have crypt: "(case ansi2_mix (ansi1_key_init, ansi1_key_init, [k_lo k, k_mid k, k_hi k], [k_lo k, k_mid k, k_hi k + 1]) of
      (S1, S2, L1, L2) \<Rightarrow> ansi2_crypt S1 S2 hi lo) = (A1, A2, B1, B2)"
    using e by (simp add: ansi2_mix_pipes pipe2_def ansi2_crypt_pipes encrypt_mix_key encrypt_mix_pipe)
  obtain w1 f1 where c1: "check_one w k = (w1, f1)" by (rule prod.exhaust)
  obtain w2 f2 where c2: "check_one w1 (nth_key k 1) = (w2, f2)" by (rule prod.exhaust)
  have sp: "same_problem w w1" "same_problem w w2"
    using check_one_frame [of w k] check_one_frame [of w1 "nth_key k 1"] c1 c2 same_problem_trans
    by (auto simp: same_problem_def)
  have p: "check_pipe w A1 B1 0 = (w1, f1)" "check_pipe w1 A2 B2 1 = (w2, f2)"
    using check_pipe_nth [of 2 w 0 w A1 B1] check_pipe_nth [of 2 w 1 w1 A2 B2] Suc.prems sp e c1 c2
    by (simp_all add: k_def hi_def lo_def)
  have L0: "L0 w2 = k" using sp by (simp add: same_problem_def k_def)
  have add: "core_key_add 2 k = nth_key k 2"
    using core_key_add_nth [of k 2] Suc.prems by (simp add: aligned_def k_def)
  have "aligned 2 (nth_key k 2)"
    using aligned_nth Suc.prems by (simp add: k_def)
  then have IH: "ansi2_loop m (w2\<lparr>L0 := nth_key k 2\<rparr>) it = block_loop 2 m (w2\<lparr>L0 := nth_key k 2\<rparr>) it"
    using Suc.IH by simp
  have Ls: "[k_lo k, k_mid k, [k_lo k, k_mid k, k_hi k] ! 2 + 1] = [k_lo k, k_mid k, k_hi k + 1]"
    by simp
  obtain S1 S2 L1 L2 where m: "ansi2_mix (ansi1_key_init, ansi1_key_init,
      [k_lo k, k_mid k, k_hi k], [k_lo k, k_mid k, k_hi k + 1]) = (S1, S2, L1, L2)"
    by (metis prod.exhaust)
  have "ansi2_loop (Suc m) w it = (if f1 then (RESULT_FOUND, w1, it - (of_nat m + 1) * 2)
      else if f2 then (RESULT_FOUND, w2, it - ((of_nat m + 1) * 2 - 1))
      else block_loop 2 m (w2\<lparr>L0 := nth_key k 2\<rparr>) it)"
    using crypt by (simp only: ansi2_loop.simps Let_def ansi2_key_init_pipes k_def [symmetric]
        hi_def [symmetric] lo_def [symmetric] Ls m prod.case p L0 add IH)
  moreover have "block_loop 2 (Suc m) w it = \<dots>"
    by (simp add: k_def [symmetric] search_2 c1 c2 [unfolded One_nat_def] L0)
  ultimately show ?case by simp
qed simp

lemma ansi4_loop_block: "aligned 4 (L0 w) \<Longrightarrow> ansi4_loop m w it = block_loop 4 m w it"
proof (induction m arbitrary: w)
  case (Suc m)
  define hi lo where "hi = plain_hi w" and "lo = plain_lo w"
  define k where "k = L0 w"
  define L where "L p = [k_lo k, k_mid k, k_hi k + p]" for p
  obtain A1 B1 A2 B2 A3 B3 A4 B4 where e: "rc5_encrypt (pipe_key k 0) hi lo = (A1, B1)"
    "rc5_encrypt (pipe_key k 1) hi lo = (A2, B2)" "rc5_encrypt (pipe_key k 2) hi lo = (A3, B3)"
    "rc5_encrypt (pipe_key k 3) hi lo = (A4, B4)"
    by (metis prod.exhaust)
  let ?S = "ansi1_key_init"
  have crypt: "(case ansi4_mix (?S, ?S, ?S, ?S, L 0, L 1, L 2, L 3) of
      (S1, S2, S3, S4, L1, L2, L3, L4) \<Rightarrow> ansi4_crypt S1 S2 S3 S4 hi lo) = (A1, A2, A3, A4, B1, B2, B3, B4)"
    using e unfolding L_def by (simp only: ansi4_mix_pipes pipe4_def ansi4_crypt_pipes encrypt_mix_pipe
        prod.case fst_conv snd_conv)
  obtain w1 f1 where c1: "check_one w k = (w1, f1)" by (rule prod.exhaust)
  obtain w2 f2 where c2: "check_one w1 (nth_key k 1) = (w2, f2)" by (rule prod.exhaust)
  obtain w3 f3 where c3: "check_one w2 (nth_key k 2) = (w3, f3)" by (rule prod.exhaust)
  obtain w4 f4 where c4: "check_one w3 (nth_key k 3) = (w4, f4)" by (rule prod.exhaust)
  have sp: "same_problem w w1" "same_problem w w2" "same_problem w w3" "same_problem w w4"
    using check_one_frame [of w k] check_one_frame [of w1 "nth_key k 1"]
      check_one_frame [of w2 "nth_key k 2"] check_one_frame [of w3 "nth_key k 3"] c1 c2 c3 c4
    by (auto simp: same_problem_def)
  note pipe = check_pipe_nth [of 4 w _ _ _ _, folded k_def hi_def lo_def, OF Suc.prems [folded k_def]]
  have p: "check_pipe w A1 B1 0 = (w1, f1)" "check_pipe w1 A2 B2 1 = (w2, f2)"
    "check_pipe w2 A3 B3 2 = (w3, f3)" "check_pipe w3 A4 B4 3 = (w4, f4)"
    using pipe [of 0 w A1 B1] pipe [of 1 w1 A2 B2] pipe [of 2 w2 A3 B3] pipe [of 3 w3 A4 B4] sp e c1 c2 c3 c4
    by simp_all
  have L0: "L0 w4 = k" using sp by (simp add: same_problem_def k_def)
  have add: "core_key_add 4 k = nth_key k 4"
    using core_key_add_nth [of k 4] Suc.prems by (simp add: aligned_def k_def)
  have "aligned 4 (nth_key k 4)"
    using aligned_nth Suc.prems by (simp add: k_def)
  then have IH: "ansi4_loop m (w4\<lparr>L0 := nth_key k 4\<rparr>) it = block_loop 4 m (w4\<lparr>L0 := nth_key k 4\<rparr>) it"
    using Suc.IH by simp
  have Ls: "[k_lo k, k_mid k, k_hi k] = L 0" "[k_lo k, k_mid k, 1 + L 0 ! 2] = L 1"
    "[k_lo k, k_mid k, 1 + L 1 ! 2] = L 2" "[k_lo k, k_mid k, 1 + L 2 ! 2] = L 3"
    by (simp_all add: L_def)
  obtain S1 S2 S3 S4 L1 L2 L3 L4 where m: "ansi4_mix (?S, ?S, ?S, ?S, L 0, L 1, L 2, L 3)
      = (S1, S2, S3, S4, L1, L2, L3, L4)"
    by (metis prod.exhaust)
  have "ansi4_loop (Suc m) w it = (if f1 then (RESULT_FOUND, w1, it - (of_nat m + 1) * 4)
      else if f2 then (RESULT_FOUND, w2, it - ((of_nat m + 1) * 4 - 1))
      else if f3 then (RESULT_FOUND, w3, it - ((of_nat m + 1) * 4 - 2))
      else if f4 then (RESULT_FOUND, w4, it - ((of_nat m + 1) * 4 - 3))
      else block_loop 4 m (w4\<lparr>L0 := nth_key k 4\<rparr>) it)"
    using crypt by (simp only: ansi4_loop.simps Let_def ansi4_key_init_pipes k_def [symmetric]
        hi_def [symmetric] lo_def [symmetric] Ls m prod.case p L0 add IH)
  moreover have "block_loop 4 (Suc m) w it = \<dots>"
    by (simp add: k_def [symmetric] search_4 c1 c2 [unfolded One_nat_def] c3 c4 L0)
  ultimately show ?case by simp
qed simp


section \<open>The contract of a core\<close>

text \<open>
  What the client relies on: for a whole number of passes of \<open>M\<close> keys from an aligned key, the core is
  a search of the next keys in order. \<open>N\<close> is the number of keys that the core takes from one value of
  \<open>L0\<close>, which is where a match leaves it. The constants have other names than the model's.
\<close>

locale rc5_72_core =
  fixes core :: "unitwork72 \<Rightarrow> u32 \<Rightarrow> resultcode \<times> unitwork72 \<times> u32" and N M :: nat
  assumes N_pipes: "N dvd 256" and N_M: "N dvd M" and M_pipes: "M dvd 256"
    and core_search: "aligned N (L0 w) \<Longrightarrow> M dvd unat it \<Longrightarrow> core w it = search_result N w (unat it)"
begin

lemma N_pos: "0 < N"
  using N_pipes by (cases N) simp_all

lemma core_nothing:
  assumes "aligned N (L0 w)" "M dvd unat it" "core w it = (RESULT_NOTHING, w', it')"
  shows "it' = it" "\<forall>d < unat it. \<not> hit w (nth_key (L0 w) d)" "L0 w' = nth_key (L0 w) (unat it)"
    "same_problem w (w'\<lparr>L0 := L0 w\<rparr>)"
proof -
  obtain w'' d where s: "search w (L0 w) (unat it) = (w'', d)" by (rule prod.exhaust)
  have r: "search_result N w (unat it) = (RESULT_NOTHING, w', it')"
    using core_search [OF assms(1,2)] assms(3) by simp
  then have d: "d = None" by (cases d) (simp_all add: search_result_def s)
  show "it' = it" "L0 w' = nth_key (L0 w) (unat it)"
    using r by (auto simp: search_result_def s d)
  show "\<forall>i < unat it. \<not> hit w (nth_key (L0 w) i)"
    using search_None [of w "L0 w" "unat it"] s d by simp
  show "same_problem w (w'\<lparr>L0 := L0 w\<rparr>)"
    using search_frame [of w "L0 w" "unat it"] r by (auto simp: search_result_def s d same_problem_def)
qed

lemma core_found:
  assumes "aligned N (L0 w)" "M dvd unat it" "core w it = (RESULT_FOUND, w', it')"
  shows "unat it' < unat it" "hit w (nth_key (L0 w) (unat it'))"
    "\<forall>d < unat it'. \<not> hit w (nth_key (L0 w) d)"
    "L0 w' = nth_key (L0 w) (unat it' - unat it' mod N)" "same_problem w (w'\<lparr>L0 := L0 w\<rparr>)"
    "check_key w' = nth_key (L0 w) (unat it')"
proof -
  obtain w'' d where s: "search w (L0 w) (unat it) = (w'', d)" by (rule prod.exhaust)
  have r: "search_result N w (unat it) = (RESULT_FOUND, w', it')"
    using core_search [OF assms(1,2)] assms(3) by simp
  then obtain i where d: "d = Some i" by (cases d) (simp_all add: search_result_def s)
  have i: "i < unat it" "hit w (nth_key (L0 w) i)" "\<forall>d<i. \<not> hit w (nth_key (L0 w) d)"
    using search_Some [of w "L0 w" "unat it" i] s d by simp_all
  then have "unat it' = i"
    using r unat_u32_bound [of it] by (auto simp: search_result_def s d unat_of_nat)
  then show "unat it' < unat it" "hit w (nth_key (L0 w) (unat it'))"
    "\<forall>d < unat it'. \<not> hit w (nth_key (L0 w) d)"
    "L0 w' = nth_key (L0 w) (unat it' - unat it' mod N)" "same_problem w (w'\<lparr>L0 := L0 w\<rparr>)"
    "check_key w' = nth_key (L0 w) (unat it')"
    using i r search_frame [of w "L0 w" "unat it"] search_check [of w "L0 w" "unat it"]
    by (auto simp: search_result_def s d same_problem_def)
qed

lemma core_result: "aligned N (L0 w) \<Longrightarrow> M dvd unat it \<Longrightarrow>
    fst (core w it) = RESULT_NOTHING \<or> fst (core w it) = RESULT_FOUND"
  by (simp add: core_search search_result_def split: prod.split option.split)

lemma core_keeps_aligned:
  assumes "aligned N (L0 w)" "M dvd unat it" "core w it = (r, w', it')"
  shows "aligned N (L0 w')"
proof -
  have step: "aligned N (nth_key (L0 w) (N * m))" for m
  proof (induction m)
    case 0
    then show ?case using assms(1) by simp
  next
    case (Suc m)
    then show ?case
      using aligned_nth [OF Suc N_pipes] by (simp add: nth_key_add add.commute)
  qed
  have "N dvd unat it' - unat it' mod N" by (simp add: minus_mod_eq_mult_div)
  then show ?thesis
    using core_result [OF assms(1,2)] core_nothing(3) [OF assms(1,2)] core_found(4) [OF assms(1,2)]
      dvd_trans [OF N_M assms(2)] assms(3) step by (metis dvdE fst_conv)
qed

text \<open>After a run that finds nothing, the next run goes on where it ended.\<close>

lemma core_split:
  assumes "aligned N (L0 w)" "M dvd unat it1" "M dvd unat it2" "unat it1 + unat it2 < 2 ^ 32"
    and "core w it1 = (RESULT_NOTHING, w', it')"
  shows "core w (it1 + it2) = (case core w' it2 of (r, w'', n) \<Rightarrow> (r, w'', it1 + n))"
proof -
  have sum: "unat (it1 + it2) = unat it1 + unat it2"
    using assms(4) by (simp add: unat_plus_u32_if)
  obtain v d where s1: "search w (L0 w) (unat it1) = (v, d)" by (rule prod.exhaust)
  have c1: "search_result N w (unat it1) = (RESULT_NOTHING, w', it')"
    using core_search [OF assms(1,2)] assms(5) by simp
  have d: "d = None" using c1 by (cases d) (simp_all add: search_result_def s1)
  then have w': "w' = v\<lparr>L0 := nth_key (L0 w) (unat it1)\<rparr>"
    using c1 by (auto simp: search_result_def s1)
  have al: "aligned N (L0 w')" using core_keeps_aligned assms(1,2,5) by blast
  obtain u e where s2: "search v (nth_key (L0 w) (unat it1)) (unat it2) = (u, e)" by (rule prod.exhaust)
  have s3: "search w' (nth_key (L0 w) (unat it1)) (unat it2) = (u\<lparr>L0 := nth_key (L0 w) (unat it1)\<rparr>, e)"
    by (simp add: w' search_L0 s2)
  note L0w' = core_nothing(3) [OF assms(1,2,5)]
  have c2: "core w' it2 = search_result N w' (unat it2)" by (rule core_search [OF al assms(3)])
  have all: "search w (L0 w) (unat it1 + unat it2) = (u, map_option ((+) (unat it1)) e)"
    by (simp add: search_add s1 d s2)
  have "M dvd unat (it1 + it2)" using assms(2,3) by (simp add: sum)
  then have "core w (it1 + it2) = search_result N w (unat it1 + unat it2)"
    using core_search [OF assms(1)] by (simp add: sum)
  moreover have "unat it1 + i - (unat it1 + i) mod N = unat it1 + (i - i mod N)" for i
  proof -
    have "(unat it1 + i) mod N = i mod N" using dvd_trans [OF N_M assms(2)] by (metis dvdE mod_mult_self4)
    then show ?thesis by simp
  qed
  ultimately show ?thesis
    unfolding c2 by (cases e) (simp_all add: search_result_def all s3 L0w' nth_key_add)
qed

end

interpretation ref: rc5_72_core rc5_72_unit_func_ansi_ref 1 1
  by unfold_locales (use block_loop_result [of 1] in
    \<open>simp_all add: rc5_72_unit_func_ansi_ref_def ref_loop_block\<close>)

interpretation ansi1: rc5_72_core rc5_72_unit_func_ansi_1 1 1
  by unfold_locales (use block_loop_result [of 1] in
    \<open>simp_all add: rc5_72_unit_func_ansi_1_def ansi1_loop_ref ref_loop_block\<close>)

interpretation ansi2: rc5_72_core rc5_72_unit_func_ansi_2 2 2
  by unfold_locales (use block_loop_result [of 2] in
    \<open>simp_all add: rc5_72_unit_func_ansi_2_def ansi2_loop_block unat_div_distrib\<close>)

interpretation ansi4: rc5_72_core rc5_72_unit_func_ansi_4 4 4
  by unfold_locales (use block_loop_result [of 4] in
    \<open>simp_all add: rc5_72_unit_func_ansi_4_def ansi4_loop_block unat_div_distrib\<close>)



section \<open>Properties\<close>

text \<open>The shift macros of \<open>rotate.h\<close> give the rotation to the left by the count modulo 32,
  for every count.\<close>

theorem ROTL_is_rotation: "ROTL x s = word_rotl (unat s) x \<and> ROTL3 x = word_rotl 3 x"
  by (simp add: ROTL3_def ROTL_rotl)

text \<open>The unrolled schedule is the loop of the reference core: the blocks of \<open>r72ansi1.cpp\<close>
  compute the key table of \<open>r72-ref.cpp\<close>, and those of \<open>r72ansi2.cpp\<close> and \<open>r72ansi4.cpp\<close> compute
  it in every pipeline.\<close>

theorem unrolled_schedules:
  assumes "length L1 = 3" "length L2 = 3" "length L3 = 3" "length L4 = 3"
  shows "fst (ansi1_mix (ansi1_key_init, L1)) = ref_mix ref_init L1 \<and>
    ((case ansi2_key_init of (S1, S2) \<Rightarrow> case ansi2_mix (S1, S2, L1, L2) of (S1, S2, _) \<Rightarrow> (S1, S2))
      = (ref_mix ref_init L1, ref_mix ref_init L2)) \<and>
    ((case ansi4_key_init of (S1, S2, S3, S4) \<Rightarrow>
        case ansi4_mix (S1, S2, S3, S4, L1, L2, L3, L4) of (S1, S2, S3, S4, _) \<Rightarrow> (S1, S2, S3, S4))
      = (ref_mix ref_init L1, ref_mix ref_init L2, ref_mix ref_init L3, ref_mix ref_init L4))"
  using ref_mix_mixed [of ref_init] assms
  by (simp_all add: ref_init_eq [symmetric] ansi2_key_init_pipes ansi4_key_init_pipes
      ansi2_mix_pipes ansi4_mix_pipes pipe2_def pipe4_def)

theorem unrolled_schedules_witness:
  "fst (ansi1_mix (ansi1_key_init, [1, 2, 3])) = ref_mix ref_init [1, 2, 3]"
  using unrolled_schedules [of "[1, 2, 3]" "[0, 0, 0]" "[0, 0, 0]" "[0, 0, 0]"] by simp

text \<open>C25: the four portable cores agree: from a key whose low byte is a multiple of 4 and for a
  multiple of 4 iterations, they return the same result, the same iteration count and the same
  unit of work, except that after a match the cores with more pipelines leave \<open>L0\<close> at the first
  key of the pass.\<close>

theorem ansi_cores_agree:
  assumes "key_ok (L0 w)" "4 dvd unat (k_hi (L0 w))" "4 dvd unat iterations"
    and "rc5_72_unit_func_ansi_ref w iterations = (r, w', it')"
  shows "rc5_72_unit_func_ansi_1 w iterations = (r, w', it') \<and>
    (\<exists>k. rc5_72_unit_func_ansi_2 w iterations = (r, w'\<lparr>L0 := k\<rparr>, it') \<and> (r = RESULT_NOTHING \<longrightarrow> k = L0 w')) \<and>
    (\<exists>k. rc5_72_unit_func_ansi_4 w iterations = (r, w'\<lparr>L0 := k\<rparr>, it') \<and> (r = RESULT_NOTHING \<longrightarrow> k = L0 w'))"
proof (intro conjI)
  have al: "aligned 1 (L0 w)" "aligned 2 (L0 w)" "aligned 4 (L0 w)" "2 dvd unat iterations"
    using assms(1-3) dvd_trans [of 2 4] by (auto simp: aligned_def)
  obtain v d where s: "search w (L0 w) (unat iterations) = (v, d)" by (rule prod.exhaust)
  note r = ref.core_search [OF al(1), of iterations] ansi1.core_search [OF al(1), of iterations]
    ansi2.core_search [OF al(2,4)] ansi4.core_search [OF al(3) assms(3)]
  show "rc5_72_unit_func_ansi_1 w iterations = (r, w', it')"
    using r(1,2) assms(4) by simp
  show "\<exists>k. rc5_72_unit_func_ansi_2 w iterations = (r, w'\<lparr>L0 := k\<rparr>, it') \<and> (r = RESULT_NOTHING \<longrightarrow> k = L0 w')"
    using r(1,3) assms(4) by (cases d) (auto simp: search_result_def s)
  show "\<exists>k. rc5_72_unit_func_ansi_4 w iterations = (r, w'\<lparr>L0 := k\<rparr>, it') \<and> (r = RESULT_NOTHING \<longrightarrow> k = L0 w')"
    using r(1,4) assms(4) by (cases d) (auto simp: search_result_def s)
qed

theorem ansi_cores_agree_witness:
  "\<exists>r w' it' k.
    rc5_72_unit_func_ansi_ref \<lparr>plain_hi = 1, plain_lo = 2, cypher_hi = 3, cypher_lo = 4,
      L0 = \<lparr>k_hi = 252, k_mid = 7, k_lo = 9\<rparr>, check_count = 0, check_key = \<lparr>k_hi = 0, k_mid = 0, k_lo = 0\<rparr>\<rparr> 8
      = (r, w', it') \<and>
    rc5_72_unit_func_ansi_4 \<lparr>plain_hi = 1, plain_lo = 2, cypher_hi = 3, cypher_lo = 4,
      L0 = \<lparr>k_hi = 252, k_mid = 7, k_lo = 9\<rparr>, check_count = 0, check_key = \<lparr>k_hi = 0, k_mid = 0, k_lo = 0\<rparr>\<rparr> 8
      = (r, w'\<lparr>L0 := k\<rparr>, it')"
proof -
  let ?w = "\<lparr>plain_hi = 1, plain_lo = 2, cypher_hi = 3, cypher_lo = 4,
      L0 = \<lparr>k_hi = 252, k_mid = 7, k_lo = 9\<rparr>, check_count = 0, check_key = \<lparr>k_hi = 0, k_mid = 0, k_lo = 0\<rparr>\<rparr>"
  obtain r w' it' where "rc5_72_unit_func_ansi_ref ?w 8 = (r, w', it')"
    by (metis prod.exhaust)
  then show ?thesis
    using ansi_cores_agree [of ?w 8 r w' it'] by (auto simp: key_ok_def is_byte_iff)
qed

text \<open>C24: the four-pipeline core finds the first matching key: it returns \<open>RESULT_FOUND\<close> exactly if
  some key of the range encrypts the plain text to the cypher text; then the count is the offset
  of the first such key and the check fields hold that key. Otherwise \<open>L0\<close> has moved on by the
  iterations.\<close>

theorem ansi4_finds_first:
  assumes "key_ok (L0 w)" "4 dvd unat (k_hi (L0 w))" "4 dvd unat iterations"
    and "rc5_72_unit_func_ansi_4 w iterations = (r, w', it')"
  shows "r = RESULT_FOUND \<and> unat it' < unat iterations \<and> hit w (nth_key (L0 w) (unat it'))
      \<and> (\<forall>d < unat it'. \<not> hit w (nth_key (L0 w) d)) \<and> check_key w' = nth_key (L0 w) (unat it')
    \<or> r = RESULT_NOTHING \<and> it' = iterations \<and> (\<forall>d < unat iterations. \<not> hit w (nth_key (L0 w) d))
      \<and> mangled_val (L0 w') = (mangled_val (L0 w) + unat iterations) mod 2 ^ 72"
proof -
  have al: "aligned 4 (L0 w)" using assms(1,2) by (simp add: aligned_def)
  from ansi4.core_result [OF al assms(3)] assms(4) consider "r = RESULT_NOTHING" | "r = RESULT_FOUND"
    by auto
  then show ?thesis
  proof cases
    case 1
    then show ?thesis
      using ansi4.core_nothing(1-3) [OF al assms(3)] assms(1,4) nth_key_mangled by simp
  next
    case 2
    then show ?thesis using ansi4.core_found [OF al assms(3)] assms(4) by simp
  qed
qed

theorem ansi4_finds_first_witness:
  "\<exists>r w' it'. rc5_72_unit_func_ansi_4 \<lparr>plain_hi = 1, plain_lo = 2, cypher_hi = 3, cypher_lo = 4,
      L0 = \<lparr>k_hi = 252, k_mid = 7, k_lo = 9\<rparr>, check_count = 0, check_key = \<lparr>k_hi = 0, k_mid = 0, k_lo = 0\<rparr>\<rparr> 8
      = (r, w', it') \<and> (r = RESULT_FOUND \<or> r = RESULT_NOTHING)"
proof -
  let ?w = "\<lparr>plain_hi = 1, plain_lo = 2, cypher_hi = 3, cypher_lo = 4,
      L0 = \<lparr>k_hi = 252, k_mid = 7, k_lo = 9\<rparr>, check_count = 0, check_key = \<lparr>k_hi = 0, k_mid = 0, k_lo = 0\<rparr>\<rparr>"
  obtain r w' it' where "rc5_72_unit_func_ansi_4 ?w 8 = (r, w', it')"
    by (metis prod.exhaust)
  then show ?thesis
    using ansi4_finds_first [of ?w 8 r w' it'] by (auto simp: key_ok_def is_byte_iff)
qed

text \<open>A search with the two-pipeline core can be interrupted: after a run of \<open>it1\<close> iterations
  that finds nothing, running the unit of work for \<open>it2\<close> more gives the result and the unit of work
  of one run of \<open>it1 + it2\<close>, and the counts add up.\<close>

theorem ansi2_runs_compose:
  assumes "key_ok (L0 w)" "2 dvd unat (k_hi (L0 w))" "2 dvd unat it1" "2 dvd unat it2"
    and "unat it1 + unat it2 < 2 ^ 32"
    and "rc5_72_unit_func_ansi_2 w it1 = (RESULT_NOTHING, w', it')"
  shows "rc5_72_unit_func_ansi_2 w (it1 + it2)
    = (case rc5_72_unit_func_ansi_2 w' it2 of (r, w'', n) \<Rightarrow> (r, w'', it1 + n))"
  using ansi2.core_split [of w it1 it2] assms by (simp add: aligned_def)

text \<open>Of three cypher texts one is missed by two given keys.\<close>

lemma one_is_missed: "\<exists>c \<in> {0, 1, 2}. \<not> hit (w\<lparr>cypher_lo := c\<rparr>) k \<and> \<not> hit (w\<lparr>cypher_lo := c\<rparr>) k'"
  by (auto simp: hit_def)

theorem ansi2_runs_compose_witness:
  "\<exists>c \<in> {0, 1, 2}. \<exists>w'. rc5_72_unit_func_ansi_2 \<lparr>plain_hi = 1, plain_lo = 2, cypher_hi = 3, cypher_lo = c,
      L0 = \<lparr>k_hi = 254, k_mid = 7, k_lo = 9\<rparr>, check_count = 0, check_key = \<lparr>k_hi = 0, k_mid = 0, k_lo = 0\<rparr>\<rparr> 6
    = (case rc5_72_unit_func_ansi_2 w' 4 of (r, w'', n) \<Rightarrow> (r, w'', 2 + n))"
proof -
  define w where "w c = \<lparr>plain_hi = 1, plain_lo = 2, cypher_hi = 3, cypher_lo = c,
      L0 = \<lparr>k_hi = 254, k_mid = 7, k_lo = 9\<rparr>, check_count = 0, check_key = \<lparr>k_hi = 0, k_mid = 0, k_lo = 0\<rparr>\<rparr>"
    for c
  obtain c where c: "c \<in> {0, 1, 2}" "\<not> hit (w c) (L0 (w c))" "\<not> hit (w c) (nth_key (L0 (w c)) 1)"
    using one_is_missed [of "w 0" "L0 (w 0)" "nth_key (L0 (w 0)) 1"] by (auto simp: w_def)
  have al: "aligned 2 (L0 (w c))" by (simp add: w_def aligned_def key_ok_def is_byte_iff)
  obtain r w' it' where r: "rc5_72_unit_func_ansi_2 (w c) 2 = (r, w', it')" by (metis prod.exhaust)
  have "r \<noteq> RESULT_FOUND"
  proof
    assume "r = RESULT_FOUND"
    then have "unat it' < 2" "hit (w c) (nth_key (L0 (w c)) (unat it'))"
      using ansi2.core_found(1,2) [OF al, of 2 w' it'] r by simp_all
    then show False
      using c(2,3) less_2_cases [of "unat it'"] by auto
  qed
  then have "r = RESULT_NOTHING" using ansi2.core_result [OF al, of 2] r by simp
  then have "rc5_72_unit_func_ansi_2 (w c) (2 + 4)
      = (case rc5_72_unit_func_ansi_2 w' 4 of (r, w'', n) \<Rightarrow> (r, w'', 2 + n))"
    using al r by (intro ansi2_runs_compose) (simp_all add: aligned_def)
  then show ?thesis using c(1) by (auto simp: w_def)
qed


end
