(* ===== verification/Work.thy ===== *)
theory Work
  imports U64Ops Rc5Key
begin

text \<open>
  The work that a problem is loaded with: \<open>ContestWork\<close> of \<open>common/problem.h\<close> with the stubs of
  \<open>ogr/ansi/ogrng.h\<close> and \<open>ogrp2.h\<close>, and the functions of \<open>common/problem.cpp\<close> on it: the works that
  are made up for benchmarks and for random blocks, the subspace that random blocks come from,
  the progress of a work in thousandths, and its size in statistics units. The union of the
  projects is a record with a field for each: the code reads and writes the member of the project
  it is about only. The build is one with the cores of RC5-72, OGR-NG and OGR-P2.
\<close>

section \<open>The data\<close>

record bigcrypto =
  b_key :: key72
  b_iv_hi :: u32
  b_iv_lo :: u32
  b_plain_hi :: u32
  b_plain_lo :: u32
  b_cypher_hi :: u32
  b_cypher_lo :: u32
  b_keysdone_hi :: u32
  b_keysdone_lo :: u32
  b_iterations_hi :: u32
  b_iterations_lo :: u32
  b_randomsubspace :: u32
  b_check_count :: u32
  b_check :: key72

text \<open>\<open>OgrWorkStub\<close> of OGR-NG and \<open>WorkStub\<close> of OGR-P2; the differences are an array of 28 and of 10.\<close>

record ng_workstub =
  ng_marks :: u16
  ng_length :: u16
  ng_diffs :: "u16 list"
  ng_worklength :: u16
  ng_collapsed :: u16

record p2_workstub =
  p2_marks :: u16
  p2_length :: u16
  p2_diffs :: "u16 list"
  p2_worklength :: u32

record ogr_ng_work =
  ngw_stub :: ng_workstub
  ngw_nodes_hi :: u32
  ngw_nodes_lo :: u32
  ngw_ticket_hi :: u32
  ngw_ticket_lo :: u32

record ogr_p2_work =
  p2w_stub :: p2_workstub
  p2w_nodes_hi :: u32
  p2w_nodes_lo :: u32
  p2w_minpos :: u32
  p2w_ticket_hi :: u32
  p2w_ticket_lo :: u32

record contestwork =
  cw_bigcrypto :: bigcrypto
  cw_ogr_ng :: ogr_ng_work
  cw_ogr_p2 :: ogr_p2_work

text \<open>A \<open>ContestWork\<close> set to zero by \<open>memset\<close>.\<close>

definition zero_key :: key72 where
  "zero_key = \<lparr>k_hi = 0, k_mid = 0, k_lo = 0\<rparr>"

definition zero_bigcrypto :: bigcrypto where
  "zero_bigcrypto = \<lparr>b_key = zero_key, b_iv_hi = 0, b_iv_lo = 0, b_plain_hi = 0, b_plain_lo = 0,
     b_cypher_hi = 0, b_cypher_lo = 0, b_keysdone_hi = 0, b_keysdone_lo = 0, b_iterations_hi = 0,
     b_iterations_lo = 0, b_randomsubspace = 0, b_check_count = 0, b_check = zero_key\<rparr>"

definition zero_work :: contestwork where
  "zero_work = \<lparr>cw_bigcrypto = zero_bigcrypto,
     cw_ogr_ng = \<lparr>ngw_stub = \<lparr>ng_marks = 0, ng_length = 0, ng_diffs = replicate 28 0,
         ng_worklength = 0, ng_collapsed = 0\<rparr>,
       ngw_nodes_hi = 0, ngw_nodes_lo = 0, ngw_ticket_hi = 0, ngw_ticket_lo = 0\<rparr>,
     cw_ogr_p2 = \<lparr>p2w_stub = \<lparr>p2_marks = 0, p2_length = 0, p2_diffs = replicate 10 0,
         p2_worklength = 0\<rparr>,
       p2w_nodes_hi = 0, p2w_nodes_lo = 0, p2w_minpos = 0, p2w_ticket_hi = 0, p2w_ticket_lo = 0\<rparr>\<rparr>"

section \<open>Works that are made up\<close>

text \<open>\<open>__gen_benchmark_work\<close>: \<open>None\<close> is the return value -1.\<close>

definition gen_benchmark_work :: "project \<Rightarrow> contestwork \<Rightarrow> contestwork option" where
  "gen_benchmark_work contestid work =
     (case contestid of
        RC5_72 \<Rightarrow>
          Some (work\<lparr>cw_bigcrypto := (cw_bigcrypto work)\<lparr>b_key := zero_key, b_iv_lo := 0, b_iv_hi := 0,
            b_plain_lo := 0, b_plain_hi := 0, b_cypher_lo := 0, b_cypher_hi := 0,
            b_keysdone_lo := 0, b_keysdone_hi := 0, b_iterations_lo := 0, b_iterations_hi := 1,
            b_randomsubspace := 0xffff\<rparr>\<rparr>)
      | OGR_P2 \<Rightarrow>
          let stub = p2w_stub (cw_ogr_p2 work);
              stub = stub\<lparr>p2_marks := 25, p2_worklength := 6, p2_length := 6,
                p2_diffs := (p2_diffs stub)[0 := 6, 1 := 9, 2 := 30, 3 := 14, 4 := 10, 5 := 11, 6 := 0]\<rparr>
          in Some (work\<lparr>cw_ogr_p2 := (cw_ogr_p2 work)\<lparr>p2w_stub := stub, p2w_nodes_lo := 0,
               p2w_nodes_hi := 0, p2w_minpos := 0\<rparr>\<rparr>)
      | OGR_NG \<Rightarrow>
          let stub = ngw_stub (cw_ogr_ng work);
              stub = stub\<lparr>ng_marks := 25, ng_worklength := 6, ng_collapsed := 0, ng_length := 6,
                ng_diffs := (ng_diffs stub)[0 := 6, 1 := 9, 2 := 30, 3 := 14, 4 := 10, 5 := 11, 6 := 0]\<rparr>
          in Some (work\<lparr>cw_ogr_ng := (cw_ogr_ng work)\<lparr>ngw_stub := stub, ngw_nodes_lo := 0,
               ngw_nodes_hi := 0\<rparr>\<rparr>)
      | _ \<Rightarrow> None)"

text \<open>
  \<open>ProblemSetRandomSubspace\<close>: the first argument is the subspace in memory. The second result says
  whether the new one is to be written to the ini file.
\<close>

definition ProblemSetRandomSubspace :: "u32 \<Rightarrow> project \<Rightarrow> u32 \<Rightarrow> bool \<Rightarrow> u32 \<times> bool" where
  "ProblemSetRandomSubspace current contestid subspace updateini =
     (case contestid of
        RC5_72 \<Rightarrow>
          if subspace \<noteq> 0 \<and> subspace < 0x1000 \<and> subspace \<noteq> current then (subspace, updateini)
          else (current, False)
      | _ \<Rightarrow> (current, False))"

text \<open>The encrypted message of the contest, from \<open>common/rsadata.h\<close>.\<close>

definition RC572_IVLO :: u32 where "RC572_IVLO = 0x4C97D541"
definition RC572_IVHI :: u32 where "RC572_IVHI = 0xF6F57A00"
definition RC572_CYPHERLO :: u32 where "RC572_CYPHERLO = 0xBEFCAFE7"
definition RC572_CYPHERHI :: u32 where "RC572_CYPHERHI = 0xA6EC745F"
definition RC572_PLAINLO :: u32 where "RC572_PLAINLO = 0x20656854"
definition RC572_PLAINHI :: u32 where "RC572_PLAINHI = 0x6E6B6E75"

text \<open>\<open>__gen_random_work\<close>: \<open>rnd\<close> is what \<open>Random\<close> returns.\<close>

definition gen_random_work :: "u32 \<Rightarrow> u32 \<Rightarrow> project \<Rightarrow> contestwork option" where
  "gen_random_work rnd subspace contestid =
     (let work = zero_work in
      case contestid of
        RC5_72 \<Rightarrow>
          Some (work\<lparr>cw_bigcrypto := (cw_bigcrypto work)\<lparr>
            b_key := \<lparr>k_hi = shr subspace 4 AND 0x000000ff,
                      k_mid = (rnd AND 0x0fffffff) OR shl (subspace AND 0x0f) 28, k_lo = 0\<rparr>,
            b_iv_lo := RC572_IVLO, b_iv_hi := RC572_IVHI, b_cypher_lo := RC572_CYPHERLO,
            b_cypher_hi := RC572_CYPHERHI, b_plain_lo := RC572_PLAINLO, b_plain_hi := RC572_PLAINHI,
            b_keysdone_lo := 0, b_keysdone_hi := 0, b_iterations_lo := 0, b_iterations_hi := 1,
            b_randomsubspace := 0xffff, b_check_count := 0, b_check := zero_key\<rparr>\<rparr>)
      | _ \<Rightarrow> None)"

section \<open>Progress and size\<close>

text \<open>\<open>__compute_permille\<close>.\<close>

definition compute_permille :: "project \<Rightarrow> contestwork \<Rightarrow> u32" where
  "compute_permille cont_i work =
     (case cont_i of
        OGR_P2 \<Rightarrow>
          (let stub = p2w_stub (cw_ogr_p2 work) in
           if p2_worklength stub > ucast (p2_length stub) then
             ucast (p2_diffs stub ! unat (p2_length stub)) * 10
               + ucast (p2_diffs stub ! (unat (p2_length stub) + 1)) div 10
           else 0)
      | OGR_NG \<Rightarrow>
          (let stub = ngw_stub (cw_ogr_ng work) in
           if ng_worklength stub > ng_length stub then
             let index = (if ng_collapsed stub \<noteq> 0 then -1 else 0) + int (unat (ng_length stub))
             in ucast (ng_diffs stub ! nat index) * 10 + ucast (ng_diffs stub ! nat (index + 1)) div 10
           else 0)
      | RC5_72 \<Rightarrow>
          (let b = cw_bigcrypto work in
           if b_keysdone_lo b \<noteq> 0 \<or> b_keysdone_hi b \<noteq> 0 then
             if b_keysdone_hi b < b_iterations_hi b
                \<or> (b_keysdone_hi b = b_iterations_hi b \<and> b_keysdone_lo b < b_iterations_lo b) then
               let (hi, lo) = u64mul (b_keysdone_hi b) (b_keysdone_lo b) 0 1000;
                   (hi, lo) = fst (u64div hi lo (b_iterations_hi b) (b_iterations_lo b))
               in if lo > 1000 then 1000 else lo
             else 1000
           else 0)
      | _ \<Rightarrow> 0)"

text \<open>
  \<open>WorkGetSWUCount\<close>: the units are in hundredths. The result codes are integers as in the code,
  0 for \<open>RESULT_WORKING\<close>, 1 for \<open>RESULT_NOTHING\<close> and 2 for \<open>RESULT_FOUND\<close>; the second result is
  \<open>*swucount\<close>, not written for another code.
\<close>

definition ogr_swu_units :: "u32 \<Rightarrow> u32 \<Rightarrow> u32" where
  "ogr_swu_units nodes_hi nodes_lo =
     (let tcountlo = nodes_lo + 5000000;
          tcounthi = nodes_hi + (if tcountlo < nodes_lo then 1 else 0);
          ((_, hi), (_, lo)) = u64div tcounthi tcountlo 0 1000000000
      in hi * 100 + lo div 10000000)"

definition WorkGetSWUCount :: "contestwork \<Rightarrow> int \<Rightarrow> project \<Rightarrow> int \<times> u32 option" where
  "WorkGetSWUCount work rescode contestid =
     (if rescode \<noteq> 0 \<and> rescode \<noteq> 2 \<and> rescode \<noteq> 1 then (-1, None)
      else
        let units =
          (case contestid of
             OGR_P2 \<Rightarrow> if rescode \<noteq> 0
               then ogr_swu_units (p2w_nodes_hi (cw_ogr_p2 work)) (p2w_nodes_lo (cw_ogr_p2 work)) else 0
           | OGR_NG \<Rightarrow> if rescode \<noteq> 0
               then ogr_swu_units (ngw_nodes_hi (cw_ogr_ng work)) (ngw_nodes_lo (cw_ogr_ng work)) else 0
           | RC5_72 \<Rightarrow> 100 * b_iterations_hi (cw_bigcrypto work)
           | _ \<Rightarrow> 0)
        in (rescode, Some units))"

section \<open>Lemmas\<close>

lemma compute_permille_RC5_72:
  assumes "v64 (b_keysdone_hi b) (b_keysdone_lo b) * 1000 < 18446744073709551616"
    and "b = cw_bigcrypto work" "0 < v64 (b_iterations_hi b) (b_iterations_lo b)"
  shows "unat (compute_permille RC5_72 work)
    = min 1000 (v64 (b_keysdone_hi b) (b_keysdone_lo b) * 1000 div v64 (b_iterations_hi b) (b_iterations_lo b))"
proof -
  let ?d = "v64 (b_keysdone_hi b) (b_keysdone_lo b)" and ?t = "v64 (b_iterations_hi b) (b_iterations_lo b)"
  consider "?d = 0" | "0 < ?d" "?d < ?t" | "0 < ?d" "?t \<le> ?d"
    by linarith
  then show ?thesis
  proof cases
    case 1
    then show ?thesis by (simp add: compute_permille_def Let_def assms(2) v64_eq_0_iff)
  next
    case 2
    obtain hi lo where m: "u64mul (b_keysdone_hi b) (b_keysdone_lo b) 0 1000 = (hi, lo)"
      by (rule prod.exhaust)
    obtain qh ql r where q: "u64div hi lo (b_iterations_hi b) (b_iterations_lo b) = ((qh, ql), r)"
      by (metis prod.exhaust)
    have "v64 hi lo = ?d * 1000"
      using u64mul_v64 [of "b_keysdone_hi b" "b_keysdone_lo b" 0 1000] m assms(1)
      by (simp add: v64_hi_0)
    then have qv: "v64 qh ql = ?d * 1000 div ?t"
      using u64div_v64(1) [OF _ q] assms(3) by simp
    have "?d * 1000 div ?t < 1000"
      using 2(2) assms(3) by (simp add: div_less_iff_less_mult)
    then have "unat ql = ?d * 1000 div ?t" "unat ql < 1000"
      using qv by (simp_all add: v64_lo [of ql qh])
    moreover have "\<not> 1000 < ql"
      using calculation(2) by (simp add: word_less_nat_alt)
    ultimately show ?thesis
      using 2 v64_less_iff [of "b_keysdone_hi b" "b_iterations_hi b" "b_keysdone_lo b" "b_iterations_lo b"]
      by (auto simp: compute_permille_def Let_def assms(2) [symmetric] m q v64_eq_0_iff)
  next
    case 3
    have "1000 \<le> ?d * 1000 div ?t"
      using 3 assms(3) by (simp add: less_eq_div_iff_mult_less_eq)
    then show ?thesis
      using 3 v64_less_iff [of "b_keysdone_hi b" "b_iterations_hi b" "b_keysdone_lo b" "b_iterations_lo b"]
      by (auto simp: compute_permille_def Let_def assms(2) [symmetric] v64_eq_0_iff)
  qed
qed

lemma ogr_swu_units_eq:
  assumes "v64 nodes_hi nodes_lo + 5000000 < 42949672960000000"
  shows "unat (ogr_swu_units nodes_hi nodes_lo) = (v64 nodes_hi nodes_lo + 5000000) div 10000000"
proof -
  define n where "n = v64 nodes_hi nodes_lo + 5000000"
  define tl where "tl = nodes_lo + 5000000"
  define th where "th = nodes_hi + (if tl < nodes_lo then 1 else 0)"
  have t: "v64 th tl = n"
    using v64_add [of nodes_hi 0 nodes_lo 5000000] assms by (simp add: th_def tl_def n_def v64_hi_0)
  obtain qh ql rh rl where q: "u64div th tl 0 1000000000 = ((qh, ql), (rh, rl))"
    by (metis prod.exhaust)
  have "v64 qh ql = n div 1000000000" "v64 rh rl = n mod 1000000000"
    using u64div_v64 [OF _ q] t by (simp_all add: v64_hi_0)
  moreover have "n div 1000000000 < 42949673" "n mod 1000000000 < 4294967296"
    using assms by (simp_all add: n_def div_less_iff_less_mult less_trans [OF mod_less_divisor])
  ultimately have ql: "unat ql = n div 1000000000" "unat rl = n mod 1000000000"
    by (simp_all add: v64_lo [of ql qh] v64_lo [of rl rh])
  have lo: "unat (rl div 10000000) = n mod 1000000000 div 10000000"
    by (simp add: unat_div_distrib ql)
  have n: "n = n div 1000000000 * 1000000000 + n mod 1000000000" by simp
  have d: "n div 10000000 = n div 1000000000 * 100 + n mod 1000000000 div 10000000"
  proof -
    have "n div 10000000 = (n div 1000000000 * 100 * 10000000 + n mod 1000000000) div 10000000"
      by simp
    then show ?thesis by (subst (asm) div_mult_self3) simp_all
  qed
  have "unat (ql * 100) = n div 1000000000 * 100"
    using \<open>n div 1000000000 < 42949673\<close> by (simp add: unat_word_ariths ql)
  moreover have "n div 10000000 < 4294967296"
    using assms by (simp add: n_def div_less_iff_less_mult)
  ultimately have "unat (ql * 100 + rl div 10000000) = n div 10000000"
    using d by (simp add: unat_plus_u32 lo)
  then show ?thesis
    by (simp add: ogr_swu_units_def Let_def tl_def [symmetric] th_def [symmetric] q n_def)
qed

lemma random_key_val:
  assumes "unat s < 4096"
  shows "plain_val \<lparr>k_hi = shr s 4 AND 0xff, k_mid = (rnd AND 0x0fffffff) OR shl (s AND 0x0f) 28, k_lo = 0\<rparr>
    = unat s * 1152921504606846976 + unat (rnd AND 0x0fffffff) * 4294967296"
    and "unat (rnd AND 0x0fffffff) < 268435456"
proof -
  have m: "(0x0fffffff::u32) = mask 28" "(0x0f::u32) = mask 4"
    by (simp_all add: mask_eq_exp_minus_1)
  have r: "unat (rnd AND 0x0fffffff) = unat rnd mod 268435456" "unat (s AND 0x0f) = unat s mod 16"
    unfolding m take_bit_eq_mask [symmetric] unsigned_take_bit_eq
    by (simp_all only: take_bit_eq_mod) simp_all
  then show "unat (rnd AND 0x0fffffff) < 268435456" by simp
  have "(rnd AND 0x0fffffff) OR shl (s AND 0x0f) 28 = (rnd AND 0x0fffffff) + shl (s AND 0x0f) 28"
    unfolding m by (rule or_eq_plus) (auto simp: bit_shl bit_and_iff bit_mask_iff)
  moreover have "unat (shl (s AND 0x0f) 28) = unat s mod 16 * 268435456"
    by (simp add: unat_shl r)
  ultimately have "unat ((rnd AND 0x0fffffff) OR shl (s AND 0x0f) 28)
      = unat s mod 16 * 268435456 + unat (rnd AND 0x0fffffff)"
    using r by (simp add: unat_plus_u32)
  moreover have "unat (shr s 4 AND 0xff) = unat s div 16"
    using assms by (simp add: halves unat_shr div_less_iff_less_mult)
  moreover have "unat s * 1152921504606846976
      = unat s div 16 * 18446744073709551616 + unat s mod 16 * 1152921504606846976"
    using div_mult_mod_eq [of "unat s" 16] by linarith
  ultimately show "plain_val \<lparr>k_hi = shr s 4 AND 0xff, k_mid = (rnd AND 0x0fffffff) OR shl (s AND 0x0f) 28,
      k_lo = 0\<rparr> = unat s * 1152921504606846976 + unat (rnd AND 0x0fffffff) * 4294967296"
    unfolding plain_val_def key72.select_convs by (simp add: algebra_simps)
qed

section \<open>Properties\<close>

text \<open>The progress of an RC5-72 work is the share of its iterations that is done in thousandths,
  rounded down and cut off at 1000, as long as a thousand times the count fits 64 bits.\<close>

theorem compute_permille_floor:
  assumes "b = cw_bigcrypto work" "0 < v64 (b_iterations_hi b) (b_iterations_lo b)"
    and "v64 (b_keysdone_hi b) (b_keysdone_lo b) * 1000 < 2 ^ 64"
  shows "unat (compute_permille RC5_72 work)
    = min 1000 (v64 (b_keysdone_hi b) (b_keysdone_lo b) * 1000 div v64 (b_iterations_hi b) (b_iterations_lo b))"
  using compute_permille_RC5_72 [of b work] assms by simp

theorem compute_permille_floor_witness:
  "unat (compute_permille RC5_72 (zero_work\<lparr>cw_bigcrypto :=
     zero_bigcrypto\<lparr>b_keysdone_lo := 0xC0000000, b_iterations_hi := 1\<rparr>\<rparr>)) = 750"
  using compute_permille_floor [of "zero_bigcrypto\<lparr>b_keysdone_lo := 0xC0000000, b_iterations_hi := 1\<rparr>" "zero_work\<lparr>cw_bigcrypto :=
     zero_bigcrypto\<lparr>b_keysdone_lo := 0xC0000000, b_iterations_hi := 1\<rparr>\<rparr>"]
  by (simp add: zero_bigcrypto_def v64_def)

text \<open>The statistics units of a finished OGR work are its nodes in hundredths of a Gnode,
  rounded to the nearest, up to about \<open>4 * 10^16\<close> nodes; a running one has none, and those of an
  RC5-72 work are a hundred for every \<open>2^32\<close> iterations.\<close>

theorem WorkGetSWUCount_units:
  assumes "v64 (ngw_nodes_hi (cw_ogr_ng work)) (ngw_nodes_lo (cw_ogr_ng work)) < 42949672950000000"
    and "rescode = 1 \<or> rescode = 2"
  shows "(\<exists>units. WorkGetSWUCount work rescode OGR_NG = (rescode, Some units)
      \<and> unat units = (v64 (ngw_nodes_hi (cw_ogr_ng work)) (ngw_nodes_lo (cw_ogr_ng work)) + 5000000) div 10000000) \<and>
    WorkGetSWUCount work 0 OGR_NG = (0, Some 0) \<and>
    WorkGetSWUCount work rescode RC5_72 = (rescode, Some (100 * b_iterations_hi (cw_bigcrypto work)))"
  using assms by (auto simp: WorkGetSWUCount_def ogr_swu_units_eq)

theorem WorkGetSWUCount_units_witness:
  "\<exists>units. WorkGetSWUCount (zero_work\<lparr>cw_ogr_ng := (cw_ogr_ng zero_work)\<lparr>ngw_nodes_hi := 3\<rparr>\<rparr>) 1 OGR_NG
     = (1, Some units) \<and> unat units = 1288"
  using WorkGetSWUCount_units [of "zero_work\<lparr>cw_ogr_ng := (cw_ogr_ng zero_work)\<lparr>ngw_nodes_hi := 3\<rparr>\<rparr>" 1]
  by (simp add: zero_work_def v64_def)

text \<open>A random block is one of the contest's message that lies in the random subspace: all of its
  \<open>2^32\<close> keys have the subspace as their top 12 bits. The validation of the subspace keeps it
  in 1 to 4095.\<close>

theorem random_block_in_subspace:
  assumes "0 < unat subspace" "unat subspace < 4096" "d < 2 ^ 32"
    and "ProblemSetRandomSubspace subspace RC5_72 new updateini = (s, stored)"
    and "gen_random_work rnd s RC5_72 = Some work"
  shows "0 < unat s \<and> unat s < 4096
    \<and> key_ok (b_key (cw_bigcrypto work))
    \<and> (plain_val (b_key (cw_bigcrypto work)) + d) div 2 ^ 60 = unat s
    \<and> v64 (b_iterations_hi (cw_bigcrypto work)) (b_iterations_lo (cw_bigcrypto work)) = 2 ^ 32
    \<and> b_randomsubspace (cw_bigcrypto work) = 0xffff"
proof -
  have s: "0 < unat s" "unat s < 4096"
    using assms(1,2,4) by (auto simp: ProblemSetRandomSubspace_def word_less_nat_alt unat_gt_0 split: if_splits)
  define r where "r = unat (rnd AND 0x0fffffff)"
  have r: "r < 268435456" using random_key_val(2) [OF s(2), of rnd] by (simp add: r_def)
  have w: "b_key (cw_bigcrypto work) = \<lparr>k_hi = shr s 4 AND 0x000000ff,
      k_mid = (rnd AND 0x0fffffff) OR shl (s AND 0x0f) 28, k_lo = 0\<rparr>"
    "b_iterations_hi (cw_bigcrypto work) = 1" "b_iterations_lo (cw_bigcrypto work) = 0"
    "b_randomsubspace (cw_bigcrypto work) = 0xffff"
    using assms(5) by (auto simp: gen_random_work_def)
  have v: "plain_val (b_key (cw_bigcrypto work)) = unat s * 1152921504606846976 + r * 4294967296"
    using random_key_val(1) [OF s(2), of rnd] by (simp only: w r_def)
  have "r * 4294967296 + d < 1152921504606846976"
    using r assms(3) by simp
  then have "(unat s * 1152921504606846976 + (r * 4294967296 + d)) div 1152921504606846976 = unat s"
    by simp
  then have "(plain_val (b_key (cw_bigcrypto work)) + d) div 2 ^ 60 = unat s"
    by (simp add: v add.assoc)
  moreover have "key_ok (b_key (cw_bigcrypto work))"
    using s(2) by (simp add: w key_ok_def is_byte_iff halves unat_shr)
  ultimately show ?thesis
    using s by (simp add: w v64_def)
qed

theorem random_block_in_subspace_witness:
  "\<exists>work. gen_random_work 0x12345678 0x53C RC5_72 = Some work
     \<and> (plain_val (b_key (cw_bigcrypto work)) + 0xFFFFFFFF) div 2 ^ 60 = 0x53C"
proof -
  obtain work where w: "gen_random_work 0x12345678 0x53C RC5_72 = Some work"
    by (simp add: gen_random_work_def)
  then show ?thesis
    using random_block_in_subspace [of 1 4294967295 "0x53C" True "0x53C" True "0x12345678" work]
    by (simp add: ProblemSetRandomSubspace_def)
qed

end
