(* ===== verification/OgrInterface.thy ===== *)
theory OgrInterface
  imports Prelude
begin

text \<open>
  \<open>ogr/ansi/ogr-interface.h\<close>: the codes an OGR core returns and the table of its functions that
  the problems call. \<open>'m\<close> is the memory buffer a core keeps its state in and \<open>'s\<close> the work stub.
\<close>

definition CORE_S_OK :: int where "CORE_S_OK = 0"
definition CORE_S_CONTINUE :: int where "CORE_S_CONTINUE = 1"
definition CORE_S_SUCCESS :: int where "CORE_S_SUCCESS = 2"
definition CORE_E_MEMORY :: int where "CORE_E_MEMORY = -1"
definition CORE_E_STUB :: int where "CORE_E_STUB = -2"
definition CORE_E_FORMAT :: int where "CORE_E_FORMAT = -3"
definition CORE_E_INTERNAL :: int where "CORE_E_INTERNAL = -4"
definition CORE_E_CORRUPTED :: int where "CORE_E_CORRUPTED = -5"

lemmas core_codes = CORE_S_OK_def CORE_S_CONTINUE_def CORE_S_SUCCESS_def CORE_E_MEMORY_def CORE_E_STUB_def
  CORE_E_FORMAT_def CORE_E_INTERNAL_def CORE_E_CORRUPTED_def

text \<open>\<open>CoreDispatchTable\<close>.\<close>

record ('m, 's) ogr_dispatch =
  od_init :: int
  od_create :: "'s \<Rightarrow> 'm \<Rightarrow> u32 \<Rightarrow> int \<times> 's \<times> 'm"
  od_cycle :: "'m \<Rightarrow> int \<Rightarrow> bool \<Rightarrow> int \<times> int \<times> 'm"
  od_getresult :: "'m \<Rightarrow> 's \<Rightarrow> int \<times> 's"
  od_destroy :: "'m \<Rightarrow> int \<times> 'm"

end
