(* ===== verification/OgrBitmap.thy ===== *)
theory OgrBitmap
  imports Prelude
begin

text \<open>
  The bitmaps of the OGR-NG core in its 32-bit form: \<open>ogr/ansi/ogrng-32.h\<close>, the level record of
  \<open>ogr/ansi/ogrng_corestate.h\<close> and the C form of \<open>LOOKUP_FIRSTBLANK\<close> in \<open>ogr/ansi/first_blank.h\<close>.
  A bitmap is an array of eight 32-bit words. Its first position is the highest bit of word 0.
  The lemmas describe every macro by the positions that are set before and after it.
\<close>

section \<open>The first blank of a word\<close>

definition ogr_first_blank_8bit :: "nat list" where
  "ogr_first_blank_8bit = replicate 128 1 @ replicate 64 2 @ replicate 32 3 @ replicate 16 4 @
     [5, 5, 5, 5, 5, 5, 5, 5, 6, 6, 6, 6, 7, 7, 8, 9]"

definition LOOKUP_FIRSTBLANK :: "u32 \<Rightarrow> nat" where
  "LOOKUP_FIRSTBLANK input =
     (let result = 0;
          (input, result) = (if input \<ge> - shl 1 (32 - 16) then (shl input 16, result + 16) else (input, result));
          (input, result) = (if input \<ge> - shl 1 (32 - 8) then (shl input 8, result + 8) else (input, result))
      in result + ogr_first_blank_8bit ! unat (shr input (32 - 8)))"

text \<open>\<open>leading w r\<close>: the first clear bit of \<open>w\<close>, counted from the highest one, is number \<open>r\<close>;
  \<open>r = 33\<close> when there is none.\<close>

definition leading :: "u32 \<Rightarrow> nat \<Rightarrow> bool" where
  "leading w r \<longleftrightarrow> 1 \<le> r \<and> r \<le> 33 \<and> (\<forall>i. 1 \<le> i \<and> i < r \<longrightarrow> bit w (32 - i)) \<and> (r \<le> 32 \<longrightarrow> \<not> bit w (32 - r))"

lemma leading_unique: "leading w r \<Longrightarrow> leading w r' \<Longrightarrow> r = r'"
proof (rule ccontr)
  assume l: "leading w r" "leading w r'" and "r \<noteq> r'"
  then consider "r < r'" | "r' < r" by linarith
  then show False
  proof cases
    case 1
    then have "bit w (32 - r)" "\<not> bit w (32 - r)" using l by (auto simp: leading_def)
    then show False by simp
  next
    case 2
    then have "bit w (32 - r')" "\<not> bit w (32 - r')" using l by (auto simp: leading_def)
    then show False by simp
  qed
qed

lemma shr_ones:
  assumes "n < 32"
  shows "shr w (32 - n) = (mask n :: u32) \<longleftrightarrow> (\<forall>i. 1 \<le> i \<and> i \<le> n \<longrightarrow> bit w (32 - i))"
proof
  assume eq: "shr w (32 - n) = mask n"
  show "\<forall>i. 1 \<le> i \<and> i \<le> n \<longrightarrow> bit w (32 - i)"
  proof (intro allI impI)
    fix i assume i: "1 \<le> i \<and> i \<le> n"
    have "bit (shr w (32 - n)) (n - i)"
      using i assms by (simp add: eq bit_mask_iff)
    then show "bit w (32 - i)" using i assms by (simp add: bit_shr)
  qed
next
  assume h: "\<forall>i. 1 \<le> i \<and> i \<le> n \<longrightarrow> bit w (32 - i)"
  show "shr w (32 - n) = mask n"
  proof (rule bit_word_eqI)
    fix i assume "i < LENGTH(32)"
    then show "bit (shr w (32 - n)) i \<longleftrightarrow> bit (mask n :: u32) i"
      using h [rule_format, of "n - i"] assms
      by (cases "i < n") (auto simp: bit_shr bit_mask_iff dest: bit_imp_le_length)
  qed
qed

lemma ge_ones: "- shl 1 16 \<le> (w::u32) \<longleftrightarrow> shr w 16 = mask 16" "- shl 1 24 \<le> (w::u32) \<longleftrightarrow> shr w 24 = mask 8"
proof -
  have m: "- shl 1 16 = (4294901760 :: u32)" "- shl 1 24 = (4278190080 :: u32)"
    "mask 16 = (65535 :: u32)" "mask 8 = (255 :: u32)"
    by (simp_all add: shl_def mask_eq_exp_minus_1)
  have d: "shr w 16 = 65535 \<longleftrightarrow> unat w div 65536 = 65535" "shr w 24 = 255 \<longleftrightarrow> unat w div 16777216 = 255"
    unfolding word_unat_eq_iff unat_shr by simp_all
  show "- shl 1 16 \<le> w \<longleftrightarrow> shr w 16 = mask 16" "- shl 1 24 \<le> w \<longleftrightarrow> shr w 24 = mask 8"
    using unat_u32_bound [of w] unfolding m d word_le_nat_alt
    by (auto simp: div_nat_eqI)
qed

lemma leading_shl:
  assumes k: "k < 32" and top: "\<forall>i. 1 \<le> i \<and> i \<le> k \<longrightarrow> bit w (32 - i)"
    and l: "leading (shl w k) r" and r: "r \<le> 33 - k"
  shows "leading w (k + r)"
proof -
  have "bit w (32 - i)" if i: "1 \<le> i" "i < k + r" for i
  proof (cases "i \<le> k")
    case False
    then have "1 \<le> i - k \<and> i - k < r" using i by auto
    then have "bit (shl w k) (32 - (i - k))"
      using l unfolding leading_def by blast
    then show ?thesis using False i by (simp add: bit_shl)
  qed (use top i in blast)
  moreover have "\<not> bit w (32 - (k + r))" if "k + r \<le> 32"
  proof -
    have "\<not> bit (shl w k) (32 - r)" "1 \<le> r" using l that by (auto simp: leading_def)
    then show ?thesis using that by (simp add: bit_shl add.commute [of r k])
  qed
  ultimately show ?thesis
    using l r k by (auto simp: leading_def)
qed

lemma table_nth:
  assumes "b < 256"
  shows "ogr_first_blank_8bit ! b = (if b < 128 then 1 else if b < 192 then 2 else if b < 224 then 3
    else if b < 240 then 4 else if b < 248 then 5 else if b < 252 then 6 else if b < 254 then 7
    else if b < 255 then 8 else 9)"
proof (cases "b < 240")
  case True
  then show ?thesis by (simp add: ogr_first_blank_8bit_def nth_append) linarith
next
  case False
  then have "240 \<le> b" by simp
  then obtain k where "b = 240 + k" using le_iff_add by blast
  then have k: "b = 240 + k" "k < 16" using assms by simp_all
  have "k \<in> set [0..<16]" using k by simp
  moreover have "\<forall>k\<in>set [0..<16]. [5, 5, 5, 5, 5, 5, 5, 5, 6, 6, 6, 6, 7, 7, 8, 9 :: nat] ! k
      = (if k < 8 then 5 else if k < 12 then 6 else if k < 14 then 7 else if k < 15 then 8 else 9)"
    by code_simp
  ultimately show ?thesis unfolding k by (auto simp: ogr_first_blank_8bit_def nth_append)
qed

lemma div_ones:
  assumes "k \<le> 8" "256 - 2 ^ k \<le> b" "b < (256::nat)"
  shows "b div 2 ^ k = 2 ^ (8 - k) - 1"
proof -
  have p: "2 ^ k * 2 ^ (8 - k) = (256::nat)" using assms(1) by (simp add: power_add [symmetric])
  have "(2 ^ (8 - k) - 1) * 2 ^ k \<le> b" "b < Suc (2 ^ (8 - k) - 1) * 2 ^ k"
    using p assms by (simp_all add: algebra_simps)
  then show ?thesis by (intro div_nat_eqI) (simp_all only: mult.commute)
qed

lemma table_leading:
  assumes "b < 256"
  shows "1 \<le> ogr_first_blank_8bit ! b \<and> ogr_first_blank_8bit ! b \<le> 9
     \<and> (ogr_first_blank_8bit ! b = 9 \<longleftrightarrow> b = 255)
     \<and> (\<forall>i\<in>set [1..<ogr_first_blank_8bit ! b]. bit b (8 - i))
     \<and> (ogr_first_blank_8bit ! b \<le> 8 \<longrightarrow> \<not> bit b (8 - ogr_first_blank_8bit ! b))"
proof (intro conjI ballI impI)
  let ?r = "ogr_first_blank_8bit ! b"
  note r = table_nth [OF assms]
  show "1 \<le> ?r" "?r \<le> 9" "?r = 9 \<longleftrightarrow> b = 255" unfolding r using assms by auto
  have lo: "256 - 2 ^ (9 - ?r) \<le> b" unfolding r by simp
  show "bit b (8 - i)" if "i \<in> set [1..<?r]" for i
  proof -
    have "(2::nat) ^ (9 - ?r) \<le> 2 ^ (8 - i)" using that by (intro power_increasing) auto
    then have "256 - 2 ^ (8 - i) \<le> b" using lo by linarith
    then have "b div 2 ^ (8 - i) = 2 ^ i - 1"
      using div_ones [of "8 - i" b] assms that \<open>?r \<le> 9\<close> by simp
    then show ?thesis using that by (auto simp: bit_iff_odd)
  qed
  show "\<not> bit b (8 - ?r)" if "?r \<le> 8"
  proof -
    have "256 - 2 ^ (8 - ?r) \<le> b + 2 ^ (8 - ?r)" "b + 2 ^ (8 - ?r) < 256"
      using assms that unfolding r by (auto split: if_splits)
    then have "(b + 2 ^ (8 - ?r)) div 2 ^ (8 - ?r) = 2 ^ ?r - 1"
      using div_ones [of "8 - ?r" "b + 2 ^ (8 - ?r)"] that by simp
    moreover have "(b + 2 ^ (8 - ?r)) div 2 ^ (8 - ?r) = b div 2 ^ (8 - ?r) + 1"
      by (rule div_add_self2) simp
    ultimately have "b div 2 ^ (8 - ?r) + 1 = 2 ^ ?r - 1" by linarith
    moreover have "odd (2 ^ ?r - 1 :: nat)" using \<open>1 \<le> ?r\<close> by auto
    ultimately have "odd (b div 2 ^ (8 - ?r) + 1)" by metis
    then show ?thesis by (simp add: bit_iff_odd)
  qed
qed

lemma leading_byte:
  assumes "unat (shr v 24) \<noteq> 255 \<or> \<not> bit v 23"
  shows "leading v (ogr_first_blank_8bit ! unat (shr v 24))"
    and "ogr_first_blank_8bit ! unat (shr v 24) \<le> 9"
    and "unat (shr v 24) \<noteq> 255 \<Longrightarrow> ogr_first_blank_8bit ! unat (shr v 24) \<le> 8"
proof -
  let ?b = "unat (shr v 24)"
  have b: "?b < 256" using unat_u32_bound [of v] unfolding unat_shr by (simp add: div_less_iff_less_mult)
  note t = table_leading [OF b]
  have bits: "bit ?b i \<longleftrightarrow> bit v (24 + i)" for i
    by (simp add: bit_shr bit_unsigned_iff)
  have "bit v (32 - i)" if "1 \<le> i" "i < ogr_first_blank_8bit ! ?b" for i
  proof -
    have "bit ?b (8 - i)" "i < 9" using t that by auto
    then show ?thesis using that unfolding bits by simp
  qed
  moreover have "\<not> bit v (32 - ogr_first_blank_8bit ! ?b)"
  proof (cases "ogr_first_blank_8bit ! ?b = 9")
    case True
    then show ?thesis using assms t by simp
  next
    case False
    then have "\<not> bit ?b (8 - ogr_first_blank_8bit ! ?b)" "ogr_first_blank_8bit ! ?b \<le> 8"
      using t by auto
    then show ?thesis unfolding bits by simp
  qed
  ultimately show "leading v (ogr_first_blank_8bit ! ?b)"
    using t by (auto simp: leading_def)
  show "ogr_first_blank_8bit ! ?b \<le> 9" "?b \<noteq> 255 \<Longrightarrow> ogr_first_blank_8bit ! ?b \<le> 8"
    using t by (auto simp: le_less)
qed

lemma FIRSTBLANK_leading: "leading w (LOOKUP_FIRSTBLANK w)"
proof -
  define u k where "u = (if shr w 16 = mask 16 then shl w 16 else w)" and "k = (if shr w 16 = mask 16 then 16 else 0 :: nat)"
  define v j where "v = (if shr u 24 = mask 8 then shl u 8 else u)" and "j = (if shr u 24 = mask 8 then 8 else 0 :: nat)"
  have f: "LOOKUP_FIRSTBLANK w = k + (j + ogr_first_blank_8bit ! unat (shr v 24))"
    by (auto simp: LOOKUP_FIRSTBLANK_def ge_ones u_def k_def v_def j_def Let_def)
  have top16: "shr w 16 = mask 16 \<longleftrightarrow> (\<forall>i. 1 \<le> i \<and> i \<le> 16 \<longrightarrow> bit w (32 - i))"
    using shr_ones [of 16 w] by simp
  have top8: "shr x 24 = mask 8 \<longleftrightarrow> (\<forall>i. 1 \<le> i \<and> i \<le> 8 \<longrightarrow> bit x (32 - i))" for x :: u32
    using shr_ones [of 8 x] by simp
  have m255: "unat (shr v 24) \<noteq> 255" if "shr v 24 \<noteq> mask 8"
    using that by (auto simp: mask_eq_exp_minus_1 word_unat_eq_iff)
  have full: "\<not> bit v 23" if "shr v 24 = mask 8"
  proof (cases "shr u 24 = mask 8")
    case j: True
    show ?thesis
    proof (cases "shr w 16 = mask 16")
      case True
      then show ?thesis using j by (simp add: v_def u_def bit_shl)
    next
      case False
      then have uw: "u = w" "v = shl w 8" using j by (auto simp: u_def v_def)
      have "bit w (32 - i)" if i: "1 \<le> i" "i \<le> 16" for i
      proof (cases "i \<le> 8")
        case True
        then show ?thesis using j i top8 [of w] uw by auto
      next
        case False
        then have "1 \<le> i - 8 \<and> i - 8 \<le> 8" using i by auto
        then have "bit v (32 - (i - 8))"
          using \<open>shr v 24 = mask 8\<close> top8 [of v] by blast
        then show ?thesis using False i by (simp add: uw bit_shl)
      qed
      then show ?thesis using False top16 by blast
    qed
  next
    case False
    then have "v = u" by (simp add: v_def)
    then show ?thesis using that False by simp
  qed
  have v: "leading v (ogr_first_blank_8bit ! unat (shr v 24))" "ogr_first_blank_8bit ! unat (shr v 24) \<le> 9"
    using leading_byte [of v] m255 full by blast+
  let ?t = "ogr_first_blank_8bit ! unat (shr v 24)"
  have u: "leading u (j + ?t)"
  proof (cases "shr u 24 = mask 8")
    case True
    then show ?thesis using v leading_shl [of 8 u ?t] top8 [of u] by (simp add: v_def j_def)
  next
    case False
    then show ?thesis using v(1) by (simp add: v_def j_def)
  qed
  have "j + ?t \<le> 17" using v(2) by (simp add: j_def)
  show ?thesis
  proof (cases "shr w 16 = mask 16")
    case True
    then show ?thesis
      unfolding f using u \<open>j + ?t \<le> 17\<close> leading_shl [of 16 w "j + ?t"] top16 by (simp add: u_def k_def)
  next
    case False
    then show ?thesis unfolding f using u by (simp add: u_def k_def)
  qed
qed

lemma FIRSTBLANK_eq: "leading w r \<Longrightarrow> LOOKUP_FIRSTBLANK w = r"
  using FIRSTBLANK_leading leading_unique by blast

section \<open>Levels and the macros\<close>

text \<open>\<open>struct OgrLevel\<close>, and the variables \<open>comp0\<close>, \<open>dist0\<close> and \<open>newbit\<close> that \<open>SETUP_TOP_STATE\<close>
  declares. \<open>dist0\<close> is not initialised there; every use is after a push or a pop.\<close>

record ogr_level =
  lev_list :: "u32 list"
  lev_dist :: "u32 list"
  lev_comp :: "u32 list"
  lev_mark :: int
  lev_limit :: int

record ogr_top =
  comp0 :: u32
  dist0 :: u32
  newbit :: u32

definition zero_level :: ogr_level where
  "zero_level = \<lparr>lev_list = replicate 8 0, lev_dist = replicate 8 0, lev_comp = replicate 8 0,
     lev_mark = 0, lev_limit = 0\<rparr>"

definition SETUP_TOP_STATE :: "ogr_level \<Rightarrow> int \<Rightarrow> int \<Rightarrow> u32 \<Rightarrow> ogr_top" where
  "SETUP_TOP_STATE lev depth maxdepthm1 uninit =
     \<lparr>comp0 = lev_comp lev ! 0, dist0 = uninit, newbit = (if depth < maxdepthm1 then 1 else 0)\<rparr>"

definition COMP_LEFT_LIST_RIGHT :: "ogr_level \<Rightarrow> ogr_top \<Rightarrow> nat \<Rightarrow> ogr_level \<times> ogr_top" where
  "COMP_LEFT_LIST_RIGHT lev t s =
     (let ss = 32 - s;
          l = lev_list lev; c = lev_comp lev;
          temp1 = shl (newbit t) ss;
          temp2 = shl (l ! 0) ss;
          l0 = shr (l ! 0) s OR temp1;
          temp1 = shl (l ! 1) ss;
          l1 = shr (l ! 1) s OR temp2;
          temp2 = shl (l ! 2) ss;
          l2 = shr (l ! 2) s OR temp1;
          temp1 = shl (l ! 3) ss;
          l3 = shr (l ! 3) s OR temp2;
          temp2 = shl (l ! 4) ss;
          l4 = shr (l ! 4) s OR temp1;
          temp1 = shl (l ! 5) ss;
          l5 = shr (l ! 5) s OR temp2;
          temp2 = shl (l ! 6) ss;
          l6 = shr (l ! 6) s OR temp1;
          temp1 = shr (c ! 1) ss;
          l7 = shr (l ! 7) s OR temp2;
          temp2 = shr (c ! 2) ss;
          c0 = shl (c ! 0) s OR temp1;
          temp1 = shr (c ! 3) ss;
          c1 = shl (c ! 1) s OR temp2;
          temp2 = shr (c ! 4) ss;
          c2 = shl (c ! 2) s OR temp1;
          temp1 = shr (c ! 5) ss;
          c3 = shl (c ! 3) s OR temp2;
          temp2 = shr (c ! 6) ss;
          c4 = shl (c ! 4) s OR temp1;
          temp1 = shr (c ! 7) ss;
          c5 = shl (c ! 5) s OR temp2;
          c7 = shl (c ! 7) s;
          c6 = shl (c ! 6) s OR temp1
      in (lev\<lparr>lev_list := [l0, l1, l2, l3, l4, l5, l6, l7], lev_comp := [c0, c1, c2, c3, c4, c5, c6, c7]\<rparr>,
          t\<lparr>comp0 := c0, newbit := 0\<rparr>))"

definition COMP_LEFT_LIST_RIGHT_WORD :: "ogr_level \<Rightarrow> ogr_top \<Rightarrow> ogr_level \<times> ogr_top" where
  "COMP_LEFT_LIST_RIGHT_WORD lev t =
     (let l = lev_list lev; c = lev_comp lev
      in (lev\<lparr>lev_list := [newbit t, l ! 0, l ! 1, l ! 2, l ! 3, l ! 4, l ! 5, l ! 6],
              lev_comp := [c ! 1, c ! 2, c ! 3, c ! 4, c ! 5, c ! 6, c ! 7, 0]\<rparr>,
          t\<lparr>comp0 := c ! 1, newbit := 0\<rparr>))"

text \<open>The next level, with its mark and limit as they were; the macro does not touch them.\<close>

definition PUSH_LEVEL_UPDATE_STATE :: "ogr_level \<Rightarrow> ogr_level \<Rightarrow> ogr_top \<Rightarrow> ogr_level \<times> ogr_top" where
  "PUSH_LEVEL_UPDATE_STATE lev lev2 t =
     (let l = lev_list lev; d = lev_dist lev; c = lev_comp lev;
          d0 = d ! 0 OR l ! 0; d1 = d ! 1 OR l ! 1; d2 = d ! 2 OR l ! 2; d3 = d ! 3 OR l ! 3;
          d4 = d ! 4 OR l ! 4; d5 = d ! 5 OR l ! 5; d6 = d ! 6 OR l ! 6; d7 = d ! 7 OR l ! 7;
          c0 = c ! 0 OR d0
      in (lev2\<lparr>lev_list := [l ! 0, l ! 1, l ! 2, l ! 3, l ! 4, l ! 5, l ! 6, l ! 7],
               lev_dist := [d0, d1, d2, d3, d4, d5, d6, d7],
               lev_comp := [c0, c ! 1 OR d1, c ! 2 OR d2, c ! 3 OR d3, c ! 4 OR d4, c ! 5 OR d5,
                            c ! 6 OR d6, c ! 7 OR d7]\<rparr>,
          t\<lparr>comp0 := c0, dist0 := d0, newbit := 1\<rparr>))"

definition POP_LEVEL :: "ogr_level \<Rightarrow> ogr_top" where
  "POP_LEVEL lev = \<lparr>comp0 = lev_comp lev ! 0, dist0 = lev_dist lev ! 0, newbit = 0\<rparr>"

section \<open>The positions a bitmap holds\<close>

text \<open>\<open>at ws p\<close>: position \<open>p\<close> of the bitmap is set; positions count from 1 to 256.\<close>

definition at :: "u32 list \<Rightarrow> nat \<Rightarrow> bool" where
  "at ws p \<longleftrightarrow> 1 \<le> p \<and> p \<le> 256 \<and> bit (ws ! ((p - 1) div 32)) (31 - (p - 1) mod 32)"

lemma at_range: "at ws p \<Longrightarrow> 1 \<le> p \<and> p \<le> 256"
  by (simp add: at_def)

lemma at_word: "i < 8 \<Longrightarrow> r < 32 \<Longrightarrow> at ws (32 * i + r + 1) \<longleftrightarrow> bit (ws ! i) (31 - r)"
  by (simp add: at_def)

lemma at_cases:
  fixes p :: nat
  assumes "1 \<le> p" "p \<le> 256"
  obtains i r where "i < 8" "r < 32" "p = 32 * i + r + 1"
proof -
  have "p = 32 * ((p - 1) div 32) + (p - 1) mod 32 + 1" "(p - 1) div 32 < 8" "(p - 1) mod 32 < 32"
    using assms mult_div_mod_eq [of 32 "p - 1"] by (simp_all add: div_less_iff_less_mult)
  then show ?thesis using that by blast
qed

lemma less_8: "i < (8::nat) \<longleftrightarrow> i = 0 \<or> i = 1 \<or> i = 2 \<or> i = 3 \<or> i = 4 \<or> i = 5 \<or> i = 6 \<or> i = 7"
  by linarith

lemma bitmap_eqI:
  assumes "length xs = 8" "length ys = 8" "\<And>p. 1 \<le> p \<Longrightarrow> p \<le> 256 \<Longrightarrow> at xs p \<longleftrightarrow> at ys p"
  shows "xs = ys"
proof (rule nth_equalityI)
  fix i assume "i < length xs"
  then have i: "i < 8" using assms by simp
  show "xs ! i = ys ! i"
  proof (rule bit_word_eqI)
    fix n assume "n < LENGTH(32)"
    then show "bit (xs ! i) n \<longleftrightarrow> bit (ys ! i) n"
      using i assms(3) [of "32 * i + (31 - n) + 1"] at_word [of i "31 - n" xs] at_word [of i "31 - n" ys]
      by simp
  qed
qed (use assms in simp)

text \<open>Word 0 holds the positions 1 to 32.\<close>

lemma at_word0: "1 \<le> p \<Longrightarrow> p \<le> 32 \<Longrightarrow> at ws p \<longleftrightarrow> bit (ws ! 0) (32 - p)"
  by (simp add: at_def)

lemma at_replicate [simp]: "\<not> at (replicate 8 0) p"
proof
  assume "at (replicate 8 0) p"
  moreover from this have "1 \<le> p" "p \<le> 256" using at_range by blast+
  then obtain i r where "i < 8" "r < 32" "p = 32 * i + r + 1" by (rule at_cases)
  ultimately show False using at_word [of i r "replicate 8 0"] by simp
qed

section \<open>What the macros do to the positions\<close>

lemma nth_Cons_8: "i < 8 \<Longrightarrow> [x0, x1, x2, x3, x4, x5, x6, x7] ! i =
    (if i = 0 then x0 else if i = 1 then x1 else if i = 2 then x2 else if i = 3 then x3
     else if i = 4 then x4 else if i = 5 then x5 else if i = 6 then x6 else x7)"
  unfolding less_8 by (elim disjE) simp_all

lemma bit_shift_left:
  assumes "0 < s" "s < 32" "r < 32"
  shows "bit (shl a s OR shr b (32 - s) :: u32) (31 - r)
    \<longleftrightarrow> (if r + s < 32 then bit a (31 - (r + s)) else bit b (31 - (r + s - 32)))"
proof (cases "r + s < 32")
  case True
  then have "\<not> bit b (32 - s + (31 - r))" using assms by (auto dest: bit_imp_le_length)
  then show ?thesis using True assms by (auto simp: bit_or_iff bit_shl bit_shr)
next
  case False
  then have "32 - s + (31 - r) = 31 - (r + s - 32)" using assms by linarith
  then show ?thesis using False assms by (auto simp: bit_or_iff bit_shl bit_shr)
qed

lemma bit_shift_right:
  assumes "0 < s" "s < 32" "r < 32"
  shows "bit (shr a s OR shl b (32 - s) :: u32) (31 - r)
    \<longleftrightarrow> (if s \<le> r then bit a (31 - (r - s)) else bit b (31 - (r + 32 - s)))"
proof (cases "s \<le> r")
  case True
  then have "s + (31 - r) = 31 - (r - s)" using assms by linarith
  then show ?thesis using True assms by (auto simp: bit_or_iff bit_shl bit_shr)
next
  case False
  then have "\<not> bit a (s + (31 - r))" "31 - r - (32 - s) = 31 - (r + 32 - s)"
    using assms by (auto dest: bit_imp_le_length)
  then show ?thesis using False assms by (auto simp: bit_or_iff bit_shl bit_shr)
qed

lemma SHIFT_frame:
  assumes eq: "COMP_LEFT_LIST_RIGHT lev t s = (lev', t')" and s: "0 < s" "s < 32"
  shows "lev_mark lev' = lev_mark lev" "lev_limit lev' = lev_limit lev" "lev_dist lev' = lev_dist lev"
  "length (lev_list lev') = 8" "length (lev_comp lev') = 8"
  "comp0 t' = lev_comp lev' ! 0" "newbit t' = 0" "dist0 t' = dist0 t"
  using eq by (auto simp: COMP_LEFT_LIST_RIGHT_def Let_def)

lemma SHIFT_comp_word:
  assumes eq: "COMP_LEFT_LIST_RIGHT lev t s = (lev', t')" and s: "0 < s" "s < 32" and "i < 8"
  shows "lev_comp lev' ! i = shl (lev_comp lev ! i) s OR shr (if i < 7 then lev_comp lev ! (i + 1) else 0) (32 - s)"
  using eq \<open>i < 8\<close> unfolding less_8 by (elim disjE) (auto simp: COMP_LEFT_LIST_RIGHT_def Let_def shr_def simp del: One_nat_def)

lemma SHIFT_list_word:
  assumes eq: "COMP_LEFT_LIST_RIGHT lev t s = (lev', t')" and s: "0 < s" "s < 32" and "i < 8"
  shows "lev_list lev' ! i = shr (lev_list lev ! i) s OR shl (if i = 0 then newbit t else lev_list lev ! (i - 1)) (32 - s)"
  using eq \<open>i < 8\<close> unfolding less_8 by (elim disjE) (auto simp: COMP_LEFT_LIST_RIGHT_def Let_def)

lemma SHIFT_comp:
  assumes eq: "COMP_LEFT_LIST_RIGHT lev t s = (lev', t')" and s: "0 < s" "s < 32"
    and pr: "1 \<le> p" "p \<le> 256"
  shows "at (lev_comp lev') p \<longleftrightarrow> at (lev_comp lev) (p + s)"
proof -
  obtain i r where p: "i < 8" "r < 32" "p = 32 * i + r + 1" using pr by (rule at_cases)
  have lhs: "at (lev_comp lev') p \<longleftrightarrow> (if r + s < 32 then bit (lev_comp lev ! i) (31 - (r + s))
      else i < 7 \<and> bit (lev_comp lev ! (i + 1)) (31 - (r + s - 32)))"
    unfolding p(3) at_word [OF p(1,2)] SHIFT_comp_word [OF eq s p(1)] bit_shift_left [OF s p(2)] by simp
  show ?thesis
  proof (cases "r + s < 32")
    case True
    then show ?thesis unfolding lhs using at_word [of i "r + s" "lev_comp lev"] p by (simp add: ac_simps)
  next
    case False
    then have ps: "p + s = 32 * (i + 1) + (r + s - 32) + 1" "r + s - 32 < 32" using p s by simp_all
    show ?thesis
    proof (cases "i < 7")
      case True
      then show ?thesis unfolding lhs ps(1) using at_word [of "i + 1" "r + s - 32" "lev_comp lev"] ps(2) False by simp
    next
      case False
      then have "256 < p + s" using p \<open>\<not> r + s < 32\<close> by linarith
      then show ?thesis unfolding lhs using False \<open>\<not> r + s < 32\<close> at_range [of "lev_comp lev" "p + s"] by auto
    qed
  qed
qed

lemma SHIFT_list:
  assumes eq: "COMP_LEFT_LIST_RIGHT lev t s = (lev', t')" and s: "0 < s" "s < 32"
    and pr: "1 \<le> p" "p \<le> 256" and nb: "newbit t = 0 \<or> newbit t = 1"
  shows "at (lev_list lev') p \<longleftrightarrow> (s < p \<and> at (lev_list lev) (p - s)) \<or> (newbit t = 1 \<and> p = s)"
proof -
  obtain i r where p: "i < 8" "r < 32" "p = 32 * i + r + 1" using pr by (rule at_cases)
  have lhs: "at (lev_list lev') p \<longleftrightarrow> (if s \<le> r then bit (lev_list lev ! i) (31 - (r - s))
      else bit (if i = 0 then newbit t else lev_list lev ! (i - 1)) (31 - (r + 32 - s)))"
    unfolding p(3) at_word [OF p(1,2)] SHIFT_list_word [OF eq s p(1)] bit_shift_right [OF s p(2)] by simp
  show ?thesis
  proof (cases "s \<le> r")
    case True
    then have "p - s = 32 * i + (r - s) + 1" "s < p" using p by linarith+
    then show ?thesis unfolding lhs using True p at_word [of i "r - s" "lev_list lev"] by simp
  next
    case False
    show ?thesis
    proof (cases "i = 0")
      case True
      then have "bit (newbit t) (31 - (r + 32 - s)) \<longleftrightarrow> newbit t = 1 \<and> p = s"
        using nb False p s by (auto simp: bit_1_iff)
      moreover have "\<not> s < p" using True p False by linarith
      ultimately show ?thesis unfolding lhs using True False by simp
    next
      case i: False
      then have ps: "p - s = 32 * (i - 1) + (r + 32 - s) + 1" "s < p" "r + 32 - s < 32" "p \<noteq> s"
        using p s False by (cases i; simp; linarith)+
      then show ?thesis unfolding lhs using False i p(1) at_word [of "i - 1" "r + 32 - s" "lev_list lev"] by simp
    qed
  qed
qed

lemma WORD_frame:
  assumes eq: "COMP_LEFT_LIST_RIGHT_WORD lev t = (lev', t')"
  shows "lev_mark lev' = lev_mark lev" "lev_limit lev' = lev_limit lev" "lev_dist lev' = lev_dist lev"
  "length (lev_list lev') = 8" "length (lev_comp lev') = 8"
  "comp0 t' = lev_comp lev' ! 0" "newbit t' = 0" "dist0 t' = dist0 t"
  using eq by (auto simp: COMP_LEFT_LIST_RIGHT_WORD_def Let_def)

lemma WORD_comp_word:
  assumes eq: "COMP_LEFT_LIST_RIGHT_WORD lev t = (lev', t')" and "i < 8"
  shows "lev_comp lev' ! i = (if i < 7 then lev_comp lev ! (i + 1) else 0)"
  using eq \<open>i < 8\<close> unfolding less_8 by (elim disjE) (auto simp: COMP_LEFT_LIST_RIGHT_WORD_def Let_def simp del: One_nat_def)

lemma WORD_list_word:
  assumes eq: "COMP_LEFT_LIST_RIGHT_WORD lev t = (lev', t')" and "i < 8"
  shows "lev_list lev' ! i = (if i = 0 then newbit t else lev_list lev ! (i - 1))"
  using eq \<open>i < 8\<close> unfolding less_8 by (elim disjE) (auto simp: COMP_LEFT_LIST_RIGHT_WORD_def Let_def )

lemma WORD_comp:
  assumes eq: "COMP_LEFT_LIST_RIGHT_WORD lev t = (lev', t')"
    and pr: "1 \<le> p" "p \<le> 256"
  shows "at (lev_comp lev') p \<longleftrightarrow> at (lev_comp lev) (p + 32)"
proof -
  obtain i r where p: "i < 8" "r < 32" "p = 32 * i + r + 1" using pr by (rule at_cases)
  have ps: "p + 32 = 32 * (i + 1) + r + 1" using p by simp
  show ?thesis
  proof (cases "i < 7")
    case True
    then show ?thesis
      using at_word [of i r "lev_comp lev'"] at_word [of "i + 1" r "lev_comp lev"] p(1,2) WORD_comp_word [OF eq]
      unfolding ps unfolding p(3) by simp
  next
    case False
    then have "256 < p + 32" using p by linarith
    then show ?thesis
      using at_word [of i r "lev_comp lev'"] p WORD_comp_word [OF eq, of i] False at_range [of "lev_comp lev" "p + 32"] by auto
  qed
qed

lemma WORD_list:
  assumes eq: "COMP_LEFT_LIST_RIGHT_WORD lev t = (lev', t')"
    and pr: "1 \<le> p" "p \<le> 256" and nb: "newbit t = 0 \<or> newbit t = 1"
  shows "at (lev_list lev') p \<longleftrightarrow> (32 < p \<and> at (lev_list lev) (p - 32)) \<or> (newbit t = 1 \<and> p = 32)"
proof -
  obtain i r where p: "i < 8" "r < 32" "p = 32 * i + r + 1" using pr by (rule at_cases)
  have lhs: "at (lev_list lev') p \<longleftrightarrow> bit (if i = 0 then newbit t else lev_list lev ! (i - 1)) (31 - r)"
    unfolding p(3) at_word [OF p(1,2)] WORD_list_word [OF eq p(1)] ..
  show ?thesis
  proof (cases "i = 0")
    case True
    then show ?thesis unfolding lhs using p nb by (auto simp: bit_1_iff)
  next
    case False
    then have "p - 32 = 32 * (i - 1) + r + 1" "32 < p" using p by (cases i; simp)+
    then show ?thesis unfolding lhs using False p at_word [of "i - 1" r "lev_list lev"] by simp
  qed
qed

lemma PUSH_frame:
  assumes eq: "PUSH_LEVEL_UPDATE_STATE lev lev2 t = (lev', t')"
  shows "lev_mark lev' = lev_mark lev2" "lev_limit lev' = lev_limit lev2"
  "length (lev_list lev') = 8" "length (lev_dist lev') = 8" "length (lev_comp lev') = 8"
  "comp0 t' = lev_comp lev' ! 0" "dist0 t' = lev_dist lev' ! 0" "newbit t' = 1"
  using eq by (auto simp: PUSH_LEVEL_UPDATE_STATE_def Let_def)

lemma PUSH_word:
  assumes eq: "PUSH_LEVEL_UPDATE_STATE lev lev2 t = (lev', t')"
    and "i < 8"
  shows "lev_list lev' ! i = lev_list lev ! i" "lev_dist lev' ! i = lev_dist lev ! i OR lev_list lev ! i"
    "lev_comp lev' ! i = lev_comp lev ! i OR (lev_dist lev ! i OR lev_list lev ! i)"
  using eq assms unfolding less_8 by (auto simp: PUSH_LEVEL_UPDATE_STATE_def Let_def)

lemma PUSH_at:
  assumes eq: "PUSH_LEVEL_UPDATE_STATE lev lev2 t = (lev', t')"
  shows "at (lev_list lev') p \<longleftrightarrow> at (lev_list lev) p"
  "at (lev_dist lev') p \<longleftrightarrow> at (lev_dist lev) p \<or> at (lev_list lev) p"
  "at (lev_comp lev') p \<longleftrightarrow> at (lev_comp lev) p \<or> at (lev_dist lev) p \<or> at (lev_list lev) p"
proof -
  have "(p - 1) div 32 < 8" if "1 \<le> p" "p \<le> 256" using that by (simp add: div_less_iff_less_mult)
  then show "at (lev_list lev') p \<longleftrightarrow> at (lev_list lev) p"
    "at (lev_dist lev') p \<longleftrightarrow> at (lev_dist lev) p \<or> at (lev_list lev) p"
    "at (lev_comp lev') p \<longleftrightarrow> at (lev_comp lev) p \<or> at (lev_dist lev) p \<or> at (lev_list lev) p"
    by (auto simp: at_def PUSH_word [OF eq] bit_or_iff)
qed

end
