(* ===== verification/OgrRuler.thy ===== *)
theory OgrRuler
  imports Main
begin

text \<open>
  Golomb rulers, and the search for them as a set specification: which positions a mark may take
  after the marks already placed, which rulers a position of the search still has ahead of it,
  and the three laws by which a search may change that set. A ruler under construction is the
  list of its marks with the latest one first; a limit function bounds the next mark. Nothing
  here is code of the client; the OGR-NG core is proved against it.
\<close>

section \<open>Distances\<close>

definition dists :: "int set \<Rightarrow> int set" where
  "dists S = {d. \<exists>a\<in>S. \<exists>b\<in>S. a < b \<and> d = b - a}"

text \<open>The positions that would repeat a distance of at most 256.\<close>

definition forbidden :: "int set \<Rightarrow> int set" where
  "forbidden S = {x. \<exists>m\<in>S. x - m \<in> dists S \<and> x - m \<le> 256}"

definition golomb_upto :: "int \<Rightarrow> int set \<Rightarrow> bool" where
  "golomb_upto n S \<longleftrightarrow> (\<forall>a\<in>S. \<forall>b\<in>S. \<forall>c\<in>S. \<forall>d\<in>S. a < b \<and> b - a = d - c \<and> b - a \<le> n \<longrightarrow> a = c)"

definition golomb :: "int set \<Rightarrow> bool" where
  "golomb S \<longleftrightarrow> (\<forall>a\<in>S. \<forall>b\<in>S. \<forall>c\<in>S. \<forall>d\<in>S. a < b \<and> b - a = d - c \<longrightarrow> a = c)"

lemma dists_pos: "d \<in> dists S \<Longrightarrow> 0 < d"
  by (auto simp: dists_def)

lemma dists_insert:
  assumes "\<forall>m\<in>S. m < x"
  shows "dists (insert x S) = dists S \<union> {x - m |m. m \<in> S}"
  using assms by (fastforce simp: dists_def)

lemma forbidden_insert:
  assumes "\<forall>m\<in>S. m < x" "x < y"
  shows "y \<in> forbidden (insert x S) \<longleftrightarrow> y \<in> forbidden S \<or> (y - x \<in> dists (insert x S) \<and> y - x \<le> 256)"
proof
  assume "y \<in> forbidden (insert x S)"
  then obtain m where m: "m \<in> insert x S" "y - m \<in> dists (insert x S)" "y - m \<le> 256"
    by (auto simp: forbidden_def)
  show "y \<in> forbidden S \<or> (y - x \<in> dists (insert x S) \<and> y - x \<le> 256)"
  proof (cases "m = x \<or> y - m \<in> dists S")
    case True
    then show ?thesis using m by (auto simp: forbidden_def)
  next
    case False
    then obtain k where k: "m \<in> S" "k \<in> S" "y - m = x - k"
      using m dists_insert [OF assms(1)] by auto
    then have "y - x = m - k" "k < m" using assms(2) by linarith+
    moreover have "m - k \<in> dists S" using k \<open>k < m\<close> by (auto simp: dists_def)
    moreover have "y - x \<le> 256" using m(3) k assms(1) by auto
    ultimately show ?thesis using dists_insert [OF assms(1)] by simp
  qed
next
  assume "y \<in> forbidden S \<or> (y - x \<in> dists (insert x S) \<and> y - x \<le> 256)"
  then show "y \<in> forbidden (insert x S)"
    using dists_insert [OF assms(1)] by (auto simp: forbidden_def)
qed

lemma golomb_upto_insert_iff:
  assumes "\<forall>m\<in>S. m < x"
  shows "golomb_upto n (insert x S) \<longleftrightarrow> golomb_upto n S \<and> (\<forall>m\<in>S. x - m \<le> n \<longrightarrow> x - m \<notin> dists S)"
proof (intro iffI conjI ballI impI)
  assume g: "golomb_upto n (insert x S)"
  then show "golomb_upto n S" unfolding golomb_upto_def by blast
  fix m assume m: "m \<in> S" "x - m \<le> n"
  show "x - m \<notin> dists S"
  proof
    assume "x - m \<in> dists S"
    then obtain a b where "a \<in> S" "b \<in> S" "a < b" "x - m = b - a"
      by (auto simp: dists_def)
    moreover from this have "m = a"
      using g assms m unfolding golomb_upto_def by (metis insertCI diff_gt_0_iff_gt)
    ultimately show False using assms by auto
  qed
next
  assume h: "golomb_upto n S \<and> (\<forall>m\<in>S. x - m \<le> n \<longrightarrow> x - m \<notin> dists S)"
  have new: False if "m \<in> S" "c \<in> S" "d \<in> S" "x - m = d - c" "x - m \<le> n" for m c d
  proof -
    have "c < d" using assms that by force
    then have "x - m \<in> dists S" using that by (auto simp: dists_def)
    then show False using h that by blast
  qed
  show "golomb_upto n (insert x S)"
    unfolding golomb_upto_def
  proof (intro ballI impI)
    fix a b c d
    assume i: "a \<in> insert x S" "b \<in> insert x S" "c \<in> insert x S" "d \<in> insert x S"
      "a < b \<and> b - a = d - c \<and> b - a \<le> n"
    have lt: "a \<in> S" "c \<in> S" using i assms by auto
    show "a = c"
    proof (cases "b = x"; cases "d = x")
      assume "b \<noteq> x" "d \<noteq> x"
      then show ?thesis using h i lt unfolding golomb_upto_def by blast
    next
      assume "b = x" "d \<noteq> x"
      then show ?thesis using new [of a c d] i lt by auto
    next
      assume "b \<noteq> x" "d = x"
      then show ?thesis using new [of c a b] i lt by auto
    qed (use i in auto)
  qed
qed

lemma golomb_upto_insert:
  "\<forall>m\<in>S. m < x \<Longrightarrow> golomb_upto 256 (insert x S) \<longleftrightarrow> golomb_upto 256 S \<and> x \<notin> forbidden S"
  using golomb_upto_insert_iff [of S x 256] by (auto simp: forbidden_def)

lemma golomb_upto_subset: "golomb_upto n S \<Longrightarrow> T \<subseteq> S \<Longrightarrow> golomb_upto n T"
  unfolding golomb_upto_def by blast

text \<open>Distances above half of the length need no check of their own: were one repeated, the two
  pairs would overlap, and the pieces that stick out would repeat a smaller one.\<close>

lemma golomb_half:
  assumes "\<forall>m\<in>S. 0 \<le> m \<and> m \<le> n"
  shows "golomb S \<longleftrightarrow> golomb_upto (n div 2) S"
proof
  assume "golomb S"
  then show "golomb_upto (n div 2) S" by (auto simp: golomb_def golomb_upto_def)
next
  assume g: "golomb_upto (n div 2) S"
  have short: False
    if "a \<in> S" "b \<in> S" "c \<in> S" "d \<in> S" "a < b" "b - a = d - c" "a < c" for a b c d
  proof (cases "b - a \<le> n div 2")
    case True
    then show False using g that unfolding golomb_upto_def by (metis less_irrefl)
  next
    case False
    have "0 \<le> a" "d \<le> n" using assms that by auto
    then have "c - a = d - b" "c - a \<le> n div 2" "a \<noteq> b" using that False by linarith+
    then show False using g that unfolding golomb_upto_def by blast
  qed
  show "golomb S"
    unfolding golomb_def
  proof (intro ballI impI)
    fix a b c d assume i: "a \<in> S" "b \<in> S" "c \<in> S" "d \<in> S" "a < b \<and> b - a = d - c"
    show "a = c"
    proof (rule ccontr)
      assume "a \<noteq> c"
      then consider "a < c" | "c < a" by linarith
      then show False
        using short [of a b c d] short [of c d a b] i by cases auto
    qed
  qed
qed

section \<open>Rulers within limits\<close>

fun ruler :: "(int list \<Rightarrow> int) \<Rightarrow> int list \<Rightarrow> bool" where
  "ruler L [] = False"
| "ruler L [m] = (m = 0)"
| "ruler L (x # m # ms) = (ruler L (m # ms) \<and> m < x \<and> x \<notin> forbidden (set (m # ms)) \<and> x \<le> L (m # ms))"

lemma ruler_Cons: "ms \<noteq> [] \<Longrightarrow> ruler L (x # ms) \<longleftrightarrow> ruler L ms \<and> hd ms < x \<and> x \<notin> forbidden (set ms) \<and> x \<le> L ms"
  by (cases ms) auto

lemma ruler_below: "ruler L ms \<Longrightarrow> m \<in> set ms \<Longrightarrow> 0 \<le> m \<and> m \<le> hd ms"
proof (induction L ms arbitrary: m rule: ruler.induct)
  case (3 L x k ms)
  then have "0 \<le> k \<and> k < x" by simp
  then show ?case using 3 by fastforce
qed auto

lemma ruler_less: "ruler L (x # ms) \<Longrightarrow> m \<in> set ms \<Longrightarrow> m < x"
  by (cases ms) (auto dest!: ruler_below)

lemma ruler_append: "ruler L (us @ ms) \<Longrightarrow> ms \<noteq> [] \<Longrightarrow> ruler L ms"
  by (induction us) (auto simp: ruler_Cons)

lemma ruler_sorted: "ruler L ms \<Longrightarrow> sorted_wrt (>) ms"
  by (induction L ms rule: ruler.induct) (auto dest: ruler_below)

lemma ruler_last: "ruler L ms \<Longrightarrow> last ms = 0"
  by (induction L ms rule: ruler.induct) auto

lemma ruler_golomb_upto: "ruler L ms \<Longrightarrow> golomb_upto 256 (set ms)"
proof (induction L ms rule: ruler.induct)
  case (3 L x m ms)
  then have "\<forall>k\<in>set (m # ms). k < x" using ruler_below by fastforce
  then show ?case using golomb_upto_insert [of "set (m # ms)" x] 3 by simp
qed (auto simp: golomb_upto_def)

section \<open>What a search has ahead of it\<close>

text \<open>\<open>beyond L N ms cur\<close>: the rulers of \<open>N\<close> marks that go on from \<open>ms\<close> with a mark above \<open>cur\<close>;
  \<open>ahead\<close>: those and, for every mark of \<open>ms\<close> above the level \<open>stop\<close>, the rulers that replace it
  by a higher one.\<close>

definition beyond :: "(int list \<Rightarrow> int) \<Rightarrow> nat \<Rightarrow> int list \<Rightarrow> int \<Rightarrow> int list set" where
  "beyond L N ms cur = {r. ruler L r \<and> length r = N \<and> (\<exists>us y. r = us @ y # ms \<and> cur < y)}"

fun ahead :: "(int list \<Rightarrow> int) \<Rightarrow> nat \<Rightarrow> nat \<Rightarrow> int list \<Rightarrow> int \<Rightarrow> int list set" where
  "ahead L N stop [] cur = {}"
| "ahead L N stop (m # ms) cur = beyond L N (m # ms) cur \<union> (if stop < length ms then ahead L N stop ms m else {})"

lemma beyond_none:
  assumes "ms \<noteq> []" "\<forall>y. cur < y \<and> y < x \<longrightarrow> y \<in> forbidden (set ms)" "L ms < x"
  shows "beyond L N ms cur = {}"
proof -
  have False if "ruler L (us @ y # ms)" "cur < y" for us y
  proof -
    have "ruler L (y # ms)" using ruler_append that by blast
    then show False using assms that by (force simp: ruler_Cons)
  qed
  then show ?thesis by (auto simp: beyond_def)
qed

lemma beyond_skip:
  assumes "ms \<noteq> []" "\<forall>y. cur < y \<and> y \<le> x \<longrightarrow> y \<in> forbidden (set ms)" "cur \<le> x"
  shows "beyond L N ms cur = beyond L N ms x"
proof -
  have "x < y" if "ruler L (us @ y # ms)" "cur < y" for us y
  proof -
    have "ruler L (y # ms)" using ruler_append that by blast
    then show ?thesis using assms that by (force simp: ruler_Cons)
  qed
  then show ?thesis using assms(3) by (fastforce simp: beyond_def)
qed

lemma beyond_split:
  assumes "ruler L (x # ms)" "ms \<noteq> []" "cur < x" "\<forall>y. cur < y \<and> y < x \<longrightarrow> y \<in> forbidden (set ms)"
  shows "beyond L N ms cur = {r. r = x # ms \<and> length r = N} \<union> beyond L N (x # ms) x \<union> beyond L N ms x"
proof (intro equalityI subsetI)
  fix r assume "r \<in> beyond L N ms cur"
  then obtain us y where r: "ruler L r" "length r = N" "r = us @ y # ms" "cur < y" by (auto simp: beyond_def)
  have y: "ruler L (y # ms)" using ruler_append r by blast
  then have "x \<le> y" using assms(2,4) r(4) by (force simp: ruler_Cons)
  show "r \<in> {r. r = x # ms \<and> length r = N} \<union> beyond L N (x # ms) x \<union> beyond L N ms x"
  proof (cases "y = x")
    case False
    then show ?thesis using r \<open>x \<le> y\<close> by (auto simp: beyond_def)
  next
    case True
    show ?thesis
    proof (cases us rule: rev_cases)
      case Nil
      then show ?thesis using r True by simp
    next
      case (snoc vs z)
      then have rz: "r = vs @ z # x # ms" using r True by simp
      then have "ruler L (z # x # ms)" using ruler_append [of L vs] r(1) by blast
      then have "x < z" by (simp add: ruler_Cons)
      then show ?thesis using rz r by (auto simp: beyond_def)
    qed
  qed
next
  fix r assume i: "r \<in> {r. r = x # ms \<and> length r = N} \<union> beyond L N (x # ms) x \<union> beyond L N ms x"
  then consider "r = x # ms" "length r = N" | "r \<in> beyond L N (x # ms) x" | "r \<in> beyond L N ms x"
    by blast
  then show "r \<in> beyond L N ms cur"
  proof cases
    case 1
    then show ?thesis using assms unfolding beyond_def by (metis (mono_tags, lifting) append_Nil mem_Collect_eq)
  next
    case 2
    then obtain us y where "ruler L r" "length r = N" "r = us @ y # x # ms" by (auto simp: beyond_def)
    then have "r = (us @ [y]) @ x # ms" by simp
    then show ?thesis using assms(3) \<open>ruler L r\<close> \<open>length r = N\<close> unfolding beyond_def by blast
  qed (use assms(3) in \<open>fastforce simp: beyond_def\<close>)
qed

lemma beyond_full: "N \<le> length ms \<Longrightarrow> beyond L N ms cur = {}"
  by (auto simp: beyond_def)

lemma beyond_lower: "z \<le> cur \<Longrightarrow> us @ z # ms \<notin> beyond L N ms cur"
proof
  assume "z \<le> cur" "us @ z # ms \<in> beyond L N ms cur"
  then obtain vs y where "us @ z # ms = vs @ y # ms" "cur < y" by (auto simp: beyond_def)
  then have "(us @ [z]) @ ms = (vs @ [y]) @ ms" by simp
  then show False using \<open>z \<le> cur\<close> \<open>cur < y\<close> by simp
qed

lemma ahead_lower: "z \<le> cur \<Longrightarrow> us @ z # ms \<notin> ahead L N stop ms cur"
proof (induction ms arbitrary: us z cur)
  case (Cons m ms)
  then show ?case using beyond_lower [of z cur us "m # ms"] Cons.IH [of m m "us @ [z]"] by auto
qed simp

lemma ahead_rulers: "r \<in> ahead L N stop ms cur \<Longrightarrow> ruler L r \<and> length r = N"
  by (induction ms arbitrary: cur) (auto simp: beyond_def split: if_splits)

lemma ruler_bounded: "ruler L r \<Longrightarrow> \<forall>ms. L ms \<le> b \<Longrightarrow> 0 \<le> b \<Longrightarrow> set r \<subseteq> {0..b}"
proof (induction L r rule: ruler.induct)
  case (3 L x m ms)
  then have "0 \<le> m \<and> m < x \<and> x \<le> b" using ruler_below [of L "m # ms" m] by (auto intro: order_trans)
  then show ?case using 3 by auto
qed auto

lemma ahead_finite:
  assumes "\<forall>ms. L ms \<le> b" "0 \<le> b"
  shows "finite (ahead L N stop ms cur)"
proof (rule finite_subset)
  show "ahead L N stop ms cur \<subseteq> {r. set r \<subseteq> {0..b} \<and> length r = N}"
    using ahead_rulers ruler_bounded assms by blast
  show "finite {r. set r \<subseteq> {0..b} \<and> length r = N}" by (rule finite_lists_length_eq) simp
qed

text \<open>The incomplete rulers ahead as well: what bounds the number of steps.\<close>

definition partial_ahead :: "(int list \<Rightarrow> int) \<Rightarrow> nat \<Rightarrow> nat \<Rightarrow> int list \<Rightarrow> int \<Rightarrow> int list set" where
  "partial_ahead L N stop ms cur = (\<Union>k\<in>{..N}. ahead L k stop ms cur)"

lemma partial_finite: "\<forall>ms. L ms \<le> b \<Longrightarrow> 0 \<le> b \<Longrightarrow> finite (partial_ahead L N stop ms cur)"
  by (simp add: partial_ahead_def ahead_finite)

lemma ahead_mono: "cur \<le> x \<Longrightarrow> ahead L N stop ms x \<subseteq> ahead L N stop ms cur"
  by (cases ms) (auto simp: beyond_def intro: order_le_less_trans)

lemma partial_mono: "cur \<le> x \<Longrightarrow> partial_ahead L N stop ms x \<subseteq> partial_ahead L N stop ms cur"
  using ahead_mono by (fastforce simp: partial_ahead_def)

lemma partial_push:
  assumes "ruler L (x # ms)" "ms \<noteq> []" "cur < x" "length ms < N"
  shows "partial_ahead L N stop (x # ms) x \<subset> partial_ahead L N stop ms cur"
proof (rule psubsetI)
  obtain m ms' where m: "ms = m # ms'" using assms(2) by (cases ms) auto
  have "beyond L k (x # ms) x \<subseteq> ahead L k stop ms cur" for k
  proof -
    have "us @ y # x # ms = (us @ [y]) @ x # ms" for us y by simp
    then have "beyond L k (x # ms) x \<subseteq> beyond L k ms cur"
      using assms(3) unfolding beyond_def by blast
    then show ?thesis by (auto simp: m)
  qed
  then have "ahead L k stop (x # ms) x \<subseteq> ahead L k stop ms cur" for k
    using ahead_mono [of cur x L k stop ms] assms(3) by (auto simp: split: if_splits)
  then show "partial_ahead L N stop (x # ms) x \<subseteq> partial_ahead L N stop ms cur"
    by (auto simp: partial_ahead_def)
  have "x # ms = [] @ x # ms" by simp
  then have "x # ms \<in> beyond L (length ms + 1) ms cur" using assms unfolding beyond_def by auto
  then have "x # ms \<in> ahead L (length ms + 1) stop ms cur" by (auto simp: m)
  then have "x # ms \<in> partial_ahead L N stop ms cur" using assms(4) unfolding partial_ahead_def by force
  moreover have no: "x # ms \<notin> ahead L k stop (x # ms) x" for k
  proof -
    have "x # ms \<notin> beyond L k (x # ms) x" by (auto simp: beyond_def)
    then show ?thesis using ahead_lower [of x x "[]" ms L k stop] by (simp split: if_splits)
  qed
  have "x # ms \<notin> partial_ahead L N stop (x # ms) x" using no by (auto simp: partial_ahead_def)
  ultimately show "partial_ahead L N stop (x # ms) x \<noteq> partial_ahead L N stop ms cur" by blast
qed

lemma partial_pop:
  assumes "\<forall>y. cur < y \<and> y < x \<longrightarrow> y \<in> forbidden (set (m # ms))" "L (m # ms) < x"
  shows "partial_ahead L N stop (m # ms) cur = (if stop < length ms then partial_ahead L N stop ms m else {})"
  using beyond_none [of "m # ms" cur x L] assms by (simp add: partial_ahead_def)

end
