(* ===== verification/OgrNg.thy ===== *)
theory OgrNg
  imports OgrBitmap OgrRuler OgrInterface
begin

text \<open>
  The search of the OGR-NG core, \<open>ogr/ansi/ogrng_codebase.cpp\<close>: the state of
  \<open>ogr/ansi/ogrng_corestate.h\<close>, \<open>found_one\<close>, \<open>ogr_cycle_256\<close> and \<open>ogr_cycle_entry\<close>, for the
  32-bit bitmaps of theory \<open>OgrBitmap\<close>. An \<open>int\<close> of the code is an \<open>int\<close> here: marks and limits
  stay below \<open>2^16 + 32\<close>. A pointer to a level is its index. What the code takes from elsewhere is
  a record: the tables of limits (\<open>pchoose\<close>), which \<open>ogr_check_cache\<close> provides, and the values of
  variables the code leaves uninitialised.
\<close>

section \<open>State\<close>

record ogr_state =
  os_max :: int
  os_maxdepth :: int
  os_maxdepthm1 :: int
  os_half_depth :: int
  os_half_depth2 :: int
  os_startdepth :: int
  os_stopdepth :: int
  os_depth :: int
  Levels :: "ogr_level list"

definition OGR_MAXDEPTH :: nat where "OGR_MAXDEPTH = 29"

record ogr_env =
  oe_precomp :: "int \<Rightarrow> (nat \<Rightarrow> u16) option"
  oe_check_cache :: "int \<Rightarrow> (nat \<Rightarrow> u16) option"
  oe_dist0 :: u32
  oe_diffs :: "u32 list"
  oe_beyond_OGR :: "int \<Rightarrow> int"

definition set_level :: "ogr_state \<Rightarrow> int \<Rightarrow> ogr_level \<Rightarrow> ogr_state" where
  "set_level st depth lev = st\<lparr>Levels := (Levels st)[nat depth := lev]\<rparr>"

section \<open>The check of a complete ruler\<close>

text \<open>The inner loop of \<open>found_one\<close> over the marks below mark \<open>i\<close>; \<open>None\<close> is \<open>return 0\<close>.\<close>

fun found_one_row :: "int \<Rightarrow> int \<Rightarrow> int list \<Rightarrow> u32 list \<Rightarrow> u32 list option" where
  "found_one_row maxlen marks_i [] diffs = Some diffs"
| "found_one_row maxlen marks_i (mark_j # js) diffs =
     (let diff = marks_i - mark_j in
      if diff \<le> 256 then Some diffs
      else if diff + diff \<le> maxlen then
        let mask = shl 1 (nat (diff mod 32)); diff = nat (diff div 32 - 256 div 32) in
        if diffs ! diff AND mask \<noteq> 0 then None
        else found_one_row maxlen marks_i js (diffs[diff := diffs ! diff OR mask])
      else found_one_row maxlen marks_i js diffs)"

fun found_one_rows :: "int \<Rightarrow> int list \<Rightarrow> nat list \<Rightarrow> u32 list \<Rightarrow> u32 list option" where
  "found_one_rows maxlen marks [] diffs = Some diffs"
| "found_one_rows maxlen marks (i # is) diffs =
     (case found_one_row maxlen (marks ! i) (take i marks) diffs of
        None \<Rightarrow> None
      | Some diffs \<Rightarrow> found_one_rows maxlen marks is diffs)"

definition found_one :: "u32 list \<Rightarrow> ogr_state \<Rightarrow> int" where
  "found_one uninit oState =
     (let maxlen = os_max oState;
          diffs = map (\<lambda>i. if int i \<le> maxlen div 2 ^ (5 + 1) then 0 else uninit ! i) [0..<24]
      in case found_one_rows maxlen (map lev_mark (Levels oState)) [1..<nat (os_maxdepth oState)] diffs of
           None \<Rightarrow> 0
         | Some _ \<Rightarrow> -1)"

section \<open>The search\<close>

text \<open>The inner \<open>for (;;)\<close> of \<open>ogr_cycle_256\<close> up to the placement of a mark, which is \<open>Some\<close>, or
  to its \<open>break\<close>, which is \<open>None\<close>.\<close>

function next_mark :: "ogr_level \<Rightarrow> ogr_top \<Rightarrow> int \<Rightarrow> int \<Rightarrow> int option \<times> ogr_level \<times> ogr_top" where
  "next_mark lev t mark limit =
     (if comp0 t < NOT 1 then
        let s = LOOKUP_FIRSTBLANK (comp0 t); mark = mark + int s in
        if mark > limit then (None, lev, t)
        else (case COMP_LEFT_LIST_RIGHT lev t s of (lev, t) \<Rightarrow> (Some mark, lev, t))
      else
        let mark = mark + 32 in
        if mark > limit then (None, lev, t)
        else if comp0 t = NOT 0 then
          (case COMP_LEFT_LIST_RIGHT_WORD lev t of (lev, t) \<Rightarrow> next_mark lev t mark limit)
        else (case COMP_LEFT_LIST_RIGHT_WORD lev t of (lev, t) \<Rightarrow> (Some mark, lev, t)))"
  by pat_completeness auto
termination
  by (relation "measure (\<lambda>(_, _, mark, limit). nat (limit - mark))") auto

definition choose_limit :: "(nat \<Rightarrow> u16) \<Rightarrow> u32 \<Rightarrow> int \<Rightarrow> int" where
  "choose_limit pchoose dist seg = uint (pchoose (unat (shr dist (32 - 16)) * 32 + nat seg))"

definition next_limit :: "(nat \<Rightarrow> u16) \<Rightarrow> ogr_state \<Rightarrow> u32 \<Rightarrow> int \<Rightarrow> int" where
  "next_limit pchoose oState d0 depth =
     (let limit = choose_limit pchoose d0 depth in
      if depth > os_half_depth oState \<and> depth \<le> os_half_depth2 oState then
        let temp = os_max oState - 1 - lev_mark (Levels oState ! nat (os_half_depth oState));
            temp = (if depth < os_half_depth2 oState then temp - int (LOOKUP_FIRSTBLANK d0) else temp)
        in if limit > temp then temp else limit
      else limit)"

function ogr_cycle_loop ::
  "(nat \<Rightarrow> u16) \<Rightarrow> ogr_state \<Rightarrow> ogr_top \<Rightarrow> int \<Rightarrow> int \<Rightarrow> int \<Rightarrow> int \<Rightarrow> int \<times> int \<times> ogr_state" where
  "ogr_cycle_loop pchoose oState t depth nodes mark limit =
     (case next_mark (Levels oState ! nat depth) t mark limit of
        (None, lev, t) \<Rightarrow>
          let oState = set_level oState depth lev;
              depth = depth - 1;
              lev = Levels oState ! nat depth;
              t = POP_LEVEL lev in
          if depth > os_stopdepth oState
          then ogr_cycle_loop pchoose oState t depth nodes (lev_mark lev) (lev_limit lev)
          else (depth, nodes, oState)
      | (Some mark, lev, t) \<Rightarrow>
          let lev = lev\<lparr>lev_mark := mark\<rparr>;
              oState = set_level oState depth lev in
          if depth = os_maxdepthm1 oState then (depth, nodes, oState)
          else
            let (lev, t) = PUSH_LEVEL_UPDATE_STATE lev (Levels oState ! nat (depth + 1)) t;
                depth = depth + 1;
                limit = next_limit pchoose oState (dist0 t) depth;
                lev = lev\<lparr>lev_limit := limit\<rparr>;
                oState = set_level oState depth lev;
                nodes = nodes - 1 in
            if nodes \<le> 0 then (depth, nodes, set_level oState depth (lev\<lparr>lev_mark := mark\<rparr>))
            else ogr_cycle_loop pchoose oState t depth nodes mark limit)"
  by pat_completeness auto
termination
  by (relation "measures [\<lambda>(_, _, _, _, nodes, _). nat nodes, \<lambda>(_, s, _, depth, _). nat (depth - os_stopdepth s)]")
    (auto simp: set_level_def)

definition ogr_cycle_256 :: "(nat \<Rightarrow> u16) \<Rightarrow> u32 \<Rightarrow> ogr_state \<Rightarrow> int \<Rightarrow> int \<times> int \<times> ogr_state" where
  "ogr_cycle_256 pchoose uninit oState pnodes =
     (let depth = os_depth oState;
          lev = Levels oState ! nat depth;
          t = SETUP_TOP_STATE lev depth (os_maxdepthm1 oState) uninit;
          (depth, nodes, oState) = ogr_cycle_loop pchoose oState t depth pnodes (lev_mark lev) (lev_limit lev)
      in (depth, pnodes - nodes, oState))"

text \<open>The loop of \<open>ogr_cycle_entry\<close>: the return value, the nodes done and the state.\<close>

partial_function (option) ogr_cycle_checked ::
  "ogr_env \<Rightarrow> (nat \<Rightarrow> u16) \<Rightarrow> ogr_state \<Rightarrow> int \<Rightarrow> int \<Rightarrow> (int \<times> int \<times> ogr_state) option" where
  "ogr_cycle_checked env pchoose oState pnodes nodesDone =
     (let nodesCopy = pnodes - nodesDone;
          (depth, nodes, oState) = ogr_cycle_256 pchoose (oe_dist0 env) oState nodesCopy;
          oState = oState\<lparr>os_depth := depth\<rparr>;
          nodesDone = nodesDone + nodes in
      if depth = os_maxdepthm1 oState \<and> nodes \<noteq> nodesCopy then
        if lev_mark (Levels oState ! nat depth) > 256 * 2 \<and> found_one (oe_diffs env) oState = 0
        then ogr_cycle_checked env pchoose oState pnodes nodesDone
        else Some (CORE_S_SUCCESS, nodesDone, oState\<lparr>os_depth := os_stopdepth oState\<rparr>)
      else if depth \<le> os_stopdepth oState then Some (CORE_S_OK, nodesDone, oState)
      else Some (CORE_S_CONTINUE, nodesDone, oState))"

definition ogr_cycle_entry :: "ogr_env \<Rightarrow> ogr_state \<Rightarrow> int \<Rightarrow> (int \<times> int \<times> ogr_state) option" where
  "ogr_cycle_entry env oState pnodes =
     (case (case oe_precomp env (os_maxdepth oState) of
              Some pchoose \<Rightarrow> Some pchoose
            | None \<Rightarrow> oe_check_cache env (os_maxdepth oState)) of
        None \<Rightarrow> Some (CORE_E_CORRUPTED, pnodes, oState)
      | Some pchoose \<Rightarrow>
          map_option (\<lambda>(retval, nodesDone, oState). (retval, nodesDone, oState\<lparr>os_depth := os_depth oState - 1\<rparr>))
            (ogr_cycle_checked env pchoose (oState\<lparr>os_depth := os_depth oState + 1\<rparr>) pnodes 0))"

section \<open>A level and the marks it stands for\<close>

text \<open>The bitmaps of a level whose mark is at \<open>cur\<close>, above the marks \<open>S\<close>: \<open>list\<close> holds the
  distances from \<open>cur\<close> to \<open>S\<close>, \<open>dist\<close> the distances between marks of \<open>S\<close>, and \<open>comp\<close> the steps
  from \<open>cur\<close> to the forbidden positions. The last level does not keep up \<open>list\<close> (\<open>l = False\<close>):
  nothing is pushed from it.\<close>

definition level_ok :: "bool \<Rightarrow> ogr_level \<Rightarrow> int set \<Rightarrow> int \<Rightarrow> bool" where
  "level_ok l lev S cur \<longleftrightarrow>
     length (lev_list lev) = 8 \<and> length (lev_dist lev) = 8 \<and> length (lev_comp lev) = 8 \<and>
     (l \<longrightarrow> (\<forall>p. 1 \<le> p \<and> p \<le> 256 \<longrightarrow> (at (lev_list lev) p \<longleftrightarrow> cur - int p \<in> S))) \<and>
     (\<forall>p. 1 \<le> p \<and> p \<le> 256 \<longrightarrow> (at (lev_dist lev) p \<longleftrightarrow> int p \<in> dists S)) \<and>
     (\<forall>p. 1 \<le> p \<and> p \<le> 256 \<longrightarrow> (at (lev_comp lev) p \<longleftrightarrow> cur + int p \<in> forbidden S))"

definition top_ok :: "bool \<Rightarrow> ogr_level \<Rightarrow> ogr_top \<Rightarrow> int set \<Rightarrow> int \<Rightarrow> bool" where
  "top_ok l lev t S cur \<longleftrightarrow> comp0 t = lev_comp lev ! 0 \<and> (newbit t = 0 \<or> newbit t = 1) \<and>
     (l \<longrightarrow> (newbit t = 1 \<longleftrightarrow> cur \<in> S))"

lemma forbidden_le: "\<forall>m\<in>S. m \<le> cur \<Longrightarrow> x \<in> forbidden S \<Longrightarrow> x \<le> cur + 256"
  by (auto simp: forbidden_def)

lemma level_comp: "level_ok l lev S cur \<Longrightarrow> \<forall>m\<in>S. m \<le> cur \<Longrightarrow> 1 \<le> p \<Longrightarrow>
    at (lev_comp lev) p \<longleftrightarrow> cur + int p \<in> forbidden S"
  using forbidden_le [of S cur "cur + int p"] at_range [of "lev_comp lev" p]
  by (cases "p \<le> 256") (auto simp: level_ok_def)

lemma level_list: "level_ok l lev S cur \<Longrightarrow> l \<Longrightarrow> 1 \<le> p \<Longrightarrow> p \<le> 256 \<Longrightarrow>
    at (lev_list lev) p \<longleftrightarrow> cur - int p \<in> S"
  by (simp add: level_ok_def)

lemma shift_level:
  assumes eq: "COMP_LEFT_LIST_RIGHT lev t s = (lev', t')" and s: "0 < s" "s < 32"
    and ok: "level_ok l lev S cur" "top_ok l lev t S cur" and le: "\<forall>m\<in>S. m \<le> cur"
  shows "level_ok l lev' S (cur + int s) \<and> top_ok l lev' t' S (cur + int s)"
proof -
  note fr = SHIFT_frame [OF eq s]
  have "at (lev_list lev') p \<longleftrightarrow> cur + int s - int p \<in> S" if p: "l" "1 \<le> p" "p \<le> 256" for p
  proof -
    have nb: "newbit t = 0 \<or> newbit t = 1" "newbit t = 1 \<longleftrightarrow> cur \<in> S"
      using ok(2) \<open>l\<close> by (auto simp: top_ok_def)
    have "at (lev_list lev) (p - s) \<longleftrightarrow> cur - int (p - s) \<in> S" if "s < p"
      by (rule level_list [OF ok(1) p(1)]) (use p that in auto)
    moreover have "cur + int s - int p \<notin> S" if "p < s" using le that by force
    ultimately show ?thesis
      unfolding SHIFT_list [OF eq s p(2,3) nb(1)] nb(2)
      by (cases "s < p"; cases "p = s") (auto simp: algebra_simps of_nat_diff)
  qed
  moreover have "at (lev_comp lev') p \<longleftrightarrow> cur + int s + int p \<in> forbidden S" if "1 \<le> p" "p \<le> 256" for p
    unfolding SHIFT_comp [OF eq s that]
    using level_comp [OF ok(1) le, of "p + s"] that by (simp add: algebra_simps)
  moreover have "cur + int s \<notin> S" using le s by force
  ultimately show ?thesis
    using fr ok(1) by (simp add: level_ok_def top_ok_def)
qed

lemma word_level:
  assumes eq: "COMP_LEFT_LIST_RIGHT_WORD lev t = (lev', t')"
    and ok: "level_ok l lev S cur" "top_ok l lev t S cur" and le: "\<forall>m\<in>S. m \<le> cur"
  shows "level_ok l lev' S (cur + 32) \<and> top_ok l lev' t' S (cur + 32)"
proof -
  note fr = WORD_frame [OF eq]
  have "at (lev_list lev') p \<longleftrightarrow> cur + 32 - int p \<in> S" if p: "l" "1 \<le> p" "p \<le> 256" for p
  proof -
    have nb: "newbit t = 0 \<or> newbit t = 1" "newbit t = 1 \<longleftrightarrow> cur \<in> S"
      using ok(2) \<open>l\<close> by (auto simp: top_ok_def)
    have "at (lev_list lev) (p - 32) \<longleftrightarrow> cur - int (p - 32) \<in> S" if "32 < p"
      by (rule level_list [OF ok(1) p(1)]) (use p that in auto)
    moreover have "cur + 32 - int p \<notin> S" if "p < 32" using le that by force
    ultimately show ?thesis
      unfolding WORD_list [OF eq p(2,3) nb(1)] nb(2)
      by (cases "32 < p"; cases "p = 32") (auto simp: algebra_simps of_nat_diff)
  qed
  moreover have "at (lev_comp lev') p \<longleftrightarrow> cur + 32 + int p \<in> forbidden S" if "1 \<le> p" "p \<le> 256" for p
    unfolding WORD_comp [OF eq that]
    using level_comp [OF ok(1) le, of "p + 32"] that by (simp add: algebra_simps)
  moreover have "cur + 32 \<notin> S" using le by force
  ultimately show ?thesis
    using fr ok(1) by (simp add: level_ok_def top_ok_def)
qed

text \<open>A push makes the mark one of the marks placed.\<close>

lemma push_level:
  assumes eq: "PUSH_LEVEL_UPDATE_STATE lev lev2 t = (lev', t')"
    and ok: "level_ok True lev S cur" and lt: "\<forall>m\<in>S. m < cur"
  shows "level_ok l lev' (insert cur S) cur \<and> top_ok l lev' t' (insert cur S) cur"
proof -
  note fr = PUSH_frame [OF eq] and at = PUSH_at [OF eq]
  have new: "at (lev_dist lev) p \<or> at (lev_list lev) p \<longleftrightarrow> int p \<in> dists (insert cur S)"
    if "1 \<le> p" "p \<le> 256" for p
  proof -
    have "cur - int p \<in> S \<longleftrightarrow> int p \<in> {cur - m |m. m \<in> S}" by force
    then show ?thesis using ok that dists_insert [OF lt] by (auto simp: level_ok_def)
  qed
  have "at (lev_comp lev') p \<longleftrightarrow> cur + int p \<in> forbidden (insert cur S)" if "1 \<le> p" "p \<le> 256" for p
    using new [OF that] ok that forbidden_insert [OF lt, of "cur + int p"]
    by (auto simp: level_ok_def at)
  moreover have "at (lev_list lev') p \<longleftrightarrow> cur - int p \<in> insert cur S" if "1 \<le> p" "p \<le> 256" for p
    using ok that by (auto simp: level_ok_def at)
  ultimately show ?thesis
    using new fr by (simp add: level_ok_def top_ok_def at)
qed

section \<open>The next mark\<close>

declare next_mark.simps [simp del] ogr_cycle_loop.simps [simp del]

lemma not_1_words: "NOT 1 = (4294967294 :: u32)" "NOT 0 = (4294967295 :: u32)"
  by (simp_all add: not_eq_complement)

lemma high_words: "\<not> w < NOT 1 \<longleftrightarrow> w = NOT 1 \<or> w = (NOT 0 :: u32)"
  using unat_u32_bound [of w] unfolding not_1_words word_less_nat_alt word_unat_eq_iff by auto

lemma short_step:
  assumes "w < NOT 1" "leading w s"
  shows "s < 32"
proof (rule ccontr)
  assume s: "\<not> s < 32"
  have b: "bit w n" if "1 \<le> n" "n < 32" for n
  proof -
    have "1 \<le> 32 - n \<and> 32 - n < s" using that s by linarith
    then have "bit w (32 - (32 - n))" using assms(2) unfolding leading_def by blast
    then show ?thesis using that by simp
  qed
  have "w = (if bit w 0 then NOT 0 else NOT 1)"
  proof (rule bit_word_eqI)
    fix n assume "n < LENGTH(32)"
    then show "bit w n \<longleftrightarrow> bit (if bit w 0 then NOT 0 else NOT 1 :: u32) n"
      using b [of n] by (cases n) (auto simp: bit_not_iff bit_1_iff)
  qed
  then have "\<not> w < NOT 1" using high_words [of w] by metis
  then show False using assms(1) by blast
qed

text \<open>What \<open>comp0\<close> says of the 32 positions ahead.\<close>

lemma comp0_forbidden:
  assumes "level_ok l lev S cur" "top_ok l lev t S cur" "1 \<le> p" "p \<le> 32"
  shows "cur + int p \<in> forbidden S \<longleftrightarrow> bit (comp0 t) (32 - p)"
  using assms at_word0 [of p "lev_comp lev"] by (simp add: level_ok_def top_ok_def)

lemma word_forbidden:
  assumes "level_ok l lev S cur" "top_ok l lev t S cur" "\<not> comp0 t < NOT 1"
  shows "\<forall>y. cur < y \<and> y < cur + 32 \<longrightarrow> y \<in> forbidden S"
    and "cur + 32 \<in> forbidden S \<longleftrightarrow> comp0 t = NOT 0"
proof -
  have c: "comp0 t = NOT 1 \<or> comp0 t = NOT 0" using assms(3) high_words by blast
  have b: "bit (comp0 t) n \<longleftrightarrow> n \<noteq> 0 \<or> comp0 t = NOT 0" if "n < 32" for n
    using c that by (auto simp: bit_not_iff bit_1_iff)
  show "\<forall>y. cur < y \<and> y < cur + 32 \<longrightarrow> y \<in> forbidden S"
  proof (intro allI impI)
    fix y assume y: "cur < y \<and> y < cur + 32"
    then have "cur + int (nat (y - cur)) = y" "1 \<le> nat (y - cur)" "nat (y - cur) < 32" by linarith+
    then show "y \<in> forbidden S"
      using comp0_forbidden [OF assms(1,2), of "nat (y - cur)"] b by simp
  qed
  show "cur + 32 \<in> forbidden S \<longleftrightarrow> comp0 t = NOT 0"
    using comp0_forbidden [OF assms(1,2), of 32] b [of 0] by simp
qed

text \<open>\<open>lev'\<close> is \<open>lev\<close> moved on to a mark at \<open>x\<close>, which may be placed.\<close>

definition place_ok :: "bool \<Rightarrow> int set \<Rightarrow> int \<Rightarrow> int \<Rightarrow> ogr_level \<Rightarrow> int \<Rightarrow> ogr_level \<Rightarrow> ogr_top \<Rightarrow> bool" where
  "place_ok l S cur limit lev x lev' t' \<longleftrightarrow> cur < x \<and> x \<le> limit \<and> x \<notin> forbidden S \<and>
     level_ok l lev' S x \<and> top_ok l lev' t' S x \<and> lev_limit lev' = lev_limit lev"

definition next_mark_post :: "bool \<Rightarrow> int set \<Rightarrow> int \<Rightarrow> int \<Rightarrow> ogr_level \<Rightarrow> int option \<times> ogr_level \<times> ogr_top \<Rightarrow> bool" where
  "next_mark_post l S cur limit lev res \<longleftrightarrow>
     (case res of
        (None, lev', t') \<Rightarrow> \<exists>x. limit < x \<and> cur < x \<and> (\<forall>y. cur < y \<and> y < x \<longrightarrow> y \<in> forbidden S)
      | (Some x, lev', t') \<Rightarrow> place_ok l S cur limit lev x lev' t' \<and> (\<forall>y. cur < y \<and> y < x \<longrightarrow> y \<in> forbidden S))"

lemma next_mark_post_skip:
  assumes "next_mark_post l S (cur + 32) limit lev' res" "lev_limit lev' = lev_limit lev"
    and "\<forall>y. cur < y \<and> y < cur + 32 \<longrightarrow> y \<in> forbidden S" "cur + 32 \<in> forbidden S"
  shows "next_mark_post l S cur limit lev res"
proof -
  have skip: "y \<in> forbidden S" if "cur < y" "y < x" "\<forall>y. cur + 32 < y \<and> y < x \<longrightarrow> y \<in> forbidden S" for x y
    using assms(3,4) that by (metis linorder_less_linear)
  obtain r lev'' t'' where res: "res = (r, lev'', t'')" by (rule prod_cases3)
  show ?thesis
  proof (cases r)
    case None
    then obtain x where x: "limit < x" "cur + 32 < x" "\<forall>y. cur + 32 < y \<and> y < x \<longrightarrow> y \<in> forbidden S"
      using assms(1) by (auto simp: res next_mark_post_def place_ok_def)
    then show ?thesis using None skip [OF _ _ x(3)] by (auto simp: res next_mark_post_def place_ok_def intro!: exI [of _ x])
  next
    case (Some x)
    then have x: "\<forall>y. cur + 32 < y \<and> y < x \<longrightarrow> y \<in> forbidden S"
      using assms(1) by (simp add: res next_mark_post_def place_ok_def)
    then show ?thesis using Some assms(1,2) skip [OF _ _ x] by (auto simp: res next_mark_post_def place_ok_def)
  qed
qed

lemma next_mark_ok:
  assumes "level_ok l lev S mark" "top_ok l lev t S mark" "\<forall>m\<in>S. m \<le> mark"
  shows "next_mark_post l S mark limit lev (next_mark lev t mark limit)"
  using assms
proof (induction lev t mark limit rule: next_mark.induct)
  case (1 lev t mark limit)
  note ok = "1.prems"
  show ?case
  proof (cases "comp0 t < NOT 1")
    case True
    let ?s = "LOOKUP_FIRSTBLANK (comp0 t)"
    have l: "leading (comp0 t) ?s" by (rule FIRSTBLANK_leading)
    then have s: "0 < ?s" "?s < 32" using short_step [OF True] by (auto simp: leading_def)
    have below: "\<forall>y. mark < y \<and> y < mark + int ?s \<longrightarrow> y \<in> forbidden S"
    proof (intro allI impI)
      fix y assume y: "mark < y \<and> y < mark + int ?s"
      then have n: "mark + int (nat (y - mark)) = y" "1 \<le> nat (y - mark)" "nat (y - mark) < ?s" by linarith+
      then have "bit (comp0 t) (32 - nat (y - mark))" using l unfolding leading_def by blast
      then show "y \<in> forbidden S"
        using comp0_forbidden [OF ok(1,2), of "nat (y - mark)"] n s by simp
    qed
    obtain lev' t' where eq: "COMP_LEFT_LIST_RIGHT lev t ?s = (lev', t')" by (rule prod.exhaust)
    have "mark + int ?s \<notin> forbidden S"
      using comp0_forbidden [OF ok(1,2), of ?s] l s by (auto simp: leading_def)
    then show ?thesis
      using True below s shift_level [OF eq s ok] SHIFT_frame [OF eq s]
      by (auto simp: next_mark.simps [of lev] next_mark_post_def place_ok_def eq Let_def intro!: exI [of _ "mark + int ?s"])
  next
    case False
    note w = word_forbidden [OF ok(1,2) False]
    obtain lev' t' where eq: "COMP_LEFT_LIST_RIGHT_WORD lev t = (lev', t')" by (rule prod.exhaust)
    note ok' = word_level [OF eq ok] and fr = WORD_frame [OF eq]
    show ?thesis
    proof (cases "limit < mark + 32")
      case True
      then show ?thesis
        using False w(1) by (auto simp: next_mark.simps [of lev] next_mark_post_def place_ok_def Let_def intro!: exI [of _ "mark + 32"])
    next
      case nl: False
      show ?thesis
      proof (cases "comp0 t = NOT 0")
        case True
        have "next_mark_post l S (mark + 32) limit lev' (next_mark lev' t' (mark + 32) limit)"
          using "1.IH" [OF False refl nl True eq [symmetric]] ok' ok(3) by force
        then have "next_mark_post l S mark limit lev (next_mark lev' t' (mark + 32) limit)"
          using next_mark_post_skip fr(2) w True by blast
        then show ?thesis using False True nl eq by (simp add: next_mark.simps [of lev] Let_def)
      next
        case nz: False
        then show ?thesis
          using False nl w ok' fr by (simp add: next_mark.simps [of lev] next_mark_post_def place_ok_def eq Let_def)
      qed
    qed
  qed
qed

section \<open>The marks of a state\<close>

definition dist_word :: "int set \<Rightarrow> u32" where
  "dist_word S = horner_sum of_bool 2 (map (\<lambda>i. int (32 - i) \<in> dists S) [0..<32])"

lemma dist_word_level: "level_ok l lev S cur \<Longrightarrow> lev_dist lev ! 0 = dist_word S"
proof (rule bit_word_eqI)
  fix n assume ok: "level_ok l lev S cur" and "n < LENGTH(32)"
  then show "bit (lev_dist lev ! 0) n \<longleftrightarrow> bit (dist_word S) n"
    using at_word0 [of "32 - n" "lev_dist lev"]
    by (simp add: level_ok_def dist_word_def bit_horner_sum_bit_word_iff)
qed

text \<open>The limit that the code computes for the next mark when the marks \<open>ms\<close>, latest first, are
  placed.\<close>

definition core_limit :: "(nat \<Rightarrow> u16) \<Rightarrow> ogr_state \<Rightarrow> int list \<Rightarrow> int" where
  "core_limit pchoose st ms =
     next_limit pchoose (st\<lparr>Levels := map (\<lambda>m. zero_level\<lparr>lev_mark := m\<rparr>) (rev ms)\<rparr>) (dist_word (set ms)) (int (length ms))"

definition same_config :: "ogr_state \<Rightarrow> ogr_state \<Rightarrow> bool" where
  "same_config st st' \<longleftrightarrow> st\<lparr>os_depth := 0, Levels := []\<rparr> = st'\<lparr>os_depth := 0, Levels := []\<rparr> \<and>
     length (Levels st) = length (Levels st')"

lemma same_config_refl [simp]: "same_config st st"
  and same_config_trans: "same_config st st' \<Longrightarrow> same_config st' st'' \<Longrightarrow> same_config st st''"
  by (simp_all add: same_config_def)

lemma same_config_fields:
  "same_config st st' \<Longrightarrow> os_max st' = os_max st \<and> os_maxdepth st' = os_maxdepth st \<and> os_maxdepthm1 st' = os_maxdepthm1 st
    \<and> os_half_depth st' = os_half_depth st \<and> os_half_depth2 st' = os_half_depth2 st
    \<and> os_startdepth st' = os_startdepth st \<and> os_stopdepth st' = os_stopdepth st \<and> length (Levels st') = length (Levels st)"
  by (cases st; cases st') (simp add: same_config_def)

lemma same_config_set [simp]: "same_config st (set_level st' d lev) \<longleftrightarrow> same_config st st'"
  "same_config (set_level st' d lev) st \<longleftrightarrow> same_config st' st"
  "same_config st (st'\<lparr>os_depth := k\<rparr>) \<longleftrightarrow> same_config st st'"
  "same_config (st'\<lparr>os_depth := k\<rparr>) st \<longleftrightarrow> same_config st' st"
  by (simp_all add: same_config_def set_level_def)

lemma core_limit_config: "same_config st st' \<Longrightarrow> core_limit pchoose st' = core_limit pchoose st"
  by (drule same_config_fields) (simp add: core_limit_def next_limit_def fun_eq_iff Let_def)

fun placed :: "(int list \<Rightarrow> int) \<Rightarrow> ogr_level list \<Rightarrow> int list \<Rightarrow> bool" where
  "placed L levels [] = False"
| "placed L levels [m] = (m = 0 \<and> lev_mark (levels ! 0) = 0)"
| "placed L levels (x # m # ms) =
     (placed L levels (m # ms) \<and>
      (let lev = levels ! length (m # ms) in
         lev_mark lev = x \<and> lev_limit lev = L (m # ms) \<and> level_ok True lev (set (m # ms)) x))"

lemma placed_Cons: "ms \<noteq> [] \<Longrightarrow> placed L levels (x # ms) \<longleftrightarrow> placed L levels ms \<and>
    lev_mark (levels ! length ms) = x \<and> lev_limit (levels ! length ms) = L ms \<and>
    level_ok True (levels ! length ms) (set ms) x"
  by (cases ms) (auto simp: Let_def)

lemma placed_mark: "placed L levels ms \<Longrightarrow> i < length ms \<Longrightarrow> lev_mark (levels ! i) = rev ms ! i"
proof (induction L levels ms rule: placed.induct)
  case (3 L levels x m ms)
  then show ?case by (cases "i = length (m # ms)") (auto simp: nth_append Let_def less_Suc_eq)
qed auto

lemma placed_update: "placed L levels ms \<Longrightarrow> length ms \<le> k \<Longrightarrow> placed L (levels[k := lev]) ms"
  by (induction L levels ms rule: placed.induct) (auto simp: Let_def)

lemma next_limit_core:
  assumes "placed L (Levels st) ms" "d0 = dist_word (set ms)" "0 \<le> os_half_depth st"
  shows "next_limit pchoose st d0 (int (length ms)) = core_limit pchoose st ms"
proof -
  have "lev_mark (Levels st ! nat (os_half_depth st)) = rev ms ! nat (os_half_depth st)"
    if "os_half_depth st < int (length ms)"
    using placed_mark [OF assms(1), of "nat (os_half_depth st)"] that assms(3) by simp
  then show ?thesis
    using assms(2,3) by (auto simp: core_limit_def next_limit_def Let_def)
qed

definition config_ok :: "ogr_state \<Rightarrow> bool" where
  "config_ok st \<longleftrightarrow> length (Levels st) = OGR_MAXDEPTH \<and> 21 \<le> os_maxdepth st \<and> os_maxdepth st \<le> 28 \<and>
     os_maxdepthm1 st = os_maxdepth st - 1 \<and> 0 \<le> os_half_depth st \<and> 0 \<le> os_stopdepth st \<and>
     0 \<le> os_max st \<and> os_max st < 2048"

lemma config_ok_same: "same_config st st' \<Longrightarrow> config_ok st \<Longrightarrow> config_ok st'"
  by (drule same_config_fields) (simp add: config_ok_def)

text \<open>The invariant of the loop, and that of a state between two calls.\<close>

definition loop_at :: "(int list \<Rightarrow> int) \<Rightarrow> ogr_state \<Rightarrow> ogr_top \<Rightarrow> int list \<Rightarrow> int \<Rightarrow> bool" where
  "loop_at L st t ms mark \<longleftrightarrow>
     (let lev = Levels st ! length ms; l = int (length ms) < os_maxdepthm1 st in
        placed L (Levels st) ms \<and> ruler L ms \<and> int (length ms) \<le> os_maxdepthm1 st \<and>
        level_ok l lev (set ms) mark \<and> hd ms \<le> mark \<and> lev_limit lev = L ms \<and> top_ok l lev t (set ms) mark)"

definition core_at :: "(int list \<Rightarrow> int) \<Rightarrow> ogr_state \<Rightarrow> int list \<Rightarrow> bool" where
  "core_at L st ms \<longleftrightarrow>
     (let lev = Levels st ! length ms; l = int (length ms) < os_maxdepthm1 st in
        placed L (Levels st) ms \<and> ruler L ms \<and> int (length ms) \<le> os_maxdepthm1 st \<and>
        level_ok l lev (set ms) (lev_mark lev) \<and> hd ms \<le> lev_mark lev \<and> lev_limit lev = L ms \<and>
        (l \<longrightarrow> lev_mark lev = hd ms))"

lemma placed_nonempty: "placed L levels ms \<Longrightarrow> ms \<noteq> []"
  by auto

lemma ruler_le_hd: "ruler L ms \<Longrightarrow> hd ms \<le> mark \<Longrightarrow> \<forall>m\<in>set ms. m \<le> mark"
  using ruler_below by fastforce

lemma core_at_setup:
  assumes "core_at L st ms"
  shows "loop_at L st (SETUP_TOP_STATE (Levels st ! length ms) (int (length ms)) (os_maxdepthm1 st) u) ms
    (lev_mark (Levels st ! length ms))"
proof -
  have "hd ms \<in> set ms" using assms placed_nonempty by (auto simp: core_at_def Let_def)
  then show ?thesis using assms by (auto simp: core_at_def loop_at_def Let_def SETUP_TOP_STATE_def top_ok_def)
qed

section \<open>The loop\<close>

abbreviation stop_level :: "ogr_state \<Rightarrow> nat" where
  "stop_level st \<equiv> nat (os_stopdepth st)"

abbreviation n_marks :: "ogr_state \<Rightarrow> nat" where
  "n_marks st \<equiv> nat (os_maxdepth st)"

abbreviation ahead_of :: "(int list \<Rightarrow> int) \<Rightarrow> ogr_state \<Rightarrow> int list \<Rightarrow> int \<Rightarrow> int list set" where
  "ahead_of L st \<equiv> ahead L (n_marks st) (stop_level st)"

abbreviation partial_of :: "(int list \<Rightarrow> int) \<Rightarrow> ogr_state \<Rightarrow> int list \<Rightarrow> int \<Rightarrow> int list set" where
  "partial_of L st \<equiv> partial_ahead L (n_marks st) (stop_level st)"

text \<open>What the loop returns, where \<open>A\<close> are the rulers ahead of it and \<open>B\<close> contains the incomplete
  ones as well: a ruler, a pause at a new mark, or nothing.\<close>

definition found_at :: "(int list \<Rightarrow> int) \<Rightarrow> ogr_state \<Rightarrow> int list set \<Rightarrow> int list set \<Rightarrow> int list \<Rightarrow> bool" where
  "found_at L st A B ms \<longleftrightarrow>
     (let x = lev_mark (Levels st ! length ms) in
        core_at L st ms \<and> int (length ms) = os_maxdepthm1 st \<and> ruler L (x # ms) \<and>
        A = insert (x # ms) (ahead_of L st ms x) \<and> partial_of L st ms x \<subseteq> B)"

definition paused_at :: "(int list \<Rightarrow> int) \<Rightarrow> ogr_state \<Rightarrow> int list set \<Rightarrow> int list set \<Rightarrow> int list \<Rightarrow> bool" where
  "paused_at L st A B ms \<longleftrightarrow>
     (let x = lev_mark (Levels st ! length ms) in
        core_at L st ms \<and> os_stopdepth st + 2 \<le> int (length ms) \<and> x = hd ms \<and>
        A = ahead_of L st ms x \<and> partial_of L st ms x \<subset> B)"

definition loop_post ::
  "(int list \<Rightarrow> int) \<Rightarrow> ogr_state \<Rightarrow> int list set \<Rightarrow> int list set \<Rightarrow> int \<times> int \<times> ogr_state \<Rightarrow> bool" where
  "loop_post L st A B res \<longleftrightarrow>
     (case res of (depth, nodes, st') \<Rightarrow> same_config st st' \<and>
        ((0 < nodes \<and> (\<exists>ms. depth = int (length ms) \<and> found_at L st' A B ms)) \<or>
         (nodes = 0 \<and> (\<exists>ms. depth = int (length ms) \<and> paused_at L st' A B ms)) \<or>
         (0 < nodes \<and> depth = os_stopdepth st' \<and> A = {})))"

lemma ahead_step:
  assumes r: "ruler L (x # ms)" and ms: "ms \<noteq> []" and x: "cur < x" "\<forall>y. cur < y \<and> y < x \<longrightarrow> y \<in> forbidden (set ms)"
  shows "length ms + 1 = N \<Longrightarrow> ahead L N stop ms cur = insert (x # ms) (ahead L N stop ms x)"
    and "length ms + 1 < N \<Longrightarrow> stop < length ms \<Longrightarrow> ahead L N stop ms cur = ahead L N stop (x # ms) x"
proof -
  obtain m ms' where m: "ms = m # ms'" using ms by (cases ms) auto
  note s = beyond_split [OF r ms x, of N]
  show "ahead L N stop ms cur = insert (x # ms) (ahead L N stop ms x)" if "length ms + 1 = N"
  proof -
    have "{r. r = x # ms \<and> length r = N} = {x # ms}" using that by auto
    then show ?thesis using s beyond_full [of N "x # ms"] that by (simp add: m)
  qed
  show "ahead L N stop ms cur = ahead L N stop (x # ms) x" if "length ms + 1 < N" "stop < length ms"
    using s that by (auto simp: m)
qed

lemma ahead_pop:
  assumes "\<forall>y. cur < y \<and> y < x \<longrightarrow> y \<in> forbidden (set (m # ms))" "L (m # ms) < x"
  shows "ahead L N stop (m # ms) cur = (if stop < length ms then ahead L N stop ms m else {})"
  using beyond_none [of "m # ms" cur x L N] assms by simp

lemma nth_set_level [simp]: "nat d < length (Levels st) \<Longrightarrow> Levels (set_level st d lev) ! nat d = lev"
  "nat d \<noteq> i \<Longrightarrow> Levels (set_level st d lev) ! i = Levels st ! i"
  "length (Levels (set_level st d lev)) = length (Levels st)"
  by (simp_all add: set_level_def)

lemma set_level_fields [simp]: "os_max (set_level st d lev) = os_max st"
  "os_maxdepth (set_level st d lev) = os_maxdepth st" "os_maxdepthm1 (set_level st d lev) = os_maxdepthm1 st"
  "os_half_depth (set_level st d lev) = os_half_depth st" "os_half_depth2 (set_level st d lev) = os_half_depth2 st"
  "os_startdepth (set_level st d lev) = os_startdepth st" "os_stopdepth (set_level st d lev) = os_stopdepth st"
  "os_depth (set_level st d lev) = os_depth st"
  by (simp_all add: set_level_def)

lemma placed_set_level: "placed L (Levels st) ms \<Longrightarrow> int (length ms) \<le> d \<Longrightarrow> placed L (Levels (set_level st d lev)) ms"
  by (simp add: set_level_def placed_update nat_le_iff le_nat_iff)

lemma loop_le: "loop_at L st t ms mark \<Longrightarrow> \<forall>m\<in>set ms. m \<le> mark"
  using ruler_le_hd by (auto simp: loop_at_def Let_def)

text \<open>Back to the level below.\<close>

lemma loop_pop:
  assumes "loop_at L st t (m # ms) mark" "ms \<noteq> []"
  shows "loop_at L (set_level st (int (length (m # ms))) lev) (POP_LEVEL (Levels st ! length ms)) ms m"
proof -
  have "m \<notin> set ms" using assms ruler_less [of L m ms] by (auto simp: loop_at_def Let_def)
  then show ?thesis
    using assms placed_set_level [of L st ms "int (length (m # ms))" lev]
    by (auto simp: loop_at_def Let_def placed_Cons ruler_Cons top_ok_def POP_LEVEL_def)
qed

text \<open>A mark placed on the last level.\<close>

lemma loop_found:
  assumes "loop_at L st t ms mark" "int (length ms) = os_maxdepthm1 st" "length ms < length (Levels st)"
    and "place_ok False (set ms) mark (L ms) (Levels st ! length ms) x lev t'"
  shows "core_at L (set_level st (int (length ms)) (lev\<lparr>lev_mark := x\<rparr>)) ms" "ruler L (x # ms)" "mark < x"
proof -
  have p: "placed L (Levels (set_level st (int (length ms)) (lev\<lparr>lev_mark := x\<rparr>))) ms"
    using assms(1) by (intro placed_set_level) (auto simp: loop_at_def Let_def)
  have n: "Levels (set_level st (int (length ms)) (lev\<lparr>lev_mark := x\<rparr>)) ! length ms = lev\<lparr>lev_mark := x\<rparr>"
    using assms(3) by (simp add: set_level_def)
  show "core_at L (set_level st (int (length ms)) (lev\<lparr>lev_mark := x\<rparr>)) ms" "ruler L (x # ms)" "mark < x"
    using assms p placed_nonempty [OF p] unfolding core_at_def n
    by (auto simp: loop_at_def place_ok_def Let_def level_ok_def ruler_Cons)
qed

text \<open>A mark placed on a lower level, and the level above it.\<close>

lemma loop_place:
  assumes at: "loop_at L st t ms mark" and d: "length ms < length (Levels st)"
    and post: "place_ok True (set ms) mark (L ms) (Levels st ! length ms) x lev t'"
  shows "placed L (Levels (set_level st (int (length ms)) (lev\<lparr>lev_mark := x\<rparr>))) (x # ms)"
proof -
  have "ms \<noteq> []" "placed L (Levels st) ms" "lev_limit (Levels st ! length ms) = L ms"
    using at placed_nonempty by (auto simp: loop_at_def Let_def)
  moreover from this have "placed L (Levels (set_level st (int (length ms)) (lev\<lparr>lev_mark := x\<rparr>))) ms"
    by (simp add: placed_set_level)
  moreover have "Levels (set_level st (int (length ms)) (lev\<lparr>lev_mark := x\<rparr>)) ! length ms = lev\<lparr>lev_mark := x\<rparr>"
    using d by (simp add: set_level_def)
  ultimately show ?thesis
    using post by (simp add: placed_Cons place_ok_def level_ok_def)
qed

lemma loop_push:
  assumes at: "loop_at L st t ms mark" and d: "int (length ms) < os_maxdepthm1 st" "length ms + 1 < length (Levels st)"
    and post: "place_ok True (set ms) mark (L ms) (Levels st ! length ms) x lev t'"
    and push: "PUSH_LEVEL_UPDATE_STATE (lev\<lparr>lev_mark := x\<rparr>) lev2 t' = (lev3, t'')"
    and lim: "limit = L (x # ms)"
  shows "loop_at L (set_level (set_level st (int (length ms)) (lev\<lparr>lev_mark := x\<rparr>)) (int (length ms) + 1)
            (lev3\<lparr>lev_limit := limit, lev_mark := k\<rparr>)) t'' (x # ms) x" (is "loop_at L ?st _ _ _")
    and "dist0 t'' = dist_word (set (x # ms))" "ruler L (x # ms)"
proof -
  have ms: "ms \<noteq> []" "placed L (Levels st) ms" "ruler L ms" "hd ms \<le> mark" "lev_limit (Levels st ! length ms) = L ms"
    using at placed_nonempty by (auto simp: loop_at_def Let_def)
  have p: "mark < x" "x \<le> L ms" "x \<notin> forbidden (set ms)" "level_ok True lev (set ms) x"
    "lev_limit lev = L ms"
    using post ms(5) by (auto simp: place_ok_def)
  show r: "ruler L (x # ms)" using ms p by (simp add: ruler_Cons)
  have lt: "\<forall>m\<in>set ms. m < x" using ruler_less [OF r] by blast
  have ok: "level_ok True (lev\<lparr>lev_mark := x\<rparr>) (set ms) x" using p by (simp add: level_ok_def)
  have up: "level_ok l lev3 (set (x # ms)) x" "top_ok l lev3 t'' (set (x # ms)) x" for l
    using push_level [OF push ok lt] by auto
  show "dist0 t'' = dist_word (set (x # ms))"
    using PUSH_frame(7) [OF push] dist_word_level [OF up(1)] by simp
  have n: "Levels ?st ! length ms = lev\<lparr>lev_mark := x\<rparr>"
    "Levels ?st ! (length ms + 1) = lev3\<lparr>lev_limit := limit, lev_mark := k\<rparr>"
    using d by (simp_all add: set_level_def nat_add_distrib)
  have "placed L (Levels ?st) ms"
    using ms(2) by (simp add: placed_set_level)
  then have "placed L (Levels ?st) (x # ms)"
    using n(1) ms(1) ok p by (simp add: placed_Cons)
  then show "loop_at L ?st t'' (x # ms) x"
    using n(2) up r d lim by (simp add: loop_at_def Let_def level_ok_def top_ok_def)
qed

lemma lev_mark_self: "lev\<lparr>lev_limit := k, lev_mark := lev_mark lev\<rparr> = lev\<lparr>lev_limit := k\<rparr>"
  by (cases lev) simp

lemma set_level_twice [simp]: "set_level (set_level st d a) d b = set_level st d b"
  by (simp add: set_level_def)

lemma loop_post_trans:
  assumes "loop_post L st' A B' res" "same_config st st'" "B' \<subseteq> B"
  shows "loop_post L st A B res"
proof -
  have "found_at L s A B ms" if "found_at L s A B' ms" for s ms
    using that assms(3) by (auto simp: found_at_def Let_def)
  moreover have "paused_at L s A B ms" if "paused_at L s A B' ms" for s ms
    using that assms(3) by (auto simp: paused_at_def Let_def)
  ultimately show ?thesis
    using assms(1) same_config_trans [OF assms(2)] unfolding loop_post_def by (fastforce split: prod.splits)
qed

lemma loop_len:
  assumes "loop_at L st t ms mark" "config_ok st"
  shows "length (Levels st) = 29" "int (length ms) \<le> os_maxdepthm1 st" "os_maxdepthm1 st \<le> 27"
    "n_marks st = nat (os_maxdepthm1 st) + 1" "0 \<le> os_stopdepth st" "0 \<le> os_half_depth st" "ms \<noteq> []"
  using assms by (auto simp: loop_at_def config_ok_def OGR_MAXDEPTH_def Let_def)

lemma loop_next_mark:
  assumes "loop_at L st t ms mark" "next_mark (Levels st ! length ms) t mark (L ms) = (r, lev, t')"
  shows "next_mark_post (int (length ms) < os_maxdepthm1 st) (set ms) mark (L ms) (Levels st ! length ms) (r, lev, t')"
  unfolding assms(2) [symmetric]
  by (rule next_mark_ok [OF _ _ loop_le [OF assms(1)]]) (use assms(1) in \<open>simp_all add: loop_at_def Let_def\<close>)

text \<open>The three steps of the loop: no mark, a mark on the last level, a mark below it.\<close>

lemma step_none:
  assumes at: "loop_at L st t (m # ms) mark" and post: "next_mark_post l (set (m # ms)) mark (L (m # ms)) lev0 (None, lev, t')"
  shows "ahead_of L st (m # ms) mark = (if stop_level st < length ms then ahead_of L st ms m else {})"
    and "partial_of L st (m # ms) mark = (if stop_level st < length ms then partial_of L st ms m else {})"
proof -
  obtain x where x: "\<forall>y. mark < y \<and> y < x \<longrightarrow> y \<in> forbidden (set (m # ms))" "L (m # ms) < x"
    using post by (auto simp: next_mark_post_def)
  show "ahead_of L st (m # ms) mark = (if stop_level st < length ms then ahead_of L st ms m else {})"
    "partial_of L st (m # ms) mark = (if stop_level st < length ms then partial_of L st ms m else {})"
    by (rule ahead_pop [of mark x m ms L, OF x], rule partial_pop [of mark x m ms L, OF x])
qed

lemma step_found:
  assumes at: "loop_at L st t ms mark" and cfg: "config_ok st" and d: "int (length ms) = os_maxdepthm1 st"
    and post: "next_mark_post False (set ms) mark (L ms) (Levels st ! length ms) (Some x, lev, t')"
  shows "found_at L (set_level st (int (length ms)) (lev\<lparr>lev_mark := x\<rparr>)) (ahead_of L st ms mark) (partial_of L st ms mark) ms"
proof -
  note len = loop_len [OF at cfg]
  have x: "mark < x" "\<forall>y. mark < y \<and> y < x \<longrightarrow> y \<in> forbidden (set ms)"
    using post by (auto simp: next_mark_post_def place_ok_def)
  have l: "length ms < length (Levels st)" using len by linarith
  have f: "core_at L (set_level st (int (length ms)) (lev\<lparr>lev_mark := x\<rparr>)) ms" "ruler L (x # ms)"
    using loop_found [OF at d l, of x lev t'] post by (auto simp: next_mark_post_def)
  have lv: "lev_mark (Levels (set_level st (int (length ms)) (lev\<lparr>lev_mark := x\<rparr>)) ! length ms) = x"
    using l by (simp add: set_level_def)
  have n: "length ms + 1 = n_marks st" using len d by linarith
  show ?thesis
    unfolding found_at_def Let_def lv
    using f ahead_step(1) [OF f(2) len(7) x n] partial_mono [of mark x] d x(1) by simp
qed

lemma step_push:
  assumes at: "loop_at L st t ms mark" and cfg: "config_ok st" and d: "int (length ms) < os_maxdepthm1 st"
    and post: "next_mark_post True (set ms) mark (L ms) (Levels st ! length ms) (Some x, lev, t')"
    and push: "PUSH_LEVEL_UPDATE_STATE (lev\<lparr>lev_mark := x\<rparr>) lev2 t' = (lev3, t'')"
    and L: "L = core_limit pchoose st" and stop: "os_stopdepth st < int (length ms)"
  defines "s \<equiv> set_level st (int (length ms)) (lev\<lparr>lev_mark := x\<rparr>)"
  defines "limit \<equiv> next_limit pchoose s (dist0 t'') (int (length ms) + 1)"
  shows "limit = L (x # ms)"
    and "loop_at L (set_level s (int (length ms) + 1) (lev3\<lparr>lev_limit := limit, lev_mark := k\<rparr>)) t'' (x # ms) x"
    and "ahead_of L st ms mark = ahead_of L st (x # ms) x"
    and "partial_of L st (x # ms) x \<subset> partial_of L st ms mark"
proof -
  note len = loop_len [OF at cfg]
  have place: "place_ok True (set ms) mark (L ms) (Levels st ! length ms) x lev t'"
    and x: "mark < x" "\<forall>y. mark < y \<and> y < x \<longrightarrow> y \<in> forbidden (set ms)"
    using post by (auto simp: next_mark_post_def place_ok_def)
  have len2: "length ms + 1 < length (Levels st)" "length ms + 1 < n_marks st" "stop_level st < length ms"
    using len d stop by linarith+
  note up = loop_push [OF at d len2(1) place push]
  have "placed L (Levels s) (x # ms)" using loop_place [OF at _ place] len2(1) by (simp add: s_def)
  then show lim: "limit = L (x # ms)"
    using next_limit_core [of L s "x # ms" "dist0 t''" pchoose] up(2) [OF refl] len L core_limit_config [of st s]
    by (simp add: s_def limit_def add.commute)
  show "loop_at L (set_level s (int (length ms) + 1) (lev3\<lparr>lev_limit := limit, lev_mark := k\<rparr>)) t'' (x # ms) x"
    using up(1) [OF lim] by (simp add: s_def)
  show "ahead_of L st ms mark = ahead_of L st (x # ms) x"
    by (rule ahead_step(2) [OF up(3) [OF refl] len(7) x len2(2,3)])
  show "partial_of L st (x # ms) x \<subset> partial_of L st ms mark"
    by (rule partial_push [OF up(3) [OF refl] len(7) x(1)]) (use len2 in simp)
qed

lemma paused_push:
  assumes "loop_at L (set_level s (int (length ms) + 1) (lev\<lparr>lev_mark := x\<rparr>)) t (x # ms) x" "length ms + 1 < length (Levels s)"
    and "same_config st s" "os_stopdepth st < int (length ms)"
    and "A = ahead_of L st (x # ms) x" "partial_of L st (x # ms) x \<subset> B"
  shows "paused_at L (set_level s (int (length ms) + 1) (lev\<lparr>lev_mark := x\<rparr>)) A B (x # ms)"
proof -
  have "Levels (set_level s (int (length ms) + 1) (lev\<lparr>lev_mark := x\<rparr>)) ! length (x # ms) = lev\<lparr>lev_mark := x\<rparr>"
    using assms(2) by (simp add: set_level_def nat_add_distrib)
  then show ?thesis
    using assms same_config_fields [OF assms(3)] by (simp add: paused_at_def core_at_def loop_at_def Let_def)
qed

lemma loop_ok:
  assumes "loop_at L st t ms mark" "depth = int (length ms)" "limit = L ms" "0 < nodes"
    and "config_ok st" "os_stopdepth st < depth" "L = core_limit pchoose st"
  shows "loop_post L st (ahead_of L st ms mark) (partial_of L st ms mark)
    (ogr_cycle_loop pchoose st t depth nodes mark limit)"
  using assms
proof (induction pchoose st t depth nodes mark limit arbitrary: ms rule: ogr_cycle_loop.induct)
  case (1 pchoose st t depth nodes mark limit)
  note at = "1.prems"(1) and d = "1.prems"(2) and lim = "1.prems"(3) and nodes = "1.prems"(4)
    and cfg = "1.prems"(5) and stop = "1.prems"(6) and L = "1.prems"(7)
  note len = loop_len [OF at cfg]
  have nd: "nat depth = length ms" by (simp add: d)
  obtain r lev t' where nm: "next_mark (Levels st ! nat depth) t mark limit = (r, lev, t')"
    by (rule prod_cases3)
  note post = loop_next_mark [OF at nm [unfolded nd lim]]
  show ?case
  proof (cases r)
    case None
    obtain m ms' where m: "ms = m # ms'" using len(7) by (cases ms) auto
    let ?s = "set_level st depth lev" and ?d = "depth - 1"
    note A = step_none [OF at [unfolded m] post [unfolded m None]]
    have run: "ogr_cycle_loop pchoose st t depth nodes mark limit =
        (if ?d > os_stopdepth ?s then ogr_cycle_loop pchoose ?s (POP_LEVEL (Levels ?s ! nat ?d)) ?d nodes
            (lev_mark (Levels ?s ! nat ?d)) (lev_limit (Levels ?s ! nat ?d))
         else (?d, nodes, ?s))"
      by (simp add: ogr_cycle_loop.simps [of pchoose st] nm None Let_def)
    show ?thesis
    proof (cases "os_stopdepth ?s < ?d")
      case True
      then have ms': "ms' \<noteq> []" "stop_level st < length ms'" using len(5) by (auto simp: m d nat_less_iff)
      have at2: "loop_at L ?s (POP_LEVEL (Levels ?s ! nat ?d)) ms' m"
        using loop_pop [OF at [unfolded m] ms'(1), of lev] by (simp add: m d nat_add_distrib set_level_def)
      have lev2: "lev_mark (Levels ?s ! nat ?d) = m" "lev_limit (Levels ?s ! nat ?d) = L ms'"
        using at ms' by (simp_all add: m d placed_Cons set_level_def loop_at_def Let_def)
      have "loop_post L ?s (ahead_of L ?s ms' (lev_mark (Levels ?s ! nat ?d))) (partial_of L ?s ms' (lev_mark (Levels ?s ! nat ?d)))
        (ogr_cycle_loop pchoose ?s (POP_LEVEL (Levels ?s ! nat ?d)) ?d nodes
            (lev_mark (Levels ?s ! nat ?d)) (lev_limit (Levels ?s ! nat ?d)))"
      proof (rule "1.IH"(1) [OF nm [symmetric] None refl refl refl refl refl True])
        show "config_ok ?s" using cfg by (rule config_ok_same [rotated]) simp
        show "L = core_limit pchoose ?s" using L core_limit_config [of st ?s] by simp
      qed (use at2 lev2 True nodes in \<open>simp_all add: m d\<close>)
      then have "loop_post L st (ahead_of L st ms' m) (partial_of L st ms' m) (ogr_cycle_loop pchoose st t depth nodes mark limit)"
        using loop_post_trans [of L ?s _ _ _ st] True lev2 by (simp add: run)
      then show ?thesis using A ms'(2) by (simp add: m)
    next
      case False
      then have "ahead_of L st ms mark = {}" "?d = os_stopdepth st" using A stop by (auto simp: m d)
      then show ?thesis using False nodes by (simp add: run loop_post_def)
    qed
  next
    case (Some x)
    let ?s = "set_level st depth (lev\<lparr>lev_mark := x\<rparr>)"
    show ?thesis
    proof (cases "depth = os_maxdepthm1 st")
      case True
      have "found_at L ?s (ahead_of L st ms mark) (partial_of L st ms mark) ms"
        using step_found [OF at cfg, of x lev t'] post True by (simp add: d Some)
      moreover have "ogr_cycle_loop pchoose st t depth nodes mark limit = (depth, nodes, ?s)"
        using True nm Some by (simp add: ogr_cycle_loop.simps [of pchoose st] Let_def)
      ultimately show ?thesis using nodes d by (auto simp: loop_post_def)
    next
      case False
      have l: "int (length ms) < os_maxdepthm1 st" using False len(2) by (simp add: d)
      obtain lev3 t'' where push: "PUSH_LEVEL_UPDATE_STATE (lev\<lparr>lev_mark := x\<rparr>) (Levels ?s ! nat (depth + 1)) t' = (lev3, t'')"
        by (rule prod.exhaust)
      let ?limit = "next_limit pchoose ?s (dist0 t'') (depth + 1)"
      let ?s2 = "set_level ?s (depth + 1) (lev3\<lparr>lev_limit := ?limit\<rparr>)"
      let ?s3 = "set_level ?s2 (depth + 1) (lev3\<lparr>lev_limit := ?limit, lev_mark := x\<rparr>)"
      have run: "ogr_cycle_loop pchoose st t depth nodes mark limit =
          (if nodes - 1 \<le> 0 then (depth + 1, nodes - 1, ?s3)
           else ogr_cycle_loop pchoose ?s2 t'' (depth + 1) (nodes - 1) x ?limit)"
        using False by (simp add: ogr_cycle_loop.simps [of pchoose st] nm Some push Let_def)
      note up = step_push [OF at cfg l _ push L stop [unfolded d], folded d]
      have post': "next_mark_post True (set ms) mark (L ms) (Levels st ! length ms) (Some x, lev, t')"
        using post l by (simp add: Some)
      note up = up [OF post']
      show ?thesis
      proof (cases "nodes - 1 \<le> 0")
        case True
        have "paused_at L ?s3 (ahead_of L st ms mark) (partial_of L st ms mark) (x # ms)"
        proof -
          have "paused_at L (set_level ?s (int (length ms) + 1) (lev3\<lparr>lev_limit := ?limit, lev_mark := x\<rparr>))
              (ahead_of L st ms mark) (partial_of L st ms mark) (x # ms)"
            by (rule paused_push [where st = st and t = t'']) (use up(1,3,4) up(2) [of x] len l stop in \<open>simp_all add: d\<close>)
          then show ?thesis by (simp add: d)
        qed
        moreover have "depth + 1 = int (length (x # ms))" "same_config st ?s3" by (simp_all add: d)
        ultimately have "loop_post L st (ahead_of L st ms mark) (partial_of L st ms mark) (depth + 1, 0, ?s3)"
          unfolding loop_post_def prod.case by blast
        moreover have "nodes - 1 = 0" using True nodes by simp
        ultimately show ?thesis unfolding run by (simp only: order_refl if_True)
      next
        case go: False
        have at3: "loop_at L ?s2 t'' (x # ms) x" using up(2) [of "lev_mark lev3"] by (simp add: lev_mark_self)
        have "loop_post L ?s2 (ahead_of L ?s2 (x # ms) x) (partial_of L ?s2 (x # ms) x)
            (ogr_cycle_loop pchoose ?s2 t'' (depth + 1) (nodes - 1) x ?limit)"
        proof (rule "1.IH"(2) [OF nm [symmetric] Some refl refl refl _ refl push [symmetric] refl refl refl refl refl go])
          show "config_ok ?s2" using cfg by (rule config_ok_same [rotated]) simp
          show "L = core_limit pchoose ?s2" using L core_limit_config [of st ?s2] by simp
        qed (use at3 up(1) go stop False in \<open>simp_all add: d\<close>)
        then show ?thesis using loop_post_trans [of L ?s2 _ _ _ st] up(3,4) go by (simp add: run less_imp_le)
      qed
    qed
  qed
qed

section \<open>The check of a complete ruler is exact\<close>

text \<open>The distance \<open>x\<close> is marked in the array of \<open>found_one\<close>, which has a bit for each of the
  distances from 256 to 1023.\<close>

definition marked :: "u32 list \<Rightarrow> int \<Rightarrow> bool" where
  "marked diffs x \<longleftrightarrow> bit (diffs ! nat (x div 32 - 256 div 32)) (nat (x mod 32))"

lemma mark_bit: "n < 32 \<Longrightarrow> bit (shl 1 n :: u32) k \<longleftrightarrow> k = n"
  by (auto simp: bit_shl bit_1_iff)

lemma marked_test: "diffs ! nat (x div 32 - 256 div 32) AND shl 1 (nat (x mod 32)) \<noteq> 0 \<longleftrightarrow> marked diffs x"
proof -
  have n: "nat (x mod 32) < 32" by (simp add: nat_less_iff)
  have "w AND shl 1 n = 0 \<longleftrightarrow> \<not> bit w n" if "n < 32" for w :: u32 and n
  proof
    assume "w AND shl 1 n = 0"
    then have "\<not> bit (w AND shl 1 n) n" by simp
    then show "\<not> bit w n" using mark_bit [OF that] by (simp add: bit_and_iff)
  next
    assume "\<not> bit w n"
    then show "w AND shl 1 n = 0"
      by (intro bit_word_eqI) (auto simp: bit_and_iff mark_bit [OF that])
  qed
  then show ?thesis using n by (simp add: marked_def)
qed

lemma marked_set:
  assumes "256 < x" "x < 1024" "256 < y" "y < 1024" "length diffs = 24"
  shows "marked (diffs[nat (x div 32 - 256 div 32) := diffs ! nat (x div 32 - 256 div 32) OR shl 1 (nat (x mod 32))]) y
    \<longleftrightarrow> marked diffs y \<or> y = x"
proof -
  have i: "nat (z div 32 - 256 div 32) < 24 \<and> 8 \<le> z div 32" if "256 < z" "z < 1024" for z :: int
    using that by (simp add: nat_less_iff) linarith
  show ?thesis
  proof (cases "nat (x div 32 - 256 div 32) = nat (y div 32 - 256 div 32)")
    case True
    then have "x div 32 = y div 32" using i [of x] i [of y] assms by linarith
    then have "nat (y mod 32) = nat (x mod 32) \<longleftrightarrow> y = x"
      using div_mult_mod_eq [of x 32] div_mult_mod_eq [of y 32] by (metis eq_nat_nat_iff pos_mod_sign zero_less_numeral)
    then show ?thesis
      using True i [of y] assms by (simp add: marked_def bit_or_iff mark_bit)
  next
    case False
    then show ?thesis by (auto simp: marked_def)
  qed
qed

definition in_range :: "int \<Rightarrow> int \<Rightarrow> bool" where
  "in_range maxlen x \<longleftrightarrow> 256 < x \<and> x + x \<le> maxlen"

definition marks_set :: "int \<Rightarrow> u32 list \<Rightarrow> int set \<Rightarrow> bool" where
  "marks_set maxlen diffs D \<longleftrightarrow> length diffs = 24 \<and> (\<forall>x. in_range maxlen x \<longrightarrow> (marked diffs x \<longleftrightarrow> x \<in> D))"

lemma found_one_row_ok:
  assumes "marks_set maxlen diffs D" "sorted_wrt (<) js" "\<forall>m\<in>set js. m < x" "maxlen < 2048"
  shows "case found_one_row maxlen x js diffs of
      None \<Rightarrow> \<exists>m\<in>set js. in_range maxlen (x - m) \<and> x - m \<in> D
    | Some diffs' \<Rightarrow> (\<forall>m\<in>set js. in_range maxlen (x - m) \<longrightarrow> x - m \<notin> D) \<and>
        marks_set maxlen diffs' (D \<union> {x - m |m. m \<in> set js})"
  using assms
proof (induction maxlen x js diffs arbitrary: D rule: found_one_row.induct)
  case (1 maxlen x diffs)
  then show ?case by simp
next
  case (2 maxlen x mark_j js diffs)
  let ?d = "x - mark_j" and ?i = "nat ((x - mark_j) div 32 - 256 div 32)"
  let ?diffs = "diffs[?i := diffs ! ?i OR shl 1 (nat (?d mod 32))]"
  have js: "sorted_wrt (<) js" "\<forall>m\<in>set js. m < x" "\<forall>m\<in>set js. mark_j < m" using "2.prems" by auto
  consider (short) "?d \<le> 256" | (long) "256 < ?d" "\<not> ?d + ?d \<le> maxlen" | (range) "256 < ?d" "?d + ?d \<le> maxlen"
    by linarith
  then show ?case
  proof cases
    case short
    then have "\<not> in_range maxlen (x - m)" if "m \<in> set (mark_j # js)" for m
      using js that by (auto simp: in_range_def)
    then show ?thesis using short "2.prems"(1) by (auto simp: marks_set_def)
  next
    case long
    then have "\<not> in_range maxlen ?d" by (simp add: in_range_def)
    moreover have "marks_set maxlen d (insert ?d E) \<longleftrightarrow> marks_set maxlen d E" for d E
      using calculation by (auto simp: marks_set_def)
    moreover have "D \<union> {x - m |m. m \<in> set (mark_j # js)} = insert ?d (D \<union> {x - m |m. m \<in> set js})" by auto
    moreover have "case found_one_row maxlen x js diffs of
        None \<Rightarrow> \<exists>m\<in>set js. in_range maxlen (x - m) \<and> x - m \<in> D
      | Some diffs' \<Rightarrow> (\<forall>m\<in>set js. in_range maxlen (x - m) \<longrightarrow> x - m \<notin> D) \<and>
        marks_set maxlen diffs' (D \<union> {x - m |m. m \<in> set js})"
      using "2.IH"(2) [OF refl] long js "2.prems" by auto
    ultimately show ?thesis using long by (auto split: option.splits)
  next
    case range
    then have r: "in_range maxlen ?d" "256 < ?d" "?d < 1024" using "2.prems"(4) by (auto simp: in_range_def)
    have m: "marked diffs ?d \<longleftrightarrow> ?d \<in> D" using "2.prems"(1) r by (simp add: marks_set_def)
    show ?thesis
    proof (cases "?d \<in> D")
      case True
      then have "found_one_row maxlen x (mark_j # js) diffs = None"
        using range marked_test [of diffs ?d] m by (simp add: Let_def)
      then show ?thesis using True r by auto
    next
      case False
      have run: "found_one_row maxlen x (mark_j # js) diffs = found_one_row maxlen x js ?diffs"
        using range marked_test [of diffs ?d] m False by (simp add: Let_def)
      have "marks_set maxlen ?diffs (insert ?d D)"
        using "2.prems"(1,4) marked_set [OF r(2,3)] by (auto simp: marks_set_def in_range_def)
      then have "case found_one_row maxlen x js ?diffs of
          None \<Rightarrow> \<exists>m\<in>set js. in_range maxlen (x - m) \<and> x - m \<in> insert ?d D
        | Some diffs' \<Rightarrow> (\<forall>m\<in>set js. in_range maxlen (x - m) \<longrightarrow> x - m \<notin> insert ?d D) \<and>
            marks_set maxlen diffs' (insert ?d D \<union> {x - m |m. m \<in> set js})"
        using "2.IH"(1) [OF refl _ _ refl refl _ _ js(1,2)] range marked_test [of diffs ?d] m False "2.prems"(4) by auto
      moreover have "D \<union> {x - m |m. m \<in> set (mark_j # js)} = insert ?d D \<union> {x - m |m. m \<in> set js}" by auto
      moreover have "x - m \<noteq> ?d" if "m \<in> set js" for m using js(3) that by auto
      ultimately show ?thesis unfolding run using False by (auto split: option.splits)
    qed
  qed
qed

lemma in_range_half: "in_range maxlen x \<longleftrightarrow> 256 < x \<and> x \<le> maxlen div 2"
  by (auto simp: in_range_def)

text \<open>A mark above \<open>S\<close> keeps the distances up to half of the length apart, if it does so for those
  up to 256.\<close>

lemma golomb_row:
  assumes "\<forall>m\<in>S. m < x" "golomb_upto h S" "golomb_upto 256 (insert x S)"
  shows "golomb_upto h (insert x S) \<longleftrightarrow> (\<forall>m\<in>S. 256 < x - m \<and> x - m \<le> h \<longrightarrow> x - m \<notin> dists S)"
  using assms golomb_upto_insert_iff [OF assms(1), of h] golomb_upto_insert_iff [OF assms(1), of 256]
  by (meson not_le)

lemma found_one_rows_ok:
  assumes "marks_set maxlen diffs (dists (set (take i ms)))" "sorted_wrt (<) (take N ms)" "maxlen < 2048"
    and "N \<le> length ms" "i \<le> N" "golomb_upto (maxlen div 2) (set (take i ms))" "golomb_upto 256 (set (take N ms))"
  shows "found_one_rows maxlen ms [i..<N] diffs \<noteq> None \<longleftrightarrow> golomb_upto (maxlen div 2) (set (take N ms))"
  using assms
proof (induction "N - i" arbitrary: i diffs)
  case 0
  then show ?case by simp
next
  case (Suc k)
  then have i: "i < N" "i < length ms" "[i..<N] = i # [i + 1..<N]" by (auto simp: upt_conv_Cons)
  let ?S = "set (take i ms)" and ?x = "ms ! i"
  have S: "set (take (i + 1) ms) = insert ?x ?S" using i by (simp add: take_Suc_conv_app_nth)
  have take: "take i ms = take i (take N ms)" "?x = take N ms ! i" using i by simp_all
  have srt: "sorted_wrt (<) (take i ms)" using sorted_wrt_take [OF Suc.prems(2), of i] i by (simp add: min_absorb1)
  have lt: "\<forall>m\<in>?S. m < ?x"
    using Suc.prems(2) i by (auto simp: in_set_conv_nth sorted_wrt_iff_nth_less)
  have sub: "insert ?x ?S \<subseteq> set (take N ms)"
    using set_take_subset_set_take [of "i + 1" N ms] i S by simp
  then have row: "golomb_upto (maxlen div 2) (insert ?x ?S)
      \<longleftrightarrow> (\<forall>m\<in>?S. in_range maxlen (?x - m) \<longrightarrow> ?x - m \<notin> dists ?S)"
    using golomb_row [OF lt Suc.prems(6)] golomb_upto_subset [OF Suc.prems(7)] by (auto simp: in_range_half)
  note r = found_one_row_ok [OF Suc.prems(1) srt lt Suc.prems(3)]
  show ?case
  proof (cases "found_one_row maxlen ?x (take i ms) diffs")
    case None
    then have "\<not> golomb_upto (maxlen div 2) (insert ?x ?S)" using r row by auto
    then have "\<not> golomb_upto (maxlen div 2) (set (take N ms))" using golomb_upto_subset sub by blast
    then show ?thesis using None i by simp
  next
    case (Some diffs')
    have "golomb_upto (maxlen div 2) (set (take (i + 1) ms))" using Some r row S by simp
    moreover have "marks_set maxlen diffs' (dists (set (take (i + 1) ms)))"
      using Some r dists_insert [OF lt] S by simp
    ultimately have "found_one_rows maxlen ms [i + 1..<N] diffs' \<noteq> None \<longleftrightarrow> golomb_upto (maxlen div 2) (set (take N ms))"
      using Suc i by (intro Suc.hyps(1)) auto
    then show ?thesis using Some i by simp
  qed
qed

lemma found_one_ok:
  assumes cfg: "config_ok st" and srt: "sorted_wrt (<) (take (n_marks st) (map lev_mark (Levels st)))"
    and g: "golomb_upto 256 (set (take (n_marks st) (map lev_mark (Levels st))))"
  shows "found_one junk st = (if golomb_upto (os_max st div 2) (set (take (n_marks st) (map lev_mark (Levels st)))) then -1 else 0)"
proof -
  let ?ms = "map lev_mark (Levels st)"
  let ?d = "map (\<lambda>i. if int i \<le> os_max st div 2 ^ (5 + 1) then 0 else junk ! i) [0..<24]"
  have len: "length ?ms = 29" "1 \<le> n_marks st" "n_marks st \<le> 28" "os_max st < 2048"
    using cfg by (auto simp: config_ok_def OGR_MAXDEPTH_def)
  have one: "set (take 1 ?ms) = {?ms ! 0}" using len by (cases "Levels st") auto
  have "marked ?d x \<longleftrightarrow> x \<in> dists (set (take 1 ?ms))" if "in_range (os_max st) x" for x
  proof -
    have x: "256 < x" "x + x \<le> os_max st" using that by (auto simp: in_range_def)
    then have "nat (x div 32 - 256 div 32) < 24" "int (nat (x div 32 - 256 div 32)) \<le> os_max st div 64"
      using len by (simp_all add: nat_less_iff) linarith+
    then have "\<not> marked ?d x" by (simp add: marked_def)
    moreover have "x \<notin> dists (set (take 1 ?ms))" unfolding one by (auto simp: dists_def)
    ultimately show ?thesis by blast
  qed
  then have m: "marks_set (os_max st) ?d (dists (set (take 1 ?ms)))" by (simp add: marks_set_def)
  have "golomb_upto (os_max st div 2) (set (take 1 ?ms))" unfolding one by (simp add: golomb_upto_def)
  then have "found_one_rows (os_max st) ?ms [1..<n_marks st] ?d \<noteq> None
      \<longleftrightarrow> golomb_upto (os_max st div 2) (set (take (n_marks st) ?ms))"
    using m srt g len by (intro found_one_rows_ok) auto
  then show ?thesis by (auto simp: found_one_def Let_def split: option.splits)
qed

section \<open>A call of the core\<close>

text \<open>The marks below the current level, latest first, and the mark of that level; what is still
  ahead of a state; and the Golomb rulers among it.\<close>

definition marks_of :: "ogr_state \<Rightarrow> int list" where
  "marks_of st = rev (map lev_mark (take (nat (os_depth st)) (Levels st)))"

definition cur_mark :: "ogr_state \<Rightarrow> int" where
  "cur_mark st = lev_mark (Levels st ! nat (os_depth st))"

definition rulers_ahead :: "(nat \<Rightarrow> u16) \<Rightarrow> ogr_state \<Rightarrow> int list set" where
  "rulers_ahead pchoose st = ahead (core_limit pchoose st) (n_marks st) (stop_level st) (marks_of st) (cur_mark st)"

definition partials_ahead :: "(nat \<Rightarrow> u16) \<Rightarrow> ogr_state \<Rightarrow> int list set" where
  "partials_ahead pchoose st = partial_ahead (core_limit pchoose st) (n_marks st) (stop_level st) (marks_of st) (cur_mark st)"

definition golomb_ahead :: "(nat \<Rightarrow> u16) \<Rightarrow> ogr_state \<Rightarrow> int list set" where
  "golomb_ahead pchoose st = {r \<in> rulers_ahead pchoose st. golomb (set r)}"

definition table_ok :: "(nat \<Rightarrow> u16) \<Rightarrow> int \<Rightarrow> bool" where
  "table_ok pchoose maxlen \<longleftrightarrow> (\<forall>i. uint (pchoose i) \<le> maxlen)"

definition core_inv :: "(nat \<Rightarrow> u16) \<Rightarrow> ogr_state \<Rightarrow> bool" where
  "core_inv pchoose st \<longleftrightarrow> config_ok st \<and> table_ok pchoose (os_max st) \<and>
     core_at (core_limit pchoose st) st (marks_of st) \<and> int (length (marks_of st)) = os_depth st"

lemma core_limit_le: "table_ok pchoose (os_max st) \<Longrightarrow> core_limit pchoose st ms \<le> os_max st"
proof -
  assume "table_ok pchoose (os_max st)"
  then have "choose_limit pchoose d k \<le> os_max st" for d k by (simp add: table_ok_def choose_limit_def)
  moreover have "next_limit pchoose st' d k \<le> choose_limit pchoose d k" for st' d k
    by (simp add: next_limit_def Let_def)
  ultimately show "core_limit pchoose st ms \<le> os_max st"
    unfolding core_limit_def by (rule order_trans [rotated])
qed

lemma marks_of_placed:
  assumes "placed L (Levels st) ms" "os_depth st = int (length ms)" "length ms \<le> length (Levels st)"
  shows "marks_of st = ms"
proof -
  have "rev ms = map lev_mark (take (length ms) (Levels st))"
    by (rule nth_equalityI) (use assms placed_mark [OF assms(1)] in auto)
  then show ?thesis unfolding marks_of_def assms(2) nat_int by (metis rev_rev_ident)
qed

lemma core_at_depth [simp]: "core_at L (st\<lparr>os_depth := d\<rparr>) ms = core_at L st ms"
  by (simp add: core_at_def)

lemma core_limit_depth [simp]: "core_limit pchoose (st\<lparr>os_depth := d\<rparr>) = core_limit pchoose st"
  by (rule core_limit_config) simp

lemma core_state:
  assumes "core_at (core_limit pchoose st) st ms" "same_config st0 st" "config_ok st0" "table_ok pchoose (os_max st0)"
    and "d = int (length ms)"
  shows "core_inv pchoose (st\<lparr>os_depth := d\<rparr>)" "marks_of (st\<lparr>os_depth := d\<rparr>) = ms"
    "cur_mark (st\<lparr>os_depth := d\<rparr>) = lev_mark (Levels st ! length ms)"
proof -
  have c: "config_ok st" "os_max st = os_max st0"
    using assms(2,3) config_ok_same same_config_fields by blast+
  have "length ms \<le> length (Levels st)" "placed (core_limit pchoose st) (Levels st) ms"
    using assms(1) c by (auto simp: core_at_def config_ok_def OGR_MAXDEPTH_def Let_def)
  then show m: "marks_of (st\<lparr>os_depth := d\<rparr>) = ms"
    using marks_of_placed [of "core_limit pchoose st" "st\<lparr>os_depth := d\<rparr>" ms] assms(5) by simp
  show "core_inv pchoose (st\<lparr>os_depth := d\<rparr>)"
    using m assms c by (auto simp: core_inv_def config_ok_def)
  show "cur_mark (st\<lparr>os_depth := d\<rparr>) = lev_mark (Levels st ! length ms)"
    using assms(5) by (simp add: cur_mark_def)
qed

lemma rulers_ahead_state:
  assumes "core_at (core_limit pchoose st) st ms" "same_config st0 st" "config_ok st0" "table_ok pchoose (os_max st0)"
    and "d = int (length ms)"
  shows "rulers_ahead pchoose (st\<lparr>os_depth := d\<rparr>) =
    ahead_of (core_limit pchoose st0) st0 ms (lev_mark (Levels st ! length ms))"
    and "partials_ahead pchoose (st\<lparr>os_depth := d\<rparr>) =
    partial_of (core_limit pchoose st0) st0 ms (lev_mark (Levels st ! length ms))"
  using core_state [OF assms] same_config_fields [OF assms(2)] core_limit_config [OF assms(2), of pchoose]
  by (simp_all add: rulers_ahead_def partials_ahead_def)

text \<open>\<open>ogr_cycle_256\<close> finds a ruler, pauses when the nodes are used up, or is done.\<close>

lemma ogr_cycle_256_ok:
  assumes inv: "core_inv pchoose st" and stop: "os_stopdepth st < os_depth st" and n: "0 < pnodes"
    and run: "ogr_cycle_256 pchoose u st pnodes = (d, n, st')"
  defines "s \<equiv> st'\<lparr>os_depth := d\<rparr>"
  shows "same_config st s \<and>
    (n < pnodes \<and> d = os_maxdepthm1 s \<and> core_inv pchoose s \<and> os_stopdepth s < d \<and>
       ruler (core_limit pchoose s) (cur_mark s # marks_of s) \<and>
       rulers_ahead pchoose st = insert (cur_mark s # marks_of s) (rulers_ahead pchoose s) \<and>
       partials_ahead pchoose s \<subseteq> partials_ahead pchoose st
     \<or> n = pnodes \<and> os_stopdepth s + 2 \<le> d \<and> core_inv pchoose s \<and> cur_mark s = hd (marks_of s) \<and>
       rulers_ahead pchoose st = rulers_ahead pchoose s \<and> partials_ahead pchoose s \<subset> partials_ahead pchoose st
     \<or> n < pnodes \<and> d = os_stopdepth s \<and> rulers_ahead pchoose st = {})"
proof -
  let ?ms = "marks_of st" and ?L = "core_limit pchoose st"
  have cfg: "config_ok st" "table_ok pchoose (os_max st)" and at: "core_at ?L st ?ms"
    and d: "os_depth st = int (length ?ms)"
    using inv by (simp_all add: core_inv_def)
  have nd: "nat (os_depth st) = length ?ms" using d by simp
  define t where "t = SETUP_TOP_STATE (Levels st ! length ?ms) (int (length ?ms)) (os_maxdepthm1 st) u"
  have la: "loop_at ?L st t ?ms (cur_mark st)"
    using core_at_setup [OF at] by (simp add: t_def cur_mark_def nd)
  have "lev_limit (Levels st ! length ?ms) = ?L ?ms" using at by (simp add: core_at_def Let_def)
  then have eq: "ogr_cycle_loop pchoose st t (os_depth st) pnodes (cur_mark st) (?L ?ms) = (d, pnodes - n, st')"
    using run nd d by (auto simp: ogr_cycle_256_def t_def cur_mark_def Let_def split: prod.splits)
  have p: "loop_post ?L st (rulers_ahead pchoose st) (partials_ahead pchoose st) (d, pnodes - n, st')"
    using loop_ok [OF la d refl n cfg(1) stop refl] unfolding eq by (simp add: rulers_ahead_def partials_ahead_def)
  have same: "same_config st st'" using p by (simp add: loop_post_def)
  have L: "core_limit pchoose st' = ?L" using same by (rule core_limit_config)
  note f = same_config_fields [OF same]
  consider (found) ms where "0 < pnodes - n" "d = int (length ms)" "found_at ?L st' (rulers_ahead pchoose st) (partials_ahead pchoose st) ms"
    | (paused) ms where "pnodes - n = 0" "d = int (length ms)" "paused_at ?L st' (rulers_ahead pchoose st) (partials_ahead pchoose st) ms"
    | (finished) "0 < pnodes - n" "d = os_stopdepth st'" "rulers_ahead pchoose st = {}"
    using p by (auto simp: loop_post_def)
  then show ?thesis
  proof cases
    case found
    let ?x = "lev_mark (Levels st' ! length ms)"
    have c: "core_at (core_limit pchoose st') st' ms" "int (length ms) = os_maxdepthm1 st'" "ruler ?L (?x # ms)"
      "rulers_ahead pchoose st = insert (?x # ms) (ahead_of ?L st' ms ?x)" "partial_of ?L st' ms ?x \<subseteq> partials_ahead pchoose st"
      using found by (simp_all add: found_at_def L Let_def)
    have "os_stopdepth st < d" using stop at c(2) f found(2) d by (auto simp: core_at_def Let_def)
    then show ?thesis
      using core_state [OF c(1) same cfg found(2)] rulers_ahead_state [OF c(1) same cfg found(2)] c found same L f
      by (auto simp: s_def)
  next
    case paused
    let ?x = "lev_mark (Levels st' ! length ms)"
    have c: "core_at (core_limit pchoose st') st' ms" "os_stopdepth st' + 2 \<le> int (length ms)" "?x = hd ms"
      "rulers_ahead pchoose st = ahead_of ?L st' ms ?x" "partial_of ?L st' ms ?x \<subset> partials_ahead pchoose st"
      using paused(3) unfolding paused_at_def Let_def L by blast+
    then show ?thesis
      using core_state [OF c(1) same cfg paused(2)] rulers_ahead_state [OF c(1) same cfg paused(2)] paused same L f
      by (auto simp: s_def)
  next
    case finished
    then show ?thesis using same by (auto simp: s_def)
  qed
qed

text \<open>The complete ruler in the levels of a state, latest mark first.\<close>

definition ruler_of :: "ogr_state \<Rightarrow> int list" where
  "ruler_of st = rev (take (n_marks st) (map lev_mark (Levels st)))"

lemma ruler_of_found:
  assumes "core_inv pchoose st" "os_depth st = os_maxdepthm1 st"
  shows "ruler_of st = cur_mark st # marks_of st"
proof -
  have c: "n_marks st = Suc (nat (os_depth st))" "nat (os_depth st) < length (Levels st)"
    using assms by (auto simp: core_inv_def config_ok_def OGR_MAXDEPTH_def)
  show ?thesis
    unfolding ruler_of_def marks_of_def cur_mark_def c(1)
    using c(2) by (simp add: take_Suc_conv_app_nth take_map)
qed

lemma found_check:
  assumes inv: "core_inv pchoose st" and d: "os_depth st = os_maxdepthm1 st"
    and r: "ruler (core_limit pchoose st) (cur_mark st # marks_of st)"
  shows "cur_mark st > 512 \<and> found_one junk st = 0 \<longleftrightarrow> \<not> golomb (set (cur_mark st # marks_of st))"
proof -
  let ?r = "cur_mark st # marks_of st" and ?ms = "take (n_marks st) (map lev_mark (Levels st))"
  have ms: "?ms = rev ?r" "set ?ms = set ?r"
    using ruler_of_found [OF inv d] by (metis ruler_of_def rev_rev_ident, metis ruler_of_def set_rev)
  have cfg: "config_ok st" "table_ok pchoose (os_max st)" "0 \<le> os_max st"
    using inv by (auto simp: core_inv_def config_ok_def)
  have g: "golomb_upto 256 (set ?r)" using ruler_golomb_upto [OF r] .
  have srt: "sorted_wrt (<) ?ms" using ruler_sorted [OF r] unfolding ms by (simp only: sorted_wrt_rev)
  have f: "found_one junk st = (if golomb_upto (os_max st div 2) (set ?r) then -1 else 0)"
    using found_one_ok [OF cfg(1) srt] g ms by simp
  have "set ?r \<subseteq> {0..os_max st}"
    using ruler_bounded [OF r] core_limit_le cfg by blast
  then have big: "golomb (set ?r) \<longleftrightarrow> golomb_upto (os_max st div 2) (set ?r)"
    by (intro golomb_half) auto
  have "golomb (set ?r)" if "cur_mark st \<le> 512"
  proof -
    have "\<forall>m\<in>set ?r. 0 \<le> m \<and> m \<le> 512" using ruler_below [OF r] that by fastforce
    then show ?thesis using golomb_half [of "set ?r" 512] g by simp
  qed
  then show ?thesis using f big by (cases "cur_mark st \<le> 512") auto
qed

definition call_post :: "(nat \<Rightarrow> u16) \<Rightarrow> ogr_state \<Rightarrow> int \<Rightarrow> int \<times> int \<times> ogr_state \<Rightarrow> bool" where
  "call_post pchoose st pnodes res \<longleftrightarrow>
     (case res of (r, n, st') \<Rightarrow> n \<le> pnodes \<and> same_config st st' \<and>
        (r = CORE_S_CONTINUE \<and> n = pnodes \<and> core_inv pchoose st' \<and> os_stopdepth st' + 2 \<le> os_depth st' \<and>
           cur_mark st' = hd (marks_of st') \<and> partials_ahead pchoose st' \<subset> partials_ahead pchoose st \<and> golomb_ahead pchoose st' = golomb_ahead pchoose st
         \<or> r = CORE_S_OK \<and> golomb_ahead pchoose st = {}
         \<or> r = CORE_S_SUCCESS \<and> os_depth st' = os_stopdepth st' \<and> ruler_of st' \<in> golomb_ahead pchoose st))"

lemma rulers_ahead_finite: "core_inv pchoose st \<Longrightarrow> finite (rulers_ahead pchoose st)"
  unfolding rulers_ahead_def
  by (rule ahead_finite [of _ "os_max st"]) (auto simp: core_inv_def config_ok_def core_limit_le)

lemma ogr_cycle_checked_ok:
  assumes "core_inv pchoose st" "os_stopdepth st < os_depth st" "nodesDone < pnodes"
  shows "\<exists>res. ogr_cycle_checked env pchoose st pnodes nodesDone = Some res \<and> call_post pchoose st pnodes res"
  using assms
proof (induction "card (rulers_ahead pchoose st)" arbitrary: st nodesDone rule: less_induct)
  case less
  obtain d n st' where run: "ogr_cycle_256 pchoose (oe_dist0 env) st (pnodes - nodesDone) = (d, n, st')"
    by (rule prod_cases3)
  let ?s = "st'\<lparr>os_depth := d\<rparr>" and ?n = "nodesDone + n"
  have same: "same_config st ?s" and cases:
    "n < pnodes - nodesDone \<and> d = os_maxdepthm1 ?s \<and> core_inv pchoose ?s \<and> os_stopdepth ?s < d \<and>
       ruler (core_limit pchoose ?s) (cur_mark ?s # marks_of ?s) \<and>
       rulers_ahead pchoose st = insert (cur_mark ?s # marks_of ?s) (rulers_ahead pchoose ?s) \<and>
       partials_ahead pchoose ?s \<subseteq> partials_ahead pchoose st
     \<or> n = pnodes - nodesDone \<and> os_stopdepth ?s + 2 \<le> d \<and> core_inv pchoose ?s \<and> cur_mark ?s = hd (marks_of ?s) \<and>
       rulers_ahead pchoose st = rulers_ahead pchoose ?s \<and> partials_ahead pchoose ?s \<subset> partials_ahead pchoose st
     \<or> n < pnodes - nodesDone \<and> d = os_stopdepth ?s \<and> rulers_ahead pchoose st = {}"
    using ogr_cycle_256_ok [OF less.prems(1,2) _ run] less.prems(3) by auto
  have step: "ogr_cycle_checked env pchoose st pnodes nodesDone =
      (if d = os_maxdepthm1 ?s \<and> n \<noteq> pnodes - nodesDone then
         if cur_mark ?s > 512 \<and> found_one (oe_diffs env) ?s = 0
         then ogr_cycle_checked env pchoose ?s pnodes ?n
         else Some (CORE_S_SUCCESS, ?n, ?s\<lparr>os_depth := os_stopdepth ?s\<rparr>)
       else if d \<le> os_stopdepth ?s then Some (CORE_S_OK, ?n, ?s) else Some (CORE_S_CONTINUE, ?n, ?s))"
    by (subst ogr_cycle_checked.simps) (simp add: run Let_def cur_mark_def)
  from cases show ?case
  proof (elim disjE conjE)
    assume f: "n < pnodes - nodesDone" "d = os_maxdepthm1 ?s" "core_inv pchoose ?s" "os_stopdepth ?s < d"
      "ruler (core_limit pchoose ?s) (cur_mark ?s # marks_of ?s)"
      "rulers_ahead pchoose st = insert (cur_mark ?s # marks_of ?s) (rulers_ahead pchoose ?s)"
      "partials_ahead pchoose ?s \<subseteq> partials_ahead pchoose st"
    let ?r = "cur_mark ?s # marks_of ?s"
    have chk: "cur_mark ?s > 512 \<and> found_one (oe_diffs env) ?s = 0 \<longleftrightarrow> \<not> golomb (set ?r)"
      using found_check [OF f(3) _ f(5)] f(2) by simp
    show ?thesis
    proof (cases "golomb (set ?r)")
      case True
      have "ruler_of (?s\<lparr>os_depth := k\<rparr>) = ?r" for k
        using ruler_of_found [OF f(3)] f(2) by (simp add: ruler_of_def)
      then have "call_post pchoose st pnodes (CORE_S_SUCCESS, ?n, ?s\<lparr>os_depth := os_stopdepth ?s\<rparr>)"
        using f True same by (simp add: call_post_def golomb_ahead_def)
      then show ?thesis using step chk f(1,2) True by simp
    next
      case False
      have "?r \<notin> rulers_ahead pchoose ?s"
        using ahead_lower [of "cur_mark ?s" "cur_mark ?s" "[]"] by (simp add: rulers_ahead_def)
      then have "card (rulers_ahead pchoose ?s) < card (rulers_ahead pchoose st)"
        using rulers_ahead_finite [OF f(3)] f(6) by simp
      then obtain res where res: "ogr_cycle_checked env pchoose ?s pnodes ?n = Some res" "call_post pchoose ?s pnodes res"
        using less.hyps [OF _ f(3), of ?n] f(1,4) by auto
      have "golomb_ahead pchoose ?s = golomb_ahead pchoose st"
        using f(6) False by (auto simp: golomb_ahead_def)
      then have "call_post pchoose st pnodes res"
        using res(2) same f(7) by (auto simp: call_post_def elim: same_config_trans)
      then show ?thesis using step chk f(1,2) False res(1) by simp
    qed
  next
    assume p: "n = pnodes - nodesDone" "os_stopdepth ?s + 2 \<le> d" "core_inv pchoose ?s"
      "cur_mark ?s = hd (marks_of ?s)" "rulers_ahead pchoose st = rulers_ahead pchoose ?s"
      "partials_ahead pchoose ?s \<subset> partials_ahead pchoose st"
    then have "call_post pchoose st pnodes (CORE_S_CONTINUE, ?n, ?s)"
      using same by (simp add: call_post_def golomb_ahead_def)
    then show ?thesis using step p(1,2) by simp
  next
    assume e: "n < pnodes - nodesDone" "d = os_stopdepth ?s" "rulers_ahead pchoose st = {}"
    have "os_stopdepth ?s < os_maxdepthm1 ?s"
      using less.prems(1,2) same_config_fields [OF same]
      by (auto simp: core_inv_def core_at_def Let_def)
    moreover have "call_post pchoose st pnodes (CORE_S_OK, ?n, ?s)"
      using e same by (simp add: call_post_def golomb_ahead_def)
    ultimately show ?thesis using step e by simp
  qed
qed

section \<open>Properties\<close>

definition level_01 :: ogr_level where
  "level_01 = \<lparr>lev_list = 2147483648 # replicate 7 0, lev_dist = 2147483648 # replicate 7 0,
     lev_comp = 2147483648 # replicate 7 0, lev_mark = 1, lev_limit = 100\<rparr>"

lemma level_01_ok: "level_ok True level_01 {0, 1} 1"
proof -
  define w :: u32 where "w = 2147483648"
  have bit: "bit w n \<longleftrightarrow> n = 31" for n
    using mark_bit [of 31 n] by (simp add: shl_def w_def)
  have nth: "(w # replicate 7 0) ! i = (if i = 0 then w else (0::u32))" if "i < 8" for i
    using that by (cases i) auto
  have at: "at (w # replicate 7 0) p \<longleftrightarrow> p = 1" if "1 \<le> p" "p \<le> 256" for p
  proof -
    have "(p - 1) div 32 < 8" using that by (simp add: div_less_iff_less_mult)
    then have "at (w # replicate 7 0) p \<longleftrightarrow> (p - 1) div 32 = 0 \<and> (p - 1) mod 32 = 0"
      using that by (auto simp: at_def nth bit)
    also have "\<dots> \<longleftrightarrow> p = 1"
      using that div_mult_mod_eq [of "p - 1" 32] by auto
    finally show ?thesis .
  qed
  have d: "dists {0, 1} = {1}" "forbidden {0, 1} = {1, 2}"
    by (auto simp: dists_def forbidden_def)
  show ?thesis
    unfolding level_ok_def level_01_def w_def [symmetric] using at by (auto simp: d)
qed

text \<open>C19: the bitmaps do what they stand for. From a level whose bitmaps describe the marks \<open>S\<close>,
  \<open>ogr_cycle_256\<close> moves the mark to the lowest position above it that repeats no distance of at
  most 256, if that is within the limit, and the bitmaps then describe the new position; else
  it finds that there is none.\<close>

theorem next_mark_is_least:
  assumes "level_ok l lev S mark" "top_ok l lev t S mark" "\<forall>m\<in>S. m \<le> mark"
  shows "case next_mark lev t mark limit of
      (None, lev', t') \<Rightarrow> \<forall>y. mark < y \<and> y \<le> limit \<longrightarrow> y \<in> forbidden S
    | (Some x, lev', t') \<Rightarrow> mark < x \<and> x \<le> limit \<and> x \<notin> forbidden S \<and>
        (\<forall>y. mark < y \<and> y < x \<longrightarrow> y \<in> forbidden S) \<and> level_ok l lev' S x \<and> top_ok l lev' t' S x"
  using next_mark_ok [OF assms, of limit]
  by (fastforce simp: next_mark_post_def place_ok_def split: prod.splits option.splits)

theorem next_mark_is_least_witness:
  "fst (next_mark level_01 \<lparr>comp0 = 2147483648, dist0 = 0, newbit = 1\<rparr> 1 100) = Some 3"
proof -
  have t: "top_ok True level_01 \<lparr>comp0 = 2147483648, dist0 = 0, newbit = 1\<rparr> {0, 1} 1"
    by (simp add: top_ok_def level_01_def)
  have f: "forbidden {0, 1} = {1, 2}" by (auto simp: dists_def forbidden_def)
  obtain r lev' t' where n: "next_mark level_01 \<lparr>comp0 = 2147483648, dist0 = 0, newbit = 1\<rparr> 1 100 = (r, lev', t')"
    by (rule prod_cases3)
  have "case (r, lev', t') of
      (None, lev', t') \<Rightarrow> \<forall>y. 1 < y \<and> y \<le> (100::int) \<longrightarrow> y \<in> forbidden {0, 1}
    | (Some x, lev', t') \<Rightarrow> 1 < x \<and> x \<le> 100 \<and> x \<notin> forbidden {0, 1} \<and>
        (\<forall>y. 1 < y \<and> y < x \<longrightarrow> y \<in> forbidden {0, 1}) \<and> level_ok True lev' {0, 1} x \<and> top_ok True lev' t' {0, 1} x"
    using next_mark_is_least [OF level_01_ok t, of 100] unfolding n by simp
  then have "r = Some 3"
    unfolding f by (cases r) (auto dest: spec [of _ 3] spec [of _ 50])
  then show ?thesis using n by simp
qed

definition spread_state :: ogr_state where
  "spread_state = \<lparr>os_max = 2000, os_maxdepth = 21, os_maxdepthm1 = 20, os_half_depth = 9, os_half_depth2 = 11,
     os_startdepth = 0, os_stopdepth = 0, os_depth = 20,
     Levels = map (\<lambda>i. zero_level\<lparr>lev_mark := 300 * int i\<rparr>) [0..<29]\<rparr>"

text \<open>C31: \<open>found_one\<close>, which looks only at the distances above 256 and up to half of the length, is
  an exact test: for a ruler of ascending marks that repeats no distance up to 256 it returns -1 if
  no distance at all is repeated, and 0 otherwise.\<close>

theorem found_one_is_exact:
  assumes "config_ok st" "sorted_wrt (<) (take (n_marks st) (map lev_mark (Levels st)))"
    and "golomb_upto 256 (set (take (n_marks st) (map lev_mark (Levels st))))"
    and "set (take (n_marks st) (map lev_mark (Levels st))) \<subseteq> {0..os_max st} \<or>
      \<not> golomb_upto (os_max st div 2) (set (take (n_marks st) (map lev_mark (Levels st))))"
  shows "found_one junk st = (if golomb (set (take (n_marks st) (map lev_mark (Levels st)))) then -1 else 0)"
proof -
  let ?S = "set (take (n_marks st) (map lev_mark (Levels st)))"
  have "golomb ?S \<longleftrightarrow> golomb_upto (os_max st div 2) ?S"
  proof (cases "?S \<subseteq> {0..os_max st}")
    case True
    then show ?thesis by (intro golomb_half) auto
  next
    case False
    then show ?thesis using assms(4) by (auto simp: golomb_def golomb_upto_def)
  qed
  then show ?thesis using found_one_ok [OF assms(1-3)] by simp
qed

theorem found_one_is_exact_witness: "found_one [] spread_state = 0"
proof -
  let ?ms = "take (n_marks spread_state) (map lev_mark (Levels spread_state))"
  have ms: "?ms = map (\<lambda>i. 300 * int i) [0..<21]"
    by (simp add: spread_state_def take_map take_upt)
  have far: "300 \<le> b - a" if "a \<in> set ?ms" "b \<in> set ?ms" "a < b" for a b
    using that unfolding ms by auto
  have "golomb_upto 256 (set ?ms)" using far by (fastforce simp: golomb_upto_def)
  moreover have "0 \<in> set ?ms" "300 \<in> set ?ms" "600 \<in> set ?ms" unfolding ms by auto
  then have "\<not> golomb_upto 1000 (set ?ms)" "\<not> golomb (set ?ms)"
    unfolding golomb_upto_def golomb_def by force+
  moreover have "sorted_wrt (<) ?ms" unfolding ms by (simp add: sorted_wrt_map)
  moreover have "config_ok spread_state" by (simp add: config_ok_def spread_state_def OGR_MAXDEPTH_def)
  ultimately show ?thesis
    using found_one_is_exact [of spread_state "[]"] by (simp add: spread_state_def)
qed

end
