(* ===== verification/OgrStub.thy ===== *)
theory OgrStub
  imports OgrNg Work
begin

text \<open>
  Stubs in and out of the OGR-NG core: \<open>ogr_init\<close>, \<open>ogr_create\<close>, \<open>ogr_getresult\<close> and
  \<open>ogr_destroy\<close> of \<open>ogr/ansi/ogrng_codebase.cpp\<close>, and what a whole search does: \<open>ogr_create\<close>
  accepts exactly the stubs whose marks form a ruler within the limits; a search that is stopped,
  written to a stub and started again has the same Golomb rulers ahead of it; and a search that
  ends without a result has missed none. An error leaves the state as the code does. The
  difference before the first, which the code writes to for a collapsed stub of length 0, is not
  modelled.
\<close>

section \<open>The functions\<close>

definition OGR_lengths :: "int list" where
  "OGR_lengths = [0, 1, 3, 6, 11, 17, 25, 34, 44, 55, 72, 85, 106, 127, 151, 177, 199, 216, 246, 283,
     333, 356, 372, 425, 480, 492, 553, 585, 623]"

definition OGR_at :: "ogr_env \<Rightarrow> int \<Rightarrow> int" where
  "OGR_at env i = (if 0 \<le> i \<and> i < 29 then OGR_lengths ! nat i else oe_beyond_OGR env i)"

definition OGR_NG_MIN :: int where "OGR_NG_MIN = 21"
definition OGR_NG_MAX :: int where "OGR_NG_MAX = 28"
definition OGR_STUB_MAX :: nat where "OGR_STUB_MAX = 28"
definition sizeof_OgrWorkStub :: int where "sizeof_OgrWorkStub = 64"

text \<open>Eight \<open>int\<close>s, and 29 levels of three bitmaps and two \<open>int\<close>s.\<close>

definition sizeof_OgrState :: int where "sizeof_OgrState = 8 * 4 + 29 * (3 * 32 + 2 * 4)"

lemma sizeof_OgrState_mod [simp]: "sizeof_OgrState mod 18446744073709551616 = sizeof_OgrState"
  by (simp add: sizeof_OgrState_def)

definition ogrng_choose_bits :: int where "ogrng_choose_bits = 16"
definition ogrng_choose_marks :: int where "ogrng_choose_marks = 16"

definition ogr_init :: int where
  "ogr_init = (if 16 \<noteq> ogrng_choose_bits \<or> 16 \<noteq> ogrng_choose_marks then CORE_E_INTERNAL else CORE_S_OK)"

text \<open>The words that a difference of 32 or more skips; \<open>False\<close> is the return of \<open>CORE_E_STUB\<close>.\<close>

function skip_words :: "ogr_level \<Rightarrow> ogr_top \<Rightarrow> nat \<Rightarrow> bool \<times> ogr_level \<times> ogr_top \<times> nat" where
  "skip_words lev t s =
     (if s \<ge> 32 then
        if s = 32 \<and> comp0 t AND 1 \<noteq> 0 then (False, lev, t, s)
        else (case COMP_LEFT_LIST_RIGHT_WORD lev t of (lev, t) \<Rightarrow> skip_words lev t (s - 32))
      else (True, lev, t, s))"
  by pat_completeness auto
termination
  by (relation "measure (\<lambda>(_, _, s). s)") auto

text \<open>The loop of \<open>ogr_create\<close> over the differences: the return value, the state and the depth.\<close>

fun ogr_create_loop ::
  "(nat \<Rightarrow> u16) \<Rightarrow> ogr_state \<Rightarrow> ogr_top \<Rightarrow> int \<Rightarrow> int \<Rightarrow> int \<Rightarrow> u16 list \<Rightarrow> int \<times> ogr_state \<times> int" where
  "ogr_create_loop pchoose oState t depth mark limit [] = (CORE_S_OK, oState, depth)"
| "ogr_create_loop pchoose oState t depth mark limit (d # diffs) =
     (let s = unat d; mark = mark + int s in
      if mark > limit then (CORE_E_STUB, oState, depth)
      else
        let (ok, lev, t, s) = skip_words (Levels oState ! nat depth) t s in
        if \<not> ok \<or> (s > 0 \<and> comp0 t AND shl 1 (32 - s) \<noteq> 0) then (CORE_E_STUB, set_level oState depth lev, depth)
        else
          let (lev, t) = (if s > 0 then COMP_LEFT_LIST_RIGHT lev t s else (lev, t));
              lev = lev\<lparr>lev_mark := mark\<rparr>;
              oState = set_level oState depth lev;
              (lev, t) = PUSH_LEVEL_UPDATE_STATE lev (Levels oState ! nat (depth + 1)) t;
              depth = depth + 1;
              limit = next_limit pchoose oState (dist0 t) depth;
              lev = lev\<lparr>lev_limit := limit, lev_mark := mark\<rparr>
          in ogr_create_loop pchoose (set_level oState depth lev) t depth mark limit diffs)"

definition zero_state :: ogr_state where
  "zero_state = \<lparr>os_max = 0, os_maxdepth = 0, os_maxdepthm1 = 0, os_half_depth = 0, os_half_depth2 = 0,
     os_startdepth = 0, os_stopdepth = 0, os_depth = 0, Levels = replicate OGR_MAXDEPTH zero_level\<rparr>"

text \<open>The middle segments, and the settings of a search.\<close>

definition setup_state :: "ogr_env \<Rightarrow> ng_workstub \<Rightarrow> ogr_state" where
  "setup_state env workstub =
     (let maxdepth = uint (ng_marks workstub) in
      zero_state\<lparr>os_maxdepth := maxdepth, os_maxdepthm1 := maxdepth - 1, os_max := OGR_at env (maxdepth - 1)\<rparr>)"

definition setup_middle :: "ogr_state \<Rightarrow> ogr_state" where
  "setup_middle oState =
     (let midseg_size = 2 - os_maxdepthm1 oState mod 2;
          half_depth = (os_maxdepthm1 oState - midseg_size) div 2
      in oState\<lparr>os_half_depth := half_depth, os_half_depth2 := half_depth + midseg_size\<rparr>)"

definition ogr_create ::
  "ogr_env \<Rightarrow> ng_workstub option \<Rightarrow> int \<Rightarrow> ogr_state option \<Rightarrow> int \<Rightarrow> u32 \<Rightarrow> int \<times> ogr_state option" where
  "ogr_create env input inputlen state statelen lastSegment =
     (case input of
        None \<Rightarrow> (CORE_E_INTERNAL, state)
      | Some workstub \<Rightarrow>
        if inputlen \<noteq> sizeof_OgrWorkStub \<or> statelen mod 2 ^ 64 < sizeof_OgrState then (CORE_E_INTERNAL, state)
        else if state = None then (CORE_E_MEMORY, state)
        else
          let oState = setup_state env workstub in
          if os_maxdepth oState < OGR_NG_MIN \<or> os_maxdepth oState > OGR_NG_MAX then (CORE_E_FORMAT, Some oState)
          else
            (case oe_check_cache env (os_maxdepth oState) of
               None \<Rightarrow> (CORE_E_CORRUPTED, Some oState)
             | Some pchoose \<Rightarrow>
               let oState = setup_middle oState;
                   depth = 1;
                   lev = Levels oState ! 1;
                   t = SETUP_TOP_STATE lev depth (os_maxdepthm1 oState) (oe_dist0 env);
                   n = unat (ng_worklength workstub);
                   n = (if n < unat (ng_length workstub) then unat (ng_length workstub) else n)
               in
               if n \<ge> OGR_STUB_MAX then (CORE_E_FORMAT, Some oState)
               else
                 let limit = choose_limit pchoose 0 depth;
                     oState = set_level oState depth (lev\<lparr>lev_limit := limit\<rparr>);
                     (r, oState, depth) = ogr_create_loop pchoose oState t depth 0 limit (take n (ng_diffs workstub))
                 in
                 if r \<noteq> CORE_S_OK then (r, Some oState)
                 else
                   let oState = oState\<lparr>os_depth := depth - 1\<rparr>;
                       startdepth = uint (ng_length workstub)
                   in (CORE_S_OK, Some (oState\<lparr>os_startdepth := startdepth,
                        os_stopdepth := (if lastSegment \<noteq> 0 then startdepth - 1 else startdepth)\<rparr>))))"

definition ogr_getresult :: "ogr_env \<Rightarrow> ogr_state \<Rightarrow> ng_workstub \<Rightarrow> int \<Rightarrow> int \<times> ng_workstub" where
  "ogr_getresult env oState workstub resultlen =
     (if resultlen \<noteq> sizeof_OgrWorkStub then (CORE_E_INTERNAL, workstub)
      else
        let diffs = map (\<lambda>i. of_int (lev_mark (Levels oState ! (i + 1)) - lev_mark (Levels oState ! i))) [0..<OGR_STUB_MAX];
            workstub = workstub\<lparr>ng_marks := of_int (os_maxdepth oState), ng_length := of_int (os_startdepth oState),
              ng_diffs := diffs, ng_worklength := of_int (os_depth oState)\<rparr>;
            workstub = (if unat (ng_worklength workstub) > OGR_STUB_MAX then workstub\<lparr>ng_worklength := of_nat OGR_STUB_MAX\<rparr> else workstub);
            workstub = (if os_depth oState < os_stopdepth oState \<and> ng_collapsed workstub > 0 then
                workstub\<lparr>ng_diffs := (ng_diffs workstub)[unat (ng_length workstub) - 1 := ng_collapsed workstub]\<rparr>
              else workstub)
        in (if oe_check_cache env (os_maxdepth oState) \<noteq> None then CORE_S_OK else CORE_E_CORRUPTED, workstub))"

definition ogr_destroy :: "ogr_env \<Rightarrow> ogr_state \<Rightarrow> int" where
  "ogr_destroy env oState = (if oe_check_cache env (os_maxdepth oState) \<noteq> None then CORE_S_OK else CORE_E_CORRUPTED)"

section \<open>What \<open>ogr_create\<close> accepts\<close>

text \<open>The marks of a list of differences, latest first.\<close>

definition stub_marks :: "u16 list \<Rightarrow> int list" where
  "stub_marks diffs = foldl (\<lambda>ms d. (hd ms + int (unat d)) # ms) [0] diffs"

lemma stub_marks_snoc: "stub_marks (ds @ [d]) = (hd (stub_marks ds) + int (unat d)) # stub_marks ds"
  by (simp add: stub_marks_def)

declare skip_words.simps [simp del]

lemma and_1_bit: "w AND 1 \<noteq> 0 \<longleftrightarrow> bit (w :: u32) 0"
  by (simp add: and_one_eq bit_0 odd_iff_mod_2_eq_one)

lemma skip_words_ok:
  assumes "level_ok l lev S mark" "top_ok l lev t S mark" "\<forall>m\<in>S. m \<le> mark"
    and "skip_words lev t s = (ok, lev', t', s')"
  shows "if ok then s' \<le> s \<and> s' < 32 \<and> level_ok l lev' S (mark + int s - int s') \<and>
      top_ok l lev' t' S (mark + int s - int s') \<and> lev_limit lev' = lev_limit lev \<and>
      (s' = 0 \<and> 0 < s \<longrightarrow> mark + int s \<notin> forbidden S)
    else mark + int s \<in> forbidden S"
  using assms
proof (induction lev t s arbitrary: mark rule: skip_words.induct)
  case (1 lev t s)
  note ok = "1.prems"(1-3)
  show ?case
  proof (cases "32 \<le> s")
    case False
    then show ?thesis using "1.prems" by (auto simp: skip_words.simps [of lev])
  next
    case s: True
    show ?thesis
    proof (cases "s = 32 \<and> comp0 t AND 1 \<noteq> 0")
      case True
      then have "mark + int s \<in> forbidden S"
        using comp0_forbidden [OF ok(1,2), of 32] and_1_bit [of "comp0 t"] by simp
      then show ?thesis using True "1.prems"(4) by (auto simp: skip_words.simps [of lev])
    next
      case False
      obtain lev2 t2 where eq: "COMP_LEFT_LIST_RIGHT_WORD lev t = (lev2, t2)" by (rule prod.exhaust)
      have run: "skip_words lev2 t2 (s - 32) = (ok, lev', t', s')"
        using "1.prems"(4) s False by (auto simp: skip_words.simps [of lev] eq split: if_splits)
      have "if ok then s' \<le> s - 32 \<and> s' < 32 \<and> level_ok l lev' S (mark + 32 + int (s - 32) - int s') \<and>
          top_ok l lev' t' S (mark + 32 + int (s - 32) - int s') \<and> lev_limit lev' = lev_limit lev2 \<and>
          (s' = 0 \<and> 0 < s - 32 \<longrightarrow> mark + 32 + int (s - 32) \<notin> forbidden S)
        else mark + 32 + int (s - 32) \<in> forbidden S"
        by (rule "1.IH" [OF s False eq [symmetric] _ _ _ run])
          (use word_level [OF eq ok] ok(3) in auto)
      moreover have "mark + 32 + int (s - 32) = mark + int s" using s by simp
      moreover have "mark + int s \<notin> forbidden S" if "s = 32"
        using comp0_forbidden [OF ok(1,2), of 32] and_1_bit [of "comp0 t"] False that by simp
      ultimately show ?thesis using WORD_frame(2) [OF eq] s by (cases "s = 32") (auto split: if_splits)
    qed
  qed
qed

lemma and_mark: "n < 32 \<Longrightarrow> (w :: u32) AND shl 1 n \<noteq> 0 \<longleftrightarrow> bit w n"
proof
  assume n: "n < 32" and "w AND shl 1 n \<noteq> 0"
  then obtain k where "bit (w AND shl 1 n) k" by (metis bit_word_eqI bit_0_eq bot_apply bot_bool_def)
  then show "bit w n" using mark_bit [OF n] by (auto simp: bit_and_iff)
next
  assume n: "n < 32" and "bit w n"
  then have "bit (w AND shl 1 n) n" using mark_bit [OF n] by (simp add: bit_and_iff)
  then show "w AND shl 1 n \<noteq> 0" by auto
qed

text \<open>One difference: it is accepted when the mark it leads to may be placed.\<close>

lemma create_step:
  assumes ok: "level_ok l lev S mark" "top_ok l lev t S mark" "\<forall>m\<in>S. m \<le> mark"
    and skip: "skip_words lev t s = (b, lev', t', s')" and s: "0 < s" "mark + int s \<le> limit"
  shows "\<not> b \<or> (s' > 0 \<and> comp0 t' AND shl 1 (32 - s') \<noteq> 0) \<longleftrightarrow> mark + int s \<in> forbidden S"
    and "b \<Longrightarrow> \<not> (s' > 0 \<and> comp0 t' AND shl 1 (32 - s') \<noteq> 0) \<Longrightarrow>
      (if s' > 0 then COMP_LEFT_LIST_RIGHT lev' t' s' else (lev', t')) = (lev2, t2) \<Longrightarrow>
      place_ok l S mark limit lev (mark + int s) lev2 t2"
proof -
  note sk = skip_words_ok [OF ok skip]
  show iff: "\<not> b \<or> (s' > 0 \<and> comp0 t' AND shl 1 (32 - s') \<noteq> 0) \<longleftrightarrow> mark + int s \<in> forbidden S"
  proof (cases b)
    case True
    note sk = sk [unfolded if_P [OF True]]
    show ?thesis
    proof (cases "s' = 0")
      case False
      then have "mark + int s - int s' + int s' \<in> forbidden S \<longleftrightarrow> bit (comp0 t') (32 - s')"
        using sk by (intro comp0_forbidden) auto
      then show ?thesis using True False sk and_mark [of "32 - s'" "comp0 t'"] by simp
    qed (use sk True s in auto)
  qed (use sk in simp)
  assume b: b "\<not> (s' > 0 \<and> comp0 t' AND shl 1 (32 - s') \<noteq> 0)"
    and eq: "(if s' > 0 then COMP_LEFT_LIST_RIGHT lev' t' s' else (lev', t')) = (lev2, t2)"
  note sk = sk [unfolded if_P [OF b(1)]]
  have nf: "mark + int s \<notin> forbidden S" using iff b by blast
  show "place_ok l S mark limit lev (mark + int s) lev2 t2"
  proof (cases "s' = 0")
    case True
    then show ?thesis using sk nf s eq by (simp add: place_ok_def)
  next
    case False
    then have e: "COMP_LEFT_LIST_RIGHT lev' t' s' = (lev2, t2)" "0 < s'" "s' < 32" using eq sk by auto
    have "\<forall>m\<in>S. m \<le> mark + int s - int s'" using ok(3) sk by force
    then have "level_ok l lev2 S (mark + int s - int s' + int s') \<and> top_ok l lev2 t2 S (mark + int s - int s' + int s')"
      using sk by (intro shift_level [OF e]) auto
    then show ?thesis using nf s sk SHIFT_frame(2) [OF e] by (simp add: place_ok_def)
  qed
qed

lemma foldl_marks: "foldl (\<lambda>ms d. (hd ms + int (unat d)) # ms) ms (ds :: u16 list) = us \<Longrightarrow> \<exists>vs. us = vs @ ms"
proof (induction ds arbitrary: ms us)
  case (Cons d ds)
  then obtain vs where "us = vs @ (hd ms + int (unat d)) # ms" by auto
  then show ?case by (metis append_Cons append_Nil append_assoc)
qed simp

lemma create_loop_ok:
  assumes "loop_at L st t ms mark" "hd ms = mark" "lev_mark (Levels st ! length ms) = mark" "depth = int (length ms)" "limit = L ms"
    and "L = core_limit pchoose st" "0 \<notin> set ds" "int (length ms + length ds) \<le> os_maxdepthm1 st"
    and "length (Levels st) = 29" "os_maxdepthm1 st \<le> 27" "0 \<le> os_half_depth st"
    and "ogr_create_loop pchoose st t depth mark limit ds = (r, st', d')"
  shows "same_config st st' \<and>
    (let ms' = foldl (\<lambda>ms d. (hd ms + int (unat d)) # ms) ms ds in
       if ruler L ms' then r = CORE_S_OK \<and> d' = int (length ms') \<and> core_at L st' ms' \<and> lev_mark (Levels st' ! length ms') = hd ms'
       else r = CORE_E_STUB)"
  using assms
proof (induction pchoose st t depth mark limit ds arbitrary: ms rule: ogr_create_loop.induct)
  case (1 pchoose st t depth mark limit)
  then have "ruler L ms" "core_at L st ms" by (auto simp: loop_at_def core_at_def Let_def)
  then show ?case using 1 by auto
next
  case (2 pchoose st t depth mark limit d ds)
  note at = "2.prems"(1) and hd = "2.prems"(2) and dep = "2.prems"(4) and lim = "2.prems"(5) and L = "2.prems"(6)
    and len = "2.prems"(8-11) and run = "2.prems"(12)
  let ?x = "mark + int (unat d)" and ?f = "\<lambda>ms d. (hd ms + int (unat d)) # ms"
  let ?ms = "?x # ms" and ?ms' = "foldl ?f ms (d # ds)"
  have at': "placed L (Levels st) ms" "ruler L ms" "level_ok True (Levels st ! length ms) (set ms) mark"
    "top_ok True (Levels st ! length ms) t (set ms) mark"
    using at len(1) by (auto simp: loop_at_def Let_def)
  have ms: "ms \<noteq> []" using at'(1) placed_nonempty by blast
  have d: "0 < unat d" using "2.prems"(7) by (simp add: unat_gt_0)
  have ms': "?ms' = foldl ?f ?ms ds" using hd by simp
  have no: "\<not> ruler L ?ms'" if "\<not> ruler L ?ms"
  proof
    assume "ruler L ?ms'"
    moreover obtain vs where "?ms' = vs @ ?ms" using foldl_marks ms' by metis
    ultimately show False using ruler_append [of L vs ?ms] that by simp
  qed
  have rul: "ruler L ?ms \<longleftrightarrow> ?x \<le> limit \<and> ?x \<notin> forbidden (set ms)"
  proof -
    have "hd ms < ?x" using hd d by linarith
    then show ?thesis using ruler_Cons [OF ms, of L ?x] at'(2) lim by blast
  qed
  show ?case
  proof (cases "limit < ?x")
    case True
    then show ?thesis using run no rul by (auto simp: Let_def)
  next
    case le: False
    obtain b lev t1 s' where skip: "skip_words (Levels st ! nat depth) t (unat d) = (b, lev, t1, s')"
      by (rule prod_cases4)
    have skip': "skip_words (Levels st ! length ms) t (unat d) = (b, lev, t1, s')" using skip dep by simp
    note step = create_step [OF at'(3,4) loop_le [OF at] skip' d, of limit]
    show ?thesis
    proof (cases "\<not> b \<or> (s' > 0 \<and> comp0 t1 AND shl 1 (32 - s') \<noteq> 0)")
      case True
      then have "?x \<in> forbidden (set ms)" using step(1) le by simp
      then show ?thesis using run le skip True no rul by (auto simp: Let_def)
    next
      case False
      obtain lev2 t2 where sh: "(if s' > 0 then COMP_LEFT_LIST_RIGHT lev t1 s' else (lev, t1)) = (lev2, t2)"
        by (rule prod.exhaust)
      have place: "place_ok True (set ms) mark (L ms) (Levels st ! length ms) ?x lev2 t2"
        using step(2) [OF _ _ _ sh] False le lim by auto
      let ?s = "set_level st depth (lev2\<lparr>lev_mark := ?x\<rparr>)"
      obtain lev3 t3 where push: "PUSH_LEVEL_UPDATE_STATE (lev2\<lparr>lev_mark := ?x\<rparr>) (Levels ?s ! nat (depth + 1)) t2 = (lev3, t3)"
        by (rule prod.exhaust)
      let ?limit = "next_limit pchoose ?s (dist0 t3) (depth + 1)"
      let ?s2 = "set_level ?s (depth + 1) (lev3\<lparr>lev_limit := ?limit, lev_mark := ?x\<rparr>)"
      have lt: "int (length ms) < os_maxdepthm1 st" "length ms + 1 < length (Levels st)" using len by auto
      note up = loop_push [OF at lt place push]
      have "placed L (Levels ?s) ?ms" using loop_place [OF at _ place] lt(2) dep by simp
      then have lim2: "?limit = L ?ms"
        using next_limit_core [of L ?s ?ms "dist0 t3" pchoose] up(2) [OF refl] len L dep
          core_limit_config [of st ?s] by (simp add: add.commute)
      have run2: "ogr_create_loop pchoose ?s2 t3 (depth + 1) ?x ?limit ds = (r, st', d')"
        using run le skip False sh push by (simp add: Let_def split: if_splits)
      have "same_config ?s2 st' \<and>
        (let ms' = foldl ?f ?ms ds in
           if ruler L ms' then r = CORE_S_OK \<and> d' = int (length ms') \<and> core_at L st' ms' \<and> lev_mark (Levels st' ! length ms') = hd ms'
           else r = CORE_E_STUB)"
      proof (rule "2.IH" [OF refl refl _ skip [symmetric] refl refl refl _ sh [symmetric] refl refl refl push [symmetric] refl refl refl refl])
        show "loop_at L ?s2 t3 ?ms ?x" using up(1) [OF lim2] dep by simp
        show "lev_mark (Levels ?s2 ! length ?ms) = ?x" using lt(2) dep by (simp add: set_level_def nat_add_distrib)
        show "L = core_limit pchoose ?s2" using L core_limit_config [of st ?s2] by simp
      qed (use run2 le False lim2 dep len "2.prems"(7) in auto)
      then show ?thesis using ms' by simp
    qed
  qed
qed

section \<open>A search from its stub on\<close>

text \<open>What the core relies on: a stub for which it has a table, with as many marks as one level of
  the search at least leaves room for, and without a difference of 0.\<close>

definition stub_length :: "ng_workstub \<Rightarrow> nat" where
  "stub_length stub = max (unat (ng_worklength stub)) (unat (ng_length stub))"

definition good_stub :: "ogr_env \<Rightarrow> (nat \<Rightarrow> u16) \<Rightarrow> ng_workstub \<Rightarrow> u32 \<Rightarrow> bool" where
  "good_stub env pchoose stub lastSegment \<longleftrightarrow>
     21 \<le> unat (ng_marks stub) \<and> unat (ng_marks stub) \<le> 28 \<and> length (ng_diffs stub) = OGR_STUB_MAX \<and>
     stub_length stub + 1 < unat (ng_marks stub) \<and> 0 \<notin> set (take (stub_length stub) (ng_diffs stub)) \<and>
     (lastSegment = 0 \<or> 0 < ng_length stub) \<and>
     oe_check_cache env (uint (ng_marks stub)) = Some pchoose \<and>
     (oe_precomp env (uint (ng_marks stub)) = None \<or> oe_precomp env (uint (ng_marks stub)) = Some pchoose) \<and>
     table_ok pchoose (OGR_lengths ! (unat (ng_marks stub) - 1))"

definition start_marks :: "ng_workstub \<Rightarrow> int list" where
  "start_marks stub = stub_marks (take (stub_length stub) (ng_diffs stub))"

definition stub_limit :: "ogr_env \<Rightarrow> (nat \<Rightarrow> u16) \<Rightarrow> ng_workstub \<Rightarrow> int list \<Rightarrow> int" where
  "stub_limit env pchoose stub = core_limit pchoose (setup_middle (setup_state env stub))"

text \<open>\<open>ogr_cycle_entry\<close> begins by going up one level from the depth it left.\<close>

definition entered :: "ogr_state \<Rightarrow> ogr_state" where
  "entered st = st\<lparr>os_depth := os_depth st + 1\<rparr>"

definition search_inv :: "ogr_env \<Rightarrow> (nat \<Rightarrow> u16) \<Rightarrow> ng_workstub \<Rightarrow> u32 \<Rightarrow> ogr_state \<Rightarrow> bool" where
  "search_inv env pchoose stub lastSegment st \<longleftrightarrow>
     core_inv pchoose (entered st) \<and> os_stopdepth st \<le> os_depth st \<and> os_startdepth st \<le> os_depth st \<and>
     cur_mark (entered st) = hd (marks_of (entered st)) \<and>
     same_config ((setup_middle (setup_state env stub))\<lparr>os_startdepth := uint (ng_length stub),
       os_stopdepth := (if lastSegment \<noteq> 0 then uint (ng_length stub) - 1 else uint (ng_length stub))\<rparr>) st"

lemma zero_level_ok: "level_ok l zero_level {0} 0"
proof -
  have "dists {0} = {}" "forbidden {0} = {}" by (auto simp: dists_def forbidden_def)
  then show ?thesis by (simp add: level_ok_def zero_level_def)
qed

lemma dist_word_0: "dist_word {0} = 0"
  using dist_word_level [OF zero_level_ok] by (simp add: zero_level_def)

lemma setup_fields:
  "os_max (setup_middle (setup_state env stub)) = OGR_at env (uint (ng_marks stub) - 1)"
  "os_maxdepth (setup_middle (setup_state env stub)) = uint (ng_marks stub)"
  "os_maxdepthm1 (setup_middle (setup_state env stub)) = uint (ng_marks stub) - 1"
  "Levels (setup_middle (setup_state env stub)) = replicate 29 zero_level"
  by (simp_all add: setup_middle_def setup_state_def zero_state_def OGR_MAXDEPTH_def Let_def)

lemma setup_half:
  assumes "21 \<le> uint (ng_marks stub)"
  shows "9 \<le> os_half_depth (setup_middle (setup_state env stub))"
proof -
  let ?m = "uint (ng_marks stub) - 1"
  have "0 \<le> ?m mod 2" by simp
  then have "18 \<le> ?m - (2 - ?m mod 2)" using assms by linarith
  then have "18 div 2 \<le> (?m - (2 - ?m mod 2)) div 2" by (rule zdiv_mono1) simp
  then show ?thesis by (simp add: setup_middle_def setup_state_def zero_state_def Let_def)
qed

lemma same_config_start:
  "same_config st st' \<Longrightarrow> same_config (st\<lparr>os_startdepth := a, os_stopdepth := b\<rparr>) (st'\<lparr>os_startdepth := a, os_stopdepth := b\<rparr>)"
  by (cases st; cases st') (simp add: same_config_def)

lemma core_limit_first:
  assumes "9 \<le> os_half_depth st"
  shows "core_limit pchoose st [0] = choose_limit pchoose 0 1"
  using assms dist_word_0 by (simp add: core_limit_def next_limit_def)

lemma OGR_bounds: "i < 29 \<Longrightarrow> 0 \<le> OGR_lengths ! i \<and> OGR_lengths ! i < 2048"
proof -
  have "list_all (\<lambda>x. 0 \<le> x \<and> x < 2048) OGR_lengths" "length OGR_lengths = 29" by (simp_all add: OGR_lengths_def)
  then show "i < 29 \<Longrightarrow> ?thesis" by (simp add: list_all_length)
qed

lemma good_stub_fields:
  assumes "good_stub env pchoose stub lastSegment"
  shows "21 \<le> uint (ng_marks stub)" "uint (ng_marks stub) \<le> 28" "stub_length stub + 1 < unat (ng_marks stub)"
    "int (unat (ng_marks stub)) = uint (ng_marks stub)" "stub_length stub < 28" "unat (ng_length stub) \<le> stub_length stub"
    "OGR_at env (uint (ng_marks stub) - 1) = OGR_lengths ! (unat (ng_marks stub) - 1)"
proof -
  have m: "int (unat (ng_marks stub)) = uint (ng_marks stub)" by simp
  have u: "21 \<le> unat (ng_marks stub)" "unat (ng_marks stub) \<le> 28" "stub_length stub + 1 < unat (ng_marks stub)"
    using assms by (auto simp: good_stub_def)
  then show "21 \<le> uint (ng_marks stub)" "uint (ng_marks stub) \<le> 28" "stub_length stub + 1 < unat (ng_marks stub)"
    "int (unat (ng_marks stub)) = uint (ng_marks stub)" "stub_length stub < 28"
    using m by linarith+
  show "unat (ng_length stub) \<le> stub_length stub" by (simp add: stub_length_def)
  from u m have nat: "nat (uint (ng_marks stub) - 1) = unat (ng_marks stub) - 1" by linarith
  show "OGR_at env (uint (ng_marks stub) - 1) = OGR_lengths ! (unat (ng_marks stub) - 1)"
  proof -
    have "0 \<le> uint (ng_marks stub) - 1" "uint (ng_marks stub) - 1 < 29" using u m by linarith+
    then show ?thesis using nat by (simp add: OGR_at_def)
  qed
qed

lemma ogr_create_loop_start:
  assumes g: "good_stub env pchoose stub lastSegment"
    and run: "ogr_create_loop pchoose (set_level st 1 (lev\<lparr>lev_limit := choose_limit pchoose 0 1\<rparr>))
      (SETUP_TOP_STATE lev 1 (os_maxdepthm1 st) u) 1 0 (choose_limit pchoose 0 1)
      (take (stub_length stub) (ng_diffs stub)) = (r, st', d')"
    and st: "st = setup_middle (setup_state env stub)" and lev: "lev = Levels st ! 1"
  shows "same_config st st' \<and> (if ruler (stub_limit env pchoose stub) (start_marks stub)
      then r = CORE_S_OK \<and> d' = int (length (start_marks stub)) \<and> core_at (stub_limit env pchoose stub) st' (start_marks stub) \<and>
        lev_mark (Levels st' ! length (start_marks stub)) = hd (start_marks stub)
      else r = CORE_E_STUB)"
proof -
  let ?L = "stub_limit env pchoose stub" and ?lev = "lev\<lparr>lev_limit := choose_limit pchoose 0 1\<rparr>"
  let ?s = "set_level st 1 ?lev" and ?t = "SETUP_TOP_STATE lev 1 (os_maxdepthm1 st) u"
  note gf = good_stub_fields [OF g]
  have L: "?L = core_limit pchoose ?s"
    using core_limit_config [of st ?s] by (simp add: stub_limit_def st)
  have z: "Levels st = replicate 29 zero_level" "lev = zero_level" "os_maxdepthm1 st = uint (ng_marks stub) - 1"
    using setup_fields by (simp_all add: st lev)
  have h: "9 \<le> os_half_depth st" using setup_half gf(1) by (simp add: st)
  have lv: "Levels ?s ! 1 = ?lev" "Levels ?s ! 0 = zero_level" "length (Levels ?s) = 29"
    by (simp_all add: set_level_def z)
  have ok: "level_ok True ?lev {0} 0" using zero_level_ok by (simp add: z level_ok_def)
  have lim: "choose_limit pchoose 0 1 = ?L [0]"
    unfolding L using core_limit_first [of ?s pchoose] h by simp
  have at: "loop_at ?L ?s ?t [0] 0"
    using ok lv gf lim by (auto simp: loop_at_def Let_def z zero_level_def top_ok_def SETUP_TOP_STATE_def)
  have ds: "0 \<notin> set (take (stub_length stub) (ng_diffs stub))" "length (take (stub_length stub) (ng_diffs stub)) = stub_length stub"
    using g gf by (auto simp: good_stub_def OGR_STUB_MAX_def)
  have "same_config ?s st' \<and>
    (let ms' = foldl (\<lambda>ms d. (hd ms + int (unat d)) # ms) [0] (take (stub_length stub) (ng_diffs stub)) in
       if ruler ?L ms' then r = CORE_S_OK \<and> d' = int (length ms') \<and> core_at ?L st' ms' \<and> lev_mark (Levels st' ! length ms') = hd ms'
       else r = CORE_E_STUB)"
  proof (rule create_loop_ok [OF at _ _ _ lim L ds(1) _ lv(3) _ _ run])
    show "lev_mark (Levels ?s ! length [0]) = 0" using lv(1) by (simp add: z zero_level_def)
    show "int (length [0] + length (take (stub_length stub) (ng_diffs stub))) \<le> os_maxdepthm1 ?s"
      using ds(2) gf(3,4) z(3) by (simp del: of_nat_unat)
    show "os_maxdepthm1 ?s \<le> 27" "0 \<le> os_half_depth ?s" using gf(2) z(3) h by simp_all
  qed simp_all
  then show ?thesis by (simp add: start_marks_def stub_marks_def Let_def)
qed

lemma stub_marks_length [simp]: "length (stub_marks ds) = length ds + 1"
  by (induction ds rule: rev_induct) (simp_all add: stub_marks_def)

lemma ogr_create_ok:
  assumes g: "good_stub env pchoose stub lastSegment"
    and run: "ogr_create env (Some stub) sizeof_OgrWorkStub (Some mem) sizeof_OgrState lastSegment = (r, st')"
  shows "if ruler (stub_limit env pchoose stub) (start_marks stub)
    then r = CORE_S_OK \<and> (\<exists>st. st' = Some st \<and> search_inv env pchoose stub lastSegment st \<and>
      os_depth st = int (stub_length stub) \<and> marks_of (entered st) = start_marks stub)
    else r = CORE_E_STUB"
proof -
  note gf = good_stub_fields [OF g]
  let ?st = "setup_middle (setup_state env stub)" and ?L = "stub_limit env pchoose stub"
  let ?ds = "take (stub_length stub) (ng_diffs stub)" and ?lim = "choose_limit pchoose 0 1"
  let ?stop = "if lastSegment \<noteq> 0 then uint (ng_length stub) - 1 else uint (ng_length stub)"
  obtain r1 st1 d1 where loop: "ogr_create_loop pchoose (set_level ?st 1 ((Levels ?st ! 1)\<lparr>lev_limit := ?lim\<rparr>))
      (SETUP_TOP_STATE (Levels ?st ! 1) 1 (os_maxdepthm1 ?st) (oe_dist0 env)) 1 0 ?lim ?ds = (r1, st1, d1)"
    by (rule prod_cases3)
  note l = ogr_create_loop_start [OF g loop refl refl]
  have n: "(if unat (ng_worklength stub) < unat (ng_length stub) then unat (ng_length stub) else unat (ng_worklength stub)) = stub_length stub"
    by (simp add: stub_length_def)
  have md: "os_maxdepth (setup_state env stub) = uint (ng_marks stub)" by (simp add: setup_state_def Let_def)
  have run': "(r, st') = (if r1 \<noteq> CORE_S_OK then (r1, Some st1) else (CORE_S_OK, Some (st1\<lparr>os_depth := d1 - 1,
      os_startdepth := uint (ng_length stub), os_stopdepth := ?stop\<rparr>)))"
    using run loop g gf(5) gf(1,2)
    by (simp add: ogr_create_def n md OGR_NG_MIN_def OGR_NG_MAX_def OGR_STUB_MAX_def Let_def good_stub_def
        setup_fields(2) split: if_splits)
  show ?thesis
  proof (cases "ruler ?L (start_marks stub)")
    case False
    then have "r1 = CORE_E_STUB" using l by simp
    then show ?thesis using run' False by (simp add: core_codes)
  next
    case True
    let ?s = "st1\<lparr>os_startdepth := uint (ng_length stub), os_stopdepth := ?stop\<rparr>"
    let ?c = "?st\<lparr>os_startdepth := uint (ng_length stub), os_stopdepth := ?stop\<rparr>"
    have c: "r1 = CORE_S_OK" "d1 = int (length (start_marks stub))" "core_at ?L st1 (start_marks stub)"
      "lev_mark (Levels st1 ! length (start_marks stub)) = hd (start_marks stub)" "same_config ?st st1"
      using l True by auto
    have same: "same_config ?c ?s" using c(5) by (rule same_config_start)
    have Lc: "core_limit pchoose ?c = ?L"
      by (simp add: stub_limit_def core_limit_def next_limit_def fun_eq_iff Let_def)
    have Ls: "core_limit pchoose ?s = ?L"
      using core_limit_config [OF same, of pchoose] Lc by simp
    have st0: "0 \<le> ?stop"
      using g by (auto simp: good_stub_def word_less_def)
    have "unat (ng_marks stub) - 1 < 29" using g by (auto simp: good_stub_def)
    note bd = OGR_bounds [OF this]
    have cfg: "config_ok ?c" "table_ok pchoose (os_max ?c)"
      using g gf st0 setup_half [OF gf(1), of env] bd setup_fields [of env stub]
      by (simp_all add: config_ok_def OGR_MAXDEPTH_def good_stub_def)
    have at: "core_at (core_limit pchoose ?s) ?s (start_marks stub)"
      using c(3) unfolding Ls by (simp add: core_at_def)
    have len: "int (length (start_marks stub)) = int (stub_length stub) + 1"
      using g gf(5) by (simp add: start_marks_def good_stub_def OGR_STUB_MAX_def)
    have ent: "entered (st1\<lparr>os_depth := d1 - 1, os_startdepth := uint (ng_length stub), os_stopdepth := ?stop\<rparr>)
        = ?s\<lparr>os_depth := int (length (start_marks stub))\<rparr>"
      using c(2) by (simp add: entered_def)
    note cs = core_state [OF at same cfg refl]
    have "uint (ng_length stub) = int (unat (ng_length stub))" by simp
    then have "search_inv env pchoose stub lastSegment (st1\<lparr>os_depth := d1 - 1, os_startdepth := uint (ng_length stub), os_stopdepth := ?stop\<rparr>)"
      unfolding search_inv_def ent using cs same c(2,4) len gf(6)
      by (simp add: same_config_def del: of_nat_unat)
    moreover have "marks_of (entered (st1\<lparr>os_depth := d1 - 1, os_startdepth := uint (ng_length stub), os_stopdepth := ?stop\<rparr>)) = start_marks stub"
      unfolding ent using cs by simp
    ultimately show ?thesis using run' c(1,2) True len by (auto simp: core_codes)
  qed
qed

text \<open>The states of a search between the calls of the core.\<close>

inductive searching :: "ogr_env \<Rightarrow> ng_workstub \<Rightarrow> u32 \<Rightarrow> ogr_state \<Rightarrow> bool"
  for env stub lastSegment where
  created: "ogr_create env (Some stub) sizeof_OgrWorkStub (Some mem) sizeof_OgrState lastSegment = (CORE_S_OK, Some st)
    \<Longrightarrow> searching env stub lastSegment st"
| cycled: "searching env stub lastSegment st \<Longrightarrow> 0 < nodes \<Longrightarrow>
    ogr_cycle_entry env st nodes = Some (CORE_S_CONTINUE, n, st') \<Longrightarrow> searching env stub lastSegment st'"

text \<open>The Golomb rulers a stub stands for: they go on from its marks or, when its last segment was
  reduced (\<open>lastSegment\<close>), have a last segment of at least that size.\<close>

definition assigned :: "ogr_env \<Rightarrow> (nat \<Rightarrow> u16) \<Rightarrow> ng_workstub \<Rightarrow> u32 \<Rightarrow> int list set" where
  "assigned env pchoose stub lastSegment =
     {r. ruler (stub_limit env pchoose stub) r \<and> length r = unat (ng_marks stub) \<and> golomb (set r) \<and>
         (\<exists>us y. r = us @ y # tl (start_marks stub) \<and>
           (if lastSegment \<noteq> 0 then hd (start_marks stub) \<le> y else y = hd (start_marks stub)))}"

definition search_left :: "(nat \<Rightarrow> u16) \<Rightarrow> ogr_state \<Rightarrow> int list set" where
  "search_left pchoose st = golomb_ahead pchoose (entered st)"

lemma search_inv_fields:
  assumes "search_inv env pchoose stub lastSegment st" "good_stub env pchoose stub lastSegment"
  shows "core_limit pchoose st = stub_limit env pchoose stub" "os_maxdepth st = uint (ng_marks stub)"
    "os_maxdepthm1 st = uint (ng_marks stub) - 1" "os_startdepth st = uint (ng_length stub)"
    "os_stopdepth st = (if lastSegment \<noteq> 0 then uint (ng_length stub) - 1 else uint (ng_length stub))"
    "n_marks st = unat (ng_marks stub)"
proof -
  let ?c = "(setup_middle (setup_state env stub))\<lparr>os_startdepth := uint (ng_length stub),
       os_stopdepth := (if lastSegment \<noteq> 0 then uint (ng_length stub) - 1 else uint (ng_length stub))\<rparr>"
  have same: "same_config ?c st" using assms(1) by (simp add: search_inv_def)
  have "core_limit pchoose ?c = stub_limit env pchoose stub"
    by (simp add: stub_limit_def core_limit_def next_limit_def fun_eq_iff Let_def)
  then show "core_limit pchoose st = stub_limit env pchoose stub"
    using core_limit_config [OF same, of pchoose] by simp
  show "os_maxdepth st = uint (ng_marks stub)" "os_maxdepthm1 st = uint (ng_marks stub) - 1" "os_startdepth st = uint (ng_length stub)"
    "os_stopdepth st = (if lastSegment \<noteq> 0 then uint (ng_length stub) - 1 else uint (ng_length stub))"
    using same_config_fields [OF same] setup_fields [of env stub] by simp_all
  then show "n_marks st = unat (ng_marks stub)" by simp
qed

lemma entry_ok:
  assumes inv: "search_inv env pchoose stub lastSegment st" and g: "good_stub env pchoose stub lastSegment" and n: "0 < nodes"
  shows "\<exists>r k st'. ogr_cycle_entry env st nodes = Some (r, k, st') \<and> k \<le> nodes \<and>
    (r = CORE_S_CONTINUE \<and> k = nodes \<and> search_inv env pchoose stub lastSegment st' \<and> search_left pchoose st' = search_left pchoose st
       \<and> partials_ahead pchoose (entered st') \<subset> partials_ahead pchoose (entered st)
     \<or> r = CORE_S_OK \<and> search_left pchoose st = {}
     \<or> r = CORE_S_SUCCESS \<and> os_depth st' = os_stopdepth st' - 1 \<and> same_config st st' \<and> ruler_of st' \<in> search_left pchoose st)"
proof -
  note f = search_inv_fields [OF inv g]
  have tab: "(case oe_precomp env (os_maxdepth st) of Some p \<Rightarrow> Some p | None \<Rightarrow> oe_check_cache env (os_maxdepth st)) = Some pchoose"
    using g f(2) by (auto simp: good_stub_def split: option.splits)
  have core: "core_inv pchoose (entered st)" "os_stopdepth (entered st) < os_depth (entered st)"
    using inv by (auto simp: search_inv_def entered_def)
  obtain r k s where res: "ogr_cycle_checked env pchoose (entered st) nodes 0 = Some (r, k, s)"
      "call_post pchoose (entered st) nodes (r, k, s)"
    using ogr_cycle_checked_ok [OF core, of 0 nodes env] n by auto
  let ?s = "s\<lparr>os_depth := os_depth s - 1\<rparr>"
  have run: "ogr_cycle_entry env st nodes = Some (r, k, ?s)"
    using res(1) by (simp add: ogr_cycle_entry_def tab entered_def)
  have ent: "entered ?s = s" by (simp add: entered_def)
  have post: "k \<le> nodes" "same_config st ?s"
    using res(2) by (auto simp: call_post_def entered_def)
  from res(2) consider
      "r = CORE_S_CONTINUE" "k = nodes" "core_inv pchoose s" "os_stopdepth s + 2 \<le> os_depth s" "cur_mark s = hd (marks_of s)"
        "golomb_ahead pchoose s = golomb_ahead pchoose (entered st)"
        "partials_ahead pchoose s \<subset> partials_ahead pchoose (entered st)"
    | "r = CORE_S_OK" "golomb_ahead pchoose (entered st) = {}"
    | "r = CORE_S_SUCCESS" "os_depth s = os_stopdepth s" "ruler_of s \<in> golomb_ahead pchoose (entered st)"
    by (auto simp: call_post_def)
  then show ?thesis
  proof cases
    case 1
    have "os_startdepth st \<le> os_stopdepth st + 1" using f(4,5) by simp
    then have "search_inv env pchoose stub lastSegment ?s"
      using 1 inv post(2) same_config_fields [OF post(2)] unfolding search_inv_def ent
      by (auto elim: same_config_trans)
    then show ?thesis using 1 run by (simp add: search_left_def ent)
  next
    case 2
    then show ?thesis using run post(1) by (simp add: search_left_def)
  next
    case 3
    then show ?thesis using run post by (auto simp: search_left_def ruler_of_def)
  qed
qed

lemma searching_inv:
  assumes "searching env stub lastSegment st" "good_stub env pchoose stub lastSegment"
  shows "search_inv env pchoose stub lastSegment st" "ruler (stub_limit env pchoose stub) (start_marks stub)"
    "search_left pchoose st = {r \<in> ahead (stub_limit env pchoose stub) (unat (ng_marks stub)) (stop_level st)
       (start_marks stub) (hd (start_marks stub)). golomb (set r)}"
  using assms
proof (induction rule: searching.induct)
  case (created mem st)
  { case 1
    then show ?case using ogr_create_ok [OF 1 created] by (auto simp: core_codes split: if_splits)
  next
    case 2
    then show ?case using ogr_create_ok [OF 2 created] by (auto simp: core_codes split: if_splits)
  next
    case 3
    then have c: "search_inv env pchoose stub lastSegment st" "marks_of (entered st) = start_marks stub"
      using ogr_create_ok [OF 3 created] by (auto simp: core_codes split: if_splits)
    then have "cur_mark (entered st) = hd (start_marks stub)" by (simp add: search_inv_def)
    then show ?case
      using c search_inv_fields [OF c(1) 3]
      by (simp add: search_left_def golomb_ahead_def rulers_ahead_def entered_def) }
next
  case (cycled st nodes n st')
  { case 1
    then show ?case using entry_ok [OF cycled.IH(1) _ cycled.hyps(2)] cycled.hyps(3) by (auto simp: core_codes)
  next
    case 2
    then show ?case by (rule cycled.IH(2))
  next
    case 3
    have "search_inv env pchoose stub lastSegment st'" "search_left pchoose st' = search_left pchoose st"
      using entry_ok [OF cycled.IH(1) 3 cycled.hyps(2)] 3 cycled.hyps(3) by (auto simp: core_codes)
    then show ?case
      using cycled.IH(3) [OF 3] search_inv_fields [OF _ 3] cycled.IH(1) [OF 3] by simp }
qed

text \<open>For a stub as it was given out, what is ahead is what it stands for.\<close>

lemma ahead_assigned:
  assumes r: "ruler L ms" and len: "length ms = n + 1" "length ms < N" and stop: "stop = (if cl then n - 1 else n)" "cl \<Longrightarrow> 0 < n"
  shows "ahead L N stop ms (hd ms) = {r. ruler L r \<and> length r = N \<and>
    (\<exists>us y. r = us @ y # tl ms \<and> (if cl then hd ms \<le> y else y = hd ms))}"
proof -
  obtain m ms' where ms: "ms = m # ms'" using len(1) by (cases ms) auto
  have up: "beyond L N ms m = {r. ruler L r \<and> length r = N \<and> (\<exists>us. r = us @ ms)}" (is "_ = ?R")
  proof (intro equalityI subsetI)
    fix r assume "r \<in> beyond L N ms m"
    then obtain us y where "ruler L r" "length r = N" "r = us @ y # ms" by (auto simp: beyond_def)
    moreover from this have "r = (us @ [y]) @ ms" by simp
    ultimately show "r \<in> ?R" by blast
  next
    fix r assume "r \<in> ?R"
    then obtain us where u: "ruler L r" "length r = N" "r = us @ ms" by blast
    then obtain vs z where "us = vs @ [z]" using len(2) by (cases us rule: rev_cases) auto
    then have rz: "r = vs @ z # ms" using u by simp
    then have "ruler L (z # ms)" using ruler_append [of L vs] u(1) by simp
    then show "r \<in> beyond L N ms m" using u rz by (auto simp: beyond_def ms ruler_Cons)
  qed
  show ?thesis
  proof (cases cl)
    case False
    then show ?thesis using up stop(1) len(1) by (auto simp: ms)
  next
    case True
    then have n: "stop < length ms'" "ms' \<noteq> []" using stop len(1) by (auto simp: ms)
    have "ahead L N stop ms' m = beyond L N ms' m"
    proof -
      obtain k ks where "ms' = k # ks" using n(2) by (cases ms') auto
      moreover from this have "\<not> stop < length ks" using stop(1) len(1) True by (simp add: ms)
      ultimately show ?thesis by simp
    qed
    then show ?thesis using up n True by (auto simp: ms beyond_def order_le_less)
  qed
qed

lemma placed_level:
  assumes "placed L levels ms" "1 \<le> i" "i < length ms"
  shows "length (lev_list (levels ! i)) = 8 \<and> length (lev_dist (levels ! i)) = 8 \<and> length (lev_comp (levels ! i)) = 8"
  using assms
proof (induction L levels ms rule: placed.induct)
  case (3 L levels x m ms)
  then show ?case by (cases "i = length (m # ms)") (auto simp: Let_def level_ok_def less_Suc_eq)
qed auto

section \<open>Writing a search to its stub\<close>

lemma u16_of_int: "0 \<le> z \<Longrightarrow> z < 65536 \<Longrightarrow> int (unat (of_int z :: u16)) = z"
  by (simp add: unsigned_of_int take_bit_eq_mod)

lemma stub_marks_diffs:
  assumes "k < length xs" "xs ! 0 = 0" "\<forall>i<k. 0 < xs ! (i + 1) - xs ! i \<and> xs ! (i + 1) - xs ! i < 65536"
  shows "stub_marks (map (\<lambda>i. of_int (xs ! (i + 1) - xs ! i)) [0..<k]) = rev (take (k + 1) xs)"
  using assms
proof (induction k)
  case 0
  then show ?case by (cases xs) (auto simp: stub_marks_def)
next
  case (Suc k)
  let ?d = "xs ! (k + 1) - xs ! k"
  have IH: "stub_marks (map (\<lambda>i. of_int (xs ! (i + 1) - xs ! i)) [0..<k]) = rev (take (k + 1) xs)"
    using Suc by auto
  have t: "take (k + 1) xs = take k xs @ [xs ! k]" using Suc.prems(1) by (simp add: take_Suc_conv_app_nth)
  have "int (unat (of_int ?d :: u16)) = ?d" using Suc.prems(3) by (intro u16_of_int) auto
  moreover have "take (Suc k + 1) xs = take (k + 1) xs @ [xs ! (k + 1)]"
    using Suc.prems(1) by (simp add: take_Suc_conv_app_nth)
  moreover have "map (\<lambda>i. of_int (xs ! (i + 1) - xs ! i) :: u16) [0..<Suc k]
      = map (\<lambda>i. of_int (xs ! (i + 1) - xs ! i)) [0..<k] @ [of_int ?d]" by simp
  ultimately show ?case
    unfolding stub_marks_snoc by (simp only: stub_marks_snoc IH t) simp
qed

lemma ogr_getresult_ok:
  assumes inv: "search_inv env pchoose stub lastSegment st" and g: "good_stub env pchoose stub lastSegment"
    and run: "ogr_getresult env st stub0 sizeof_OgrWorkStub = (r, stub1)"
  shows "r = CORE_S_OK \<and> ng_marks stub1 = ng_marks stub \<and> ng_length stub1 = ng_length stub \<and>
    ng_collapsed stub1 = ng_collapsed stub0 \<and> good_stub env pchoose stub1 lastSegment \<and>
    start_marks stub1 = marks_of (entered st)"
proof -
  note f = search_inv_fields [OF inv g] and gf = good_stub_fields [OF g]
  let ?ms = "marks_of (entered st)" and ?L = "core_limit pchoose (entered st)"
  let ?xs = "rev ?ms" and ?k = "nat (os_depth st)"
  have core: "core_at ?L (entered st) ?ms" "int (length ?ms) = os_depth st + 1" "table_ok pchoose (os_max st)" "config_ok st"
    using inv by (auto simp: search_inv_def core_inv_def entered_def config_ok_def)
  then have pl: "placed ?L (Levels st) ?ms" and rul: "ruler ?L ?ms" and "int (length ?ms) \<le> os_maxdepthm1 st"
    by (simp_all add: core_at_def entered_def Let_def)
  moreover have "0 < length ?ms" using placed_nonempty [OF pl] by simp
  ultimately have len: "length ?ms = ?k + 1" "?k + 1 < unat (ng_marks stub)" and dep: "os_depth st = int ?k"
    using core(2) f(3) gf(4) by linarith+
  have "uint (ng_length stub) \<le> os_depth st" using inv f(4) by (simp add: search_inv_def)
  moreover have "uint (ng_length stub) = int (unat (ng_length stub))" by simp
  ultimately have dep2: "unat (ng_length stub) \<le> ?k" by linarith
  have mk: "lev_mark (Levels st ! i) = ?xs ! i" if "i \<le> ?k" for i
    using placed_mark [OF pl, of i] len that by simp
  have bnd: "set ?ms \<subseteq> {0..os_max st}" "os_max st < 2048"
    using ruler_bounded [OF rul, of "os_max st"] core_limit_le [of pchoose "entered st"] core(3,4)
    by (auto simp: config_ok_def entered_def)
  have srt: "sorted_wrt (<) ?xs" using ruler_sorted [OF rul] by (simp only: sorted_wrt_rev)
  have dif: "0 < ?xs ! (i + 1) - ?xs ! i \<and> ?xs ! (i + 1) - ?xs ! i < 65536" if "i < ?k" for i
  proof -
    have "i + 1 < length ?xs" using that len by simp
    then have "?xs ! (i + 1) \<in> set ?ms" "?xs ! i \<in> set ?ms" "?xs ! i < ?xs ! (i + 1)"
      using srt nth_mem [of "i + 1" ?xs] nth_mem [of i ?xs] by (auto simp: sorted_wrt_iff_nth_less simp del: nth_mem)
    moreover from this have "0 \<le> ?xs ! i" "?xs ! (i + 1) \<le> os_max st" using bnd(1) by auto
    ultimately show ?thesis using bnd(2) by linarith
  qed
  have "rev ?ms ! 0 = 0" using rul len
  proof -
    have "last ?ms = 0" using rul by (rule ruler_last)
    then show ?thesis using len by (cases ?ms rule: rev_cases) auto
  qed
  then have sm: "stub_marks (map (\<lambda>i. of_int (?xs ! (i + 1) - ?xs ! i)) [0..<?k]) = ?ms"
    using stub_marks_diffs [of ?k ?xs] dif len by simp
  let ?ds = "map (\<lambda>i. of_int (lev_mark (Levels st ! (i + 1)) - lev_mark (Levels st ! i)) :: u16) [0..<28]"
  have tk: "take ?k ?ds = map (\<lambda>i. of_int (?xs ! (i + 1) - ?xs ! i)) [0..<?k]"
  proof -
    have "?k \<le> 28" using len(2) gf(2,4) by linarith
    then have "take ?k [0..<28] = [0..<?k]" by (simp add: take_upt)
    then show ?thesis by (simp add: take_map mk)
  qed
  have "int (unat (of_int (os_depth st) :: u16)) = os_depth st"
    using len(2) gf(2,4) dep by (intro u16_of_int) linarith+
  then have wl: "unat (of_int (os_depth st) :: u16) = ?k" by (metis nat_int)
  have k28: "?k \<le> 28" using len(2) gf(2,4) by linarith
  have not: "\<not> os_depth st < os_stopdepth st" "\<not> 28 < ?k"
    using inv k28 by (auto simp: search_inv_def)
  have chk: "oe_check_cache env (os_maxdepth st) = Some pchoose" using g f(2) by (simp add: good_stub_def)
  have s1: "r = CORE_S_OK" "stub1 = stub0\<lparr>ng_marks := ng_marks stub, ng_length := ng_length stub, ng_diffs := ?ds, ng_worklength := of_int (os_depth st)\<rparr>"
    using run not f(2,4) wl chk by (auto simp: ogr_getresult_def OGR_STUB_MAX_def Let_def)
  have sl: "stub_length stub1 = ?k" using s1 wl dep2 by (simp add: stub_length_def)
  have "0 \<notin> set (take ?k ?ds)"
  proof
    assume "0 \<in> set (take ?k ?ds)"
    then obtain i where "i < ?k" "of_int (?xs ! (i + 1) - ?xs ! i) = (0 :: u16)" unfolding tk by auto
    then show False using u16_of_int [of "?xs ! (i + 1) - ?xs ! i"] dif [of i] by simp
  qed
  then have "good_stub env pchoose stub1 lastSegment"
    using g len(2) s1 sl by (auto simp: good_stub_def OGR_STUB_MAX_def)
  moreover have "start_marks stub1 = ?ms" using sm tk sl s1 by (simp add: start_marks_def)
  ultimately show ?thesis using s1 by simp
qed

section \<open>The search as a whole\<close>

text \<open>Calls of the core, each with the number of nodes it may do, until one does not ask for more.\<close>

fun run_calls :: "ogr_env \<Rightarrow> ogr_state \<Rightarrow> int list \<Rightarrow> (int \<times> ogr_state) option" where
  "run_calls env st [] = Some (CORE_S_CONTINUE, st)"
| "run_calls env st (nodes # ns) =
     (case ogr_cycle_entry env st nodes of
        None \<Rightarrow> None
      | Some (r, n, st') \<Rightarrow> if r = CORE_S_CONTINUE then run_calls env st' ns else Some (r, st'))"

text \<open>\<open>CORE_S_OK\<close> without a ruler in \<open>A\<close>, or \<open>CORE_S_SUCCESS\<close> with one of them in the levels.\<close>

definition decided :: "int list set \<Rightarrow> int \<times> ogr_state \<Rightarrow> bool" where
  "decided A res \<longleftrightarrow> (case res of (r, st) \<Rightarrow>
     if A = {} then r = CORE_S_OK else r = CORE_S_SUCCESS \<and> ruler_of st \<in> A)"

lemma partials_finite: "search_inv env pchoose stub lastSegment st \<Longrightarrow> finite (partials_ahead pchoose (entered st))"
  unfolding partials_ahead_def
  by (rule partial_finite [of _ "os_max st"])
    (auto simp: search_inv_def core_inv_def config_ok_def entered_def core_limit_le)

lemma run_calls_ok:
  assumes "search_inv env pchoose stub lastSegment st" "good_stub env pchoose stub lastSegment"
    and "card (partials_ahead pchoose (entered st)) < length ns" "\<forall>n\<in>set ns. 0 < n"
  shows "\<exists>res. run_calls env st ns = Some res \<and> decided (search_left pchoose st) res"
  using assms
proof (induction ns arbitrary: st)
  case (Cons nodes ns)
  obtain r k st' where e: "ogr_cycle_entry env st nodes = Some (r, k, st')" and c:
    "r = CORE_S_CONTINUE \<and> k = nodes \<and> search_inv env pchoose stub lastSegment st' \<and> search_left pchoose st' = search_left pchoose st
       \<and> partials_ahead pchoose (entered st') \<subset> partials_ahead pchoose (entered st)
     \<or> r = CORE_S_OK \<and> search_left pchoose st = {}
     \<or> r = CORE_S_SUCCESS \<and> os_depth st' = os_stopdepth st' - 1 \<and> same_config st st' \<and> ruler_of st' \<in> search_left pchoose st"
    using entry_ok [OF Cons.prems(1,2), of nodes] Cons.prems(4) by auto
  from c show ?case
  proof (elim disjE conjE)
    assume p: "r = CORE_S_CONTINUE" "search_inv env pchoose stub lastSegment st'" "search_left pchoose st' = search_left pchoose st"
      "partials_ahead pchoose (entered st') \<subset> partials_ahead pchoose (entered st)"
    have "card (partials_ahead pchoose (entered st')) < length ns"
      using psubset_card_mono [OF partials_finite [OF Cons.prems(1)] p(4)] Cons.prems(3) by simp
    then have "\<exists>res. run_calls env st' ns = Some res \<and> decided (search_left pchoose st') res"
      using Cons.IH [OF p(2) Cons.prems(2)] Cons.prems(4) by simp
    moreover have "run_calls env st (nodes # ns) = run_calls env st' ns" using e p(1) by simp
    ultimately show ?case using p(3) by simp
  qed (use e in \<open>auto simp: core_codes decided_def\<close>)
qed simp

text \<open>What is left at the start is what the stub stands for.\<close>

lemma searching_assigned:
  assumes s: "searching env stub lastSegment st" and g: "good_stub env pchoose stub lastSegment"
    and fresh: "ng_worklength stub \<le> ng_length stub"
  shows "search_left pchoose st = assigned env pchoose stub lastSegment"
proof -
  note inv = searching_inv [OF s g] and gf = good_stub_fields [OF g]
  note f = search_inv_fields [OF inv(1) g]
  have sl: "stub_length stub = unat (ng_length stub)"
    using fresh by (simp add: stub_length_def word_le_nat_alt max_def)
  have len: "length (start_marks stub) = unat (ng_length stub) + 1"
    using g gf(5) sl by (simp add: start_marks_def good_stub_def OGR_STUB_MAX_def)
  have lt: "length (start_marks stub) < unat (ng_marks stub)" using len gf(3) sl by linarith
  have last: "lastSegment \<noteq> 0 \<Longrightarrow> 0 < unat (ng_length stub)"
    using g by (auto simp: good_stub_def unat_gt_0 word_neq_0_conv)
  have "stop_level st = (if lastSegment \<noteq> 0 then unat (ng_length stub) - 1 else unat (ng_length stub))"
  proof -
    have "uint (ng_length stub) = int (unat (ng_length stub))" by simp
    then have "os_stopdepth st = (if lastSegment \<noteq> 0 then int (unat (ng_length stub)) - 1 else int (unat (ng_length stub)))"
      using f(5) by presburger
    moreover have "nat (int u - 1) = u - 1" if "0 < u" for u using that by simp
    ultimately show ?thesis using last by (simp del: of_nat_unat)
  qed
  then show ?thesis
    using ahead_assigned [OF inv(2) len lt _ last] inv(3) unfolding assigned_def by auto
qed

section \<open>Properties\<close>

text \<open>An environment with a constant table and stubs of the first marks, for the examples.\<close>

definition const_env :: "u16 \<Rightarrow> ogr_env" where
  "const_env k = \<lparr>oe_precomp = (\<lambda>_. None), oe_check_cache = (\<lambda>_. Some (\<lambda>_. k)), oe_dist0 = 0,
     oe_diffs = replicate 24 0, oe_beyond_OGR = (\<lambda>_. 0)\<rparr>"

definition first_stub :: "u16 list \<Rightarrow> ng_workstub" where
  "first_stub ds = \<lparr>ng_marks = 21, ng_length = of_nat (length ds), ng_diffs = ds @ replicate (28 - length ds) 0,
     ng_worklength = 0, ng_collapsed = 0\<rparr>"

lemma first_stub_good:
  assumes "length ds \<le> 19" "0 \<notin> set ds" "uint k \<le> 333"
  shows "good_stub (const_env k) (\<lambda>_. k) (first_stub ds) 0" "start_marks (first_stub ds) = stub_marks ds"
proof -
  have "unat (of_nat (length ds) :: u16) = length ds"
    using assms(1) by (simp add: unsigned_of_nat take_bit_eq_mod)
  then have l: "stub_length (first_stub ds) = length ds" by (simp add: stub_length_def first_stub_def)
  show "good_stub (const_env k) (\<lambda>_. k) (first_stub ds) 0"
    unfolding good_stub_def l using assms
    by (simp add: first_stub_def const_env_def OGR_STUB_MAX_def table_ok_def OGR_lengths_def)
  show "start_marks (first_stub ds) = stub_marks ds"
    unfolding start_marks_def l by (simp add: first_stub_def)
qed

lemma first_search:
  assumes "uint k \<le> 333"
  obtains st where "searching (const_env k) (first_stub []) 0 st" "good_stub (const_env k) (\<lambda>_. k) (first_stub []) 0"
proof -
  note g = first_stub_good [of "[]" k]
  obtain r st' where run: "ogr_create (const_env k) (Some (first_stub [])) sizeof_OgrWorkStub (Some zero_state) sizeof_OgrState 0 = (r, st')"
    by (rule prod.exhaust)
  have "ruler (stub_limit (const_env k) (\<lambda>_. k) (first_stub [])) (start_marks (first_stub []))"
    using g assms by (simp add: stub_marks_def)
  then obtain st where "r = CORE_S_OK" "st' = Some st"
    using ogr_create_ok [OF g(1) run] assms by auto
  then show ?thesis using that [of st] searching.created run g(1) assms by auto
qed

text \<open>C18: from a stub, the search decides whether there is a Golomb ruler to find. However the work is cut
  into calls, after finitely many of them the core has returned \<open>CORE_S_OK\<close> if no Golomb ruler with
  every mark within its limit goes on from the marks of the stub, and \<open>CORE_S_SUCCESS\<close> with such a
  ruler in its levels if there is one. It never returns an error.\<close>

theorem ogr_search_decides:
  assumes "good_stub env pchoose stub lastSegment" "ng_worklength stub \<le> ng_length stub"
    and "searching env stub lastSegment st"
  shows "\<exists>k. \<forall>ns. k \<le> length ns \<and> (\<forall>n\<in>set ns. 0 < n) \<longrightarrow>
    (\<exists>res. run_calls env st ns = Some res \<and> decided (assigned env pchoose stub lastSegment) res)"
proof (rule exI [of _ "Suc (card (partials_ahead pchoose (entered st)))"], intro allI impI)
  fix ns :: "int list"
  assume "Suc (card (partials_ahead pchoose (entered st))) \<le> length ns \<and> (\<forall>n\<in>set ns. 0 < n)"
  then show "\<exists>res. run_calls env st ns = Some res \<and> decided (assigned env pchoose stub lastSegment) res"
    using run_calls_ok [OF searching_inv(1) [OF assms(3,1)] assms(1)] searching_assigned [OF assms(3,1,2)] by simp
qed

theorem ogr_search_decides_witness:
  "\<exists>st k. searching (const_env 0) (first_stub []) 0 st \<and>
    (\<exists>st'. run_calls (const_env 0) st (replicate k 1000) = Some (CORE_S_OK, st'))"
proof -
  obtain st where st: "searching (const_env 0) (first_stub []) 0 st" "good_stub (const_env 0) (\<lambda>_. 0) (first_stub []) 0"
    by (rule first_search [of 0]) simp
  let ?A = "assigned (const_env 0) (\<lambda>_. 0) (first_stub []) 0"
  obtain k where "\<forall>ns. k \<le> length ns \<and> (\<forall>n\<in>set ns. 0 < n) \<longrightarrow>
      (\<exists>res. run_calls (const_env 0) st ns = Some res \<and> decided ?A res)"
    using ogr_search_decides [OF st(2) _ st(1)] by (auto simp: first_stub_def)
  then obtain res where res: "run_calls (const_env 0) st (replicate k 1000) = Some res" "decided ?A res"
    by (auto dest: spec [of _ "replicate k 1000"])
  have "?A = {}"
  proof -
    have False if r: "ruler (stub_limit (const_env 0) (\<lambda>_. 0) (first_stub [])) r" "length r = 21" for r
    proof -
      obtain x m ms where "r = x # m # ms" using r(2) by (cases r; cases "tl r") auto
      then have "0 \<le> m" "m < x" "x \<le> stub_limit (const_env 0) (\<lambda>_. 0) (first_stub []) (m # ms)"
        using r(1) ruler_below by auto
      moreover have "stub_limit (const_env 0) (\<lambda>_. 0) (first_stub []) (m # ms) \<le> 0"
        by (simp add: stub_limit_def core_limit_def next_limit_def choose_limit_def Let_def)
      ultimately show False by linarith
    qed
    then show ?thesis by (auto simp: assigned_def first_stub_def)
  qed
  then show ?thesis using res st(1) by (cases res) (auto simp: decided_def)
qed

text \<open>C30: every call of \<open>ogr_cycle_entry\<close> returns, with one of three results. It asks for more, after
  exactly the nodes it was given, and has as many Golomb rulers ahead as before; or it is done and there
  was none; or it has found one of them.\<close>

theorem ogr_cycle_entry_contract:
  assumes "good_stub env pchoose stub lastSegment" "searching env stub lastSegment st" "0 < nodes"
  shows "\<exists>r n st'. ogr_cycle_entry env st nodes = Some (r, n, st') \<and> n \<le> nodes \<and>
    (r = CORE_S_CONTINUE \<and> n = nodes \<and> searching env stub lastSegment st' \<and> search_left pchoose st' = search_left pchoose st
     \<or> r = CORE_S_OK \<and> search_left pchoose st = {}
     \<or> r = CORE_S_SUCCESS \<and> ruler_of st' \<in> search_left pchoose st)"
  using entry_ok [OF searching_inv(1) [OF assms(2,1)] assms(1,3)] searching.cycled [OF assms(2,3)] by blast

theorem ogr_cycle_entry_contract_witness:
  "\<exists>st r n st'. ogr_cycle_entry (const_env 333) st 1000 = Some (r, n, st') \<and> n \<le> 1000"
proof -
  obtain st where st: "searching (const_env 333) (first_stub []) 0 st" "good_stub (const_env 333) (\<lambda>_. 333) (first_stub []) 0"
    by (rule first_search [of 333]) simp
  then show ?thesis using ogr_cycle_entry_contract [OF st(2,1), of 1000] by auto
qed



text \<open>C23: a search can be put away and taken up again. From any state between two calls, the stub that
  \<open>ogr_getresult\<close> writes is accepted by \<open>ogr_create\<close>, and the state it makes has the same marks and the
  same Golomb rulers ahead.\<close>

theorem ogr_stub_resumes:
  assumes "good_stub env pchoose stub lastSegment" "searching env stub lastSegment st"
    and "ogr_getresult env st stub0 sizeof_OgrWorkStub = (r, stub1)"
  shows "r = CORE_S_OK \<and> good_stub env pchoose stub1 lastSegment \<and>
    (\<exists>st1. ogr_create env (Some stub1) sizeof_OgrWorkStub (Some mem) sizeof_OgrState lastSegment = (CORE_S_OK, Some st1) \<and>
      marks_of (entered st1) = marks_of (entered st) \<and> search_left pchoose st1 = search_left pchoose st)"
proof -
  have inv: "search_inv env pchoose stub lastSegment st" by (rule searching_inv(1) [OF assms(2,1)])
  note w = ogr_getresult_ok [OF inv assms(1,3)] and f = search_inv_fields [OF inv assms(1)]
  have g1: "good_stub env pchoose stub1 lastSegment" and m1: "start_marks stub1 = marks_of (entered st)"
    using w by auto
  have L: "stub_limit env pchoose stub1 = stub_limit env pchoose stub"
    using w by (simp add: stub_limit_def setup_state_def)
  have "core_limit pchoose (entered st) = stub_limit env pchoose stub" using f(1) by (simp add: entered_def)
  then have rul: "ruler (stub_limit env pchoose stub1) (start_marks stub1)" "cur_mark (entered st) = hd (marks_of (entered st))"
    using inv L m1 by (auto simp: search_inv_def core_inv_def core_at_def Let_def)
  obtain r1 s1 where run: "ogr_create env (Some stub1) sizeof_OgrWorkStub (Some mem) sizeof_OgrState lastSegment = (r1, s1)"
    by (rule prod.exhaust)
  then obtain st1 where st1: "r1 = CORE_S_OK" "s1 = Some st1" "search_inv env pchoose stub1 lastSegment st1"
      "marks_of (entered st1) = start_marks stub1"
    using ogr_create_ok [OF g1 run] rul by auto
  note f1 = search_inv_fields [OF st1(3) g1]
  have "search_left pchoose st1 = search_left pchoose st"
    using f f1 L w st1(3,4) m1 rul(2)
    by (simp add: search_left_def golomb_ahead_def rulers_ahead_def entered_def search_inv_def)
  then show ?thesis using w g1 run st1 m1 by auto
qed

theorem ogr_stub_resumes_witness:
  "\<exists>st stub1 st1. searching (const_env 333) (first_stub []) 0 st \<and>
    ogr_getresult (const_env 333) st (first_stub [7]) sizeof_OgrWorkStub = (CORE_S_OK, stub1) \<and>
    ogr_create (const_env 333) (Some stub1) sizeof_OgrWorkStub (Some zero_state) sizeof_OgrState 0 = (CORE_S_OK, Some st1)"
proof -
  obtain st where st: "searching (const_env 333) (first_stub []) 0 st" "good_stub (const_env 333) (\<lambda>_. 333) (first_stub []) 0"
    by (rule first_search [of 333]) simp
  obtain r stub1 where g: "ogr_getresult (const_env 333) st (first_stub [7]) sizeof_OgrWorkStub = (r, stub1)"
    by (rule prod.exhaust)
  then show ?thesis using ogr_stub_resumes [OF st(2,1) g, of zero_state] st(1) by blast
qed

text \<open>C27: every state between two calls is well formed: 29 levels, of which the current one and those
  below it are inside the array with room for one more, bitmaps of eight words, and marks that rise from 0
  and stay below the length of the best known ruler.\<close>

theorem searching_well_formed:
  assumes "good_stub env pchoose stub lastSegment" "searching env stub lastSegment st"
  shows "length (Levels st) = OGR_MAXDEPTH \<and> os_stopdepth st \<le> os_depth st \<and> 0 \<le> os_depth st \<and>
    os_depth st + 2 < int OGR_MAXDEPTH \<and>
    (\<forall>i. 1 \<le> i \<and> int i \<le> os_depth st \<longrightarrow>
      lev_mark (Levels st ! (i - 1)) < lev_mark (Levels st ! i) \<and> lev_mark (Levels st ! i) \<le> os_max st \<and>
      length (lev_list (Levels st ! i)) = 8 \<and> length (lev_dist (Levels st ! i)) = 8 \<and> length (lev_comp (Levels st ! i)) = 8)"
proof -
  have inv: "search_inv env pchoose stub lastSegment st" by (rule searching_inv(1) [OF assms(2,1)])
  let ?ms = "marks_of (entered st)" and ?L = "core_limit pchoose (entered st)"
  have c: "config_ok st" "table_ok pchoose (os_max st)" "placed ?L (Levels st) ?ms" "ruler ?L ?ms"
    "int (length ?ms) \<le> os_maxdepthm1 st" "int (length ?ms) = os_depth st + 1"
    using inv by (auto simp: search_inv_def core_inv_def core_at_def entered_def config_ok_def Let_def)
  have top: "0 < length ?ms" using placed_nonempty [OF c(3)] by simp
  have "lev_mark (Levels st ! (i - 1)) < lev_mark (Levels st ! i) \<and> lev_mark (Levels st ! i) \<le> os_max st \<and>
      length (lev_list (Levels st ! i)) = 8 \<and> length (lev_dist (Levels st ! i)) = 8 \<and> length (lev_comp (Levels st ! i)) = 8"
    if i: "1 \<le> i" "int i \<le> os_depth st" for i
  proof -
    have il: "i < length ?ms" using i c(6) by linarith
    have "set ?ms \<subseteq> {0..os_max st}"
      using ruler_bounded [OF c(4), of "os_max st"] core_limit_le [of pchoose "entered st"] c(1,2)
      by (auto simp: config_ok_def entered_def)
    then have "rev ?ms ! i \<le> os_max st" using il nth_mem [of i "rev ?ms"] by auto
    moreover have "sorted_wrt (<) (rev ?ms)" using ruler_sorted [OF c(4)] by (simp only: sorted_wrt_rev)
    then have "rev ?ms ! (i - 1) < rev ?ms ! i" using i il by (simp add: sorted_wrt_iff_nth_less)
    ultimately show ?thesis
      using placed_mark [OF c(3), of i] placed_mark [OF c(3), of "i - 1"] placed_level [OF c(3) i(1) il] il by simp
  qed
  then show ?thesis using c(1,5,6) top inv by (auto simp: config_ok_def OGR_MAXDEPTH_def search_inv_def)
qed

theorem searching_well_formed_witness: "\<exists>st. searching (const_env 333) (first_stub []) 0 st \<and> length (Levels st) = 29 \<and> os_depth st + 2 < 29"
proof -
  obtain st where st: "searching (const_env 333) (first_stub []) 0 st" "good_stub (const_env 333) (\<lambda>_. 333) (first_stub []) 0"
    by (rule first_search [of 333]) simp
  then show ?thesis using searching_well_formed [OF st(2,1)] by (auto simp: OGR_MAXDEPTH_def)
qed

text \<open>A stub for a number of marks outside 21 to 28 is refused with \<open>CORE_E_FORMAT\<close>, before any level is
  touched; the length of the best known ruler, which is read before the check, is then whatever
  the memory beside the table holds.\<close>

theorem ogr_create_bad_format:
  assumes "unat (ng_marks stub) < 21 \<or> 28 < unat (ng_marks stub)"
  shows "\<exists>st. ogr_create env (Some stub) sizeof_OgrWorkStub (Some mem) sizeof_OgrState lastSegment = (CORE_E_FORMAT, Some st) \<and>
    Levels st = replicate OGR_MAXDEPTH zero_level \<and>
    (unat (ng_marks stub) = 0 \<or> 29 < unat (ng_marks stub) \<longrightarrow> os_max st = oe_beyond_OGR env (uint (ng_marks stub) - 1))"
proof -
  have m: "uint (ng_marks stub) = int (unat (ng_marks stub))" by simp
  have "uint (ng_marks stub) < 21 \<or> 28 < uint (ng_marks stub)" using assms unfolding m by linarith
  moreover have "OGR_at env (uint (ng_marks stub) - 1) = oe_beyond_OGR env (uint (ng_marks stub) - 1)"
    if "unat (ng_marks stub) = 0 \<or> 29 < unat (ng_marks stub)"
  proof -
    have "\<not> (0 \<le> uint (ng_marks stub) - 1 \<and> uint (ng_marks stub) - 1 < 29)" using that unfolding m by linarith
    then show ?thesis by (simp only: OGR_at_def if_False)
  qed
  ultimately show ?thesis
    by (auto simp: ogr_create_def setup_state_def zero_state_def OGR_NG_MIN_def OGR_NG_MAX_def Let_def)
qed

theorem ogr_create_bad_format_witness:
  "fst (ogr_create (const_env 333) (Some ((first_stub [])\<lparr>ng_marks := 40\<rparr>)) sizeof_OgrWorkStub (Some zero_state) sizeof_OgrState 0)
    = CORE_E_FORMAT"
  using ogr_create_bad_format [of "(first_stub [])\<lparr>ng_marks := 40\<rparr>" "const_env 333" zero_state 0] by auto

end
