(* ===== verification/Problem.thy ===== *)
theory Problem
  imports Work Rc5Core OgrInterface
begin

text \<open>
  The problem of \<open>common/problem.cpp\<close>: its three copies and how \<open>ProblemLoadState\<close>,
  \<open>ProblemRetrieveState\<close> and \<open>ProblemRun\<close> work on them. The result codes are integers as in the
  code, since -1 stands beside \<open>RESULT_WORKING\<close> (0), \<open>RESULT_NOTHING\<close> (1) and \<open>RESULT_FOUND\<close> (2).
  The memory of a core is of a type \<open>'m\<close> of its own; the pointer into it, which
  \<open>__copy_internal_problem\<close> keeps apart from the contents, is not modelled. What the functions get
  from elsewhere (the selected core, the readings of the clocks, \<open>Random\<close>) is an argument. The
  fields \<open>live_rate\<close>, \<open>profiling\<close>, \<open>was_truncated\<close> and \<open>loaderflags\<close> of the public part belong to
  other files and are left out, as is \<open>threadindex\<close>. The build is one for a CPU, with preemptive
  scheduling and with the cores of RC5-72, OGR-NG and OGR-P2.
\<close>

section \<open>The data\<close>

definition RES_WORKING :: int where "RES_WORKING = 0"
definition RES_NOTHING :: int where "RES_NOTHING = 1"
definition RES_FOUND :: int where "RES_FOUND = 2"

definition MINIMUM_ITERATIONS :: u32 where "MINIMUM_ITERATIONS = 48"

record 'm unit_func_union =
  gen_72 :: "unitwork72 \<Rightarrow> u32 \<Rightarrow> 'm \<Rightarrow> int \<times> unitwork72 \<times> u32 \<times> 'm"
  uf_ogr_ng :: "('m, ng_workstub) ogr_dispatch"
  uf_ogr_p2 :: "('m, p2_workstub) ogr_dispatch"

record 'm selcore =
  sc_client_cpu :: int
  sc_pipeline_count :: u32
  sc_use_generic_proto :: bool
  sc_asynchronous :: bool
  sc_unit_func :: "'m unit_func_union"

text \<open>\<open>struct problem_publics\<close> and \<open>InternalProblem\<close>.\<close>

record 'm problem_publics =
  elapsed_time_sec :: u32
  elapsed_time_usec :: u32
  runtime_sec :: u32
  runtime_usec :: u32
  last_runtime_sec :: u32
  last_runtime_usec :: u32
  last_runtime_is_invalid :: bool
  core_run_count :: u32
  startpermille :: u32
  startkeys_hi :: u32
  startkeys_lo :: u32
  contest :: project
  coresel :: int
  client_cpu :: int
  tslice :: u32
  tslice_increment_hint :: u32
  was_reset :: bool
  is_random :: bool
  is_benchmark :: bool
  pipeline_count :: u32
  unit_func :: "'m unit_func_union"
  use_generic_proto :: bool
  cruncher_is_asynchronous :: bool
  cruncher_is_time_constrained :: bool

record 'm internal_problem =
  pub_data :: "'m problem_publics"
  rc5_72unitwork :: unitwork72
  refL0 :: key72
  contestwork :: contestwork
  core_membuffer :: 'm
  loadtime_sec :: u32
  loadtime_usec :: u32
  last_resultcode :: int
  started :: bool
  initialized :: bool

text \<open>\<open>SuperProblem\<close>: the main copy, the one the core works on, and the one \<open>LoadState\<close> works on.\<close>

record 'm super_problem =
  PICKPROB_MAIN :: "'m internal_problem"
  PICKPROB_CORE :: "'m internal_problem"
  PICKPROB_TEMP :: "'m internal_problem"

text \<open>The static variables of the file: the counters, one for every project and the total at the
  end, the random subspace, and whether the clock of the thread is used. The values written to the
  ini file are kept in order.\<close>

record globals =
  loaded_problems :: "u32 list"
  rc5_72_random_subspace :: u32
  ini_subspaces :: "u32 list"
  s_using_ptime :: bool

definition CONTEST_COUNT :: nat where "CONTEST_COUNT = 7"

fun project_id :: "project \<Rightarrow> nat" where
  "project_id RC5 = 0"
| "project_id DES = 1"
| "project_id OGR = 2"
| "project_id CSC = 3"
| "project_id OGR_NG = 4"
| "project_id RC5_72 = 5"
| "project_id OGR_P2 = 6"

text \<open>\<open>ProblemCountLoaded\<close>, with the contest id as the integer it is in the code.\<close>

definition ProblemCountLoaded :: "globals \<Rightarrow> int \<Rightarrow> u32" where
  "ProblemCountLoaded g contestid =
     (if contestid \<ge> int CONTEST_COUNT then 0
      else
        let contestid = (if contestid < 0 then int CONTEST_COUNT else contestid)
        in loaded_problems g ! nat contestid)"

definition ProblemIsInitialized :: "'m super_problem \<Rightarrow> int" where
  "ProblemIsInitialized p =
     (let thisprob = PICKPROB_MAIN p in
      if initialized thisprob then
        let rescode = last_resultcode thisprob in if rescode \<le> 0 then -1 else rescode
      else 0)"

definition IsProblemLoadPermitted :: "project \<Rightarrow> bool" where
  "IsProblemLoadPermitted contest_i =
     (case contest_i of RC5_72 \<Rightarrow> True | OGR_P2 \<Rightarrow> True | OGR_NG \<Rightarrow> True | _ \<Rightarrow> False)"

definition copy_internal_problem :: "'m internal_problem \<Rightarrow> 'm internal_problem \<Rightarrow> 'm internal_problem" where
  "copy_internal_problem dest source = source"

section \<open>Loading\<close>

text \<open>The argument \<open>work\<close> of \<open>LoadState\<close>: a work or one of the two magic pointers.\<close>

datatype work_arg = CONTESTWORK_MAGIC_RANDOM | CONTESTWORK_MAGIC_BENCHMARK | Work contestwork

text \<open>What loading gets from elsewhere: \<open>Random\<close>, the core that \<open>selcoreSelectCore\<close> selects with its
  data, the build, and two readings of the monotonic clock, \<open>None\<close> if it fails.\<close>

record 'm load_env =
  le_random :: u32
  le_coresel :: int
  le_selinfo :: "'m selcore"
  CLIENT_OS :: int
  CLIENT_VERSION :: int
  le_clock1 :: "(u32 \<times> u32) option"
  le_clock2 :: "(u32 \<times> u32) option"

text \<open>What the caller expects of the core, from the buffer record of the work.\<close>

record expected =
  expected_cputype :: int
  expected_corenum :: int
  expected_os :: int
  expected_build :: int

definition origin_mismatch :: "'m load_env \<Rightarrow> expected \<Rightarrow> 'm problem_publics \<Rightarrow> bool" where
  "origin_mismatch env ex pub \<longleftrightarrow>
     client_cpu pub \<noteq> expected_cputype ex \<or> coresel pub \<noteq> expected_corenum ex
     \<or> CLIENT_OS env \<noteq> expected_os ex \<or> CLIENT_VERSION env \<noteq> expected_build ex"

definition reset_problem ::
  "'m load_env \<Rightarrow> project \<Rightarrow> u32 \<Rightarrow> bool \<Rightarrow> bool \<Rightarrow> 'm internal_problem \<Rightarrow> 'm internal_problem" where
  "reset_problem env contestid iterations genned_random genned_benchmark thisprob =
     (let selinfo = le_selinfo env in
      thisprob\<lparr>last_resultcode := -1, started := False, initialized := False,
        loadtime_sec := 0, loadtime_usec := 0,
        pub_data := (pub_data thisprob)\<lparr>
          elapsed_time_sec := 0, elapsed_time_usec := 0, runtime_sec := 0, runtime_usec := 0,
          last_runtime_sec := 0, last_runtime_usec := 0, last_runtime_is_invalid := True,
          startpermille := 0, startkeys_lo := 0, startkeys_hi := 0,
          contest := contestid, tslice := iterations, tslice_increment_hint := 0,
          was_reset := False, is_random := genned_random, is_benchmark := genned_benchmark,
          coresel := le_coresel env, client_cpu := sc_client_cpu selinfo,
          pipeline_count := sc_pipeline_count selinfo,
          use_generic_proto := sc_use_generic_proto selinfo,
          cruncher_is_asynchronous := sc_asynchronous selinfo,
          unit_func := sc_unit_func selinfo, cruncher_is_time_constrained := False\<rparr>\<rparr>)"

text \<open>The key to start from, still in plain format.\<close>

definition rc5_start_key :: "bigcrypto \<Rightarrow> key72" where
  "rc5_start_key b =
     (let hi = k_hi (b_key b);
          mid = k_mid (b_key b) + b_keysdone_hi b;
          hi = (if mid < b_keysdone_hi b then hi + 1 else hi);
          lo = k_lo (b_key b) + b_keysdone_lo b;
          (hi, mid) = (if lo < b_keysdone_lo b then
                         let mid = mid + 1 in (if mid = 0 then hi + 1 else hi, mid)
                       else (hi, mid))
      in \<lparr>k_hi = hi AND 0xff, k_mid = mid, k_lo = lo\<rparr>)"

text \<open>The case \<open>RC5_72\<close> of \<open>__InternalLoadState\<close>; the first result is the return value, 0 to go on.\<close>

definition load_rc5_72 ::
  "'m load_env \<Rightarrow> expected \<Rightarrow> contestwork \<Rightarrow> 'm internal_problem \<Rightarrow> globals \<Rightarrow> int \<times> 'm internal_problem \<times> globals" where
  "load_rc5_72 env ex work thisprob g =
     (let b = cw_bigcrypto work;
          (subspace, store) = ProblemSetRandomSubspace (rc5_72_random_subspace g) RC5_72 (b_randomsubspace b) True;
          g = g\<lparr>rc5_72_random_subspace := subspace,
                ini_subspaces := (if store then ini_subspaces g @ [subspace] else ini_subspaces g)\<rparr>;
          pub = pub_data thisprob;
          reset = (b_keysdone_lo b \<noteq> 0 \<or> b_keysdone_hi b \<noteq> 0) \<and> origin_mismatch env ex pub;
          b = (if reset then b\<lparr>b_keysdone_hi := 0, b_keysdone_lo := 0, b_check_count := 0, b_check := zero_key\<rparr>
               else b);
          pub = (if reset then pub\<lparr>was_reset := True\<rparr> else pub);
          thisprob = thisprob\<lparr>contestwork := (contestwork thisprob)\<lparr>cw_bigcrypto := b\<rparr>, pub_data := pub\<rparr>
      in
      if k_hi (b_key b) > 0xff then (-1, thisprob, g)
      else if k_hi (b_key b) = 0 \<and> k_mid (b_key b) = 0 \<and> k_lo (b_key b) = 0
          \<and> b_iterations_hi b = 5120 \<and> b_iterations_lo b = 0 then (-1, thisprob, g)
      else
        let L0 = SwitchRC572Format (rc5_start_key b);
            w = \<lparr>plain_hi = b_plain_hi b XOR b_iv_hi b, plain_lo = b_plain_lo b XOR b_iv_lo b,
                 cypher_hi = b_cypher_hi b, cypher_lo = b_cypher_lo b, L0 = L0,
                 check_count = b_check_count b, check_key = SwitchRC572Format (b_check b)\<rparr>;
            pub = pub\<lparr>startkeys_hi := b_keysdone_hi b, startkeys_lo := b_keysdone_lo b,
                      startpermille := compute_permille RC5_72 (contestwork thisprob)\<rparr>
        in (0, thisprob\<lparr>rc5_72unitwork := w, refL0 := L0, pub_data := pub\<rparr>, g))"

text \<open>The case \<open>OGR_P2\<close>.\<close>

definition load_ogr_p2 ::
  "'m load_env \<Rightarrow> expected \<Rightarrow> contestwork \<Rightarrow> 'm internal_problem \<Rightarrow> int \<times> 'm internal_problem" where
  "load_ogr_p2 env ex work thisprob =
     (let o2 = cw_ogr_p2 work;
          pub = pub_data thisprob;
          reset = (p2w_nodes_hi o2 \<noteq> 0 \<or> p2w_nodes_lo o2 \<noteq> 0) \<and> origin_mismatch env ex pub;
          pub = (if reset then pub\<lparr>was_reset := True\<rparr> else pub);
          o2 = (if reset then
                  o2\<lparr>p2w_stub := (p2w_stub o2)\<lparr>p2_worklength := ucast (p2_length (p2w_stub o2))\<rparr>,
                     p2w_nodes_hi := 0, p2w_nodes_lo := 0\<rparr>
                else o2);
          core = uf_ogr_p2 (unit_func pub);
          r = od_init core;
          (r, stub, mem) = (if r = CORE_S_OK then od_create core (p2w_stub o2) (core_membuffer thisprob) (p2w_minpos o2)
                            else (r, p2w_stub o2, core_membuffer thisprob));
          o2 = o2\<lparr>p2w_stub := stub\<rparr>;
          thisprob = thisprob\<lparr>contestwork := (contestwork thisprob)\<lparr>cw_ogr_p2 := o2\<rparr>, core_membuffer := mem, pub_data := pub\<rparr>
      in
      if r \<noteq> CORE_S_OK then (-1, thisprob)
      else if p2_worklength stub > ucast (p2_length stub) then
        (0, thisprob\<lparr>pub_data := pub\<lparr>startkeys_hi := p2w_nodes_hi o2, startkeys_lo := p2w_nodes_lo o2,
              startpermille := compute_permille OGR_P2 (contestwork thisprob)\<rparr>\<rparr>)
      else (0, thisprob))"

text \<open>The case \<open>OGR_NG\<close>: a reset also restores the last difference of a collapsed stub.\<close>

definition load_ogr_ng ::
  "'m load_env \<Rightarrow> expected \<Rightarrow> contestwork \<Rightarrow> 'm internal_problem \<Rightarrow> int \<times> 'm internal_problem" where
  "load_ogr_ng env ex work thisprob =
     (let ow = cw_ogr_ng work;
          pub = pub_data thisprob;
          reset = (ngw_nodes_hi ow \<noteq> 0 \<or> ngw_nodes_lo ow \<noteq> 0) \<and> origin_mismatch env ex pub;
          pub = (if reset then pub\<lparr>was_reset := True\<rparr> else pub);
          ow = (if reset then
                  let stub = ngw_stub ow;
                      stub = stub\<lparr>ng_worklength := ng_length stub\<rparr>;
                      stub = (if ng_collapsed stub \<noteq> 0 then
                                stub\<lparr>ng_diffs := (ng_diffs stub)[unat (ng_length stub) - 1 := ng_collapsed stub]\<rparr>
                              else stub)
                  in ow\<lparr>ngw_stub := stub, ngw_nodes_hi := 0, ngw_nodes_lo := 0\<rparr>
                else ow);
          core = uf_ogr_ng (unit_func pub);
          r = od_init core;
          (r, stub, mem) = (if r = CORE_S_OK then
                              od_create core (ngw_stub ow) (core_membuffer thisprob) (ucast (ng_collapsed (ngw_stub ow)))
                            else (r, ngw_stub ow, core_membuffer thisprob));
          ow = ow\<lparr>ngw_stub := stub\<rparr>;
          thisprob = thisprob\<lparr>contestwork := (contestwork thisprob)\<lparr>cw_ogr_ng := ow\<rparr>, core_membuffer := mem, pub_data := pub\<rparr>
      in
      if r \<noteq> CORE_S_OK then (-1, thisprob)
      else if ng_worklength stub > ng_length stub then
        (0, thisprob\<lparr>pub_data := pub\<lparr>startkeys_hi := ngw_nodes_hi ow, startkeys_lo := ngw_nodes_lo ow,
              startpermille := compute_permille OGR_NG (contestwork thisprob)\<rparr>\<rparr>)
      else (0, thisprob))"

text \<open>The timers, the counters and the state at the end of a successful load.\<close>

definition count_problem :: "(u32 \<Rightarrow> u32) \<Rightarrow> project \<Rightarrow> globals \<Rightarrow> globals" where
  "count_problem f c g =
     (let l = loaded_problems g;
          l = l[project_id c := f (l ! project_id c)];
          l = l[CONTEST_COUNT := f (l ! CONTEST_COUNT)]
      in g\<lparr>loaded_problems := l\<rparr>)"

definition finish_load :: "'m load_env \<Rightarrow> 'm internal_problem \<Rightarrow> 'm internal_problem" where
  "finish_load env thisprob =
     (let (sec, usec) = (case le_clock1 env of Some t \<Rightarrow> t
                         | None \<Rightarrow> (case le_clock2 env of Some t \<Rightarrow> t | None \<Rightarrow> (0xffffffff, loadtime_usec thisprob)))
      in thisprob\<lparr>loadtime_sec := sec, loadtime_usec := usec,
           pub_data := (pub_data thisprob)\<lparr>elapsed_time_sec := 0xffffffff\<rparr>,
           last_resultcode := RES_WORKING, initialized := True\<rparr>)"

definition InternalLoadState ::
  "'m load_env \<Rightarrow> expected \<Rightarrow> work_arg \<Rightarrow> project \<Rightarrow> u32 \<Rightarrow> 'm internal_problem \<Rightarrow> globals
    \<Rightarrow> int \<times> 'm internal_problem \<times> globals" where
  "InternalLoadState env ex work contestid iterations thisprob g =
     (case (case work of
              CONTESTWORK_MAGIC_RANDOM \<Rightarrow> gen_random_work (le_random env) (rc5_72_random_subspace g) contestid
            | CONTESTWORK_MAGIC_BENCHMARK \<Rightarrow> gen_benchmark_work contestid zero_work
            | Work w \<Rightarrow> Some w) of
        None \<Rightarrow> (-2, thisprob, g)
      | Some w \<Rightarrow>
          if initialized thisprob then (-1, thisprob, g)
          else if \<not> IsProblemLoadPermitted contestid then (-1, thisprob, g)
          else if le_coresel env < 0 then (-2, thisprob, g)
          else if contestid = RC5_72 \<and> MINIMUM_ITERATIONS mod sc_pipeline_count (le_selinfo env) \<noteq> 0 then
            (-2, thisprob, g)
          else
            let thisprob = reset_problem env contestid iterations (work = CONTESTWORK_MAGIC_RANDOM)
                  (work = CONTESTWORK_MAGIC_BENCHMARK) thisprob;
                (res, thisprob, g) =
                  (case contest (pub_data thisprob) of
                     RC5_72 \<Rightarrow> load_rc5_72 env ex w thisprob g
                   | OGR_P2 \<Rightarrow> (case load_ogr_p2 env ex w thisprob of (r, t) \<Rightarrow> (r, t, g))
                   | OGR_NG \<Rightarrow> (case load_ogr_ng env ex w thisprob of (r, t) \<Rightarrow> (r, t, g))
                   | _ \<Rightarrow> (0, thisprob, g))
            in if res \<noteq> 0 then (res, thisprob, g)
               else (0, finish_load env thisprob,
                     count_problem (\<lambda>n. n + 1) (contest (pub_data thisprob)) g))"

text \<open>\<open>ProblemLoadState\<close>: the load works on the temporary copy, which becomes the main copy if it succeeds.\<close>

definition load_begin :: "'m super_problem \<Rightarrow> 'm super_problem" where
  "load_begin p = p\<lparr>PICKPROB_TEMP := copy_internal_problem (PICKPROB_TEMP p) (PICKPROB_MAIN p)\<rparr>"

definition load_finish ::
  "'m load_env \<Rightarrow> expected \<Rightarrow> work_arg \<Rightarrow> project \<Rightarrow> u32 \<Rightarrow> 'm super_problem \<Rightarrow> globals
    \<Rightarrow> int \<times> 'm super_problem \<times> globals" where
  "load_finish env ex work contestid iterations p g =
     (let (res, temp, g) = InternalLoadState env ex work contestid iterations (PICKPROB_TEMP p) g;
          p = p\<lparr>PICKPROB_TEMP := temp\<rparr>
      in if res \<noteq> 0 then (if res < 0 then res else -1, p, g)
         else (0, p\<lparr>PICKPROB_MAIN := copy_internal_problem (PICKPROB_MAIN p) (PICKPROB_TEMP p)\<rparr>, g))"

definition ProblemLoadState ::
  "'m load_env \<Rightarrow> expected \<Rightarrow> work_arg \<Rightarrow> project \<Rightarrow> u32 \<Rightarrow> 'm super_problem \<Rightarrow> globals
    \<Rightarrow> int \<times> 'm super_problem \<times> globals" where
  "ProblemLoadState env ex work contestid iterations p g =
     load_finish env ex work contestid iterations (load_begin p) g"

section \<open>Retrieving\<close>

text \<open>\<open>ProblemRetrieveState\<close>: the results are the return value, the contest id with the work, if it
  is asked for (neither is written if the problem is not initialized), and the state.\<close>

definition retrieve_work :: "'m internal_problem \<Rightarrow> contestwork" where
  "retrieve_work thisprob =
     (let cw = contestwork thisprob; uf = unit_func (pub_data thisprob) in
      case contest (pub_data thisprob) of
        OGR_P2 \<Rightarrow> cw\<lparr>cw_ogr_p2 := (cw_ogr_p2 cw)\<lparr>p2w_stub :=
          snd (od_getresult (uf_ogr_p2 uf) (core_membuffer thisprob) (p2w_stub (cw_ogr_p2 cw)))\<rparr>\<rparr>
      | OGR_NG \<Rightarrow> cw\<lparr>cw_ogr_ng := (cw_ogr_ng cw)\<lparr>ngw_stub :=
          snd (od_getresult (uf_ogr_ng uf) (core_membuffer thisprob) (ngw_stub (cw_ogr_ng cw)))\<rparr>\<rparr>
      | _ \<Rightarrow> cw)"

definition ProblemRetrieveState ::
  "bool \<Rightarrow> bool \<Rightarrow> 'm super_problem \<Rightarrow> globals
    \<Rightarrow> int \<times> (project \<times> contestwork option) option \<times> 'm super_problem \<times> globals" where
  "ProblemRetrieveState want_work dopurge p g =
     (let thisprob = PICKPROB_MAIN p in
      if \<not> initialized thisprob then (-1, None, p, g)
      else
        let thisprob = (if want_work then thisprob\<lparr>contestwork := retrieve_work thisprob\<rparr> else thisprob);
            out = (contest (pub_data thisprob), if want_work then Some (contestwork thisprob) else None);
            g = (if dopurge then count_problem (\<lambda>n. n - 1) (contest (pub_data thisprob)) g else g);
            thisprob = (if dopurge then thisprob\<lparr>initialized := False\<rparr> else thisprob);
            ret_code = last_resultcode thisprob
        in (if ret_code < 0 then -1 else ret_code, Some out, p\<lparr>PICKPROB_MAIN := thisprob\<rparr>, g))"

section \<open>Running\<close>

text \<open>\<open>Run_OGR_P2\<close> and \<open>Run_OGR_NG\<close>: the results are the return value, the iterations, the result code
  and the problem.\<close>

definition add_nodes :: "u32 \<Rightarrow> u32 \<Rightarrow> int \<Rightarrow> u32 \<times> u32" where
  "add_nodes nodes_hi nodes_lo nodes =
     (let newnodeslo = nodes_lo + of_int nodes
      in (if newnodeslo < nodes_lo then nodes_hi + 1 else nodes_hi, newnodeslo))"

definition Run_OGR_P2 :: "'m internal_problem \<Rightarrow> u32 \<Rightarrow> int \<times> u32 \<times> int \<times> 'm internal_problem" where
  "Run_OGR_P2 thisprob iterations =
     (let pub = pub_data thisprob;
          core = uf_ogr_p2 (unit_func pub);
          nodes = sint iterations;
          (r, nodes, mem) = od_cycle core (core_membuffer thisprob) nodes (cruncher_is_time_constrained pub);
          iterations = (if cruncher_is_time_constrained pub then iterations else of_int nodes);
          o2 = cw_ogr_p2 (contestwork thisprob);
          (hi, lo) = add_nodes (p2w_nodes_hi o2) (p2w_nodes_lo o2) nodes;
          o2 = o2\<lparr>p2w_nodes_hi := hi, p2w_nodes_lo := lo\<rparr>;
          store = (\<lambda>o2 mem. thisprob\<lparr>contestwork := (contestwork thisprob)\<lparr>cw_ogr_p2 := o2\<rparr>, core_membuffer := mem\<rparr>)
      in
      if r = CORE_S_OK then
        let (r, mem) = od_destroy core mem in
        if r = CORE_S_OK then (RES_NOTHING, iterations, RES_NOTHING, store o2 mem)
        else (-1, iterations, -1, store o2 mem)
      else if r = CORE_S_CONTINUE then (RES_WORKING, iterations, RES_WORKING, store o2 mem)
      else if r = CORE_S_SUCCESS then
        let (r, stub) = od_getresult core mem (p2w_stub o2); o2 = o2\<lparr>p2w_stub := stub\<rparr> in
        if r = CORE_S_OK then (RES_FOUND, iterations, RES_FOUND, store o2 mem)
        else (-1, iterations, -1, store o2 mem)
      else (-1, iterations, -1, store o2 mem))"

definition Run_OGR_NG :: "'m internal_problem \<Rightarrow> u32 \<Rightarrow> int \<times> u32 \<times> int \<times> 'm internal_problem" where
  "Run_OGR_NG thisprob iterations =
     (let core = uf_ogr_ng (unit_func (pub_data thisprob));
          (r, nodes, mem) = od_cycle core (core_membuffer thisprob) (sint iterations) False;
          iterations = of_int nodes;
          ow = cw_ogr_ng (contestwork thisprob);
          (hi, lo) = add_nodes (ngw_nodes_hi ow) (ngw_nodes_lo ow) nodes;
          ow = ow\<lparr>ngw_nodes_hi := hi, ngw_nodes_lo := lo\<rparr>;
          store = (\<lambda>ow mem. thisprob\<lparr>contestwork := (contestwork thisprob)\<lparr>cw_ogr_ng := ow\<rparr>, core_membuffer := mem\<rparr>)
      in
      if r = CORE_S_OK then
        let (r, mem) = od_destroy core mem in
        if r = CORE_S_OK then (RES_NOTHING, iterations, RES_NOTHING, store ow mem)
        else (-1, iterations, -1, store ow mem)
      else if r = CORE_S_CONTINUE then (RES_WORKING, iterations, RES_WORKING, store ow mem)
      else if r = CORE_S_SUCCESS then
        let (r, stub) = od_getresult core mem (ngw_stub ow); ow = ow\<lparr>ngw_stub := stub\<rparr> in
        if r = CORE_S_OK then (RES_FOUND, iterations, RES_FOUND, store ow mem)
        else (-1, iterations, -1, store ow mem)
      else (-1, iterations, -1, store ow mem))"

text \<open>\<open>Run_RC5_72\<close>, in its parts: the number of keys to check, rounded up to a multiple of
  \<open>MINIMUM_ITERATIONS\<close>; the call of the core; the bookkeeping.\<close>

definition keys_to_check :: "bigcrypto \<Rightarrow> u32 \<Rightarrow> u32" where
  "keys_to_check b keystocheck =
     (let keystocheck =
        (if b_iterations_hi b - b_keysdone_hi b \<le> 1 \<and> b_keysdone_lo b + keystocheck < keystocheck
         then b_iterations_lo b - b_keysdone_lo b else keystocheck)
      in if keystocheck < MINIMUM_ITERATIONS then MINIMUM_ITERATIONS
         else if keystocheck mod MINIMUM_ITERATIONS \<noteq> 0
         then keystocheck + (MINIMUM_ITERATIONS - keystocheck mod MINIMUM_ITERATIONS)
         else keystocheck)"

definition call_core_72 :: "'m internal_problem \<Rightarrow> u32 \<Rightarrow> int \<times> u32 \<times> 'm internal_problem" where
  "call_core_72 thisprob keyschecked =
     (let pub = pub_data thisprob in
      if use_generic_proto pub then
        let (rescode, w, keyschecked, mem) =
              gen_72 (unit_func pub) (rc5_72unitwork thisprob) keyschecked (core_membuffer thisprob);
            rescode = (if rescode \<ge> 0 \<and> cruncher_is_asynchronous pub \<and> rescode \<noteq> RES_FOUND then
                         if keyschecked = 0 then RES_WORKING else RES_NOTHING
                       else rescode)
        in (rescode, keyschecked, thisprob\<lparr>rc5_72unitwork := w, core_membuffer := mem\<rparr>)
      else (-1, keyschecked, thisprob))"

definition count_keys :: "bigcrypto \<Rightarrow> u32 \<Rightarrow> unitwork72 \<Rightarrow> bigcrypto" where
  "count_keys b keyschecked w =
     (let b = b\<lparr>b_keysdone_lo := b_keysdone_lo b + keyschecked\<rparr>;
          b = (if b_keysdone_lo b < keyschecked then b\<lparr>b_keysdone_hi := b_keysdone_hi b + 1\<rparr> else b)
      in b\<lparr>b_check_count := check_count w, b_check := SwitchRC572Format (check_key w)\<rparr>)"

definition found_key :: "bigcrypto \<Rightarrow> key72" where
  "found_key b =
     (let keylo = k_lo (b_key b);
          keymid = k_mid (b_key b);
          key = (b_key b)\<lparr>k_lo := k_lo (b_key b) + b_keysdone_lo b\<rparr>;
          (key, keymid) =
            (if k_lo key < keylo then
               let key = key\<lparr>k_mid := k_mid key + 1\<rparr>;
                   keymid = keymid + 1
               in (if k_mid key = 0 then key\<lparr>k_hi := k_hi key + 1\<rparr> else key, keymid)
             else (key, keymid));
          key = key\<lparr>k_mid := k_mid key + b_keysdone_hi b\<rparr>
      in if k_mid key < keymid then key\<lparr>k_hi := k_hi key + 1\<rparr> else key)"

definition Run_RC5_72 :: "'m internal_problem \<Rightarrow> u32 \<Rightarrow> int \<times> u32 \<times> int \<times> 'm internal_problem" where
  "Run_RC5_72 thisprob keyschecked =
     (let keystocheck = keys_to_check (cw_bigcrypto (contestwork thisprob)) keyschecked;
          keyschecked = (if use_generic_proto (pub_data thisprob) then keystocheck else keyschecked);
          (rescode, keyschecked, thisprob) = call_core_72 thisprob keyschecked
      in
      if rescode < 0 then (-1, keyschecked, -1, thisprob\<lparr>last_resultcode := -1\<rparr>)
      else
        let resultcode = rescode;
            thisprob = thisprob\<lparr>refL0 := IncrementKey (refL0 thisprob) keyschecked (contest (pub_data thisprob))\<rparr>
        in
        if refL0 thisprob \<noteq> L0 (rc5_72unitwork thisprob) \<and> resultcode \<noteq> RES_FOUND then
          (-1, keyschecked, -1, thisprob\<lparr>last_resultcode := -1\<rparr>)
        else
          let b = count_keys (cw_bigcrypto (contestwork thisprob)) keyschecked (rc5_72unitwork thisprob);
              store = (\<lambda>b. thisprob\<lparr>contestwork := (contestwork thisprob)\<lparr>cw_bigcrypto := b\<rparr>\<rparr>)
          in
          if resultcode = RES_FOUND then
            (RES_FOUND, keyschecked, RES_FOUND, store (b\<lparr>b_key := found_key b\<rparr>))
          else if b_keysdone_hi b > b_iterations_hi b
              \<or> (b_keysdone_hi b = b_iterations_hi b \<and> b_keysdone_lo b \<ge> b_iterations_lo b) then
            (RES_NOTHING, keyschecked, RES_NOTHING, store b)
          else (RES_WORKING, keyschecked, RES_WORKING, store b))"

text \<open>
  The clocks that one run reads: \<open>CliGetThreadUserTime\<close> and the two tries of
  \<open>CliGetMonotonicClock\<close>, at the start and at the end, and the two tries for the elapsed time.
\<close>

record run_clocks =
  rc_thread1 :: "(u32 \<times> u32) option"
  rc_mono1 :: "(u32 \<times> u32) option"
  rc_mono1b :: "(u32 \<times> u32) option"
  rc_thread2 :: "(u32 \<times> u32) option"
  rc_mono2 :: "(u32 \<times> u32) option"
  rc_mono2b :: "(u32 \<times> u32) option"
  rc_mono3 :: "(u32 \<times> u32) option"
  rc_mono3b :: "(u32 \<times> u32) option"

definition two_tries :: "'a option \<Rightarrow> 'a option \<Rightarrow> 'a option" where
  "two_tries c1 c2 = (case c1 of Some t \<Rightarrow> Some t | None \<Rightarrow> c2)"

text \<open>\<open>__prime_run_times\<close>: the start of the run and whether the clock of the thread is used.\<close>

definition prime_run_times :: "run_clocks \<Rightarrow> bool \<Rightarrow> (u32 \<times> u32) \<times> bool" where
  "prime_run_times c using_ptime =
     (case (if using_ptime then rc_thread1 c else None) of
        Some tv \<Rightarrow> (tv, True)
      | None \<Rightarrow>
          (case two_tries (rc_mono1 c) (rc_mono1b c) of
             Some tv \<Rightarrow> (tv, False)
           | None \<Rightarrow> ((0xffffffff, 0), False)))"

text \<open>\<open>elapsed\<close>: the difference of two times, \<open>None\<close> if the clock ran backwards.\<close>

definition elapsed :: "u32 \<times> u32 \<Rightarrow> u32 \<times> u32 \<Rightarrow> (u32 \<times> u32) option" where
  "elapsed start stop =
     (let (timehi, timelo) = start; (elapsedhi, elapsedlo) = stop in
      if elapsedhi < timehi \<or> (elapsedhi = timehi \<and> elapsedlo < timelo) then None
      else
        let (elapsedhi, elapsedlo) =
          (if elapsedlo < timelo then (elapsedhi - 1, elapsedlo + 1000000) else (elapsedhi, elapsedlo))
        in Some (elapsedhi - timehi, elapsedlo - timelo))"

text \<open>\<open>__compute_run_times\<close> in its parts: the reading of the clock at the end of the run, with the flag
  that it is the time now, and \<open>s_using_ptime\<close>; the time of the run; and the time since the load.\<close>

definition read_clock_stop :: "run_clocks \<Rightarrow> u32 \<times> u32 \<Rightarrow> bool \<Rightarrow> bool \<Rightarrow> (u32 \<times> u32) option \<times> bool \<times> bool" where
  "read_clock_stop c runstart using_ptime s_ptime =
     (if fst runstart = 0xffffffff then (None, False, s_ptime)
      else if \<not> using_ptime then
        (case two_tries (rc_mono2 c) (rc_mono2b c) of
           Some t \<Rightarrow> (Some t, True, s_ptime) | None \<Rightarrow> (None, False, s_ptime))
      else (case rc_thread2 c of
              Some t \<Rightarrow> (Some t, False, s_ptime) | None \<Rightarrow> (None, False, False)))"

definition add_run_time :: "u32 \<times> u32 \<Rightarrow> (u32 \<times> u32) option \<Rightarrow> 'm problem_publics \<Rightarrow> 'm problem_publics" where
  "add_run_time runstart clock_stop pub =
     (case (case clock_stop of None \<Rightarrow> None | Some t \<Rightarrow> elapsed runstart t) of
        Some (hi, lo) \<Rightarrow>
          let rhi = hi + runtime_sec pub;
              rlo = lo + runtime_usec pub;
              (rhi, rlo) = (if rlo \<ge> 1000000 then (rhi + 1, rlo - 1000000) else (rhi, rlo))
          in pub\<lparr>last_runtime_sec := hi, last_runtime_usec := lo, runtime_sec := rhi,
                 runtime_usec := rlo, last_runtime_is_invalid := False\<rparr>
      | None \<Rightarrow> pub\<lparr>last_runtime_sec := 0, last_runtime_usec := 0, last_runtime_is_invalid := True\<rparr>)"

definition elapsed_since_load ::
  "run_clocks \<Rightarrow> u32 \<times> u32 \<Rightarrow> (u32 \<times> u32) option \<Rightarrow> bool \<Rightarrow> 'm problem_publics \<Rightarrow> u32 \<times> u32" where
  "elapsed_since_load c start clock_stop is_now pub =
     (let stop = (case clock_stop of Some t \<Rightarrow> t | None \<Rightarrow> (0, 0));
          now = (if \<not> is_now \<and> fst start \<noteq> 0xffffffff then two_tries (rc_mono3 c) (rc_mono3b c)
                 else Some stop);
          total = (if fst start = 0xffffffff then None
                   else case now of None \<Rightarrow> None | Some t \<Rightarrow> elapsed start t)
      in case total of Some t \<Rightarrow> t | None \<Rightarrow> (runtime_sec pub, runtime_usec pub))"

text \<open>The start of the problem is the load time of the problem itself, as the only caller passes it.
  The results are the problem and \<open>s_using_ptime\<close>.\<close>

definition compute_run_times ::
  "run_clocks \<Rightarrow> u32 \<times> u32 \<Rightarrow> bool \<Rightarrow> bool \<Rightarrow> int \<Rightarrow> 'm internal_problem \<Rightarrow> 'm internal_problem \<times> bool" where
  "compute_run_times c runstart using_ptime s_ptime core_resultcode thisprob =
     (let (clock_stop, is_now, s_ptime) = read_clock_stop c runstart using_ptime s_ptime;
          pub = add_run_time runstart clock_stop (pub_data thisprob)
      in
      if core_resultcode = RES_WORKING then
        (if is_now \<and> loadtime_sec thisprob = 0xffffffff then
           thisprob\<lparr>pub_data := pub, loadtime_sec := fst (the clock_stop), loadtime_usec := snd (the clock_stop)\<rparr>
         else thisprob\<lparr>pub_data := pub\<rparr>, s_ptime)
      else
        let (hi, lo) = elapsed_since_load c (loadtime_sec thisprob, loadtime_usec thisprob) clock_stop is_now pub
        in (thisprob\<lparr>pub_data := pub\<lparr>elapsed_time_sec := hi, elapsed_time_usec := lo\<rparr>\<rparr>, s_ptime))"

text \<open>
  \<open>ProblemRun\<close> in the three parts that other threads can come between: the copy of the main
  problem to the core's, under the lock; the work of the core on its copy, the results of which
  are the return value of the \<open>Run_\<close> function, the iterations and the result code; and the
  update of the main problem, under the lock.
\<close>

definition run_begin :: "'m super_problem \<Rightarrow> 'm super_problem" where
  "run_begin p =
     (let main = PICKPROB_MAIN p;
          main = main\<lparr>started := True, pub_data := (pub_data main)\<lparr>last_runtime_is_invalid := True,
            last_runtime_usec := 0, last_runtime_sec := 0\<rparr>\<rparr>
      in p\<lparr>PICKPROB_MAIN := main, PICKPROB_CORE := copy_internal_problem (PICKPROB_CORE p) main\<rparr>)"

definition run_core :: "'m internal_problem \<Rightarrow> int \<times> u32 \<times> int \<times> 'm internal_problem" where
  "run_core core_prob =
     (let iterations = tslice (pub_data core_prob) in
      case contest (pub_data core_prob) of
        RC5_72 \<Rightarrow> Run_RC5_72 core_prob iterations
      | OGR_P2 \<Rightarrow> Run_OGR_P2 core_prob iterations
      | OGR_NG \<Rightarrow> Run_OGR_NG core_prob iterations
      | _ \<Rightarrow> (0, iterations, -1, core_prob))"

definition run_finish ::
  "run_clocks \<Rightarrow> u32 \<times> u32 \<Rightarrow> bool \<Rightarrow> int \<times> u32 \<times> int \<Rightarrow> 'm super_problem \<Rightarrow> globals
    \<Rightarrow> int \<times> 'm super_problem \<times> globals" where
  "run_finish c runstart using_ptime result p g =
     (let (retcode, iterations, resultcode) = result;
          main = PICKPROB_MAIN p; core = PICKPROB_CORE p
      in
      if retcode < 0 then (last_resultcode core, p, g)
      else if \<not> started main \<or> \<not> initialized main then (-1, p, g)
      else
        let core = core\<lparr>pub_data := pub_data main\<rparr>;
            (core, s_ptime) = compute_run_times c runstart using_ptime (s_using_ptime g) resultcode core;
            core = core\<lparr>pub_data := (pub_data core)\<lparr>core_run_count := core_run_count (pub_data core) + 1,
                        tslice := iterations\<rparr>,
                        last_resultcode := resultcode\<rparr>
        in (resultcode, p\<lparr>PICKPROB_CORE := core, PICKPROB_MAIN := copy_internal_problem main core\<rparr>,
            g\<lparr>s_using_ptime := s_ptime\<rparr>))"

definition ProblemRun :: "run_clocks \<Rightarrow> 'm super_problem \<Rightarrow> globals \<Rightarrow> int \<times> 'm super_problem \<times> globals" where
  "ProblemRun c p g =
     (if \<not> initialized (PICKPROB_MAIN p) then (-1, p, g)
      else
        let p = run_begin p;
            core = PICKPROB_CORE p
        in
        if last_resultcode core = RES_WORKING then
          let (runstart, using_ptime) = prime_run_times c (s_using_ptime g);
              (retcode, iterations, resultcode, core) = run_core core
          in run_finish c runstart using_ptime (retcode, iterations, resultcode) (p\<lparr>PICKPROB_CORE := core\<rparr>) g
        else (last_resultcode core, p, g))"

end
