(* ===== verification/ProblemRc5.thy ===== *)
theory ProblemRc5
  imports Problem
begin

text \<open>
  A problem of RC5-72 with a core that keeps the contract of \<open>rc5_72_core\<close>: the lemmas, most of them in
  the context of that locale, follow the position of the search, as a key number, through
  \<open>ProblemLoadState\<close>, \<open>Run_RC5_72\<close>, \<open>ProblemRun\<close> and repeated runs. The properties say that a block is
  searched completely, that a retrieved work is taken up again where it was, what the number of
  keys for one call of the core is, and that a core that loses count is caught.
\<close>

section \<open>Keys by their number\<close>

definition number_key :: "nat \<Rightarrow> key72" where
  "number_key n = \<lparr>k_hi = of_nat (n div 2 ^ 64) AND 0xff, k_mid = of_nat (n div 2 ^ 32), k_lo = of_nat n\<rparr>"

lemma number_key_val: "key_ok (number_key n)" "plain_val (number_key n) = n mod 2 ^ 72"
proof -
  define q r where "q = n div 4294967296" and "r = n mod 4294967296"
  define s t where "s = q div 4294967296" and "t = q mod 4294967296"
  have n: "n = (s * 4294967296 + t) * 4294967296 + r"
    by (simp add: q_def r_def s_def t_def)
  have "n div 18446744073709551616 = s"
    by (simp add: s_def q_def div_mult2_eq [symmetric])
  then have hi: "unat (of_nat (n div 18446744073709551616) AND 0xff :: u32) = s mod 256"
    by (simp add: halves unat_of_nat mod_mod_cancel)
  have lo: "unat (of_nat (n div 4294967296) :: u32) = t" "unat (of_nat n :: u32) = r"
    by (simp_all add: unat_of_nat t_def q_def r_def)
  have "n mod 4722366482869645213696 = (s mod 256 * 4294967296 + t) * 4294967296 + r"
  proof -
    define u where "u = s div 256"
    have "n = ((s mod 256 * 4294967296 + t) * 4294967296 + r) + 4722366482869645213696 * u"
      by (simp add: n u_def algebra_simps) (use div_mult_mod_eq [of s 256] in linarith)
    moreover have "(s mod 256 * 4294967296 + t) * 4294967296 + r < 4722366482869645213696"
    proof -
      have "(e * 4294967296 + t) * 4294967296 + r < 4722366482869645213696"
        if "e < 256" "t < 4294967296" "r < 4294967296" for e t r :: nat
        using that by simp
      then show ?thesis by (simp add: t_def r_def)
    qed
    ultimately show ?thesis by (metis mod_mult_self2 mod_less)
  qed
  then show "plain_val (number_key n) = n mod 2 ^ 72"
    by (simp add: number_key_def plain_val_def hi lo)
  show "key_ok (number_key n)" by (simp add: number_key_def key_ok_def is_byte_iff halves)
qed

text \<open>The key after \<open>d\<close> steps of the core, by its number.\<close>

lemma nth_key_number:
  assumes "key_ok k"
  shows "nth_key k d = SwitchRC572Format (number_key (mangled_val k + d))"
  using nth_key_val [OF assms, of d] number_key_val [of "mangled_val k + d"]
  by (intro mangled_val_inject) (simp_all add: mangled_val_Switch)

section \<open>Counts and keys with carries\<close>

lemma v64_count_up:
  "v64 (if lo + n < n then hi + 1 else hi) (lo + n) = (v64 hi lo + unat n) mod 18446744073709551616"
  using v64_add [of hi 0 lo n]
  by (cases "4294967296 \<le> unat lo + unat n") (simp_all add: v64_hi_0 u32_add_carry u32_add_carry')

lemma add_two_digits:
  fixes h :: nat
  assumes "m < B" "l < B" "kh < B" "kl < B"
    and "lo = (if B \<le> l + kl then l + kl - B else l + kl)" "c = (if B \<le> l + kl then 1 else 0)"
    and "mid = (if B \<le> m + kh + c then m + kh + c - B else m + kh + c)"
    and "hi = h + (if B \<le> m + kh + c then 1 else 0)"
  shows "(hi * B + mid) * B + lo = ((h * B + m) * B + l) + (kh * B + kl)"
proof -
  have "l + kl = lo + c * B" using assms(5,6) by auto
  moreover have "m + kh + c = mid + (hi - h) * B" "hi = h + (hi - h)" using assms(7,8) by auto
  ultimately show ?thesis by (metis (no_types, lifting) add.assoc add.commute add_mult_distrib)
qed

lemma rc5_start_key_val:
  assumes "key_ok (b_key b)"
  shows "key_ok (rc5_start_key b)"
    and "plain_val (rc5_start_key b)
      = (plain_val (b_key b) + v64 (b_keysdone_hi b) (b_keysdone_lo b)) mod 2 ^ 72"
proof -
  define h m l kh kl where "h = k_hi (b_key b)" and "m = k_mid (b_key b)" and "l = k_lo (b_key b)"
    and "kh = b_keysdone_hi b" and "kl = b_keysdone_lo b"
  let ?B = "4294967296 :: nat"
  define c where "c = (if ?B \<le> unat l + unat kl then 1 else 0 :: nat)"
  define lo where "lo = (if ?B \<le> unat l + unat kl then unat l + unat kl - ?B else unat l + unat kl)"
  define mid where "mid = (if ?B \<le> unat m + unat kh + c then unat m + unat kh + c - ?B else unat m + unat kh + c)"
  define hi where "hi = unat h + (if ?B \<le> unat m + unat kh + c then 1 else 0)"
  have hb: "unat h < 256" using assms by (simp add: h_def key_ok_def is_byte_iff)
  have sum: "(hi * ?B + mid) * ?B + lo = ((unat h * ?B + unat m) * ?B + unat l) + (unat kh * ?B + unat kl)"
    by (rule add_two_digits [of "unat m" ?B "unat l" "unat kh" "unat kl" lo c mid hi])
      (simp_all add: unat_u32_bound lo_def c_def mid_def hi_def)
  obtain wh wm where w: "rc5_start_key b = \<lparr>k_hi = wh AND 0xff, k_mid = wm, k_lo = l + kl\<rparr>"
    "unat wh = hi" "unat wm = mid"
  proof -
    define h1 where "h1 = (if m + kh < kh then h + 1 else h)"
    define h2 where "h2 = (if l + kl < kl then if m + kh + 1 = 0 then h1 + 1 else h1 else h1)"
    define m2 where "m2 = (if l + kl < kl then m + kh + 1 else m + kh)"
    have k: "rc5_start_key b = \<lparr>k_hi = h2 AND 0xff, k_mid = m2, k_lo = l + kl\<rparr>"
      by (simp add: rc5_start_key_def Let_def h_def m_def l_def kh_def kl_def h1_def h2_def m2_def)
    have c0: "l + kl < kl \<longleftrightarrow> ?B \<le> unat l + unat kl" "m + kh < kh \<longleftrightarrow> ?B \<le> unat m + unat kh"
      by (simp_all add: u32_add_carry')
    have z: "m + kh + 1 = 0 \<longleftrightarrow> unat (m + kh) = 4294967295"
      using word_eq_iff_unsigned [of "m + kh + 1" 0, where ?'a = nat] unat_u32_bound [of "m + kh"]
      by (auto simp: unat_plus_u32_if [of "m + kh"])
    have "unat h2 = hi"
      using hb unat_u32_bound [of m] unat_u32_bound [of kh]
      by (auto simp: h2_def h1_def c0 z hi_def c_def unat_plus_u32_if)
    moreover have "unat m2 = mid"
      using unat_u32_bound [of m] unat_u32_bound [of kh]
      by (auto simp: m2_def c0 mid_def c_def unat_plus_u32_if)
    ultimately show ?thesis using that k by blast
  qed
  show "key_ok (rc5_start_key b)" by (simp add: w key_ok_def is_byte_iff halves)
  have lo: "unat (l + kl) = lo" by (simp add: lo_def unat_plus_u32_if)
  have lt: "mid < ?B" "lo < ?B" "hi \<le> 256"
    using unat_u32_bound [of wm] unat_u32_bound [of "l + kl"] w(3) lo hb by (simp_all add: hi_def)
  have sum': "plain_val (b_key b) + v64 (b_keysdone_hi b) (b_keysdone_lo b) = (hi * ?B + mid) * ?B + lo"
    unfolding sum by (simp add: plain_val_def v64_def h_def m_def l_def kh_def kl_def)
  have v: "plain_val (rc5_start_key b) = (hi mod 256 * ?B + mid) * ?B + lo"
    by (simp add: w plain_val_def halves lo)
  show "plain_val (rc5_start_key b)
      = (plain_val (b_key b) + v64 (b_keysdone_hi b) (b_keysdone_lo b)) mod 2 ^ 72"
    unfolding v sum' using lt by (cases "hi = 256") (simp_all add: le_mod_geq)
qed

text \<open>The key that is reported is not cut off to 72 bits.\<close>

lemma found_key_val:
  assumes "key_ok (b_key b)"
  shows "plain_val (found_key b) = plain_val (b_key b) + v64 (b_keysdone_hi b) (b_keysdone_lo b)"
proof -
  define h m l kh kl where "h = k_hi (b_key b)" and "m = k_mid (b_key b)" and "l = k_lo (b_key b)"
    and "kh = b_keysdone_hi b" and "kl = b_keysdone_lo b"
  let ?B = "4294967296 :: nat"
  define c where "c = (if ?B \<le> unat l + unat kl then 1 else 0 :: nat)"
  define lo where "lo = (if ?B \<le> unat l + unat kl then unat l + unat kl - ?B else unat l + unat kl)"
  define mid where "mid = (if ?B \<le> unat m + unat kh + c then unat m + unat kh + c - ?B else unat m + unat kh + c)"
  define hi where "hi = unat h + (if ?B \<le> unat m + unat kh + c then 1 else 0)"
  have hb: "unat h < 256" using assms by (simp add: h_def key_ok_def is_byte_iff)
  have sum: "(hi * ?B + mid) * ?B + lo = ((unat h * ?B + unat m) * ?B + unat l) + (unat kh * ?B + unat kl)"
    by (rule add_two_digits [of "unat m" ?B "unat l" "unat kh" "unat kl" lo c mid hi])
      (simp_all add: unat_u32_bound lo_def c_def mid_def hi_def)
  define cw where "cw = (if l + kl < l then 1 else 0 :: u32)"
  define h1 where "h1 = (if l + kl < l \<and> m + 1 = 0 then h + 1 else h)"
  have k: "found_key b = \<lparr>k_hi = (if m + cw + kh < m + cw then h1 + 1 else h1), k_mid = m + cw + kh, k_lo = l + kl\<rparr>"
    by (cases "b_key b") (auto simp: found_key_def Let_def h_def m_def l_def kh_def kl_def cw_def h1_def)
  have z: "m + 1 = 0 \<longleftrightarrow> unat m = 4294967295"
    using word_eq_iff_unsigned [of "m + 1" 0, where ?'a = nat] unat_u32_bound [of m]
    by (auto simp: unat_plus_u32_if)
  have "unat (k_hi (found_key b)) = hi" "unat (k_mid (found_key b)) = mid" "unat (k_lo (found_key b)) = lo"
    using hb unat_u32_bound [of m] unat_u32_bound [of kh]
    by (auto simp: k u32_add_carry z h1_def cw_def hi_def mid_def lo_def c_def unat_plus_u32_if)
  then have "plain_val (found_key b) = (hi * ?B + mid) * ?B + lo"
    by (simp add: plain_val_def)
  then show ?thesis
    unfolding sum by (simp add: plain_val_def v64_def h_def m_def l_def kh_def kl_def)
qed

section \<open>A problem with a core that keeps the contract\<close>

fun rescode :: "resultcode \<Rightarrow> int" where
  "rescode RESULT_WORKING = RES_WORKING"
| "rescode RESULT_NOTHING = RES_NOTHING"
| "rescode RESULT_FOUND = RES_FOUND"

text \<open>A core as a function pointer of the unified prototype; it does not use the core memory.\<close>

definition gen_of_core :: "(unitwork72 \<Rightarrow> u32 \<Rightarrow> resultcode \<times> unitwork72 \<times> u32)
    \<Rightarrow> unitwork72 \<Rightarrow> u32 \<Rightarrow> 'm \<Rightarrow> int \<times> unitwork72 \<times> u32 \<times> 'm" where
  "gen_of_core core w it mem = (case core w it of (r, w', it') \<Rightarrow> (rescode r, w', it', mem))"

text \<open>Whether the key of number \<open>n\<close> encrypts the plain text of the work to its cypher text.\<close>

definition solves :: "bigcrypto \<Rightarrow> nat \<Rightarrow> bool" where
  "solves b n \<longleftrightarrow>
     rc5_encrypt (SwitchRC572Format (number_key n)) (b_plain_hi b XOR b_iv_hi b) (b_plain_lo b XOR b_iv_lo b)
       = (b_cypher_lo b, b_cypher_hi b)"

definition keysdone :: "bigcrypto \<Rightarrow> nat" where
  "keysdone b = v64 (b_keysdone_hi b) (b_keysdone_lo b)"

definition iterations :: "bigcrypto \<Rightarrow> nat" where
  "iterations b = v64 (b_iterations_hi b) (b_iterations_lo b)"

text \<open>The number of the next key to check.\<close>

definition position :: "bigcrypto \<Rightarrow> nat" where
  "position b = plain_val (b_key b) + keysdone b"

text \<open>The state of a loaded problem between two runs.\<close>

definition rc5_ready :: "(unitwork72 \<Rightarrow> u32 \<Rightarrow> resultcode \<times> unitwork72 \<times> u32) \<Rightarrow> nat
    \<Rightarrow> 'm internal_problem \<Rightarrow> bool" where
  "rc5_ready core N ip \<longleftrightarrow>
     (let b = cw_bigcrypto (contestwork ip); w = rc5_72unitwork ip; pub = pub_data ip in
      contest pub = RC5_72 \<and> use_generic_proto pub \<and> gen_72 (unit_func pub) = gen_of_core core
      \<and> key_ok (b_key b) \<and> aligned N (L0 w) \<and> refL0 ip = L0 w
      \<and> mangled_val (L0 w) = position b mod 2 ^ 72
      \<and> plain_hi w = b_plain_hi b XOR b_iv_hi b \<and> plain_lo w = b_plain_lo b XOR b_iv_lo b
      \<and> cypher_hi w = b_cypher_hi b \<and> cypher_lo w = b_cypher_lo b)"

lemma number_key_mod: "SwitchRC572Format (number_key (n mod 2 ^ 72)) = SwitchRC572Format (number_key n)"
  using number_key_val by (intro arg_cong [of _ _ SwitchRC572Format] plain_val_inject) simp_all

lemma hit_solves:
  assumes "rc5_ready core N ip"
  shows "hit (rc5_72unitwork ip) (nth_key (L0 (rc5_72unitwork ip)) d)
    = solves (cw_bigcrypto (contestwork ip)) (position (cw_bigcrypto (contestwork ip)) + d)"
proof -
  let ?w = "rc5_72unitwork ip" and ?b = "cw_bigcrypto (contestwork ip)"
  have r: "key_ok (L0 ?w)" "mangled_val (L0 ?w) = position ?b mod 2 ^ 72"
    using assms by (simp_all add: rc5_ready_def Let_def aligned_def)
  have "nth_key (L0 ?w) d = SwitchRC572Format (number_key (position ?b + d))"
    using nth_key_number [OF r(1), of d] number_key_mod [of "position ?b mod 2 ^ 72 + d"]
      number_key_mod [of "position ?b + d"] by (simp add: r(2) mod_add_left_eq)
  then show ?thesis
    using assms by (simp add: hit_def solves_def rc5_ready_def Let_def)
qed

text \<open>The keys a run checks are at least 32, and a multiple of every power of 2 up to 16.\<close>

lemma keys_to_check_cases:
  assumes "kk = (if b_iterations_hi b - b_keysdone_hi b \<le> 1 \<and> b_keysdone_lo b + k < k
    then b_iterations_lo b - b_keysdone_lo b else k)"
  shows "unat (keys_to_check b k) = (if unat kk < 48 then 48 else
     if unat kk mod 48 = 0 then unat kk else
     if unat kk + 48 - unat kk mod 48 < 4294967296 then unat kk + 48 - unat kk mod 48 else 32)"
proof -
  have c: "keys_to_check b k = (if kk < 48 then 48 else if kk mod 48 \<noteq> 0 then kk + (48 - kk mod 48) else kk)"
    by (simp add: keys_to_check_def Let_def MINIMUM_ITERATIONS_def assms)
  have m: "unat (kk mod 48) = unat kk mod 48" "kk mod 48 = 0 \<longleftrightarrow> unat kk mod 48 = 0" "kk < 48 \<longleftrightarrow> unat kk < 48"
    by (simp_all add: unat_mod_distrib word_less_nat_alt flip: unat_eq_zero)
  have "unat (48 - kk mod 48) = 48 - unat kk mod 48"
    using mod_less_divisor [of 48 "unat kk"] by (simp add: unat_minus_u32 m)
  then have s: "unat (kk + (48 - kk mod 48)) = (let n = unat kk + 48 - unat kk mod 48 in
      if n < 4294967296 then n else n - 4294967296)"
    using mod_less_divisor [of 48 "unat kk"] by (simp add: unat_plus_u32_if Let_def)
  define q r where "q = unat kk div 48" and "r = unat kk mod 48"
  have qr: "unat kk = 48 * q + r" "r < 48" by (simp_all add: q_def r_def)
  have lt: "unat kk < 4294967296" by (rule unat_u32_bound)
  have "unat kk + 48 - r - 4294967296 = 32" if "\<not> unat kk + 48 - r < 4294967296" "r \<noteq> 0"
  proof -
    have "48 * q + 48 \<ge> 4294967296" using that qr by linarith
    then have "q \<ge> 89478485" by linarith
    moreover have "q \<le> 89478485" using lt qr by linarith
    ultimately show ?thesis using qr by simp
  qed
  then have wrap: "unat (kk + (48 - kk mod 48)) = (if unat kk + 48 - unat kk mod 48 < 4294967296
      then unat kk + 48 - unat kk mod 48 else 32)" if "unat kk mod 48 \<noteq> 0"
    using that s by (auto simp: Let_def r_def)
  show ?thesis
    by (cases "unat kk < 48"; cases "unat kk mod 48 = 0") (simp_all only: c m if_True if_False wrap not_True_eq_False
        not_False_eq_True simp_thms, simp_all)
qed

lemma keys_to_check_dvd:
  assumes "N dvd 16"
  shows "N dvd unat (keys_to_check b k)" "32 \<le> unat (keys_to_check b k)"
proof -
  define kk where "kk = (if b_iterations_hi b - b_keysdone_hi b \<le> 1 \<and> b_keysdone_lo b + k < k
    then b_iterations_lo b - b_keysdone_lo b else k)"
  note c = keys_to_check_cases [OF kk_def]
  have "16 dvd unat (keys_to_check b k)"
  proof -
    have "48 dvd unat kk + 48 - unat kk mod 48"
    proof -
      have "unat kk + 48 - unat kk mod 48 = 48 * (unat kk div 48 + 1)"
        using minus_mod_eq_mult_div [of "unat kk" 48] mod_less_eq_dividend [of "unat kk" 48] by simp
      then show ?thesis by simp
    qed
    then have "16 dvd unat kk + 48 - unat kk mod 48" by (rule dvd_trans [rotated]) simp
    moreover have "16 dvd unat kk" if "unat kk mod 48 = 0"
      using mod_0_imp_dvd [OF that] by (rule dvd_trans [rotated]) simp
    ultimately show ?thesis by (simp add: c)
  qed
  then show "N dvd unat (keys_to_check b k)" using assms dvd_trans by blast
  show "32 \<le> unat (keys_to_check b k)"
  proof -
    have "32 \<le> unat kk + 48 - unat kk mod 48"
      using mod_less_eq_dividend [of "unat kk" 48] by linarith
    then show ?thesis by (simp add: c)
  qed
qed

lemma count_keys_simps [simp]:
  "b_key (count_keys b n w) = b_key b" "b_iterations_hi (count_keys b n w) = b_iterations_hi b"
  "b_iterations_lo (count_keys b n w) = b_iterations_lo b"
  "b_plain_hi (count_keys b n w) = b_plain_hi b" "b_plain_lo (count_keys b n w) = b_plain_lo b"
  "b_cypher_hi (count_keys b n w) = b_cypher_hi b" "b_cypher_lo (count_keys b n w) = b_cypher_lo b"
  "b_iv_hi (count_keys b n w) = b_iv_hi b" "b_iv_lo (count_keys b n w) = b_iv_lo b"
  "b_check_count (count_keys b n w) = check_count w"
  "b_check (count_keys b n w) = SwitchRC572Format (check_key w)"
  by (simp_all add: count_keys_def Let_def)

lemma keysdone_count_keys:
  assumes "keysdone b + unat n < 18446744073709551616"
  shows "keysdone (count_keys b n w) = keysdone b + unat n"
proof -
  have "keysdone (count_keys b n w) = v64 (if b_keysdone_lo b + n < n then b_keysdone_hi b + 1 else b_keysdone_hi b)
      (b_keysdone_lo b + n)"
    by (simp add: keysdone_def count_keys_def Let_def)
  then show ?thesis
    using assms by (simp only: v64_count_up) (simp add: keysdone_def)
qed

lemma work_done_iff:
  "b_keysdone_hi b > b_iterations_hi b \<or> (b_keysdone_hi b = b_iterations_hi b \<and> b_keysdone_lo b \<ge> b_iterations_lo b)
     \<longleftrightarrow> iterations b \<le> keysdone b"
  using v64_le_iff [of "b_iterations_hi b" "b_keysdone_hi b" "b_iterations_lo b" "b_keysdone_lo b"]
  by (auto simp: iterations_def keysdone_def)

text \<open>What one run does, in the terms of key numbers.\<close>

definition run_found :: "'m internal_problem \<Rightarrow> u32 \<Rightarrow> u32 \<Rightarrow> 'm internal_problem \<Rightarrow> bool" where
  "run_found ip k n ip' \<longleftrightarrow>
     (let b = cw_bigcrypto (contestwork ip); b' = cw_bigcrypto (contestwork ip') in
      unat n < unat (keys_to_check b k) \<and> solves b (position b + unat n)
      \<and> (\<forall>d < unat n. \<not> solves b (position b + d))
      \<and> plain_val (b_key b') = position b + unat n \<and> keysdone b' = keysdone b + unat n
      \<and> iterations b' = iterations b
      \<and> plain_val (b_check b') = (position b + unat n) mod 2 ^ 72)"

definition run_nothing :: "'m internal_problem \<Rightarrow> u32 \<Rightarrow> u32 \<Rightarrow> 'm internal_problem \<Rightarrow> bool" where
  "run_nothing ip k n ip' \<longleftrightarrow>
     (let b = cw_bigcrypto (contestwork ip); b' = cw_bigcrypto (contestwork ip') in
      n = keys_to_check b k \<and> (\<forall>d < unat n. \<not> solves b (position b + d))
      \<and> b_key b' = b_key b \<and> keysdone b' = keysdone b + unat n \<and> iterations b' = iterations b
      \<and> solves b' = solves b)"

definition same_except_work :: "'m internal_problem \<Rightarrow> 'm internal_problem \<Rightarrow> bool" where
  "same_except_work ip ip' \<longleftrightarrow> pub_data ip' = pub_data ip \<and> loadtime_sec ip' = loadtime_sec ip
     \<and> loadtime_usec ip' = loadtime_usec ip \<and> started ip' = started ip \<and> initialized ip' = initialized ip
     \<and> last_resultcode ip' = last_resultcode ip"

context rc5_72_core
begin

lemma M_dvd_16: "M dvd 48 \<Longrightarrow> M dvd 16"
  using dvd_diff_nat [OF M_pipes dvd_mult [of M 48 5]] by simp

lemma Run_RC5_72_found:
  assumes ready: "rc5_ready core N ip" and N: "M dvd 48"
    and room: "keysdone (cw_bigcrypto (contestwork ip)) + 4294967296 < 18446744073709551616"
    and core: "core (rc5_72unitwork ip) (keys_to_check (cw_bigcrypto (contestwork ip)) k) = (RESULT_FOUND, w', n)"
  shows "\<exists>ip'. Run_RC5_72 ip k = (RES_FOUND, n, RES_FOUND, ip') \<and> run_found ip k n ip' \<and> same_except_work ip ip'"
proof -
  define b w kc where "b = cw_bigcrypto (contestwork ip)" and "w = rc5_72unitwork ip"
    and "kc = keys_to_check b k"
  have rd: "contest (pub_data ip) = RC5_72" "use_generic_proto (pub_data ip)"
    "gen_72 (unit_func (pub_data ip)) = gen_of_core core" "key_ok (b_key b)" "aligned N (L0 w)"
    "mangled_val (L0 w) = position b mod 2 ^ 72"
    using ready by (simp_all add: rc5_ready_def Let_def b_def w_def)
  have dvd: "M dvd unat kc" using keys_to_check_dvd(1) M_dvd_16 [OF N] by (simp add: kc_def)
  note f = core_found [OF rd(5) dvd core [folded b_def w_def kc_def]]
  define b' where "b' = count_keys b n w'"
  define ip' where "ip' = ip\<lparr>rc5_72unitwork := w', refL0 := IncrementKey (refL0 ip) n RC5_72,
    contestwork := (contestwork ip)\<lparr>cw_bigcrypto := b'\<lparr>b_key := found_key b'\<rparr>\<rparr>\<rparr>"
  have run: "Run_RC5_72 ip k = (RES_FOUND, n, RES_FOUND, ip')"
    using core rd by (simp add: Run_RC5_72_def call_core_72_def gen_of_core_def Let_def ip'_def b'_def
        b_def [symmetric] w_def [symmetric] kc_def [symmetric] RES_FOUND_def)
  have n: "unat n < 4294967296" by (rule unat_u32_bound)
  then have kd: "keysdone b' = keysdone b + unat n"
    using room keysdone_count_keys by (simp add: b'_def b_def)
  have hits: "solves b (position b + d) = hit w (nth_key (L0 w) d)" for d
    using hit_solves [OF ready] by (simp add: b_def w_def)
  have "plain_val (found_key b') = position b + unat n"
    using found_key_val [of b'] rd(4) kd by (simp add: position_def keysdone_def b'_def)
  moreover have "plain_val (SwitchRC572Format (check_key w')) = (position b + unat n) mod 2 ^ 72"
    using nth_key_val [of "L0 w" "unat n"] rd(5,6) f(6)
    by (simp add: aligned_def plain_val_Switch mod_add_left_eq)
  ultimately have "run_found ip k n ip'"
    using f(1-3) kd unfolding hits [symmetric]
    by (simp add: run_found_def Let_def ip'_def b_def [symmetric] kc_def [symmetric] keysdone_def
        iterations_def b'_def)
  moreover have "same_except_work ip ip'" by (simp add: same_except_work_def ip'_def)
  ultimately show ?thesis using run by blast
qed

lemma Run_RC5_72_nothing:
  assumes ready: "rc5_ready core N ip" and N: "M dvd 48"
    and room: "keysdone (cw_bigcrypto (contestwork ip)) + 4294967296 < 18446744073709551616"
    and core: "core (rc5_72unitwork ip) (keys_to_check (cw_bigcrypto (contestwork ip)) k) = (RESULT_NOTHING, w', n)"
  shows "\<exists>ip' r. Run_RC5_72 ip k = (r, n, r, ip') \<and> run_nothing ip k n ip' \<and> same_except_work ip ip'
    \<and> rc5_ready core N ip'
    \<and> r = (if iterations (cw_bigcrypto (contestwork ip')) \<le> keysdone (cw_bigcrypto (contestwork ip'))
           then RES_NOTHING else RES_WORKING)"
proof -
  define b w kc where "b = cw_bigcrypto (contestwork ip)" and "w = rc5_72unitwork ip"
    and "kc = keys_to_check b k"
  have rd: "contest (pub_data ip) = RC5_72" "use_generic_proto (pub_data ip)"
    "gen_72 (unit_func (pub_data ip)) = gen_of_core core" "key_ok (b_key b)" "aligned N (L0 w)"
    "refL0 ip = L0 w" "mangled_val (L0 w) = position b mod 2 ^ 72"
    "plain_hi w = b_plain_hi b XOR b_iv_hi b" "plain_lo w = b_plain_lo b XOR b_iv_lo b"
    "cypher_hi w = b_cypher_hi b" "cypher_lo w = b_cypher_lo b"
    using ready by (simp_all add: rc5_ready_def Let_def b_def w_def)
  have ok: "key_ok (L0 w)" using rd(5) by (simp add: aligned_def)
  have kc: "M dvd unat kc" "32 \<le> unat kc"
    using keys_to_check_dvd M_dvd_16 [OF N] by (simp_all add: kc_def)
  note c = core [folded b_def w_def kc_def]
  note f = core_nothing [OF rd(5) kc(1) c]
  have pos: "kc \<noteq> 0" using kc(2) by auto
  define b' where "b' = count_keys b n w'"
  define ip' where "ip' = ip\<lparr>rc5_72unitwork := w', refL0 := L0 w',
    contestwork := (contestwork ip)\<lparr>cw_bigcrypto := b'\<rparr>\<rparr>"
  have al: "aligned N (L0 w')" by (rule core_keeps_aligned [OF rd(5) kc(1) c])
  have ref: "IncrementKey (L0 w) n RC5_72 = L0 w'"
    using IncrementKey_mangled [OF ok, of n] nth_key_val [OF ok, of "unat n"] f(1,3)
    by (intro mangled_val_inject) simp_all
  have n: "unat n < 4294967296" by (rule unat_u32_bound)
  then have kd: "keysdone b' = keysdone b + unat n"
    using room keysdone_count_keys by (simp add: b'_def b_def)
  have fin: "b_keysdone_hi (count_keys b kc w') > b_iterations_hi b
      \<or> (b_keysdone_hi (count_keys b kc w') = b_iterations_hi b \<and> b_keysdone_lo (count_keys b kc w') \<ge> b_iterations_lo b)
      \<longleftrightarrow> iterations (count_keys b kc w') \<le> keysdone (count_keys b kc w')"
    using work_done_iff [of "count_keys b kc w'"] by simp
  have run: "Run_RC5_72 ip k = (if iterations b' \<le> keysdone b' then (RES_NOTHING, n, RES_NOTHING, ip')
      else (RES_WORKING, n, RES_WORKING, ip'))"
    using c rd f(1) pos by (simp add: Run_RC5_72_def call_core_72_def gen_of_core_def Let_def ip'_def b'_def
        b_def [symmetric] w_def [symmetric] kc_def [symmetric] ref [unfolded f(1)] fin
        RES_FOUND_def RES_NOTHING_def RES_WORKING_def)
  have hits: "solves b (position b + d) = hit w (nth_key (L0 w) d)" for d
    using hit_solves [OF ready] by (simp add: b_def w_def)
  have "run_nothing ip k n ip'"
    using f(1,2) kd unfolding hits [symmetric]
    by (simp add: run_nothing_def Let_def ip'_def b_def [symmetric] kc_def [symmetric] keysdone_def
        iterations_def b'_def solves_def fun_eq_iff)
  moreover have "rc5_ready core N ip'"
    using rd al f(4) nth_key_val [OF ok, of "unat n"] f(1,3) kd
    by (simp add: rc5_ready_def Let_def ip'_def b'_def position_def same_problem_def mod_add_left_eq add.assoc)
  moreover have "same_except_work ip ip'" by (simp add: same_except_work_def ip'_def)
  moreover have "cw_bigcrypto (contestwork ip') = b'" by (simp add: ip'_def)
  ultimately show ?thesis using run by auto
qed

end

section \<open>Runs one after the other\<close>

lemma add_run_time_frame [simp]:
  "contest (add_run_time rs t pub) = contest pub" "unit_func (add_run_time rs t pub) = unit_func pub"
  "use_generic_proto (add_run_time rs t pub) = use_generic_proto pub"
  "tslice (add_run_time rs t pub) = tslice pub"
  by (simp_all add: add_run_time_def Let_def split: option.split prod.split)

lemma compute_run_times_frame:
  "fst (compute_run_times c rs up sp rc ip) = ip' \<Longrightarrow>
    rc5_72unitwork ip' = rc5_72unitwork ip \<and> refL0 ip' = refL0 ip \<and> contestwork ip' = contestwork ip
    \<and> core_membuffer ip' = core_membuffer ip \<and> started ip' = started ip \<and> initialized ip' = initialized ip
    \<and> contest (pub_data ip') = contest (pub_data ip) \<and> unit_func (pub_data ip') = unit_func (pub_data ip)
    \<and> use_generic_proto (pub_data ip') = use_generic_proto (pub_data ip)
    \<and> tslice (pub_data ip') = tslice (pub_data ip)"
  by (auto simp: compute_run_times_def Let_def split: prod.splits if_splits)

lemma rc5_ready_cong:
  assumes "rc5_ready core N ip" "rc5_72unitwork ip' = rc5_72unitwork ip" "refL0 ip' = refL0 ip"
    "contestwork ip' = contestwork ip" "contest (pub_data ip') = contest (pub_data ip)"
    "unit_func (pub_data ip') = unit_func (pub_data ip)"
    "use_generic_proto (pub_data ip') = use_generic_proto (pub_data ip)"
  shows "rc5_ready core N ip'"
  using assms unfolding rc5_ready_def Let_def by simp

text \<open>A run that the core ends with a result that is not an error, when nothing else happens to the problem.\<close>

lemma ProblemRun_stores:
  assumes "initialized (PICKPROB_MAIN p)" "last_resultcode (PICKPROB_MAIN p) = RES_WORKING"
    and "run_core (PICKPROB_CORE (run_begin p)) = (r, n, r, ip')" "0 \<le> r"
  shows "\<exists>p' g'. ProblemRun c p g = (r, p', g') \<and> contestwork (PICKPROB_MAIN p') = contestwork ip'
    \<and> rc5_72unitwork (PICKPROB_MAIN p') = rc5_72unitwork ip' \<and> refL0 (PICKPROB_MAIN p') = refL0 ip'
    \<and> core_membuffer (PICKPROB_MAIN p') = core_membuffer ip'
    \<and> contest (pub_data (PICKPROB_MAIN p')) = contest (pub_data (PICKPROB_MAIN p))
    \<and> unit_func (pub_data (PICKPROB_MAIN p')) = unit_func (pub_data (PICKPROB_MAIN p))
    \<and> use_generic_proto (pub_data (PICKPROB_MAIN p')) = use_generic_proto (pub_data (PICKPROB_MAIN p))
    \<and> tslice (pub_data (PICKPROB_MAIN p')) = n \<and> last_resultcode (PICKPROB_MAIN p') = r
    \<and> initialized (PICKPROB_MAIN p') = initialized ip' \<and> loaded_problems g' = loaded_problems g"
proof -
  obtain rs up where pr: "prime_run_times c (s_using_ptime g) = (rs, up)" by (rule prod.exhaust)
  define core where "core = ip'\<lparr>pub_data := pub_data (PICKPROB_MAIN (run_begin p))\<rparr>"
  obtain core' s where cr: "compute_run_times c rs up (s_using_ptime g) r core = (core', s)"
    by (rule prod.exhaust)
  note fr = compute_run_times_frame [OF arg_cong [OF cr, of fst], simplified]
  have b: "last_resultcode (PICKPROB_CORE (run_begin p)) = RES_WORKING"
    "started (PICKPROB_MAIN (run_begin p))" "initialized (PICKPROB_MAIN (run_begin p))"
    using assms(1,2) by (simp_all add: run_begin_def Let_def copy_internal_problem_def)
  have pub: "contest (pub_data (PICKPROB_MAIN (run_begin p))) = contest (pub_data (PICKPROB_MAIN p))"
    "unit_func (pub_data (PICKPROB_MAIN (run_begin p))) = unit_func (pub_data (PICKPROB_MAIN p))"
    "use_generic_proto (pub_data (PICKPROB_MAIN (run_begin p))) = use_generic_proto (pub_data (PICKPROB_MAIN p))"
    by (simp_all add: run_begin_def Let_def)
  show ?thesis
    using assms(1,4) b fr pub
    by (simp add: ProblemRun_def Let_def b assms(3) pr run_finish_def core_def [symmetric] cr
        copy_internal_problem_def) (simp add: core_def)
qed

context rc5_72_core
begin

lemma ProblemRun_step:
  fixes p :: "'m super_problem"
  defines "main \<equiv> PICKPROB_MAIN p"
  assumes ready: "rc5_ready core N main" and N: "M dvd 48"
    and room: "keysdone (cw_bigcrypto (contestwork main)) + 4294967296 < 18446744073709551616"
    and init: "initialized main" "last_resultcode main = RES_WORKING"
  shows "\<exists>r n p' g'. ProblemRun c p g = (r, p', g') \<and> initialized (PICKPROB_MAIN p')
    \<and> last_resultcode (PICKPROB_MAIN p') = r \<and> tslice (pub_data (PICKPROB_MAIN p')) = n
    \<and> (r = RES_FOUND \<and> run_found main (tslice (pub_data main)) n (PICKPROB_MAIN p')
       \<or> run_nothing main (tslice (pub_data main)) n (PICKPROB_MAIN p') \<and> rc5_ready core N (PICKPROB_MAIN p')
         \<and> r = (if iterations (cw_bigcrypto (contestwork (PICKPROB_MAIN p')))
                    \<le> keysdone (cw_bigcrypto (contestwork (PICKPROB_MAIN p'))) then RES_NOTHING else RES_WORKING))"
proof -
  define ip where "ip = PICKPROB_CORE (run_begin p)"
  have ip: "rc5_72unitwork ip = rc5_72unitwork main" "refL0 ip = refL0 main" "contestwork ip = contestwork main"
    "contest (pub_data ip) = contest (pub_data main)" "unit_func (pub_data ip) = unit_func (pub_data main)"
    "use_generic_proto (pub_data ip) = use_generic_proto (pub_data main)" "initialized ip"
    "tslice (pub_data ip) = tslice (pub_data main)"
    using init by (simp_all add: ip_def main_def run_begin_def Let_def copy_internal_problem_def)
  have rd: "rc5_ready core N ip" by (rule rc5_ready_cong [OF ready]) (simp_all add: ip)
  have c: "contest (pub_data ip) = RC5_72" using rd by (simp add: rc5_ready_def Let_def)
  let ?k = "keys_to_check (cw_bigcrypto (contestwork ip)) (tslice (pub_data ip))"
  have al: "aligned N (L0 (rc5_72unitwork ip))" "M dvd unat ?k"
    using rd keys_to_check_dvd(1) [OF M_dvd_16 [OF N]] by (simp_all add: rc5_ready_def Let_def)
  obtain cr w' n where core: "core (rc5_72unitwork ip) ?k = (cr, w', n)" by (metis prod.exhaust)
  have "cr = RESULT_NOTHING \<or> cr = RESULT_FOUND" using core_result [OF al] core by simp
  then show ?thesis
  proof
    assume cr: "cr = RESULT_FOUND"
    obtain ip' where ip': "Run_RC5_72 ip (tslice (pub_data ip)) = (RES_FOUND, n, RES_FOUND, ip')"
      "run_found ip (tslice (pub_data ip)) n ip'" "same_except_work ip ip'"
      using Run_RC5_72_found [OF rd N _ core [unfolded cr]] room ip(3) by auto
    have "run_core (PICKPROB_CORE (run_begin p)) = (RES_FOUND, n, RES_FOUND, ip')"
      using ip'(1) c by (simp add: run_core_def ip_def Let_def)
    from ProblemRun_stores [OF init [unfolded main_def] this, of c g] obtain p' g' where p':
      "ProblemRun c p g = (RES_FOUND, p', g')" "contestwork (PICKPROB_MAIN p') = contestwork ip'"
      "tslice (pub_data (PICKPROB_MAIN p')) = n" "last_resultcode (PICKPROB_MAIN p') = RES_FOUND"
      "initialized (PICKPROB_MAIN p') = initialized ip'"
      by (auto simp: RES_FOUND_def)
    have "run_found main (tslice (pub_data main)) n (PICKPROB_MAIN p')"
      using ip'(2) p'(2) ip by (simp add: run_found_def)
    then show ?thesis
      using p' ip'(3) ip(7) by (auto simp: same_except_work_def)
  next
    assume cr: "cr = RESULT_NOTHING"
    obtain ip' r where ip': "Run_RC5_72 ip (tslice (pub_data ip)) = (r, n, r, ip')"
      "run_nothing ip (tslice (pub_data ip)) n ip'" "same_except_work ip ip'" "rc5_ready core N ip'"
      "r = (if iterations (cw_bigcrypto (contestwork ip')) \<le> keysdone (cw_bigcrypto (contestwork ip'))
            then RES_NOTHING else RES_WORKING)"
      using Run_RC5_72_nothing [OF rd N _ core [unfolded cr]] room ip(3) by auto
    have r: "run_core (PICKPROB_CORE (run_begin p)) = (r, n, r, ip')" "0 \<le> r"
      using ip'(1,5) c by (simp_all add: run_core_def ip_def Let_def RES_NOTHING_def RES_WORKING_def)
    from ProblemRun_stores [OF init [unfolded main_def] r, of c g] obtain p' g' where p':
      "ProblemRun c p g = (r, p', g')" "contestwork (PICKPROB_MAIN p') = contestwork ip'"
      "rc5_72unitwork (PICKPROB_MAIN p') = rc5_72unitwork ip'" "refL0 (PICKPROB_MAIN p') = refL0 ip'"
      "contest (pub_data (PICKPROB_MAIN p')) = contest (pub_data main)"
      "unit_func (pub_data (PICKPROB_MAIN p')) = unit_func (pub_data main)"
      "use_generic_proto (pub_data (PICKPROB_MAIN p')) = use_generic_proto (pub_data main)"
      "tslice (pub_data (PICKPROB_MAIN p')) = n" "last_resultcode (PICKPROB_MAIN p') = r"
      "initialized (PICKPROB_MAIN p') = initialized ip'"
      unfolding main_def by blast
    have "rc5_ready core N (PICKPROB_MAIN p')"
      by (rule rc5_ready_cong [OF ip'(4)]) (use p' ip ip'(3) in \<open>simp_all add: same_except_work_def\<close>)
    moreover have "run_nothing main (tslice (pub_data main)) n (PICKPROB_MAIN p')"
      using ip'(2) p'(2) ip by (simp add: run_nothing_def)
    ultimately show ?thesis
      using p' ip'(3,5) ip(7) by (auto simp: same_except_work_def)
  qed
qed

end

section \<open>Searching a whole block\<close>

text \<open>Running the problem until it is finished, as a crunching thread does, for at most \<open>n\<close> runs.\<close>

fun run_repeat :: "nat \<Rightarrow> (nat \<Rightarrow> run_clocks) \<Rightarrow> 'm super_problem \<Rightarrow> globals \<Rightarrow> int \<times> 'm super_problem \<times> globals" where
  "run_repeat 0 c p g = (RES_WORKING, p, g)"
| "run_repeat (Suc n) c p g =
     (case ProblemRun (c n) p g of
        (r, p, g) \<Rightarrow> if r = RES_WORKING then run_repeat n c p g else (r, p, g))"

text \<open>The outcome of a search of the rest of a work.\<close>

definition search_outcome :: "bigcrypto \<Rightarrow> int \<Rightarrow> bigcrypto \<Rightarrow> bool" where
  "search_outcome b r b' \<longleftrightarrow>
     r = RES_FOUND \<and> (\<exists>m \<ge> position b. solves b m \<and> (\<forall>i. position b \<le> i \<and> i < m \<longrightarrow> \<not> solves b i)
       \<and> plain_val (b_key b') = m \<and> plain_val (b_check b') = m mod 2 ^ 72
       \<and> keysdone b' = keysdone b + (m - position b))
   \<or> r = RES_NOTHING \<and> (\<forall>i. position b \<le> i \<and> i < plain_val (b_key b) + iterations b \<longrightarrow> \<not> solves b i)
       \<and> iterations b \<le> keysdone b' \<and> b_key b' = b_key b"

lemma search_outcome_step:
  assumes "run_nothing ip k n ip'" "b = cw_bigcrypto (contestwork ip)" "b1 = cw_bigcrypto (contestwork ip')"
    and "search_outcome b1 r b'"
  shows "search_outcome b r b'"
proof -
  have h: "\<forall>d < unat n. \<not> solves b (position b + d)" "b_key b1 = b_key b" "keysdone b1 = keysdone b + unat n"
    "iterations b1 = iterations b" "solves b1 = solves b"
    using assms(1-3) by (simp_all add: run_nothing_def Let_def)
  have pos: "position b1 = position b + unat n" by (simp add: position_def h)
  have no: "\<not> solves b i" if "position b \<le> i" "i < position b1" for i
    using h(1) that pos by (metis le_add_diff_inverse nat_add_left_cancel_less)
  from assms(4) show ?thesis
    unfolding search_outcome_def
  proof (elim disjE conjE exE)
    fix m assume m: "r = RES_FOUND" "position b1 \<le> m" "solves b1 m"
      "\<forall>i. position b1 \<le> i \<and> i < m \<longrightarrow> \<not> solves b1 i" "plain_val (b_key b') = m"
      "plain_val (b_check b') = m mod 2 ^ 72" "keysdone b' = keysdone b1 + (m - position b1)"
    have "\<forall>i. position b \<le> i \<and> i < m \<longrightarrow> \<not> solves b i"
      using m(4) no h(5) by (metis not_le)
    then show "r = RES_FOUND \<and> (\<exists>m \<ge> position b. solves b m \<and> (\<forall>i. position b \<le> i \<and> i < m \<longrightarrow> \<not> solves b i)
        \<and> plain_val (b_key b') = m \<and> plain_val (b_check b') = m mod 2 ^ 72
        \<and> keysdone b' = keysdone b + (m - position b))
      \<or> r = RES_NOTHING \<and> (\<forall>i. position b \<le> i \<and> i < plain_val (b_key b) + iterations b \<longrightarrow> \<not> solves b i)
        \<and> iterations b \<le> keysdone b' \<and> b_key b' = b_key b"
      using m pos h(3,5) by auto
  next
    assume m: "r = RES_NOTHING" "\<forall>i. position b1 \<le> i \<and> i < plain_val (b_key b1) + iterations b1 \<longrightarrow> \<not> solves b1 i"
      "iterations b1 \<le> keysdone b'" "b_key b' = b_key b1"
    have "\<forall>i. position b \<le> i \<and> i < plain_val (b_key b) + iterations b \<longrightarrow> \<not> solves b i"
      using m(2) no h by (metis not_le)
    then show "r = RES_FOUND \<and> (\<exists>m \<ge> position b. solves b m \<and> (\<forall>i. position b \<le> i \<and> i < m \<longrightarrow> \<not> solves b i)
        \<and> plain_val (b_key b') = m \<and> plain_val (b_check b') = m mod 2 ^ 72
        \<and> keysdone b' = keysdone b + (m - position b))
      \<or> r = RES_NOTHING \<and> (\<forall>i. position b \<le> i \<and> i < plain_val (b_key b) + iterations b \<longrightarrow> \<not> solves b i)
        \<and> iterations b \<le> keysdone b' \<and> b_key b' = b_key b"
      using m h by auto
  qed
qed

lemma search_outcome_found:
  assumes "run_found ip k n ip'" "b = cw_bigcrypto (contestwork ip)" "b' = cw_bigcrypto (contestwork ip')"
  shows "search_outcome b RES_FOUND b'"
proof -
  have f: "solves b (position b + unat n)" "\<forall>d < unat n. \<not> solves b (position b + d)"
    "plain_val (b_key b') = position b + unat n" "keysdone b' = keysdone b + unat n"
    "plain_val (b_check b') = (position b + unat n) mod 2 ^ 72"
    using assms by (simp_all add: run_found_def Let_def)
  have "\<forall>i. position b \<le> i \<and> i < position b + unat n \<longrightarrow> \<not> solves b i"
    using f(2) by (metis le_add_diff_inverse nat_add_left_cancel_less)
  then show ?thesis
    using f unfolding search_outcome_def by (intro disjI1 conjI exI [of _ "position b + unat n"]) simp_all
qed

context rc5_72_core
begin

lemma run_repeat_search:
  assumes "rc5_ready core N (PICKPROB_MAIN p)" "M dvd 48" "initialized (PICKPROB_MAIN p)"
    and "last_resultcode (PICKPROB_MAIN p) = RES_WORKING" "b = cw_bigcrypto (contestwork (PICKPROB_MAIN p))"
    and "keysdone b < iterations b" "iterations b + 4294967296 < 18446744073709551616"
    and "(iterations b - keysdone b) div 32 < fuel"
  shows "\<exists>r p' g'. run_repeat fuel c p g = (r, p', g') \<and> initialized (PICKPROB_MAIN p')
    \<and> last_resultcode (PICKPROB_MAIN p') = r
    \<and> search_outcome b r (cw_bigcrypto (contestwork (PICKPROB_MAIN p')))"
  using assms
proof (induction fuel arbitrary: p g b)
  case 0
  then show ?case by simp
next
  case (Suc fuel)
  let ?main = "PICKPROB_MAIN p"
  have room: "keysdone (cw_bigcrypto (contestwork ?main)) + 4294967296 < 18446744073709551616"
    using Suc.prems(5-7) by simp
  obtain r n p1 g1 where s: "ProblemRun (c fuel) p g = (r, p1, g1)" "initialized (PICKPROB_MAIN p1)"
    "last_resultcode (PICKPROB_MAIN p1) = r"
    "r = RES_FOUND \<and> run_found ?main (tslice (pub_data ?main)) n (PICKPROB_MAIN p1)
     \<or> run_nothing ?main (tslice (pub_data ?main)) n (PICKPROB_MAIN p1) \<and> rc5_ready core N (PICKPROB_MAIN p1)
       \<and> r = (if iterations (cw_bigcrypto (contestwork (PICKPROB_MAIN p1)))
                \<le> keysdone (cw_bigcrypto (contestwork (PICKPROB_MAIN p1))) then RES_NOTHING else RES_WORKING)"
    using ProblemRun_step [OF Suc.prems(1,2) room Suc.prems(3,4), of "c fuel" g] by auto
  define b1 where "b1 = cw_bigcrypto (contestwork (PICKPROB_MAIN p1))"
  from s(4) show ?case
  proof
    assume f: "r = RES_FOUND \<and> run_found ?main (tslice (pub_data ?main)) n (PICKPROB_MAIN p1)"
    then have "search_outcome b r b1"
      using search_outcome_found Suc.prems(5) b1_def by blast
    then show ?thesis
      using s(1-3) f by (simp add: RES_FOUND_def RES_WORKING_def b1_def)
  next
    assume f: "run_nothing ?main (tslice (pub_data ?main)) n (PICKPROB_MAIN p1) \<and> rc5_ready core N (PICKPROB_MAIN p1)
       \<and> r = (if iterations (cw_bigcrypto (contestwork (PICKPROB_MAIN p1)))
                \<le> keysdone (cw_bigcrypto (contestwork (PICKPROB_MAIN p1))) then RES_NOTHING else RES_WORKING)"
    then have n: "n = keys_to_check b (tslice (pub_data ?main))" "keysdone b1 = keysdone b + unat n"
      "iterations b1 = iterations b" "b_key b1 = b_key b" "\<forall>d < unat n. \<not> solves b (position b + d)"
      using Suc.prems(5) by (simp_all add: run_nothing_def Let_def b1_def)
    have n32: "32 \<le> unat n" using keys_to_check_dvd(2) [OF M_dvd_16 [OF Suc.prems(2)]] n(1) by simp
    show ?thesis
    proof (cases "iterations b1 \<le> keysdone b1")
      case True
      then have r: "r = RES_NOTHING" using f by (simp add: b1_def)
      have "\<not> solves b i" if "position b \<le> i" "i < plain_val (b_key b) + iterations b" for i
      proof -
        have "i < position b + unat n"
          using that(2) True n(2,3) by (simp add: position_def)
        then show ?thesis using n(5) that(1) by (metis le_add_diff_inverse nat_add_left_cancel_less)
      qed
      then have "search_outcome b r b1"
        using r True n(3,4) by (simp add: search_outcome_def)
      then show ?thesis
        using s(1-3) r by (simp add: RES_NOTHING_def RES_WORKING_def b1_def)
    next
      case False
      then have r: "r = RES_WORKING" using f by (simp add: b1_def)
      have fuel: "(iterations b1 - keysdone b1) div 32 < fuel"
      proof -
        have "iterations b1 - keysdone b1 + 32 \<le> iterations b - keysdone b"
          using False n(2,3) n32 by simp
        then have "(iterations b1 - keysdone b1 + 32) div 32 \<le> (iterations b - keysdone b) div 32"
          by (rule div_le_mono)
        then show ?thesis using Suc.prems(8) by simp
      qed
      obtain p' g' r' where IH: "run_repeat fuel c p1 g1 = (r', p', g')" "initialized (PICKPROB_MAIN p')"
        "last_resultcode (PICKPROB_MAIN p') = r'"
        "search_outcome b1 r' (cw_bigcrypto (contestwork (PICKPROB_MAIN p')))"
        using Suc.IH [of p1 b1 g1] f s(2,3) r False n(3) Suc.prems(2,7) fuel by (auto simp: b1_def)
      then have "search_outcome b r' (cw_bigcrypto (contestwork (PICKPROB_MAIN p')))"
        using search_outcome_step f Suc.prems(5) b1_def by blast
      then show ?thesis using IH s(1) r by simp
    qed
  qed
qed

end

section \<open>Loading and retrieving\<close>

lemma load_rc5_72_ok:
  assumes "load_rc5_72 env ex w ip g = (0, ip', g')"
    and "reset = ((b_keysdone_lo (cw_bigcrypto w) \<noteq> 0 \<or> b_keysdone_hi (cw_bigcrypto w) \<noteq> 0)
      \<and> origin_mismatch env ex (pub_data ip))"
    and "b = (if reset then (cw_bigcrypto w)\<lparr>b_keysdone_hi := 0, b_keysdone_lo := 0, b_check_count := 0,
      b_check := zero_key\<rparr> else cw_bigcrypto w)"
  shows "key_ok (b_key b)" "cw_bigcrypto (contestwork ip') = b"
    "rc5_72unitwork ip' = \<lparr>plain_hi = b_plain_hi b XOR b_iv_hi b, plain_lo = b_plain_lo b XOR b_iv_lo b,
       cypher_hi = b_cypher_hi b, cypher_lo = b_cypher_lo b, L0 = SwitchRC572Format (rc5_start_key b),
       check_count = b_check_count b, check_key = SwitchRC572Format (b_check b)\<rparr>"
    "refL0 ip' = SwitchRC572Format (rc5_start_key b)" "was_reset (pub_data ip') = (reset \<or> was_reset (pub_data ip))"
    "started ip' = started ip" "initialized ip' = initialized ip"
    "contest (pub_data ip') = contest (pub_data ip)" "tslice (pub_data ip') = tslice (pub_data ip)"
    "unit_func (pub_data ip') = unit_func (pub_data ip)"
    "use_generic_proto (pub_data ip') = use_generic_proto (pub_data ip)"
    "loaded_problems g' = loaded_problems g" "core_membuffer ip' = core_membuffer ip"
proof -
  have ok: "\<not> k_hi (b_key b) > 0xff"
  proof
    assume "k_hi (b_key b) > 0xff"
    then show False
      using assms(1) unfolding load_rc5_72_def Let_def assms(2) [symmetric] assms(3) [symmetric]
      by (simp split: prod.splits)
  qed
  then show "key_ok (b_key b)"
    by (simp add: key_ok_def is_byte_iff word_le_nat_alt word_less_nat_alt not_less)
  note h = assms(1) [unfolded load_rc5_72_def Let_def assms(2) [symmetric] assms(3) [symmetric]]
  show "cw_bigcrypto (contestwork ip') = b"
    "rc5_72unitwork ip' = \<lparr>plain_hi = b_plain_hi b XOR b_iv_hi b, plain_lo = b_plain_lo b XOR b_iv_lo b,
       cypher_hi = b_cypher_hi b, cypher_lo = b_cypher_lo b, L0 = SwitchRC572Format (rc5_start_key b),
       check_count = b_check_count b, check_key = SwitchRC572Format (b_check b)\<rparr>"
    "refL0 ip' = SwitchRC572Format (rc5_start_key b)" "was_reset (pub_data ip') = (reset \<or> was_reset (pub_data ip))"
    "started ip' = started ip" "initialized ip' = initialized ip"
    "contest (pub_data ip') = contest (pub_data ip)" "tslice (pub_data ip') = tslice (pub_data ip)"
    "unit_func (pub_data ip') = unit_func (pub_data ip)"
    "use_generic_proto (pub_data ip') = use_generic_proto (pub_data ip)"
    "loaded_problems g' = loaded_problems g" "core_membuffer ip' = core_membuffer ip"
    using h ok by (auto split: prod.splits if_splits)
qed

lemma load_ogr_frame:
  "load_ogr_p2 env ex w ip = (r, ip') \<Longrightarrow> contest (pub_data ip') = contest (pub_data ip) \<and> started ip' = started ip
    \<and> initialized ip' = initialized ip"
  "load_ogr_ng env ex w ip = (r, ip') \<Longrightarrow> contest (pub_data ip') = contest (pub_data ip) \<and> started ip' = started ip
    \<and> initialized ip' = initialized ip"
  by (auto simp: load_ogr_p2_def load_ogr_ng_def Let_def split: prod.splits if_splits)

lemma finish_load_simps [simp]:
  "initialized (finish_load env ip)" "last_resultcode (finish_load env ip) = RES_WORKING"
  "started (finish_load env ip) = started ip" "rc5_72unitwork (finish_load env ip) = rc5_72unitwork ip"
  "refL0 (finish_load env ip) = refL0 ip" "contestwork (finish_load env ip) = contestwork ip"
  "contest (pub_data (finish_load env ip)) = contest (pub_data ip)"
  "unit_func (pub_data (finish_load env ip)) = unit_func (pub_data ip)"
  "tslice (pub_data (finish_load env ip)) = tslice (pub_data ip)"
  "was_reset (pub_data (finish_load env ip)) = was_reset (pub_data ip)"
  "use_generic_proto (pub_data (finish_load env ip)) = use_generic_proto (pub_data ip)"
  by (simp_all add: finish_load_def split: prod.split)

lemma reset_problem_simps [simp]:
  "started (reset_problem env c n r bm ip) = False" "initialized (reset_problem env c n r bm ip) = False"
  "contest (pub_data (reset_problem env c n r bm ip)) = c" "tslice (pub_data (reset_problem env c n r bm ip)) = n"
  "unit_func (pub_data (reset_problem env c n r bm ip)) = sc_unit_func (le_selinfo env)"
  "use_generic_proto (pub_data (reset_problem env c n r bm ip)) = sc_use_generic_proto (le_selinfo env)"
  "was_reset (pub_data (reset_problem env c n r bm ip)) = False"
  "core_membuffer (reset_problem env c n r bm ip) = core_membuffer ip"
  "coresel (pub_data (reset_problem env c n r bm ip)) = le_coresel env"
  "client_cpu (pub_data (reset_problem env c n r bm ip)) = sc_client_cpu (le_selinfo env)"
  by (simp_all add: reset_problem_def Let_def)

text \<open>A load that succeeds: the problem was not in use, and is now, with the counters one up.\<close>

lemma InternalLoadState_ok:
  assumes "InternalLoadState env ex work c n ip g = (0, ip', g')"
  shows "\<not> initialized ip" "initialized ip'" "\<not> started ip'" "last_resultcode ip' = RES_WORKING"
    "contest (pub_data ip') = c" "IsProblemLoadPermitted c"
    "loaded_problems g' = loaded_problems (count_problem (\<lambda>n. n + 1) c g)"
proof -
  obtain w where w: "(case work of
              CONTESTWORK_MAGIC_RANDOM \<Rightarrow> gen_random_work (le_random env) (rc5_72_random_subspace g) c
            | CONTESTWORK_MAGIC_BENCHMARK \<Rightarrow> gen_benchmark_work c zero_work
            | Work w \<Rightarrow> Some w) = Some w"
    using assms unfolding InternalLoadState_def by (auto split: option.splits)
  let ?ip = "reset_problem env c n (work = CONTESTWORK_MAGIC_RANDOM) (work = CONTESTWORK_MAGIC_BENCHMARK) ip"
  note h = assms [unfolded InternalLoadState_def w option.case Let_def]
  have g: "\<not> initialized ip" "IsProblemLoadPermitted c" using h by (auto split: if_splits)
  then show "\<not> initialized ip" "IsProblemLoadPermitted c" .
  obtain ip1 g1 where r: "(case c of
        RC5_72 \<Rightarrow> load_rc5_72 env ex w ?ip g
      | OGR_P2 \<Rightarrow> (case load_ogr_p2 env ex w ?ip of (r, t) \<Rightarrow> (r, t, g))
      | OGR_NG \<Rightarrow> (case load_ogr_ng env ex w ?ip of (r, t) \<Rightarrow> (r, t, g))
      | _ \<Rightarrow> (0, ?ip, g)) = (0, ip1, g1)"
    "ip' = finish_load env ip1" "g' = count_problem (\<lambda>n. n + 1) (contest (pub_data ip1)) g1"
    using h by (auto split: if_splits prod.splits)
  have "contest (pub_data ip1) = c \<and> \<not> started ip1 \<and> loaded_problems g1 = loaded_problems g"
    using r(1) load_rc5_72_ok(6,8,12) [OF _ refl refl] load_ogr_frame
    by (cases c) (fastforce split: prod.splits)+
  then show "initialized ip'" "\<not> started ip'" "last_resultcode ip' = RES_WORKING" "contest (pub_data ip') = c"
    "loaded_problems g' = loaded_problems (count_problem (\<lambda>n. n + 1) c g)"
    by (simp_all add: r(2,3) count_problem_def Let_def)
qed

text \<open>A load that fails leaves the main copy and the core's copy alone.\<close>

lemma ProblemLoadState_fails:
  assumes "ProblemLoadState env ex work c n p g = (r, p', g')" "r \<noteq> 0"
  shows "r < 0" "PICKPROB_MAIN p' = PICKPROB_MAIN p" "PICKPROB_CORE p' = PICKPROB_CORE p"
  using assms by (auto simp: ProblemLoadState_def load_finish_def load_begin_def Let_def split: prod.splits if_splits)

lemma ProblemLoadState_ok:
  assumes "ProblemLoadState env ex work c n p g = (0, p', g')"
  shows "InternalLoadState env ex work c n (PICKPROB_MAIN p) g = (0, PICKPROB_MAIN p', g')"
    "PICKPROB_CORE p' = PICKPROB_CORE p"
  using assms
  by (auto simp: ProblemLoadState_def load_finish_def load_begin_def Let_def copy_internal_problem_def
      split: prod.splits if_splits)

lemma aligned_Switch:
  assumes "N dvd 256"
  shows "aligned N (SwitchRC572Format k) \<longleftrightarrow> N dvd plain_val k"
proof -
  have "unat (k_hi (SwitchRC572Format k)) = unat (k_lo k) mod 256"
    by (simp add: Switch_bytes unat_byte)
  then have "aligned N (SwitchRC572Format k) \<longleftrightarrow> N dvd unat (k_lo k)"
    using assms by (simp add: aligned_def dvd_mod_iff)
  moreover have "plain_val k = unat (k_lo k) + 256 * (unat (k_hi k) * 72057594037927936 + unat (k_mid k) * 16777216)"
    by (simp add: plain_val_def)
  moreover have "N dvd 256 * (unat (k_hi k) * 72057594037927936 + unat (k_mid k) * 16777216)"
    using assms by (rule dvd_mult2)
  ultimately show ?thesis by (simp only: dvd_add_left_iff)
qed

context rc5_72_core
begin

lemma load_ready:
  assumes load: "ProblemLoadState env ex (Work w) RC5_72 n p g = (0, p', g')"
    and sel: "sc_use_generic_proto (le_selinfo env)" "gen_72 (sc_unit_func (le_selinfo env)) = gen_of_core core"
    and b: "b = cw_bigcrypto (contestwork (PICKPROB_MAIN p'))" and al: "N dvd position b"
  shows "rc5_ready core N (PICKPROB_MAIN p')" "initialized (PICKPROB_MAIN p')"
    "last_resultcode (PICKPROB_MAIN p') = RES_WORKING" "\<not> started (PICKPROB_MAIN p')"
proof -
  let ?main = "PICKPROB_MAIN p'"
  note i = ProblemLoadState_ok(1) [OF load]
  show "initialized ?main" "last_resultcode ?main = RES_WORKING" "\<not> started ?main"
    using InternalLoadState_ok [OF i] by simp_all
  define ip where "ip = reset_problem env RC5_72 n False False (PICKPROB_MAIN p)"
  obtain ip1 g1 where l: "load_rc5_72 env ex w ip g = (0, ip1, g1)" "?main = finish_load env ip1"
    using i [unfolded InternalLoadState_def] by (auto simp: Let_def ip_def split: if_splits prod.splits)
  note f = load_rc5_72_ok [OF l(1) refl refl]
  have b': "b = cw_bigcrypto (contestwork ip1)" using b l(2) by simp
  note f' = f [folded f(2), folded b']
  have "N dvd plain_val (rc5_start_key b)"
    using rc5_start_key_val(2) [OF f'(1)] al dvd_trans [OF N_pipes, of "2 ^ 72"]
    by (simp add: position_def keysdone_def dvd_mod)
  then have "aligned N (SwitchRC572Format (rc5_start_key b))"
    using aligned_Switch [OF N_pipes] by simp
  then show "rc5_ready core N ?main"
    using f' sel rc5_start_key_val [OF f'(1)]
    by (simp add: rc5_ready_def Let_def l(2) ip_def mangled_val_Switch position_def keysdone_def
        b' [symmetric])
qed

end

section \<open>A concrete problem\<close>

text \<open>An unused problem and a client whose selected core is the portable core with four pipelines;
  the properties are applied to them below.\<close>

definition idle_ogr :: "(unit, 's) ogr_dispatch" where
  "idle_ogr = \<lparr>od_init = CORE_S_OK, od_create = (\<lambda>s m x. (CORE_S_OK, s, m)),
     od_cycle = (\<lambda>m n t. (-4, n, m)), od_getresult = (\<lambda>m s. (CORE_S_OK, s)),
     od_destroy = (\<lambda>m. (CORE_S_OK, m))\<rparr>"

definition ansi4_funcs :: "unit unit_func_union" where
  "ansi4_funcs = \<lparr>gen_72 = gen_of_core rc5_72_unit_func_ansi_4, uf_ogr_ng = idle_ogr, uf_ogr_p2 = idle_ogr\<rparr>"

definition ansi4_env :: "unit load_env" where
  "ansi4_env = \<lparr>le_random = 4711, le_coresel = 2, le_selinfo = \<lparr>sc_client_cpu = 1, sc_pipeline_count = 4,
     sc_use_generic_proto = True, sc_asynchronous = False, sc_unit_func = ansi4_funcs\<rparr>,
     CLIENT_OS = 4, CLIENT_VERSION = 29115520, le_clock1 = None, le_clock2 = Some (100, 5)\<rparr>"

definition ansi4_expected :: expected where
  "ansi4_expected = \<lparr>expected_cputype = 1, expected_corenum = 2, expected_os = 4, expected_build = 29115520\<rparr>"

definition unused_problem :: "unit internal_problem" where
  "unused_problem = \<lparr>pub_data = \<lparr>elapsed_time_sec = 0, elapsed_time_usec = 0, runtime_sec = 0, runtime_usec = 0,
       last_runtime_sec = 0, last_runtime_usec = 0, last_runtime_is_invalid = False, core_run_count = 0,
       startpermille = 0, startkeys_hi = 0, startkeys_lo = 0, contest = RC5, coresel = 0, client_cpu = 0,
       tslice = 0, tslice_increment_hint = 0, was_reset = False, is_random = False, is_benchmark = False,
       pipeline_count = 0, unit_func = ansi4_funcs, use_generic_proto = False,
       cruncher_is_asynchronous = False, cruncher_is_time_constrained = False\<rparr>,
     rc5_72unitwork = \<lparr>plain_hi = 0, plain_lo = 0, cypher_hi = 0, cypher_lo = 0, L0 = zero_key, check_count = 0,
       check_key = zero_key\<rparr>,
     refL0 = zero_key, contestwork = zero_work, core_membuffer = (), loadtime_sec = 0, loadtime_usec = 0,
     last_resultcode = 0, started = False, initialized = False\<rparr>"

definition unused_super :: "unit super_problem" where
  "unused_super = \<lparr>PICKPROB_MAIN = unused_problem, PICKPROB_CORE = unused_problem, PICKPROB_TEMP = unused_problem\<rparr>"

definition start_globals :: globals where
  "start_globals = \<lparr>loaded_problems = replicate 8 0, rc5_72_random_subspace = 1340, ini_subspaces = [],
     s_using_ptime = True\<rparr>"

text \<open>A work of 256 iterations of which 96 are done.\<close>

definition small_work :: contestwork where
  "small_work = zero_work\<lparr>cw_bigcrypto := zero_bigcrypto\<lparr>b_key := \<lparr>k_hi = 0x12, k_mid = 0x3456789A, k_lo = 0xBCDEF000\<rparr>,
     b_iterations_lo := 256, b_keysdone_lo := 96, b_randomsubspace := 0xffff\<rparr>\<rparr>"

definition idle_clocks :: run_clocks where
  "idle_clocks = \<lparr>rc_thread1 = None, rc_mono1 = Some (100, 7), rc_mono1b = None, rc_thread2 = None,
     rc_mono2 = Some (101, 3), rc_mono2b = None, rc_mono3 = None, rc_mono3b = None\<rparr>"

lemma small_load:
  "\<exists>p' g'. ProblemLoadState ansi4_env ansi4_expected (Work small_work) RC5_72 1000 unused_super start_globals = (0, p', g')
     \<and> cw_bigcrypto (contestwork (PICKPROB_MAIN p')) = cw_bigcrypto small_work
     \<and> \<not> was_reset (pub_data (PICKPROB_MAIN p'))"
  by (simp add: ProblemLoadState_def load_begin_def load_finish_def copy_internal_problem_def
      InternalLoadState_def load_rc5_72_def reset_problem_def unused_super_def unused_problem_def
      ansi4_env_def ansi4_expected_def small_work_def zero_bigcrypto_def zero_key_def origin_mismatch_def
      IsProblemLoadPermitted_def MINIMUM_ITERATIONS_def ProblemSetRandomSubspace_def Let_def finish_load_def)

lemma ansi4_env_simps [simp]:
  "sc_use_generic_proto (le_selinfo ansi4_env)"
  "gen_72 (sc_unit_func (le_selinfo ansi4_env)) = gen_of_core rc5_72_unit_func_ansi_4"
  by (simp_all add: ansi4_env_def ansi4_funcs_def)

lemma small_work_vals:
  "keysdone (cw_bigcrypto small_work) = 96" "iterations (cw_bigcrypto small_work) = 256"
  "position (cw_bigcrypto small_work) = 0x123456789ABCDEF060"
  by (simp_all add: small_work_def zero_bigcrypto_def keysdone_def iterations_def position_def v64_def plain_val_def)

section \<open>Properties\<close>

text \<open>C17: a block of RC5-72 is searched completely. After a load with the portable four-pipeline core,
  running the problem until it is finished takes at most one run for every 32 keys left, and ends:
  either with \<open>RESULT_FOUND\<close>, the first key from the start position on that solves the work, as the
  key and as the check of the work; or with \<open>RESULT_NOTHING\<close>, and no key of the block from the start
  position on solves it.\<close>

theorem RC5_72_block_is_searched:
  assumes "ProblemLoadState env ex (Work w) RC5_72 n p g = (0, p1, g1)"
    and "sc_use_generic_proto (le_selinfo env)"
    and "gen_72 (sc_unit_func (le_selinfo env)) = gen_of_core rc5_72_unit_func_ansi_4"
    and "b = cw_bigcrypto (contestwork (PICKPROB_MAIN p1))" "4 dvd position b"
    and "keysdone b < iterations b" "iterations b + 2 ^ 32 < 2 ^ 64"
    and "(iterations b - keysdone b) div 32 < runs"
  shows "\<exists>r p2 g2. run_repeat runs clocks p1 g1 = (r, p2, g2)
    \<and> search_outcome b r (cw_bigcrypto (contestwork (PICKPROB_MAIN p2)))"
proof -
  note ready = ansi4.load_ready [OF assms(1-5)]
  show ?thesis
    using ansi4.run_repeat_search [OF ready(1) _ ready(2,3) assms(4,6) _ assms(8)] assms(7)
    by fastforce
qed

theorem RC5_72_block_is_searched_witness:
  "\<exists>p1 g1 r p2 g2.
     ProblemLoadState ansi4_env ansi4_expected (Work small_work) RC5_72 1000 unused_super start_globals = (0, p1, g1)
     \<and> run_repeat 6 (\<lambda>_. idle_clocks) p1 g1 = (r, p2, g2)
     \<and> search_outcome (cw_bigcrypto small_work) r (cw_bigcrypto (contestwork (PICKPROB_MAIN p2)))"
proof -
  obtain p1 g1 where l: "ProblemLoadState ansi4_env ansi4_expected (Work small_work) RC5_72 1000
      unused_super start_globals = (0, p1, g1)"
    "cw_bigcrypto (contestwork (PICKPROB_MAIN p1)) = cw_bigcrypto small_work"
    using small_load by blast
  then show ?thesis
    using RC5_72_block_is_searched [OF l(1) ansi4_env_simps l(2) [symmetric], of 6 "\<lambda>_. idle_clocks"]
    by (auto simp: small_work_vals)
qed
text \<open>C29: a work that is retrieved with a purge and loaded again goes on where it was: unless the
  load resets it, the core starts from the same key, and the work is the same.\<close>

theorem retrieved_work_resumes:
  assumes "rc5_ready rc5_72_unit_func_ansi_4 4 (PICKPROB_MAIN p)"
    and "ProblemRetrieveState True True p g = (r, Some (RC5_72, Some w), p1, g1)"
    and "ProblemLoadState env ex (Work w) RC5_72 n p1 g1 = (0, p2, g2)"
    and "\<not> was_reset (pub_data (PICKPROB_MAIN p2))"
  shows "cw_bigcrypto (contestwork (PICKPROB_MAIN p2)) = cw_bigcrypto (contestwork (PICKPROB_MAIN p)) \<and>
    L0 (rc5_72unitwork (PICKPROB_MAIN p2)) = L0 (rc5_72unitwork (PICKPROB_MAIN p)) \<and>
    initialized (PICKPROB_MAIN p2)"
proof (intro conjI)
  let ?b = "cw_bigcrypto (contestwork (PICKPROB_MAIN p))"
  have c: "contest (pub_data (PICKPROB_MAIN p)) = RC5_72" "key_ok (b_key ?b)"
    "key_ok (L0 (rc5_72unitwork (PICKPROB_MAIN p)))"
    "mangled_val (L0 (rc5_72unitwork (PICKPROB_MAIN p))) = position ?b mod 2 ^ 72"
    using assms(1) by (simp_all add: rc5_ready_def Let_def aligned_def)
  have w: "cw_bigcrypto w = ?b"
    using assms(2) c(1) by (auto simp: ProblemRetrieveState_def retrieve_work_def Let_def split: if_splits)
  note i = ProblemLoadState_ok(1) [OF assms(3)]
  show "initialized (PICKPROB_MAIN p2)" by (rule InternalLoadState_ok(2) [OF i])
  obtain ip1 g' where l: "load_rc5_72 env ex w (reset_problem env RC5_72 n False False (PICKPROB_MAIN p1)) g1
      = (0, ip1, g')" "PICKPROB_MAIN p2 = finish_load env ip1"
    using i [unfolded InternalLoadState_def] by (auto simp: Let_def split: if_splits prod.splits)
  note f = load_rc5_72_ok [OF l(1) refl refl]
  have b: "cw_bigcrypto (contestwork ip1) = ?b"
    using f(2,5) assms(4) l(2) w by auto
  then show "cw_bigcrypto (contestwork (PICKPROB_MAIN p2)) = ?b"
    by (simp add: l(2))
  have "L0 (rc5_72unitwork (PICKPROB_MAIN p2)) = SwitchRC572Format (rc5_start_key ?b)"
    using f(2,3) b by (simp add: l(2))
  moreover have "mangled_val (SwitchRC572Format (rc5_start_key ?b)) = position ?b mod 2 ^ 72"
    using rc5_start_key_val [OF c(2)] by (simp add: mangled_val_Switch position_def keysdone_def)
  ultimately show "L0 (rc5_72unitwork (PICKPROB_MAIN p2)) = L0 (rc5_72unitwork (PICKPROB_MAIN p))"
    using c(3,4) by (metis mangled_val_inject Switch_key_ok)
qed

theorem retrieved_work_resumes_witness:
  "\<exists>p w r p1 g1 p2 g2. ProblemRetrieveState True True p start_globals = (r, Some (RC5_72, Some w), p1, g1)
     \<and> ProblemLoadState ansi4_env ansi4_expected (Work w) RC5_72 1000 p1 g1 = (0, p2, g2)
     \<and> L0 (rc5_72unitwork (PICKPROB_MAIN p2)) = L0 (rc5_72unitwork (PICKPROB_MAIN p))"
proof -
  obtain p g where l: "ProblemLoadState ansi4_env ansi4_expected (Work small_work) RC5_72 1000
      unused_super start_globals = (0, p, g)" "cw_bigcrypto (contestwork (PICKPROB_MAIN p)) = cw_bigcrypto small_work"
    using small_load by blast
  have ready: "rc5_ready rc5_72_unit_func_ansi_4 4 (PICKPROB_MAIN p)" "initialized (PICKPROB_MAIN p)"
    "last_resultcode (PICKPROB_MAIN p) = RES_WORKING"
    using ansi4.load_ready(1-3) [OF l(1) ansi4_env_simps l(2) [symmetric]] by (simp_all add: small_work_vals)
  have c: "contest (pub_data (PICKPROB_MAIN p)) = RC5_72" using ready(1) by (simp add: rc5_ready_def Let_def)
  define w where "w = contestwork (PICKPROB_MAIN p)"
  have bw: "cw_bigcrypto w = cw_bigcrypto small_work" by (simp add: w_def l(2))
  define p1 where "p1 = p\<lparr>PICKPROB_MAIN := (PICKPROB_MAIN p)\<lparr>initialized := False\<rparr>\<rparr>"
  define g1 where "g1 = count_problem (\<lambda>n. n - 1) RC5_72 start_globals"
  have r: "ProblemRetrieveState True True p start_globals = (0, Some (RC5_72, Some w), p1, g1)"
    using ready(2,3) c by (simp add: ProblemRetrieveState_def retrieve_work_def Let_def w_def p1_def g1_def
        RES_WORKING_def)
  obtain p2 g2 where l2: "ProblemLoadState ansi4_env ansi4_expected (Work w) RC5_72 1000 p1 g1 = (0, p2, g2)"
    "\<not> was_reset (pub_data (PICKPROB_MAIN p2))"
    using bw by (simp add: ProblemLoadState_def load_begin_def load_finish_def copy_internal_problem_def
      InternalLoadState_def load_rc5_72_def reset_problem_def p1_def
      ansi4_env_def ansi4_expected_def small_work_def zero_bigcrypto_def zero_key_def origin_mismatch_def
      IsProblemLoadPermitted_def MINIMUM_ITERATIONS_def ProblemSetRandomSubspace_def Let_def finish_load_def)
  show ?thesis
    using r l2(1) retrieved_work_resumes [OF ready(1) r l2] by blast
qed
text \<open>A core whose \<open>L0\<close> does not come out where \<open>__IncrementKey\<close> says, without a find, is caught:
  \<open>ProblemRun\<close> returns -1, and the main copy keeps its work, its key and its result code, so that
  the next run tries the same keys again.\<close>

theorem core_mismatch_is_caught:
  assumes "initialized (PICKPROB_MAIN p)" "last_resultcode (PICKPROB_MAIN p) = RES_WORKING"
    and "contest (pub_data (PICKPROB_MAIN p)) = RC5_72" "use_generic_proto (pub_data (PICKPROB_MAIN p))"
    and "\<not> cruncher_is_asynchronous (pub_data (PICKPROB_MAIN p))"
    and "gen_72 (unit_func (pub_data (PICKPROB_MAIN p))) (rc5_72unitwork (PICKPROB_MAIN p))
        (keys_to_check (cw_bigcrypto (contestwork (PICKPROB_MAIN p))) (tslice (pub_data (PICKPROB_MAIN p))))
        (core_membuffer (PICKPROB_MAIN p)) = (rc, w', n, mem)"
    and "0 \<le> rc" "rc \<noteq> RES_FOUND" "L0 w' \<noteq> IncrementKey (refL0 (PICKPROB_MAIN p)) n RC5_72"
  shows "\<exists>p' g'. ProblemRun c p g = (-1, p', g')
    \<and> contestwork (PICKPROB_MAIN p') = contestwork (PICKPROB_MAIN p)
    \<and> rc5_72unitwork (PICKPROB_MAIN p') = rc5_72unitwork (PICKPROB_MAIN p)
    \<and> last_resultcode (PICKPROB_MAIN p') = RES_WORKING"
  using assms
  by (simp add: ProblemRun_def run_begin_def copy_internal_problem_def Let_def run_core_def Run_RC5_72_def
      call_core_72_def run_finish_def split: prod.split)

text \<open>A core that does not move the key.\<close>

definition stuck_funcs :: "unit unit_func_union" where
  "stuck_funcs = ansi4_funcs\<lparr>gen_72 := (\<lambda>w it m. (RES_NOTHING, w, it, m))\<rparr>"

definition stuck_super :: "unit super_problem" where
  "stuck_super = unused_super\<lparr>PICKPROB_MAIN := unused_problem\<lparr>initialized := True, last_resultcode := RES_WORKING,
     pub_data := (pub_data unused_problem)\<lparr>contest := RC5_72, use_generic_proto := True, unit_func := stuck_funcs\<rparr>\<rparr>\<rparr>"

theorem core_mismatch_is_caught_witness:
  "\<exists>p' g'. ProblemRun idle_clocks stuck_super start_globals = (-1, p', g')
     \<and> last_resultcode (PICKPROB_MAIN p') = RES_WORKING"
proof -
  have "IncrementKey zero_key 48 RC5_72 \<noteq> zero_key"
    using IncrementKey_mangled(2) [of zero_key 48]
    by (auto simp: zero_key_def key_ok_def is_byte_iff mangled_val_def)
  then show ?thesis
    using core_mismatch_is_caught [of stuck_super RES_NOTHING "rc5_72unitwork unused_problem" 48 "()"
        idle_clocks start_globals]
    by (auto simp: stuck_super_def stuck_funcs_def unused_super_def unused_problem_def RES_NOTHING_def
        RES_FOUND_def keys_to_check_def MINIMUM_ITERATIONS_def Let_def zero_work_def zero_bigcrypto_def)
qed

text \<open>The number of keys that \<open>Run_RC5_72\<close> hands to the core is a multiple of
  \<open>MINIMUM_ITERATIONS\<close> and at least that, if the timeslice is at most \<open>2^32 - 48\<close> and needs no
  cutting. Above \<open>2^32 - 16\<close> the rounding wraps around, to 32 keys.\<close>

theorem keys_to_check_rounds:
  assumes "\<not> (b_iterations_hi b - b_keysdone_hi b \<le> 1 \<and> b_keysdone_lo b + k < k)"
  shows "(unat k \<le> 4294967248 \<longrightarrow> 48 dvd unat (keys_to_check b k) \<and> unat k \<le> unat (keys_to_check b k)
      \<and> 48 \<le> unat (keys_to_check b k) \<and> unat (keys_to_check b k) \<le> max 48 (unat k + 47)) \<and>
    (4294967280 < unat k \<longrightarrow> keys_to_check b k = 32)"
proof (intro conjI)
  note c = keys_to_check_cases [of k b k]
  have k: "unat (keys_to_check b k) = (if unat k < 48 then 48 else if unat k mod 48 = 0 then unat k else
      if unat k + 48 - unat k mod 48 < 4294967296 then unat k + 48 - unat k mod 48 else 32)"
    by (rule c) (use assms in auto)
  define q r where "q = unat k div 48" and "r = unat k mod 48"
  have qr: "unat k = 48 * q + r" "r < 48" by (simp_all add: q_def r_def)
  have k': "unat (keys_to_check b k) = (if 48 * q + r < 48 then 48 else if r = 0 then 48 * q + r else
      if 48 * q + 48 < 4294967296 then 48 * q + 48 else 32)"
    using k unfolding qr(1) [symmetric] r_def [symmetric] using qr by simp
  show "unat k \<le> 4294967248 \<longrightarrow> 48 dvd unat (keys_to_check b k) \<and> unat k \<le> unat (keys_to_check b k)
      \<and> 48 \<le> unat (keys_to_check b k) \<and> unat (keys_to_check b k) \<le> max 48 (unat k + 47)"
  proof
    assume "unat k \<le> 4294967248"
    then have le: "48 * q + r \<le> 4294967248" by (simp add: qr)
    then have "q \<le> 89478484" by linarith
    then have "48 * q + 48 < 4294967296" by simp
    then show "48 dvd unat (keys_to_check b k) \<and> unat k \<le> unat (keys_to_check b k)
      \<and> 48 \<le> unat (keys_to_check b k) \<and> unat (keys_to_check b k) \<le> max 48 (unat k + 47)"
      unfolding k' qr(1) using qr(2) by auto
  qed
  show "4294967280 < unat k \<longrightarrow> keys_to_check b k = 32"
  proof
    assume g: "4294967280 < unat k"
    have "unat k < 4294967296" by (rule unat_u32_bound)
    then have q: "q = 89478485" using g qr by linarith
    moreover have "r \<noteq> 0" using g qr(1) q by auto
    ultimately have "unat (keys_to_check b k) = unat (32::u32)" using k' by simp
    then show "keys_to_check b k = 32" by (rule unat_eqI)
  qed
qed

theorem keys_to_check_rounds_witness: "keys_to_check (zero_bigcrypto\<lparr>b_iterations_hi := 7\<rparr>) 4294967290 = 32"
  using keys_to_check_rounds [of "zero_bigcrypto\<lparr>b_iterations_hi := 7\<rparr>" 4294967290]
  by (simp add: zero_bigcrypto_def)

end
