(* ===== verification/ProblemThreads.thy ===== *)
theory ProblemThreads
  imports ProblemRc5
begin

text \<open>
  A problem between its two threads, the one that crunches and the one that loads and retrieves, as
  a step relation on the three copies, the counters and the progress of the run and the load. The
  properties say that a run that outlives its problem is dropped, that the counters of loaded
  problems are right, that a load that fails changes nothing, and that an error of an OGR core is
  not remembered.
\<close>

section \<open>Threads\<close>

text \<open>
  One problem, its crunching thread and the thread that loads and retrieves. A run and a load are
  two steps each, the parts under the lock; a retrieve is one. Every load that succeeds makes a new
  generation of the problem; \<open>gen_main\<close> and \<open>gen_core\<close> are the generations of the main copy and of
  the copy the core works on. They are no part of the program. The test of \<open>initialized\<close> at the
  start of \<open>ProblemRun\<close> is not under the lock, so a run may start here in any state.
\<close>

record 'm sys =
  sys_p :: "'m super_problem"
  sys_g :: globals
  gen_main :: nat
  gen_core :: nat
  next_gen :: nat
  running :: bool
  loading :: bool

definition run_stored :: "int \<Rightarrow> 'm super_problem \<Rightarrow> bool" where
  "run_stored retcode p \<longleftrightarrow> 0 \<le> retcode \<and> started (PICKPROB_MAIN p) \<and> initialized (PICKPROB_MAIN p)"

inductive sys_step :: "'m sys \<Rightarrow> 'm sys \<Rightarrow> bool" where
  run_start: "\<not> running s \<Longrightarrow>
    sys_step s (s\<lparr>sys_p := run_begin (sys_p s), gen_core := gen_main s, running := True\<rparr>)"
| run_skip: "running s \<Longrightarrow> last_resultcode (PICKPROB_CORE (sys_p s)) \<noteq> RES_WORKING \<Longrightarrow>
    sys_step s (s\<lparr>running := False\<rparr>)"
| run_end: "running s \<Longrightarrow> last_resultcode (PICKPROB_CORE (sys_p s)) = RES_WORKING \<Longrightarrow>
    run_core (PICKPROB_CORE (sys_p s)) = (retcode, n, r, core) \<Longrightarrow>
    run_finish c runstart using_ptime (retcode, n, r) ((sys_p s)\<lparr>PICKPROB_CORE := core\<rparr>) (sys_g s) = (ret, p, g) \<Longrightarrow>
    sys_step s (s\<lparr>sys_p := p, sys_g := g, running := False,
      gen_main := (if run_stored retcode (sys_p s) then gen_core s else gen_main s)\<rparr>)"
| load_start: "\<not> loading s \<Longrightarrow> sys_step s (s\<lparr>sys_p := load_begin (sys_p s), loading := True\<rparr>)"
| load_end: "loading s \<Longrightarrow> load_finish env ex work contestid n (sys_p s) (sys_g s) = (ret, p, g) \<Longrightarrow>
    sys_step s (s\<lparr>sys_p := p, sys_g := g, loading := False,
      gen_main := (if ret = 0 then next_gen s else gen_main s),
      next_gen := (if ret = 0 then next_gen s + 1 else next_gen s)\<rparr>)"
| retrieve: "\<not> loading s \<Longrightarrow>
    ProblemRetrieveState want_work dopurge (sys_p s) (sys_g s) = (ret, out, p, g) \<Longrightarrow>
    sys_step s (s\<lparr>sys_p := p, sys_g := g\<rparr>)"

inductive_cases sys_step_cases: "sys_step s s'"

text \<open>The counters, which other problems count in too: \<open>base\<close> is what they contribute.\<close>

definition counters_ok :: "(nat \<Rightarrow> u32) \<Rightarrow> globals \<Rightarrow> 'm internal_problem \<Rightarrow> bool" where
  "counters_ok base g main \<longleftrightarrow> length (loaded_problems g) = CONTEST_COUNT + 1
     \<and> (\<forall>c. loaded_problems g ! project_id c
            = base (project_id c) + (if initialized main \<and> contest (pub_data main) = c then 1 else 0))
     \<and> loaded_problems g ! CONTEST_COUNT = base CONTEST_COUNT + (if initialized main then 1 else 0)"

definition sys_start :: "(nat \<Rightarrow> u32) \<Rightarrow> 'm sys \<Rightarrow> bool" where
  "sys_start base s \<longleftrightarrow> \<not> initialized (PICKPROB_MAIN (sys_p s)) \<and> \<not> running s \<and> \<not> loading s
     \<and> gen_main s < next_gen s \<and> counters_ok base (sys_g s) (PICKPROB_MAIN (sys_p s))"

inductive sys_reach :: "(nat \<Rightarrow> u32) \<Rightarrow> 'm sys \<Rightarrow> bool" for base where
  reach_start: "sys_start base s \<Longrightarrow> sys_reach base s"
| reach_step: "sys_reach base s \<Longrightarrow> sys_step s s' \<Longrightarrow> sys_reach base s'"

definition sys_inv :: "(nat \<Rightarrow> u32) \<Rightarrow> 'm sys \<Rightarrow> bool" where
  "sys_inv base s \<longleftrightarrow>
     (let main = PICKPROB_MAIN (sys_p s); core = PICKPROB_CORE (sys_p s); temp = PICKPROB_TEMP (sys_p s) in
      gen_main s < next_gen s
      \<and> (running s \<and> started main \<and> initialized main \<longrightarrow>
           gen_core s = gen_main s \<and> initialized core \<and> contest (pub_data core) = contest (pub_data main))
      \<and> (loading s \<and> \<not> initialized temp \<longrightarrow> \<not> initialized main)
      \<and> counters_ok base (sys_g s) main)"

text \<open>The frames of the operations.\<close>

lemma run_core_frame:
  "run_core ip = (retcode, n, r, ip') \<Longrightarrow> initialized ip' = initialized ip \<and> started ip' = started ip
    \<and> contest (pub_data ip') = contest (pub_data ip)"
  by (auto simp: run_core_def Run_RC5_72_def call_core_72_def Run_OGR_P2_def Run_OGR_NG_def Let_def
      split: project.splits prod.splits if_splits)

lemma run_finish_main:
  assumes "run_finish c rs up (retcode, n, r) p g = (ret, p', g')"
  shows "loaded_problems g' = loaded_problems g" "PICKPROB_TEMP p' = PICKPROB_TEMP p"
    "\<not> run_stored retcode p \<Longrightarrow> PICKPROB_MAIN p' = PICKPROB_MAIN p"
    "run_stored retcode p \<Longrightarrow> initialized (PICKPROB_MAIN p') = initialized (PICKPROB_CORE p)
       \<and> contest (pub_data (PICKPROB_MAIN p')) = contest (pub_data (PICKPROB_MAIN p))"
proof -
  obtain core s where cr: "compute_run_times c rs up (s_using_ptime g) r
      ((PICKPROB_CORE p)\<lparr>pub_data := pub_data (PICKPROB_MAIN p)\<rparr>) = (core, s)"
    by (rule prod.exhaust)
  note fr = compute_run_times_frame [OF arg_cong [OF cr, of fst], simplified]
  show "loaded_problems g' = loaded_problems g" "PICKPROB_TEMP p' = PICKPROB_TEMP p"
    "\<not> run_stored retcode p \<Longrightarrow> PICKPROB_MAIN p' = PICKPROB_MAIN p"
    "run_stored retcode p \<Longrightarrow> initialized (PICKPROB_MAIN p') = initialized (PICKPROB_CORE p)
       \<and> contest (pub_data (PICKPROB_MAIN p')) = contest (pub_data (PICKPROB_MAIN p))"
    using assms fr by (auto simp: run_finish_def Let_def cr run_stored_def copy_internal_problem_def
        split: if_splits)
qed

lemma project_id_inject [simp]: "project_id c = project_id c' \<longleftrightarrow> c = c'"
  by (cases c; cases c') simp_all

lemma project_id_less: "project_id c < 7"
  by (cases c) simp_all

lemma project_id_neq [simp]: "project_id c \<noteq> 7" "7 \<noteq> project_id c"
  using project_id_less [of c] by simp_all

lemma counters_ok_load:
  assumes "counters_ok base g main" "\<not> initialized main" "initialized main'" "contest (pub_data main') = c"
    "loaded_problems g' = loaded_problems (count_problem (\<lambda>n. n + 1) c g)"
  shows "counters_ok base g' main'"
  using assms project_id_less [of c]
  by (auto simp: counters_ok_def count_problem_def Let_def CONTEST_COUNT_def nth_list_update)

lemma counters_ok_purge:
  assumes "counters_ok base g main" "initialized main" "\<not> initialized main'" "contest (pub_data main) = c"
    "loaded_problems g' = loaded_problems (count_problem (\<lambda>n. n - 1) c g)"
  shows "counters_ok base g' main'"
  using assms project_id_less [of c]
  by (auto simp: counters_ok_def count_problem_def Let_def CONTEST_COUNT_def nth_list_update)

lemma load_finish_main:
  assumes "load_finish env ex work c n p g = (ret, p', g')" 
  shows "PICKPROB_CORE p' = PICKPROB_CORE p"
    "ret \<noteq> 0 \<Longrightarrow> PICKPROB_MAIN p' = PICKPROB_MAIN p \<and> loaded_problems g' = loaded_problems g"
    "ret = 0 \<Longrightarrow> InternalLoadState env ex work c n (PICKPROB_TEMP p) g = (0, PICKPROB_MAIN p', g')"
proof -
  show "PICKPROB_CORE p' = PICKPROB_CORE p"
    "ret = 0 \<Longrightarrow> InternalLoadState env ex work c n (PICKPROB_TEMP p) g = (0, PICKPROB_MAIN p', g')"
    using assms by (auto simp: load_finish_def Let_def copy_internal_problem_def split: prod.splits if_splits)
  assume r: "ret \<noteq> 0"
  have rc5: "loaded_problems g2 = loaded_problems g"
    if "load_rc5_72 env ex w ip g = (r', ip', g2)" for w ip r' ip' g2
    using that by (auto simp: load_rc5_72_def Let_def split: prod.splits if_splits)
  have "loaded_problems g2 = loaded_problems g"
    if "InternalLoadState env ex work c n ip g = (r', ip', g2)" "r' \<noteq> 0" for r' ip ip' g2
    using that unfolding InternalLoadState_def Let_def
    by (auto split: option.splits if_splits prod.splits project.splits dest: rc5)
  then show "PICKPROB_MAIN p' = PICKPROB_MAIN p \<and> loaded_problems g' = loaded_problems g"
    using assms r by (auto simp: load_finish_def Let_def copy_internal_problem_def split: prod.splits if_splits)
qed

lemma sys_inv_step:
  assumes "sys_inv base s" "sys_step s s'"
  shows "sys_inv base s'"
  using assms(2)
proof cases
  case run_start
  then show ?thesis
    using assms(1) by (auto simp: sys_inv_def Let_def run_begin_def copy_internal_problem_def counters_ok_def)
next
  case run_skip
  then show ?thesis using assms(1) by (auto simp: sys_inv_def Let_def)
next
  case (run_end retcode n r core c runstart using_ptime ret p g)
  note m = run_finish_main [OF run_end(5)] and fr = run_core_frame [OF run_end(4)]
  have st: "run_stored retcode ((sys_p s)\<lparr>PICKPROB_CORE := core\<rparr>) = run_stored retcode (sys_p s)"
    by (simp add: run_stored_def)
  show ?thesis
  proof (cases "run_stored retcode (sys_p s)")
    case False
    then show ?thesis
      using assms(1) m(1-3) st by (auto simp: sys_inv_def Let_def run_end(1) counters_ok_def)
  next
    case True
    then have "initialized (PICKPROB_CORE (sys_p s))" "initialized (PICKPROB_MAIN (sys_p s))"
      "gen_core s = gen_main s"
      using assms(1) run_end(2) by (auto simp: sys_inv_def Let_def run_stored_def)
    then show ?thesis
      using assms(1) m(1,2,4) st True fr by (auto simp: sys_inv_def Let_def run_end(1) counters_ok_def)
  qed
next
  case load_start
  then show ?thesis
    using assms(1) by (auto simp: sys_inv_def Let_def load_begin_def copy_internal_problem_def counters_ok_def)
next
  case (load_end env ex work contestid n ret p g)
  note m = load_finish_main [OF load_end(3)]
  show ?thesis
  proof (cases "ret = 0")
    case False
    then show ?thesis
      using assms(1) m(1,2) by (auto simp: sys_inv_def Let_def load_end(1) counters_ok_def)
  next
    case True
    note i = InternalLoadState_ok [OF m(3) [OF True]]
    have "\<not> initialized (PICKPROB_MAIN (sys_p s))"
      using assms(1) load_end(2) i(1) by (auto simp: sys_inv_def Let_def)
    then have "counters_ok base g (PICKPROB_MAIN p)"
      using counters_ok_load [OF _ _ i(2,5,7)] assms(1) by (auto simp: sys_inv_def Let_def)
    then show ?thesis
      using i(3) True assms(1) by (auto simp: sys_inv_def Let_def load_end(1))
  qed
next
  case (retrieve want_work dopurge ret out p g)
  let ?main = "PICKPROB_MAIN (sys_p s)"
  have r: "PICKPROB_CORE p = PICKPROB_CORE (sys_p s)" "PICKPROB_TEMP p = PICKPROB_TEMP (sys_p s)"
    "started (PICKPROB_MAIN p) = started ?main" "contest (pub_data (PICKPROB_MAIN p)) = contest (pub_data ?main)"
    "initialized (PICKPROB_MAIN p) = (initialized ?main \<and> \<not> dopurge)"
    "loaded_problems g = (if initialized ?main \<and> dopurge
       then loaded_problems (count_problem (\<lambda>n. n - 1) (contest (pub_data ?main)) (sys_g s))
       else loaded_problems (sys_g s))"
    using retrieve(3) by (auto simp: ProblemRetrieveState_def Let_def split: if_splits)
  have "counters_ok base g (PICKPROB_MAIN p)"
  proof (cases "initialized ?main \<and> dopurge")
    case True
    then show ?thesis
      using counters_ok_purge [of base "sys_g s" ?main "PICKPROB_MAIN p" _ g] assms(1) r
      by (simp add: sys_inv_def Let_def)
  next
    case False
    then show ?thesis using assms(1) r by (auto simp: sys_inv_def Let_def counters_ok_def)
  qed
  then show ?thesis
    using assms(1) r by (auto simp: sys_inv_def Let_def retrieve(1))
qed

lemma sys_reach_inv: "sys_reach base s \<Longrightarrow> sys_inv base s"
proof (induction rule: sys_reach.induct)
  case (reach_start s)
  then show ?case by (auto simp: sys_start_def sys_inv_def Let_def)
qed (rule sys_inv_step)

section \<open>Properties\<close>


text \<open>The state of the witness: a run was started on the unused problem, then a work was loaded.\<close>

definition stale_start :: "unit sys" where
  "stale_start = \<lparr>sys_p = unused_super, sys_g = start_globals, gen_main = 0, gen_core = 0, next_gen = 1,
     running = False, loading = False\<rparr>"

lemma stale_start_ok: "sys_start (\<lambda>_. 0) stale_start"
proof -
  have "replicate 8 (0::u32) ! project_id c = 0" for c by (cases c) simp_all
  then show ?thesis
    by (auto simp: sys_start_def stale_start_def unused_super_def unused_problem_def counters_ok_def
        start_globals_def CONTEST_COUNT_def)
qed

lemma run_begin_temp [simp]: "PICKPROB_TEMP (run_begin p) = PICKPROB_TEMP p"
  by (simp add: run_begin_def Let_def)

lemma stale_reach:
  "\<exists>s :: unit sys. sys_reach (\<lambda>_. 0) s \<and> running s \<and> gen_core s = 0 \<and> gen_main s = 1 \<and> initialized (PICKPROB_MAIN (sys_p s))"
proof -
  define s1 where "s1 = stale_start\<lparr>sys_p := load_begin (sys_p stale_start), loading := True\<rparr>"
  define s2 where "s2 = s1\<lparr>sys_p := run_begin (sys_p s1), gen_core := gen_main s1, running := True\<rparr>"
  have s1: "sys_reach (\<lambda>_. 0) s1"
    unfolding s1_def by (rule reach_step [OF reach_start [OF stale_start_ok]])
      (rule sys_step.load_start, simp add: stale_start_def)
  have s2: "sys_reach (\<lambda>_. 0) s2"
    unfolding s2_def by (rule reach_step [OF s1], rule sys_step.run_start) (simp add: s1_def stale_start_def)
  obtain p' g' where l: "ProblemLoadState ansi4_env ansi4_expected (Work small_work) RC5_72 1000
      unused_super start_globals = (0, p', g')"
    using small_load by blast
  have temp: "PICKPROB_TEMP (sys_p s2) = PICKPROB_TEMP (load_begin unused_super)"
    by (simp add: s2_def s1_def stale_start_def run_begin_def Let_def)
  obtain p g where f: "load_finish ansi4_env ansi4_expected (Work small_work) RC5_72 1000 (sys_p s2) (sys_g s2) = (0, p, g)"
    "PICKPROB_MAIN p = PICKPROB_MAIN p'"
  proof -
    obtain ip where i: "InternalLoadState ansi4_env ansi4_expected (Work small_work) RC5_72 1000
        (PICKPROB_TEMP (load_begin unused_super)) start_globals = (0, ip, g')" "PICKPROB_MAIN p' = ip"
      using l by (auto simp: ProblemLoadState_def load_finish_def Let_def copy_internal_problem_def
          split: prod.splits if_splits)
    then show ?thesis
      using that by (simp add: load_finish_def temp s2_def s1_def stale_start_def copy_internal_problem_def)
  qed
  define s3 where "s3 = s2\<lparr>sys_p := p, sys_g := g, loading := False,
      gen_main := (if (0::int) = 0 then next_gen s2 else gen_main s2),
      next_gen := (if (0::int) = 0 then next_gen s2 + 1 else next_gen s2)\<rparr>"
  have "sys_reach (\<lambda>_. 0) s3"
    unfolding s3_def by (rule reach_step [OF s2], rule sys_step.load_end [OF _ f(1)])
      (simp add: s2_def s1_def)
  moreover have "running s3 \<and> gen_core s3 = 0 \<and> gen_main s3 = 1 \<and> initialized (PICKPROB_MAIN (sys_p s3))"
    using InternalLoadState_ok(2) [OF ProblemLoadState_ok(1) [OF l]] f(2)
    by (simp add: s3_def s2_def s1_def stale_start_def)
  ultimately show ?thesis by blast
qed


text \<open>C32: the counters of loaded problems are right in every state that the threads can reach: over
  what the other problems contribute, the total and the counter of the contest are one up exactly
  while the problem is initialized.\<close>

theorem ProblemCountLoaded_counts:
  assumes "sys_reach base s"
  shows "ProblemCountLoaded (sys_g s) (-1)
      = base CONTEST_COUNT + (if initialized (PICKPROB_MAIN (sys_p s)) then 1 else 0)
    \<and> ProblemCountLoaded (sys_g s) (int (project_id c))
      = base (project_id c) + (if initialized (PICKPROB_MAIN (sys_p s))
          \<and> contest (pub_data (PICKPROB_MAIN (sys_p s))) = c then 1 else 0)"
  using sys_reach_inv [OF assms] project_id_less [of c]
  by (simp add: sys_inv_def Let_def counters_ok_def ProblemCountLoaded_def CONTEST_COUNT_def)

theorem ProblemCountLoaded_counts_witness:
  "\<exists>s. initialized (PICKPROB_MAIN (sys_p (s :: unit sys))) \<and> ProblemCountLoaded (sys_g s) (-1) = 1"
proof -
  obtain s :: "unit sys" where s: "sys_reach (\<lambda>_. 0) s" "initialized (PICKPROB_MAIN (sys_p s))"
    using stale_reach by force
  then show ?thesis
    using ProblemCountLoaded_counts [OF s(1), of RC5_72] by auto
qed


text \<open>C36: a load that fails returns -1 or -2 and leaves the main copy, the core's copy and the counters
  as they were.\<close>

theorem failed_load_is_harmless:
  assumes "ProblemLoadState env ex work c n p g = (r, p', g')" "r \<noteq> 0"
  shows "r < 0 \<and>
    PICKPROB_MAIN p' = PICKPROB_MAIN p \<and>
    PICKPROB_CORE p' = PICKPROB_CORE p \<and>
    loaded_problems g' = loaded_problems g"
  using ProblemLoadState_fails [OF assms] load_finish_main(2) [of env ex work c n "load_begin p" g r p' g']
    assms by (simp_all add: ProblemLoadState_def)

theorem failed_load_is_harmless_witness:
  "\<exists>p' g'. ProblemLoadState ansi4_env ansi4_expected
       (Work (zero_work\<lparr>cw_bigcrypto := zero_bigcrypto\<lparr>b_key := \<lparr>k_hi = 0x100, k_mid = 0, k_lo = 0\<rparr>,
          b_randomsubspace := 0x123\<rparr>\<rparr>)) RC5_72 1000 unused_super start_globals = (-1, p', g')
     \<and> PICKPROB_MAIN p' = unused_problem \<and> rc5_72_random_subspace g' = 0x123"
proof -
  let ?w = "Work (zero_work\<lparr>cw_bigcrypto := zero_bigcrypto\<lparr>b_key := \<lparr>k_hi = 0x100, k_mid = 0, k_lo = 0\<rparr>,
          b_randomsubspace := 0x123\<rparr>\<rparr>)"
  obtain p' g' where l: "ProblemLoadState ansi4_env ansi4_expected ?w RC5_72 1000 unused_super start_globals = (-1, p', g')"
    "rc5_72_random_subspace g' = 0x123"
    by (simp add: ProblemLoadState_def load_begin_def load_finish_def copy_internal_problem_def
      InternalLoadState_def load_rc5_72_def reset_problem_def unused_super_def unused_problem_def
      ansi4_env_def ansi4_expected_def zero_bigcrypto_def start_globals_def
      IsProblemLoadPermitted_def MINIMUM_ITERATIONS_def ProblemSetRandomSubspace_def Let_def)
  then show ?thesis
    using failed_load_is_harmless [OF l(1)] by (simp add: unused_super_def)
qed

lemma ogr_error_run:
  assumes "initialized (PICKPROB_MAIN p)" "last_resultcode (PICKPROB_MAIN p) = RES_WORKING"
    and "contest (pub_data (PICKPROB_MAIN p)) = OGR_NG"
    and "fst (od_cycle (uf_ogr_ng (unit_func (pub_data (PICKPROB_MAIN p)))) (core_membuffer (PICKPROB_MAIN p))
        (sint (tslice (pub_data (PICKPROB_MAIN p)))) False) < 0"
  shows "\<exists>p'. ProblemRun c p g = (RES_WORKING, p', g) \<and> initialized (PICKPROB_MAIN p')
    \<and> last_resultcode (PICKPROB_MAIN p') = RES_WORKING
    \<and> contest (pub_data (PICKPROB_MAIN p')) = OGR_NG
    \<and> unit_func (pub_data (PICKPROB_MAIN p')) = unit_func (pub_data (PICKPROB_MAIN p))
    \<and> tslice (pub_data (PICKPROB_MAIN p')) = tslice (pub_data (PICKPROB_MAIN p))
    \<and> core_membuffer (PICKPROB_MAIN p') = core_membuffer (PICKPROB_MAIN p)"
  using assms
  by (auto simp: ProblemRun_def run_begin_def copy_internal_problem_def Let_def run_core_def Run_OGR_NG_def
      run_finish_def CORE_S_OK_def CORE_S_CONTINUE_def CORE_S_SUCCESS_def split: prod.split)

text \<open>A problem of OGR-NG whose core fails is never discarded: every run calls the core again on
  the same memory and returns \<open>RESULT_WORKING\<close>, so repeating the runs never ends.\<close>

theorem ogr_error_is_retried_forever:
  assumes "initialized (PICKPROB_MAIN p)" "last_resultcode (PICKPROB_MAIN p) = RES_WORKING"
    and "contest (pub_data (PICKPROB_MAIN p)) = OGR_NG"
    and "fst (od_cycle (uf_ogr_ng (unit_func (pub_data (PICKPROB_MAIN p)))) (core_membuffer (PICKPROB_MAIN p))
        (sint (tslice (pub_data (PICKPROB_MAIN p)))) False) < 0"
  shows "\<exists>p'. run_repeat runs clocks p g = (RES_WORKING, p', g)
    \<and> ProblemIsInitialized p' = -1 \<and> core_membuffer (PICKPROB_MAIN p') = core_membuffer (PICKPROB_MAIN p)"
  using assms
proof (induction runs arbitrary: p)
  case 0
  then show ?case by (simp add: ProblemIsInitialized_def Let_def RES_WORKING_def)
next
  case (Suc runs)
  obtain p1 where s: "ProblemRun (clocks runs) p g = (RES_WORKING, p1, g)" "initialized (PICKPROB_MAIN p1)"
    "last_resultcode (PICKPROB_MAIN p1) = RES_WORKING" "contest (pub_data (PICKPROB_MAIN p1)) = OGR_NG"
    "unit_func (pub_data (PICKPROB_MAIN p1)) = unit_func (pub_data (PICKPROB_MAIN p))"
    "tslice (pub_data (PICKPROB_MAIN p1)) = tslice (pub_data (PICKPROB_MAIN p))"
    "core_membuffer (PICKPROB_MAIN p1) = core_membuffer (PICKPROB_MAIN p)"
    using ogr_error_run [OF Suc.prems, of "clocks runs" g] by blast
  then show ?case using Suc.IH [of p1] Suc.prems(4) by simp
qed

theorem ogr_error_is_retried_forever_witness:
  "\<exists>p'. run_repeat 1000 (\<lambda>_. idle_clocks) (unused_super\<lparr>PICKPROB_MAIN := unused_problem\<lparr>initialized := True,
       last_resultcode := RES_WORKING, pub_data := (pub_data unused_problem)\<lparr>contest := OGR_NG\<rparr>\<rparr>\<rparr>) start_globals
     = (RES_WORKING, p', start_globals)"
  using ogr_error_is_retried_forever [of "unused_super\<lparr>PICKPROB_MAIN := unused_problem\<lparr>initialized := True,
       last_resultcode := RES_WORKING, pub_data := (pub_data unused_problem)\<lparr>contest := OGR_NG\<rparr>\<rparr>\<rparr>" 1000]
  by (fastforce simp: unused_problem_def ansi4_funcs_def idle_ogr_def)

end
