(* ===== verification/SelfTest.thy ===== *)
theory SelfTest
  imports ProblemRc5
begin

text \<open>
  The self-test of RC5-72 in \<open>common/selftest.cpp\<close>: how a row of the table of test cases becomes a
  work, and what the first row, the official test case of RSA, says about the model: its key does
  encrypt its plain text to its cypher text under the model of the reference core.
\<close>

text \<open>A row: the expected key from the top, the iv, the plain text and the cypher text, each low half
  first, and the flag of the outcome. The first row of the table, and the work that the self-test
  number \<open>testnum\<close> makes from a row.\<close>

definition rc5_72_test_case_0 :: "u32 list" where
  "rc5_72_test_case_0 = [0x000000C9, 0x0C0353C0, 0xD4E1FE85, 0x1F59CE07, 0x419A1486, 0x20656854, 0x6E6B6E75,
     0x562D285A, 0x2FB7852A, 0x00000001]"

definition selftest_key :: "nat \<Rightarrow> u32 list \<Rightarrow> key72" where
  "selftest_key testnum row =
     (let expectedsolution_lo = row ! 2;
          key = \<lparr>k_hi = row ! 0, k_mid = row ! 1, k_lo = expectedsolution_lo AND 0xFFFF0000\<rparr>
      in if testnum > 1 \<and> testnum \<le> 7 then
           let key = key\<lparr>k_lo := k_lo key - 0x00010000\<rparr>
           in if expectedsolution_lo AND 0xFFFF0000 = 0 then
                let key = key\<lparr>k_mid := k_mid key - 1\<rparr>
                in if NOT (k_mid key) = 0 then key\<lparr>k_hi := k_hi key - 1\<rparr> else key
              else key
         else key)"

definition selftest_work :: "nat \<Rightarrow> u32 list \<Rightarrow> contestwork" where
  "selftest_work testnum row = zero_work\<lparr>cw_bigcrypto := zero_bigcrypto\<lparr>b_key := selftest_key testnum row,
     b_iv_lo := row ! 3, b_iv_hi := row ! 4, b_plain_lo := row ! 5, b_plain_hi := row ! 6,
     b_cypher_lo := row ! 7, b_cypher_hi := row ! 8, b_keysdone_lo := 0, b_keysdone_hi := 0,
     b_iterations_lo := 0x00020000, b_iterations_hi := 0, b_randomsubspace := 0xFFFF\<rparr>\<rparr>"

lemma test_case_0_encrypts:
  "rc5_encrypt (SwitchRC572Format \<lparr>k_hi = 0xC9, k_mid = 0x0C0353C0, k_lo = 0xD4E1FE85\<rparr>)
     (0x6E6B6E75 XOR 0x419A1486) (0x20656854 XOR 0x1F59CE07) = (0x562D285A, 0x2FB7852A)"
  by code_simp

lemma number_key_test: "number_key 0xC90C0353C0D4E1FE85 = \<lparr>k_hi = 0xC9, k_mid = 0x0C0353C0, k_lo = 0xD4E1FE85\<rparr>"
  using number_key_val [of "0xC90C0353C0D4E1FE85"]
  by (intro plain_val_inject) (simp_all add: key_ok_def is_byte_iff plain_val_def)

definition test_bigcrypto :: bigcrypto where
  "test_bigcrypto = cw_bigcrypto (selftest_work 0 rc5_72_test_case_0)"

lemma test_bigcrypto:
  "plain_val (b_key test_bigcrypto) = 0xC90C0353C0D4E10000" "keysdone test_bigcrypto = 0"
  "iterations test_bigcrypto = 0x20000" "position test_bigcrypto = 0xC90C0353C0D4E10000"
  "solves test_bigcrypto 0xC90C0353C0D4E1FE85"
proof -
  have k: "b_key test_bigcrypto = \<lparr>k_hi = 0xC9, k_mid = 0x0C0353C0, k_lo = 0xD4E10000\<rparr>"
    by (simp add: test_bigcrypto_def selftest_work_def selftest_key_def rc5_72_test_case_0_def)
  show v: "plain_val (b_key test_bigcrypto) = 0xC90C0353C0D4E10000"
    by (simp add: k plain_val_def)
  show kd: "keysdone test_bigcrypto = 0" "iterations test_bigcrypto = 0x20000"
    by (simp_all add: test_bigcrypto_def selftest_work_def zero_bigcrypto_def keysdone_def iterations_def v64_def)
  show "position test_bigcrypto = 0xC90C0353C0D4E10000" by (simp add: position_def v kd)
  show "solves test_bigcrypto 0xC90C0353C0D4E1FE85"
    unfolding solves_def number_key_test using test_case_0_encrypts
    by (simp add: test_bigcrypto_def selftest_work_def rc5_72_test_case_0_def)
qed

text \<open>Any core that keeps the contract and takes a multiple of its keys in 48 solves the test.\<close>

context rc5_72_core
begin

lemma test_0_solved:
  assumes "ProblemLoadState env ex (Work (selftest_work 0 rc5_72_test_case_0)) RC5_72 n p g = (0, p1, g1)"
    and "sc_use_generic_proto (le_selinfo env)"
    and "gen_72 (sc_unit_func (le_selinfo env)) = gen_of_core core"
    and "N dvd position test_bigcrypto" "M dvd 48"
  shows "\<exists>p2 g2 m. run_repeat 4097 clocks p1 g1 = (RES_FOUND, p2, g2)
    \<and> plain_val (b_key (cw_bigcrypto (contestwork (PICKPROB_MAIN p2)))) = m
    \<and> 0xC90C0353C0D4E10000 \<le> m \<and> m \<le> 0xC90C0353C0D4E1FE85
    \<and> solves test_bigcrypto m \<and> solves test_bigcrypto 0xC90C0353C0D4E1FE85"
proof -
  define ip where "ip = reset_problem env RC5_72 n False False (PICKPROB_MAIN p)"
  obtain ip1 g' where l: "load_rc5_72 env ex (selftest_work 0 rc5_72_test_case_0) ip g = (0, ip1, g')"
    "PICKPROB_MAIN p1 = finish_load env ip1"
    using ProblemLoadState_ok(1) [OF assms(1), unfolded InternalLoadState_def]
    by (auto simp: Let_def ip_def split: if_splits prod.splits)
  have b: "test_bigcrypto = cw_bigcrypto (contestwork (PICKPROB_MAIN p1))"
    using load_rc5_72_ok(2) [OF l(1) refl refl] l(2)
    by (simp add: test_bigcrypto_def selftest_work_def zero_bigcrypto_def)
  note ready = load_ready [OF assms(1-3) b assms(4)]
  obtain r p2 g2 where r: "run_repeat 4097 clocks p1 g1 = (r, p2, g2)"
    "search_outcome test_bigcrypto r (cw_bigcrypto (contestwork (PICKPROB_MAIN p2)))"
    using run_repeat_search [OF ready(1) assms(5) ready(2,3) b, of 4097 clocks g1]
    by (auto simp: test_bigcrypto)
  have "r \<noteq> RES_NOTHING"
    using r(2) test_bigcrypto by (auto simp: search_outcome_def RES_FOUND_def RES_NOTHING_def)
  then obtain m where m: "r = RES_FOUND" "position test_bigcrypto \<le> m" "solves test_bigcrypto m"
    "\<forall>i. position test_bigcrypto \<le> i \<and> i < m \<longrightarrow> \<not> solves test_bigcrypto i"
    "plain_val (b_key (cw_bigcrypto (contestwork (PICKPROB_MAIN p2)))) = m"
    using r(2) unfolding search_outcome_def by blast
  have "m \<le> 0xC90C0353C0D4E1FE85"
  proof (rule ccontr)
    assume "\<not> m \<le> 0xC90C0353C0D4E1FE85"
    then have "position test_bigcrypto \<le> 0xC90C0353C0D4E1FE85 \<and> 0xC90C0353C0D4E1FE85 < m"
      by (simp add: test_bigcrypto(4))
    then show False using m(4) test_bigcrypto(5) by blast
  qed
  then show ?thesis using r(1) m test_bigcrypto(4,5) by auto
qed

end

lemma test_0_load:
  "\<exists>p1 g1. ProblemLoadState ansi4_env ansi4_expected (Work (selftest_work 0 rc5_72_test_case_0)) RC5_72 1000
       unused_super start_globals = (0, p1, g1)"
  by (simp add: ProblemLoadState_def load_begin_def load_finish_def copy_internal_problem_def
    InternalLoadState_def load_rc5_72_def reset_problem_def unused_super_def unused_problem_def
    ansi4_env_def selftest_work_def selftest_key_def rc5_72_test_case_0_def zero_bigcrypto_def
    IsProblemLoadPermitted_def MINIMUM_ITERATIONS_def ProblemSetRandomSubspace_def Let_def finish_load_def)

section \<open>Properties\<close>

text \<open>The first self-test, the official test case of RSA, is solved: with the portable core with four
  pipelines, loading its work and running it ends with \<open>RESULT_FOUND\<close>, at a key of the block that
  solves it and is not after the expected one, which solves it too.\<close>

theorem selftest_0_is_solved:
  assumes "ProblemLoadState env ex (Work (selftest_work 0 rc5_72_test_case_0)) RC5_72 n p g = (0, p1, g1)"
    and "sc_use_generic_proto (le_selinfo env)"
    and "gen_72 (sc_unit_func (le_selinfo env)) = gen_of_core rc5_72_unit_func_ansi_4"
  shows "\<exists>p2 g2 m. run_repeat 4097 clocks p1 g1 = (RES_FOUND, p2, g2)
    \<and> plain_val (b_key (cw_bigcrypto (contestwork (PICKPROB_MAIN p2)))) = m
    \<and> 0xC90C0353C0D4E10000 \<le> m \<and> m \<le> 0xC90C0353C0D4E1FE85
    \<and> solves test_bigcrypto m \<and> solves test_bigcrypto 0xC90C0353C0D4E1FE85"
  using ansi4.test_0_solved [OF assms] by (simp add: test_bigcrypto)

theorem selftest_0_is_solved_witness:
  "\<exists>p1 g1 p2 g2. ProblemLoadState ansi4_env ansi4_expected (Work (selftest_work 0 rc5_72_test_case_0)) RC5_72 1000
       unused_super start_globals = (0, p1, g1)
     \<and> run_repeat 4097 (\<lambda>_. idle_clocks) p1 g1 = (RES_FOUND, p2, g2)"
proof -
  obtain p1 g1 where l: "ProblemLoadState ansi4_env ansi4_expected (Work (selftest_work 0 rc5_72_test_case_0)) RC5_72 1000
       unused_super start_globals = (0, p1, g1)" using test_0_load by blast
  then show ?thesis
    using selftest_0_is_solved [OF l ansi4_env_simps, of "\<lambda>_. idle_clocks"] by auto
qed

end
