(* ===== verification/Base64.thy ===== *)
theory Base64
  imports Prelude
begin

text \<open>
  The Base64 codec of \<open>common/base64.cpp\<close>. A \<open>char\<close> is a byte that is sign-extended where it is
  promoted to \<open>int\<close>, as the compilers of the supported platforms do. The encoder's output is the
  list of the bytes it writes, in order; the decoder works on a memory, since its buffers may be
  the same. A read outside of the decoder's table, which is undefined in C++, is the value \<open>None\<close>.
\<close>

section \<open>The code\<close>

definition base64table :: "u8 list" where
  "base64table = map of_nat ([65..<91] @ [97..<123] @ [48..<58] @ [43, 47])"

text \<open>Promotion to \<open>int\<close> and its arithmetic shift to the right.\<close>

definition promote :: "u8 \<Rightarrow> u32" where
  "promote c = scast c"

definition sar :: "u32 \<Rightarrow> nat \<Rightarrow> u32" where
  "sar x n = signed_drop_bit n x"

definition B64_ENC :: "u32 \<Rightarrow> u8" where
  "B64_ENC ch = base64table ! unat ((ucast ch :: u8) AND 63)"

fun encode_loop :: "u8 list \<Rightarrow> u8 list" where
  "encode_loop (b0 # b1 # b2 # inbuf) =
     [B64_ENC (sar (promote b0) 2),
      B64_ENC ((shl (promote b0) 4 AND 0x30) OR (sar (promote b1) 4 AND 0x0F)),
      B64_ENC ((shl (promote b1) 2 AND 0x3C) OR (sar (promote b2) 6 AND 0x03)),
      B64_ENC (promote b2 AND 0x3F)] @ encode_loop inbuf"
| "encode_loop [b0] =
     [B64_ENC (sar (promote b0) 2), B64_ENC (shl (promote b0) 4 AND 0x30), 61, 61]"
| "encode_loop [b0, b1] =
     [B64_ENC (sar (promote b0) 2),
      B64_ENC ((shl (promote b0) 4 AND 0x30) OR (sar (promote b1) 4 AND 0x0F)),
      B64_ENC (shl (promote b1) 2 AND 0x3C), 61]"
| "encode_loop [] = []"

text \<open>\<open>base64_encode\<close>: the return value and what is written from \<open>outbuf\<close> on.\<close>

definition base64_encode :: "u32 \<Rightarrow> u8 list \<Rightarrow> int \<times> u8 list" where
  "base64_encode outbuflen inbuf =
     (let inbuflen = of_nat (length inbuf) :: u32;
          errors = outbuflen < ((inbuflen + 2) div 3) * 4;
          written = (if errors then [] else encode_loop inbuf);
          outlen = length written;
          written = (if of_nat outlen < outbuflen then written @ [0] else written)
      in (if errors then -1 else int outlen, written))"

definition decoder :: "u8 list" where
  "decoder = foldl (\<lambda>d c. d[unat (base64table ! c) := of_nat (c + 1)]) (replicate 256 0) (rev [0..<64])"

type_synonym memory = "nat \<Rightarrow> u8"

record b64 =
  b64_mem :: memory
  read_pos :: nat
  b64_bits :: u32
  char_count :: nat
  outlen :: nat
  b64_errors :: bool

definition put :: "nat \<Rightarrow> u32 \<Rightarrow> b64 \<Rightarrow> b64" where
  "put outbuf x s = s\<lparr>b64_mem := (b64_mem s)(outbuf + outlen s := ucast x), outlen := outlen s + 1\<rparr>"

text \<open>The branch for the end mark.\<close>

definition decode_pad :: "nat \<Rightarrow> nat \<Rightarrow> b64 \<Rightarrow> b64" where
  "decode_pad outbuf outbuflen s =
     (let bits = b64_bits s in
      if char_count s = 1 then s\<lparr>b64_errors := True\<rparr>
      else if char_count s = 2 then
        if outbuflen - outlen s < 1 then s\<lparr>b64_errors := True\<rparr>
        else put outbuf (shr bits 10 AND 0xff) s
      else if char_count s = 3 then
        if outbuflen - outlen s < 2 then s\<lparr>b64_errors := True\<rparr>
        else put outbuf (shr bits 8 AND 0xff) (put outbuf (shr bits 16 AND 0xff) s)
      else s)"

text \<open>The branch for a character with the entry \<open>d\<close> of the table, which is 0 for one that is skipped.\<close>

definition decode_char :: "nat \<Rightarrow> nat \<Rightarrow> u8 \<Rightarrow> b64 \<Rightarrow> b64" where
  "decode_char outbuf outbuflen d s =
     (if d = 0 then s
      else
        let bits = b64_bits s + (ucast d - 1);
            s = s\<lparr>b64_bits := bits, char_count := char_count s + 1\<rparr>
        in
        if char_count s < 4 then s\<lparr>b64_bits := shl bits 6\<rparr>
        else if outbuflen - outlen s < 3 then s\<lparr>b64_errors := True\<rparr>
        else (put outbuf (bits AND 0xff) (put outbuf (shr bits 8 AND 0xff)
                (put outbuf (shr bits 16 AND 0xff) s)))\<lparr>b64_bits := 0, char_count := 0\<rparr>)"

lemma read_pos_put [simp]: "read_pos (put outbuf x s) = read_pos s"
  by (simp add: put_def)

lemma read_pos_decode_char [simp]: "read_pos (decode_char outbuf outbuflen d s) = read_pos s"
  by (simp add: decode_char_def Let_def)

text \<open>The code compares \<open>read_pos\<close>, which starts at 0 and is incremented, with \<open>inbuflen\<close> for equality.\<close>

function decode_loop :: "nat \<Rightarrow> nat \<Rightarrow> nat \<Rightarrow> nat \<Rightarrow> b64 \<Rightarrow> b64 option" where
  "decode_loop outbuf inbuf outbuflen inbuflen s =
     (if b64_errors s then Some s
      else if inbuflen \<le> read_pos s then
        Some (if char_count s \<noteq> 0 then s\<lparr>b64_errors := True\<rparr> else s)
      else
        let c = sint (b64_mem s (inbuf + read_pos s));
            s = s\<lparr>read_pos := read_pos s + 1\<rparr>
        in
        if c = 61 then Some (decode_pad outbuf outbuflen s)
        else if c < 0 then None
        else decode_loop outbuf inbuf outbuflen inbuflen (decode_char outbuf outbuflen (decoder ! nat c) s))"
  by pat_completeness auto

termination
  by (relation "measure (\<lambda>(outbuf, inbuf, outbuflen, inbuflen, s). inbuflen - read_pos s)") auto

declare decode_loop.simps [simp del]

definition base64_decode :: "memory \<Rightarrow> nat \<Rightarrow> nat \<Rightarrow> nat \<Rightarrow> nat \<Rightarrow> (int \<times> memory) option" where
  "base64_decode mem outbuf inbuf outbuflen inbuflen =
     (case decode_loop outbuf inbuf outbuflen inbuflen
         \<lparr>b64_mem = mem, read_pos = 0, b64_bits = 0, char_count = 0, outlen = 0, b64_errors = False\<rparr> of
        None \<Rightarrow> None
      | Some s \<Rightarrow>
          let mem = (if outlen s < outbuflen then (b64_mem s)(outbuf + outlen s := 0) else b64_mem s)
          in Some (if b64_errors s then -1 else int (outlen s), mem))"

section \<open>The encoding of the standard\<close>

text \<open>The digits of RFC 4648: three bytes are one number of four digits to the base 64, and a rest of
  one or two bytes is filled up with zero bits.\<close>

fun rfc_digits :: "nat list \<Rightarrow> nat list" where
  "rfc_digits (a # b # c # bs) =
     (let n = (a * 256 + b) * 256 + c
      in [n div 262144, n div 4096 mod 64, n div 64 mod 64, n mod 64]) @ rfc_digits bs"
| "rfc_digits [a] = [a * 16 div 64, a * 16 mod 64]"
| "rfc_digits [a, b] =
     (let n = (a * 256 + b) * 4 in [n div 4096, n div 64 mod 64, n mod 64])"
| "rfc_digits [] = []"

definition rfc_encode :: "u8 list \<Rightarrow> u8 list" where
  "rfc_encode bs =
     (let digits = map (\<lambda>d. base64table ! d) (rfc_digits (map unat bs))
      in digits @ replicate ((4 - length digits mod 4) mod 4) 61)"


section \<open>The digits\<close>

lemma base64table_eval: "base64table =
     [65, 66, 67, 68, 69, 70, 71, 72, 73, 74, 75, 76, 77, 78, 79, 80, 81, 82, 83, 84, 85, 86, 87, 88, 89,
     90, 97, 98, 99, 100, 101, 102, 103, 104, 105, 106, 107, 108, 109, 110, 111, 112, 113, 114, 115, 116,
     117, 118, 119, 120, 121, 122, 48, 49, 50, 51, 52, 53, 54, 55, 56, 57, 43, 47]"
  by code_simp

lemma decoder_eval: "decoder =
     [0, 0, 0, 0, 0, 0, 0, 0, 0, 0, 0, 0, 0, 0, 0, 0, 0, 0, 0, 0, 0, 0, 0, 0, 0, 0, 0, 0, 0, 0, 0, 0, 0,
     0, 0, 0, 0, 0, 0, 0, 0, 0, 0, 63, 0, 0, 0, 64, 53, 54, 55, 56, 57, 58, 59, 60, 61, 62, 0, 0, 0, 0,
     0, 0, 0, 1, 2, 3, 4, 5, 6, 7, 8, 9, 10, 11, 12, 13, 14, 15, 16, 17, 18, 19, 20, 21, 22, 23, 24, 25,
     26, 0, 0, 0, 0, 0, 0, 27, 28, 29, 30, 31, 32, 33, 34, 35, 36, 37, 38, 39, 40, 41, 42, 43, 44, 45,
     46, 47, 48, 49, 50, 51, 52, 0, 0, 0, 0, 0, 0, 0, 0, 0, 0, 0, 0, 0, 0, 0, 0, 0, 0, 0, 0, 0, 0, 0, 0,
     0, 0, 0, 0, 0, 0, 0, 0, 0, 0, 0, 0, 0, 0, 0, 0, 0, 0, 0, 0, 0, 0, 0, 0, 0, 0, 0, 0, 0, 0, 0, 0, 0,
     0, 0, 0, 0, 0, 0, 0, 0, 0, 0, 0, 0, 0, 0, 0, 0, 0, 0, 0, 0, 0, 0, 0, 0, 0, 0, 0, 0, 0, 0, 0, 0, 0,
     0, 0, 0, 0, 0, 0, 0, 0, 0, 0, 0, 0, 0, 0, 0, 0, 0, 0, 0, 0, 0, 0, 0, 0, 0, 0, 0, 0, 0, 0, 0, 0, 0,
     0, 0, 0, 0, 0, 0, 0, 0, 0, 0]"
  by code_simp

lemma table_inverse:
  "\<forall>d<64. sint (base64table ! d) \<noteq> 61 \<and> \<not> sint (base64table ! d) < 0
     \<and> decoder ! nat (sint (base64table ! d)) = of_nat (d + 1)"
proof -
  have "list_all (\<lambda>d. sint (base64table ! d) \<noteq> 61 \<and> \<not> sint (base64table ! d) < 0
     \<and> decoder ! nat (sint (base64table ! d)) = of_nat (d + 1)) [0..<64]"
    by (simp add: upt_rec [of _ "numeral k" for k] base64table_eval decoder_eval)
  then show ?thesis by (simp add: list_all_iff)
qed

lemma bit_promote: "n < 8 \<Longrightarrow> bit (promote c) n \<longleftrightarrow> bit c n"
proof (cases "n = 7")
  case False
  moreover assume "n < 8"
  ultimately have "n < 7" by simp
  then show ?thesis by (simp add: promote_def bit_signed_iff)
qed (simp add: promote_def bit_signed_iff)

lemma bit_promoteI: "bit c n \<Longrightarrow> bit (promote c) n"
  using bit_promote bit_imp_le_length [of c n] by simp

lemma bit_sar: "m + n < 32 \<Longrightarrow> bit (sar x m) n \<longleftrightarrow> bit x (m + n)"
  by (auto simp: sar_def bit_signed_drop_bit_iff)

lemma masks_6:
  "(0x3F::u8) = mask 6" "(0x3F::u32) = mask 6" "(0x30::u32) = push_bit 4 (mask 2)" "(0x0F::u32) = mask 4"
  "(0x3C::u32) = push_bit 2 (mask 4)" "(0x03::u32) = mask 2"
  by (simp_all add: mask_eq_exp_minus_1)

lemmas bit_6_simps = bit_and_iff bit_or_iff bit_ucast_iff bit_sar bit_promote bit_drop_bit_eq bit_shl
  bit_push_bit_iff bit_take_bit_iff bit_mask_iff

lemma digit_words:
  "(ucast (sar (promote b) 2) :: u8) AND 63 = drop_bit 2 b"
  "(ucast (shl (promote b) 4 AND 0x30) :: u8) AND 63 = push_bit 4 (take_bit 2 b)"
  "(ucast ((shl (promote b) 4 AND 0x30) OR (sar (promote c) 4 AND 0x0F)) :: u8) AND 63 = push_bit 4 (take_bit 2 b) OR drop_bit 4 c"
  "(ucast (shl (promote b) 2 AND 0x3C) :: u8) AND 63 = push_bit 2 (take_bit 4 b)"
  "(ucast ((shl (promote b) 2 AND 0x3C) OR (sar (promote c) 6 AND 0x03)) :: u8) AND 63 = push_bit 2 (take_bit 4 b) OR drop_bit 6 c"
  "(ucast (promote b AND 0x3F) :: u8) AND 63 = take_bit 6 b"
  unfolding masks_6
  by (rule bit_word_eqI; auto simp: bit_6_simps intro: bit_promoteI dest: bit_imp_le_length cong: conj_cong)+

lemma unat_bits:
  "unat (drop_bit 2 b :: u8) = unat b div 4"
  "unat (push_bit 4 (take_bit 2 b) :: u8) = unat b mod 4 * 16"
  "unat (push_bit 2 (take_bit 4 b) :: u8) = unat b mod 16 * 4"
  "unat (take_bit 6 b :: u8) = unat b mod 64"
  "unat (drop_bit 4 b :: u8) = unat b div 16"
  "unat (drop_bit 6 b :: u8) = unat b div 64"
proof -
  have "unat b mod 4 * 16 < 256" "unat b mod 16 * 4 < 256"
    using mod_less_divisor [of 4 "unat b"] mod_less_divisor [of 16 "unat b"] by linarith+
  then show "unat (drop_bit 2 b :: u8) = unat b div 4"
    "unat (push_bit 4 (take_bit 2 b) :: u8) = unat b mod 4 * 16"
    "unat (push_bit 2 (take_bit 4 b) :: u8) = unat b mod 16 * 4"
    "unat (take_bit 6 b :: u8) = unat b mod 64"
    "unat (drop_bit 4 b :: u8) = unat b div 16"
    "unat (drop_bit 6 b :: u8) = unat b div 64"
    by (simp_all only: unsigned_push_bit_eq unsigned_take_bit_eq unat_drop_bit_eq)
      (simp_all add: take_bit_eq_mod push_bit_eq_mult drop_bit_eq_div)
qed

lemma unat_or_bits:
  "unat (push_bit 4 (take_bit 2 b) OR drop_bit 4 c :: u8) = unat b mod 4 * 16 + unat c div 16"
  "unat (push_bit 2 (take_bit 4 b) OR drop_bit 6 c :: u8) = unat b mod 16 * 4 + unat c div 64"
proof -
  have lt: "unat b < 256" "unat c < 256" using unsigned_less [of b] unsigned_less [of c] by simp_all
  have "push_bit 4 (take_bit 2 b) OR drop_bit 4 c = push_bit 4 (take_bit 2 b) + drop_bit 4 c"
    by (rule or_eq_plus) (auto simp: bit_6_simps dest: bit_imp_le_length)
  moreover have "push_bit 2 (take_bit 4 b) OR drop_bit 6 c = push_bit 2 (take_bit 4 b) + drop_bit 6 c"
    by (rule or_eq_plus) (auto simp: bit_6_simps dest: bit_imp_le_length)
  ultimately show
    "unat (push_bit 4 (take_bit 2 b) OR drop_bit 4 c :: u8) = unat b mod 4 * 16 + unat c div 16"
    "unat (push_bit 2 (take_bit 4 b) OR drop_bit 6 c :: u8) = unat b mod 16 * 4 + unat c div 64"
    using lt mod_less_divisor [of 4 "unat b"] mod_less_divisor [of 16 "unat b"]
    by (simp_all only: unat_word_ariths unat_bits) simp_all
qed

lemmas digits = B64_ENC_def digit_words unat_or_bits unat_bits

lemma div_digit: "(d::nat) < k \<Longrightarrow> (q * k + d) div k = q" "(d::nat) < k \<Longrightarrow> (q * k + d) mod k = d"
  by simp_all

lemma base_64:
  fixes d0 d1 d2 d3 :: nat
  assumes "d1 < 64" "d2 < 64" "d3 < 64"
    and "n = ((d0 * 64 + d1) * 64 + d2) * 64 + d3"
  shows "n div 64 = (d0 * 64 + d1) * 64 + d2" "n div 4096 = d0 * 64 + d1" "n div 262144 = d0"
proof -
  show 1: "n div 64 = (d0 * 64 + d1) * 64 + d2"
    unfolding assms(4) by (rule div_digit) fact
  have "n div 4096 = n div 64 div 64" by (simp add: div_mult2_eq [symmetric])
  then show 2: "n div 4096 = d0 * 64 + d1"
    unfolding 1 using div_digit(1) [OF assms(2)] by simp
  have "n div 262144 = n div 4096 div 64" by (simp add: div_mult2_eq [symmetric])
  then show "n div 262144 = d0"
    unfolding 2 using div_digit(1) [OF assms(1)] by simp
qed

lemma group_digits:
  fixes a b c :: nat
  assumes "b < 256" "c < 256" and n: "n = (a * 256 + b) * 256 + c"
  shows "n div 262144 = a div 4" "n div 4096 mod 64 = a mod 4 * 16 + b div 16"
    "n div 64 mod 64 = b mod 16 * 4 + c div 64" "n mod 64 = c mod 64"
proof -
  define d1 d2 where "d1 = a mod 4 * 16 + b div 16" and "d2 = b mod 16 * 4 + c div 64"
  have "a mod 4 < 4" "b mod 16 < 16" "b div 16 < 16" "c div 64 < 4" "c mod 64 < 64"
    using assms by (simp_all add: less_mult_imp_div_less)
  then have lt: "d1 < 64" "d2 < 64" "c mod 64 < 64"
    unfolding d1_def d2_def by linarith+
  have s: "a = qa * 4 + ra \<Longrightarrow> b = qb * 16 + rb \<Longrightarrow> c = qc * 64 + rc \<Longrightarrow>
      (a * 256 + b) * 256 + c = ((qa * 64 + (ra * 16 + qb)) * 64 + (rb * 4 + qc)) * 64 + rc"
    for qa ra qb rb qc rc :: nat by simp
  then have e: "n = ((a div 4 * 64 + d1) * 64 + d2) * 64 + c mod 64"
    unfolding n d1_def d2_def
    using s [of "a div 4" "a mod 4" "b div 16" "b mod 16" "c div 64" "c mod 64"] by simp
  show "n div 262144 = a div 4" by (rule base_64(3) [OF lt e])
  show "n div 4096 mod 64 = d1" unfolding base_64(2) [OF lt e] by (rule div_digit(2) [OF lt(1)])
  show "n div 64 mod 64 = d2" unfolding base_64(1) [OF lt e] by (rule div_digit(2) [OF lt(2)])
  show "n mod 64 = c mod 64" unfolding e by (rule div_digit(2) [OF lt(3)])
qed

lemma rest_digits:
  fixes a b :: nat
  assumes "b < 256" and n: "n = (a * 256 + b) * 4"
  shows "n div 4096 = a div 4" "n div 64 mod 64 = a mod 4 * 16 + b div 16" "n mod 64 = b mod 16 * 4"
proof -
  have e: "n * 64 = (a * 256 + b) * 256 + 0" unfolding n by simp
  have "n * 64 div 262144 = n div 4096" "n * 64 div 4096 = n div 64" "n * 64 div 64 = n"
    using div_mult_mult2 [of 64 n 4096] div_mult_mult2 [of 64 n 64] by simp_all
  then show "n div 4096 = a div 4" "n div 64 mod 64 = a mod 4 * 16 + b div 16" "n mod 64 = b mod 16 * 4"
    using group_digits [OF assms(1) _ e] by simp_all
qed

lemma one_digit: "a * 16 div 64 = a div 4" "a * 16 mod 64 = a mod 4 * (16::nat)"
  using div_mult_mult2 [of 16 a 4] mult_mod_left [of a 4 16] by simp_all

lemma unat_u8_bound: "unat (b::u8) < 256"
  using unsigned_less [of b] by simp

lemma rfc_encode_cases:
  "rfc_encode [b0, b1, b2] = map (\<lambda>d. base64table ! d) [unat b0 div 4, unat b0 mod 4 * 16 + unat b1 div 16,
     unat b1 mod 16 * 4 + unat b2 div 64, unat b2 mod 64]"
  "rfc_encode [b0, b1] = map (\<lambda>d. base64table ! d) [unat b0 div 4, unat b0 mod 4 * 16 + unat b1 div 16,
     unat b1 mod 16 * 4] @ [61]"
  "rfc_encode [b0] = map (\<lambda>d. base64table ! d) [unat b0 div 4, unat b0 mod 4 * 16] @ [61, 61]"
  "rfc_encode [] = []"
proof -
  note lt = unat_u8_bound [of b1] unat_u8_bound [of b2]
  have p: "(4 - 3 mod 4) mod 4 = (1::nat)" "(4 - 2 mod 4) mod 4 = (2::nat)" "(4 - 4 mod 4) mod 4 = (0::nat)" by simp_all
  have "rfc_digits [unat b0, unat b1, unat b2] = [unat b0 div 4, unat b0 mod 4 * 16 + unat b1 div 16,
     unat b1 mod 16 * 4 + unat b2 div 64, unat b2 mod 64]"
    unfolding rfc_digits.simps Let_def group_digits [OF lt refl] by simp
  then show "rfc_encode [b0, b1, b2] = map (\<lambda>d. base64table ! d) [unat b0 div 4, unat b0 mod 4 * 16 + unat b1 div 16,
     unat b1 mod 16 * 4 + unat b2 div 64, unat b2 mod 64]"
    by (simp add: rfc_encode_def Let_def)
  have "rfc_digits [unat b0, unat b1] = [unat b0 div 4, unat b0 mod 4 * 16 + unat b1 div 16, unat b1 mod 16 * 4]"
    unfolding rfc_digits.simps Let_def rest_digits [OF lt(1) refl] by simp
  then show "rfc_encode [b0, b1] = map (\<lambda>d. base64table ! d) [unat b0 div 4, unat b0 mod 4 * 16 + unat b1 div 16,
     unat b1 mod 16 * 4] @ [61]"
    by (simp add: rfc_encode_def Let_def)
  have "rfc_digits [unat b0] = [unat b0 div 4, unat b0 mod 4 * 16]"
    unfolding rfc_digits.simps one_digit ..
  then show "rfc_encode [b0] = map (\<lambda>d. base64table ! d) [unat b0 div 4, unat b0 mod 4 * 16] @ [61, 61]"
    by (simp add: rfc_encode_def Let_def numeral_2_eq_2)
  show "rfc_encode [] = []" by (simp add: rfc_encode_def)
qed

lemma rfc_encode_group: "rfc_encode (a # b # c # bs) = rfc_encode [a, b, c] @ rfc_encode bs"
  by (simp add: rfc_encode_def Let_def)

lemma encode_loop_rfc: "encode_loop bs = rfc_encode bs"
proof (induction bs rule: encode_loop.induct)
  case (1 b0 b1 b2 inbuf)
  then show ?case
    unfolding rfc_encode_group [of b0 b1 b2 inbuf] by (simp add: rfc_encode_cases digits)
qed (simp_all add: rfc_encode_cases digits)

lemma length_rfc: "length (rfc_encode bs) = (length bs + 2) div 3 * 4"
proof (induction bs rule: encode_loop.induct)
  case (1 b0 b1 b2 inbuf)
  then show ?case
    using div_add_self1 [of 3 "length inbuf + 2"]
    unfolding rfc_encode_group [of b0 b1 b2 inbuf] by (simp add: rfc_encode_cases)
qed (simp_all add: rfc_encode_cases)

section \<open>The decoder\<close>

primrec stored :: "memory \<Rightarrow> nat \<Rightarrow> u8 list \<Rightarrow> bool" where
  "stored m a [] = True"
| "stored m a (x # xs) = (m a = x \<and> stored m (a + 1) xs)"

lemma stored_append: "stored m a (xs @ ys) \<longleftrightarrow> stored m a xs \<and> stored m (a + length xs) ys"
  by (induction xs arbitrary: a) auto

lemma stored_cong: "(\<And>i. a \<le> i \<Longrightarrow> i < a + length xs \<Longrightarrow> m i = m' i) \<Longrightarrow> stored m a xs = stored m' a xs"
proof (induction xs arbitrary: a)
  case (Cons x xs)
  have "stored m (a + 1) xs = stored m' (a + 1) xs" by (rule Cons.IH) (simp add: Cons.prems)
  then show ?case using Cons.prems [of a] by simp
qed simp

lemma decode_loop_digit:
  assumes "\<not> b64_errors s" "read_pos s < inbuflen" "b64_mem s (inbuf + read_pos s) = base64table ! d" "d < 64"
  shows "decode_loop outbuf inbuf outbuflen inbuflen s =
    decode_loop outbuf inbuf outbuflen inbuflen
      (decode_char outbuf outbuflen (of_nat (d + 1)) (s\<lparr>read_pos := read_pos s + 1\<rparr>))"
  using assms table_inverse by (subst decode_loop.simps) (simp add: Let_def)

lemma decode_loop_pad:
  assumes "\<not> b64_errors s" "read_pos s < inbuflen" "b64_mem s (inbuf + read_pos s) = 61"
  shows "decode_loop outbuf inbuf outbuflen inbuflen s =
    Some (decode_pad outbuf outbuflen (s\<lparr>read_pos := read_pos s + 1\<rparr>))"
  using assms by (subst decode_loop.simps) (simp add: Let_def)

lemma digit_value: "d < 64 \<Longrightarrow> ucast (of_nat (d + 1) :: u8) - 1 = (of_nat d :: u32) \<and> (of_nat (d + 1) :: u8) \<noteq> 0"
proof -
  assume d: "d < 64"
  have "unat (of_nat (d + 1) :: u8) = d + 1" using d by (simp only: unat_of_nat) simp
  then have "ucast (of_nat (d + 1) :: u8) = (of_nat (d + 1) :: u32)" "(of_nat (d + 1) :: u8) \<noteq> 0"
    by (metis of_nat_unat, metis Suc_eq_plus1 nat.simps(3) unsigned_0)
  then show ?thesis by simp
qed

lemma shl_6: "shl (of_nat n) 6 = (of_nat (n * 64) :: u32)"
  by (simp add: shl_def push_bit_eq_mult)

lemma decode_char_digit:
  assumes "d < 64" "char_count s < 3" "b64_bits s = of_nat n"
  shows "decode_char outbuf outbuflen (of_nat (d + 1)) s =
    s\<lparr>b64_bits := of_nat ((n + d) * 64), char_count := char_count s + 1\<rparr>"
  using digit_value [OF assms(1)] assms shl_6 [of "n + d"] by (simp add: decode_char_def Let_def)

lemma bits_byte:
  assumes "n < 16777216"
  shows "ucast (shr (of_nat n :: u32) 16 AND 0xff) = (of_nat (n div 65536) :: u8)"
    "ucast (shr (of_nat n :: u32) 8 AND 0xff) = (of_nat (n div 256) :: u8)"
    "ucast ((of_nat n :: u32) AND 0xff) = (of_nat n :: u8)"
    "ucast (shr (of_nat n :: u32) 10 AND 0xff) = (of_nat (n div 1024) :: u8)"
proof -
  have m: "(0xff::u32) = mask 8" by (simp add: mask_eq_exp_minus_1)
  have n: "unat (of_nat n :: u32) = n" using assms by (simp only: unat_of_nat) simp
  have u: "ucast (x AND 0xff) = (of_nat (unat x) :: u8)" for x :: u32
    unfolding m by (rule bit_word_eqI) (auto simp: of_nat_unat bit_ucast_iff bit_and_iff bit_mask_iff dest: bit_imp_le_length)
  show "ucast (shr (of_nat n :: u32) 16 AND 0xff) = (of_nat (n div 65536) :: u8)"
    "ucast (shr (of_nat n :: u32) 8 AND 0xff) = (of_nat (n div 256) :: u8)"
    "ucast ((of_nat n :: u32) AND 0xff) = (of_nat n :: u8)"
    "ucast (shr (of_nat n :: u32) 10 AND 0xff) = (of_nat (n div 1024) :: u8)"
    unfolding u unat_shr n by simp_all
qed

text \<open>A state between two groups; \<open>apart\<close> says that what is written does not reach what is still to be read.\<close>

definition at_group :: "nat \<Rightarrow> nat \<Rightarrow> nat \<Rightarrow> b64 \<Rightarrow> bool" where
  "at_group outbuf inbuf inbuflen s \<longleftrightarrow> \<not> b64_errors s \<and> char_count s = 0 \<and> b64_bits s = 0
     \<and> (outbuf + outlen s \<le> inbuf + read_pos s \<or> inbuf + inbuflen \<le> outbuf + outlen s)"

lemma decode_loop_digits:
  assumes "\<not> b64_errors s" "char_count s = 0" "b64_bits s = 0" "d0 < 64" "d1 < 64"
    and "stored (b64_mem s) (inbuf + read_pos s) (map (\<lambda>d. base64table ! d) [d0, d1])"
    and "read_pos s + 2 \<le> inbuflen"
  shows "decode_loop outbuf inbuf outbuflen inbuflen s = decode_loop outbuf inbuf outbuflen inbuflen
      (s\<lparr>read_pos := read_pos s + 2, b64_bits := of_nat ((d0 * 64 + d1) * 64), char_count := 2\<rparr>)"
  using assms decode_char_digit [of d0 _ 0] decode_char_digit [of d1 _ "d0 * 64"]
  by (simp add: decode_loop_digit [where d = d0] decode_loop_digit [where d = d1] numeral_2_eq_2)

lemma decode_loop_third:
  assumes "\<not> b64_errors s" "char_count s = 2" "b64_bits s = of_nat (n * 64)" "d2 < 64"
    and "b64_mem s (inbuf + read_pos s) = base64table ! d2" "read_pos s < inbuflen"
  shows "decode_loop outbuf inbuf outbuflen inbuflen s = decode_loop outbuf inbuf outbuflen inbuflen
      (s\<lparr>read_pos := read_pos s + 1, b64_bits := of_nat ((n * 64 + d2) * 64), char_count := 3\<rparr>)"
  using assms decode_char_digit [of d2 _ "n * 64"]
  by (simp add: decode_loop_digit [where d = d2] numeral_3_eq_3)

lemma decode_char_full:
  assumes "char_count s = 3" "d \<noteq> 0" "outlen s + 3 \<le> outbuflen" "b64_bits s + (ucast d - 1) = X"
  shows "decode_char outbuf outbuflen d s = s\<lparr>b64_bits := 0, char_count := 0, outlen := outlen s + 3,
         b64_mem := (b64_mem s)(outbuf + outlen s := ucast (shr X 16 AND 0xff),
           outbuf + outlen s + 1 := ucast (shr X 8 AND 0xff), outbuf + outlen s + 2 := ucast (X AND 0xff))\<rparr>"
  using assms by (simp add: decode_char_def Let_def put_def)

lemma decode_loop_fourth:
  assumes "\<not> b64_errors s" "char_count s = 3" "b64_bits s = of_nat (n * 64)" "d3 < 64"
    and "b64_mem s (inbuf + read_pos s) = base64table ! d3" "read_pos s < inbuflen"
    and "n * 64 + d3 = N" "N < 16777216" "outlen s + 3 \<le> outbuflen"
  shows "decode_loop outbuf inbuf outbuflen inbuflen s = decode_loop outbuf inbuf outbuflen inbuflen
      (s\<lparr>read_pos := read_pos s + 1, b64_bits := 0, char_count := 0, outlen := outlen s + 3,
         b64_mem := (b64_mem s)(outbuf + outlen s := of_nat (N div 65536),
           outbuf + outlen s + 1 := of_nat (N div 256),
           outbuf + outlen s + 2 := of_nat N)\<rparr>)"
proof -
  have "b64_bits (s\<lparr>read_pos := read_pos s + 1\<rparr>) + (ucast (of_nat (d3 + 1) :: u8) - 1) = of_nat N"
    using digit_value [OF assms(4)] assms(3,7) by (simp flip: of_nat_add of_nat_mult)
  from decode_char_full [OF _ _ _ this]
  show ?thesis
    unfolding decode_loop_digit [OF assms(1,6,5,4)]
    using assms(2,9) digit_value [OF assms(4)] bits_byte [OF assms(8)] by simp
qed

lemma group_value:
  fixes a b c :: nat
  shows "((a div 4 * 64 + (a mod 4 * 16 + b div 16)) * 64 + (b mod 16 * 4 + c div 64)) * 64 + c mod 64
      = (a * 256 + b) * 256 + c"
    "(a div 4 * 64 + (a mod 4 * 16 + b div 16)) * 64 + b mod 16 * 4 = (a * 256 + b) * 4"
    "a div 4 * 64 + a mod 4 * 16 = a * 16"
proof -
  have s: "a = qa * 4 + ra \<Longrightarrow> b = qb * 16 + rb \<Longrightarrow> c = qc * 64 + rc \<Longrightarrow>
      ((qa * 64 + (ra * 16 + qb)) * 64 + (rb * 4 + qc)) * 64 + rc = (a * 256 + b) * 256 + c
      \<and> (qa * 64 + (ra * 16 + qb)) * 64 + rb * 4 = (a * 256 + b) * 4 \<and> qa * 64 + ra * 16 = a * 16"
    for qa ra qb rb qc rc :: nat by simp
  show "((a div 4 * 64 + (a mod 4 * 16 + b div 16)) * 64 + (b mod 16 * 4 + c div 64)) * 64 + c mod 64
      = (a * 256 + b) * 256 + c"
    "(a div 4 * 64 + (a mod 4 * 16 + b div 16)) * 64 + b mod 16 * 4 = (a * 256 + b) * 4"
    "a div 4 * 64 + a mod 4 * 16 = a * 16"
    using s [of "a div 4" "a mod 4" "b div 16" "b mod 16" "c div 64" "c mod 64"] by simp_all
qed

lemma digits_less:
  "unat (b::u8) div 4 < 64" "unat b mod 4 * 16 + unat (c::u8) div 16 < 64"
  "unat b mod 16 * 4 + unat c div 64 < 64" "unat b mod 64 < 64" "unat b mod 4 * 16 < 64" "unat b mod 16 * 4 < 64"
proof -
  have "unat b div 4 < 64" "unat c div 16 < 16" "unat c div 64 < 4" "unat b mod 4 < 4" "unat b mod 16 < 16" "unat b mod 64 < 64"
    using unat_u8_bound [of b] unat_u8_bound [of c] by (simp_all add: less_mult_imp_div_less)
  then show "unat b div 4 < 64" "unat b mod 4 * 16 + unat c div 16 < 64"
    "unat b mod 16 * 4 + unat c div 64 < 64" "unat b mod 64 < 64" "unat b mod 4 * 16 < 64" "unat b mod 16 * 4 < 64"
    by linarith+
qed

lemma group_less: "(unat (b0::u8) * 256 + unat (b1::u8)) * 256 + unat (b2::u8) < 16777216"
proof -
  have "unat b0 \<le> 255" "unat b1 \<le> 255" "unat b2 \<le> 255"
    using unat_u8_bound [of b0] unat_u8_bound [of b1] unat_u8_bound [of b2] by simp_all
  then have "(unat b0 * 256 + unat b1) * 256 + unat b2 \<le> (255 * 256 + 255) * 256 + 255"
    by (intro add_mono mult_mono) simp_all
  then show ?thesis by simp
qed

lemma of_nat_bytes:
  assumes "k < 256"
  shows "(of_nat (((unat b0 * 256 + unat b1) * 256 + k) div 65536) :: u8) = b0"
    "(of_nat (((unat b0 * 256 + unat b1) * 256 + k) div 256) :: u8) = b1"
    "(of_nat ((unat b0 * 256 + unat b1) * 256 + k) :: u8) = of_nat k"
proof -
  define n where "n = (unat b0 * 256 + unat b1) * 256 + k"
  have 1: "n div 256 = unat b0 * 256 + unat b1" unfolding n_def by (rule div_digit(1) [OF assms])
  have "n div 65536 = n div 256 div 256" by (simp add: div_mult2_eq [symmetric])
  then have 2: "n div 65536 = unat b0"
    unfolding 1 using div_digit(1) [OF unat_u8_bound [of b1], of "unat b0"] by simp
  have z: "(256::u8) = 0" "(65536::u8) = 0" by simp_all
  show "(of_nat (n div 65536) :: u8) = b0" "(of_nat (n div 256) :: u8) = b1" "(of_nat n :: u8) = of_nat k"
    unfolding 1 2 by (simp_all add: n_def z)
qed

lemma decode_loop_group:
  assumes "at_group outbuf inbuf inbuflen s" "stored (b64_mem s) (inbuf + read_pos s) (rfc_encode [b0, b1, b2])"
    and "read_pos s + 4 \<le> inbuflen" "outlen s + 3 \<le> outbuflen"
  shows "decode_loop outbuf inbuf outbuflen inbuflen s = decode_loop outbuf inbuf outbuflen inbuflen
      (s\<lparr>read_pos := read_pos s + 2 + 1 + 1, b64_bits := 0, char_count := 0, outlen := outlen s + 3,
         b64_mem := (b64_mem s)(outbuf + outlen s := b0, outbuf + outlen s + 1 := b1, outbuf + outlen s + 2 := b2)\<rparr>)"
proof -
  define d0 d1 d2 d3 where d: "d0 = unat b0 div 4" "d1 = unat b0 mod 4 * 16 + unat b1 div 16"
    "d2 = unat b1 mod 16 * 4 + unat b2 div 64" "d3 = unat b2 mod 64"
  have lt: "d0 < 64" "d1 < 64" "d2 < 64" "d3 < 64" unfolding d by (rule digits_less)+
  define N where "N = (unat b0 * 256 + unat b1) * 256 + unat b2"
  note lt2 = unat_u8_bound [of b2]
  have N1: "((d0 * 64 + d1) * 64 + d2) * 64 + d3 = N"
    unfolding N_def d by (rule group_value(1))
  have N2: "N < 16777216"
    unfolding N_def by (rule group_less)
  have N3: "of_nat (N div 65536) = b0" "of_nat (N div 256) = b1" "of_nat N = b2"
    unfolding N_def using of_nat_bytes [OF lt2, of b0 b1] by simp_all
  have st: "stored (b64_mem s) (inbuf + read_pos s) (map (\<lambda>d. base64table ! d) [d0, d1])"
    "b64_mem s (inbuf + read_pos s + 2) = base64table ! d2" "b64_mem s (inbuf + read_pos s + 3) = base64table ! d3"
    using assms(2) by (simp_all add: rfc_encode_cases d numeral_2_eq_2 numeral_3_eq_3)
  have st4: "b64_mem s (Suc (Suc (Suc (inbuf + read_pos s)))) = base64table ! d3"
    using st(3) by (simp add: numeral_3_eq_3)
  define s1 where "s1 = s\<lparr>read_pos := read_pos s + 2, b64_bits := of_nat ((d0 * 64 + d1) * 64), char_count := 2\<rparr>"
  define s2 where "s2 = s1\<lparr>read_pos := read_pos s1 + 1, b64_bits := of_nat (((d0 * 64 + d1) * 64 + d2) * 64), char_count := 3\<rparr>"
  have "decode_loop outbuf inbuf outbuflen inbuflen s = decode_loop outbuf inbuf outbuflen inbuflen s1"
    unfolding s1_def using assms lt st by (intro decode_loop_digits) (simp_all add: at_group_def)
  also have "\<dots> = decode_loop outbuf inbuf outbuflen inbuflen s2"
    unfolding s2_def using assms lt st by (intro decode_loop_third) (simp_all add: at_group_def s1_def add.assoc)
  also have "\<dots> = decode_loop outbuf inbuf outbuflen inbuflen
      (s2\<lparr>read_pos := read_pos s2 + 1, b64_bits := 0, char_count := 0, outlen := outlen s2 + 3,
         b64_mem := (b64_mem s2)(outbuf + outlen s2 := b0, outbuf + outlen s2 + 1 := b1, outbuf + outlen s2 + 2 := b2)\<rparr>)"
    by (subst decode_loop_fourth [where n = "(d0 * 64 + d1) * 64 + d2" and ?d3.0 = d3 and N = N])
      (use assms lt st st4 N1 N2 N3 in \<open>simp_all add: at_group_def s2_def s1_def add.assoc\<close>)
  finally show ?thesis by (simp add: s2_def s1_def)
qed

lemma decode_loop_rest2:
  assumes "at_group outbuf inbuf inbuflen s" "stored (b64_mem s) (inbuf + read_pos s) (rfc_encode [b0, b1])"
    and "read_pos s + 4 \<le> inbuflen" "outlen s + 2 \<le> outbuflen"
  shows "\<exists>s'. decode_loop outbuf inbuf outbuflen inbuflen s = Some s' \<and> \<not> b64_errors s' \<and> outlen s' = outlen s + 2
    \<and> b64_mem s' = (b64_mem s)(outbuf + outlen s := b0, outbuf + outlen s + 1 := b1)"
proof -
  define d0 d1 d2 where d: "d0 = unat b0 div 4" "d1 = unat b0 mod 4 * 16 + unat b1 div 16" "d2 = unat b1 mod 16 * 4"
  have lt: "d0 < 64" "d1 < 64" "d2 < 64" unfolding d by (rule digits_less)+
  define N where "N = (unat b0 * 256 + unat b1) * 256 + 0"
  have N1: "((d0 * 64 + d1) * 64 + d2) * 64 = N"
    unfolding N_def d group_value(2) by simp
  have N2: "N < 16777216"
    unfolding N_def using group_less [of b0 b1 0] by simp
  have N3: "of_nat (N div 65536) = b0" "of_nat (N div 256) = b1"
    unfolding N_def using of_nat_bytes [of 0 b0 b1] by simp_all
  have st: "stored (b64_mem s) (inbuf + read_pos s) (map (\<lambda>d. base64table ! d) [d0, d1])"
    "b64_mem s (inbuf + read_pos s + 2) = base64table ! d2" "b64_mem s (Suc (Suc (Suc (inbuf + read_pos s)))) = 61"
    using assms(2) by (simp_all add: rfc_encode_cases d numeral_2_eq_2)
  define s1 where "s1 = s\<lparr>read_pos := read_pos s + 2, b64_bits := of_nat ((d0 * 64 + d1) * 64), char_count := 2\<rparr>"
  define s2 where "s2 = s1\<lparr>read_pos := read_pos s1 + 1, b64_bits := of_nat N, char_count := 3\<rparr>"
  have "decode_loop outbuf inbuf outbuflen inbuflen s = decode_loop outbuf inbuf outbuflen inbuflen s1"
    unfolding s1_def using assms lt st by (intro decode_loop_digits) (simp_all add: at_group_def)
  also have "\<dots> = decode_loop outbuf inbuf outbuflen inbuflen s2"
    unfolding s2_def N1 [symmetric] using assms lt st by (intro decode_loop_third) (simp_all add: at_group_def s1_def add.assoc)
  also have "\<dots> = Some (decode_pad outbuf outbuflen (s2\<lparr>read_pos := read_pos s2 + 1\<rparr>))"
    using assms st by (intro decode_loop_pad) (simp_all add: at_group_def s1_def s2_def add.assoc)
  finally show ?thesis
    using assms bits_byte(1,2) [OF N2] N3
    by (simp add: at_group_def s1_def s2_def decode_pad_def put_def Let_def del: of_nat_mult)
qed

lemma decode_loop_rest1:
  assumes "at_group outbuf inbuf inbuflen s" "stored (b64_mem s) (inbuf + read_pos s) (rfc_encode [b0])"
    and "read_pos s + 4 \<le> inbuflen" "outlen s + 1 \<le> outbuflen"
  shows "\<exists>s'. decode_loop outbuf inbuf outbuflen inbuflen s = Some s' \<and> \<not> b64_errors s' \<and> outlen s' = outlen s + 1
    \<and> b64_mem s' = (b64_mem s)(outbuf + outlen s := b0)"
proof -
  define d0 d1 where d: "d0 = unat b0 div 4" "d1 = unat b0 mod 4 * 16"
  have lt: "d0 < 64" "d1 < 64" unfolding d by (rule digits_less)+
  define N where "N = unat b0 * 1024"
  have N1: "(d0 * 64 + d1) * 64 = N"
    unfolding N_def d group_value(3) by simp
  have N2: "N < 16777216" "of_nat (N div 1024) = b0"
    unfolding N_def using unat_u8_bound [of b0] by simp_all
  have st: "stored (b64_mem s) (inbuf + read_pos s) (map (\<lambda>d. base64table ! d) [d0, d1])"
    "b64_mem s (inbuf + read_pos s + 2) = 61"
    using assms(2) by (simp_all add: rfc_encode_cases d numeral_2_eq_2)
  define s1 where "s1 = s\<lparr>read_pos := read_pos s + 2, b64_bits := of_nat N, char_count := 2\<rparr>"
  have "decode_loop outbuf inbuf outbuflen inbuflen s = decode_loop outbuf inbuf outbuflen inbuflen s1"
    unfolding s1_def N1 [symmetric] using assms lt st by (intro decode_loop_digits) (simp_all add: at_group_def)
  also have "\<dots> = Some (decode_pad outbuf outbuflen (s1\<lparr>read_pos := read_pos s1 + 1\<rparr>))"
    using assms st by (intro decode_loop_pad) (simp_all add: at_group_def s1_def add.assoc)
  finally show ?thesis
    using assms bits_byte(4) [OF N2(1)] N2(2)
    by (simp add: at_group_def s1_def decode_pad_def put_def Let_def del: of_nat_mult)
qed

lemma decode_loop_rfc:
  assumes "at_group outbuf inbuf inbuflen s" "stored (b64_mem s) (inbuf + read_pos s) (rfc_encode bs)"
    and "read_pos s + length (rfc_encode bs) = inbuflen" "outlen s + length bs \<le> outbuflen"
  shows "\<exists>s'. decode_loop outbuf inbuf outbuflen inbuflen s = Some s' \<and> \<not> b64_errors s'
    \<and> outlen s' = outlen s + length bs \<and> stored (b64_mem s') (outbuf + outlen s) bs
    \<and> (\<forall>a. a < outbuf + outlen s \<or> outbuf + outlen s + length bs \<le> a \<longrightarrow> b64_mem s' a = b64_mem s a)"
  using assms
proof (induction bs arbitrary: s rule: encode_loop.induct)
  case (1 b0 b1 b2 bs s)
  define s1 where "s1 = s\<lparr>read_pos := read_pos s + 2 + 1 + 1, b64_bits := 0, char_count := 0, outlen := outlen s + 3,
    b64_mem := (b64_mem s)(outbuf + outlen s := b0, outbuf + outlen s + 1 := b1, outbuf + outlen s + 2 := b2)\<rparr>"
  have l: "length (rfc_encode [b0, b1, b2]) = 4" by (simp add: rfc_encode_cases)
  have st: "stored (b64_mem s) (inbuf + read_pos s) (rfc_encode [b0, b1, b2])"
    "stored (b64_mem s) (inbuf + read_pos s + 4) (rfc_encode bs)"
    using "1.prems"(2) unfolding rfc_encode_group [of b0 b1 b2 bs] stored_append l by simp_all
  have st2: "stored (b64_mem s) (inbuf + read_pos s + 2 + 1 + 1) (rfc_encode bs)"
    using st(2) by (simp add: numeral_eq_Suc)
  have le: "read_pos s + 4 + length (rfc_encode bs) = inbuflen" "outlen s + 3 + length bs \<le> outbuflen"
    using "1.prems"(3,4) unfolding rfc_encode_group [of b0 b1 b2 bs] length_append l by simp_all
  have step: "decode_loop outbuf inbuf outbuflen inbuflen s = decode_loop outbuf inbuf outbuflen inbuflen s1"
    unfolding s1_def using "1.prems"(1) st(1) le by (intro decode_loop_group) simp_all
  have le1: "read_pos s1 + length (rfc_encode bs) = inbuflen" "outlen s1 + length bs \<le> outbuflen"
    using le by (simp_all add: s1_def)
  have at: "at_group outbuf inbuf inbuflen s1"
    using "1.prems"(1) by (auto simp: at_group_def s1_def)
  have st1: "stored (b64_mem s1) (inbuf + read_pos s1) (rfc_encode bs)"
    using st2 "1.prems"(1) le(1)
    by (subst stored_cong [where m' = "b64_mem s"]) (auto simp: s1_def at_group_def add.assoc)
  obtain s' where s': "decode_loop outbuf inbuf outbuflen inbuflen s1 = Some s'" "\<not> b64_errors s'"
    "outlen s' = outlen s1 + length bs" "stored (b64_mem s') (outbuf + outlen s1) bs"
    "\<forall>a. a < outbuf + outlen s1 \<or> outbuf + outlen s1 + length bs \<le> a \<longrightarrow> b64_mem s' a = b64_mem s1 a"
    using "1.IH" [OF at st1 le1] by blast
  have "stored (b64_mem s') (outbuf + outlen s) (b0 # b1 # b2 # bs)"
    using s'(4) s'(5) by (simp add: s1_def add.commute add.left_commute numeral_3_eq_3)
  then show ?case
    using s' step by (auto simp: s1_def)
next
  case (2 b0)
  have "length (rfc_encode [b0]) = 4" by (simp add: rfc_encode_cases)
  then show ?case using decode_loop_rest1 [OF 2(1,2)] 2(3,4) by fastforce
next
  case (3 b0 b1)
  have "length (rfc_encode [b0, b1]) = 4" by (simp add: rfc_encode_cases)
  then show ?case using decode_loop_rest2 [OF 3(1,2)] 3(3,4) by fastforce
next
  case 4
  then show ?case
    by (subst decode_loop.simps) (simp add: rfc_encode_cases at_group_def)
qed

lemma base64_encode_length:
  assumes "length bs < 1000000000"
  shows "unat (((of_nat (length bs) :: u32) + 2) div 3 * 4) = length (rfc_encode bs)"
proof -
  have "unat ((of_nat (length bs) :: u32) + 2) = length bs + 2"
    using assms by (simp only: unat_word_ariths unat_of_nat) simp
  then have "unat (((of_nat (length bs) :: u32) + 2) div 3) = (length bs + 2) div 3"
    by (simp only: unat_div) simp
  moreover have "(length bs + 2) div 3 * 4 < 4294967296" using assms by linarith
  ultimately show ?thesis by (simp only: unat_word_ariths length_rfc) simp
qed

section \<open>What the decoder writes\<close>

definition in_bounds :: "nat \<Rightarrow> nat \<Rightarrow> memory \<Rightarrow> memory \<Rightarrow> bool" where
  "in_bounds outbuf outbuflen m m' \<longleftrightarrow> (\<forall>a. a < outbuf \<or> outbuf + outbuflen \<le> a \<longrightarrow> m' a = m a)"

lemma decode_char_bounds:
  "outlen s \<le> outbuflen \<Longrightarrow> outlen (decode_char outbuf outbuflen d s) \<le> outbuflen
    \<and> in_bounds outbuf outbuflen (b64_mem s) (b64_mem (decode_char outbuf outbuflen d s))"
  by (auto simp: decode_char_def Let_def put_def in_bounds_def)

lemma decode_pad_bounds:
  "outlen s \<le> outbuflen \<Longrightarrow> outlen (decode_pad outbuf outbuflen s) \<le> outbuflen
    \<and> in_bounds outbuf outbuflen (b64_mem s) (b64_mem (decode_pad outbuf outbuflen s))"
  by (auto simp: decode_pad_def Let_def put_def in_bounds_def)

lemma decode_loop_bounds:
  "decode_loop outbuf inbuf outbuflen inbuflen s = Some s' \<Longrightarrow> outlen s \<le> outbuflen \<Longrightarrow>
    outlen s' \<le> outbuflen \<and> in_bounds outbuf outbuflen (b64_mem s) (b64_mem s')"
proof (induction outbuf inbuf outbuflen inbuflen s rule: decode_loop.induct)
  case (1 outbuf inbuf outbuflen inbuflen s)
  define c where "c = sint (b64_mem s (inbuf + read_pos s))"
  define s1 where "s1 = s\<lparr>read_pos := read_pos s + 1\<rparr>"
  have s1: "outlen s1 \<le> outbuflen" "b64_mem s1 = b64_mem s" using 1(3) by (simp_all add: s1_def)
  show ?case
  proof (cases "b64_errors s \<or> inbuflen \<le> read_pos s \<or> c = 61")
    case True
    then show ?thesis
      using 1(2,3) decode_pad_bounds [OF s1(1), of outbuf] s1(2)
      by (subst (asm) decode_loop.simps) (auto simp: Let_def c_def s1_def in_bounds_def split: if_splits)
  next
    case False
    then have c: "\<not> c < 0" "decode_loop outbuf inbuf outbuflen inbuflen
        (decode_char outbuf outbuflen (decoder ! nat c) s1) = Some s'"
      using 1(2) by (subst (asm) decode_loop.simps; simp add: Let_def c_def s1_def split: if_splits)+
    then show ?thesis
      using 1(1) [OF _ _ c_def s1_def _ c(1) c(2)] False decode_char_bounds [OF s1(1), of outbuf "decoder ! nat c"]
      by (auto simp: in_bounds_def s1(2))
  qed
qed

lemma decode_loop_defined:
  "\<forall>i<inbuflen. 0 \<le> sint (m (inbuf + i)) \<Longrightarrow> outbuf + outbuflen \<le> inbuf \<or> inbuf + inbuflen \<le> outbuf \<Longrightarrow>
    in_bounds outbuf outbuflen m (b64_mem s) \<Longrightarrow> outlen s \<le> outbuflen \<Longrightarrow>
    decode_loop outbuf inbuf outbuflen inbuflen s \<noteq> None"
proof (induction outbuf inbuf outbuflen inbuflen s rule: decode_loop.induct)
  case (1 outbuf inbuf outbuflen inbuflen s)
  define c where "c = sint (b64_mem s (inbuf + read_pos s))"
  define s1 where "s1 = s\<lparr>read_pos := read_pos s + 1\<rparr>"
  have s1: "outlen s1 \<le> outbuflen" "b64_mem s1 = b64_mem s" using 1(5) by (simp_all add: s1_def)
  show ?case
  proof (cases "b64_errors s \<or> inbuflen \<le> read_pos s \<or> c = 61")
    case True
    then show ?thesis by (subst decode_loop.simps) (auto simp: Let_def c_def)
  next
    case False
    then have "b64_mem s (inbuf + read_pos s) = m (inbuf + read_pos s)"
      using 1(3,4) by (auto simp: in_bounds_def)
    then have c: "\<not> c < 0" using 1(2) False by (simp add: c_def not_less)
    have "decode_loop outbuf inbuf outbuflen inbuflen s = decode_loop outbuf inbuf outbuflen inbuflen
        (decode_char outbuf outbuflen (decoder ! nat c) s1)"
      using False c by (subst decode_loop.simps) (simp add: Let_def c_def s1_def)
    moreover have "decode_loop outbuf inbuf outbuflen inbuflen (decode_char outbuf outbuflen (decoder ! nat c) s1) \<noteq> None"
      using False decode_char_bounds [OF s1(1), of outbuf "decoder ! nat c"] 1(4)
      by (intro 1(1) [OF _ _ c_def s1_def _ c 1(2,3)]) (auto simp: in_bounds_def s1(2))
    ultimately show ?thesis by simp
  qed
qed

section \<open>Properties\<close>

text \<open>C38: the encoder gives the Base64 text of RFC 4648: if the output buffer has the four characters
  for every group of three bytes, these are written, with a zero byte after them if there is room for
  it, and their number is returned; otherwise -1 is returned and at most a zero byte is written.\<close>

theorem base64_encode_is_rfc4648:
  assumes "length bs < 1000000000"
  shows "base64_encode outbuflen bs =
    (if length (rfc_encode bs) \<le> unat outbuflen
     then (int (length (rfc_encode bs)), rfc_encode bs @ (if length (rfc_encode bs) < unat outbuflen then [0] else []))
     else (-1, if 0 < unat outbuflen then [0] else []))
    \<and> length (rfc_encode bs) = (length bs + 2) div 3 * 4"
proof -
  have m: "length (rfc_encode bs) \<le> unat outbuflen \<Longrightarrow> unat (of_nat (length (rfc_encode bs)) :: u32) = length (rfc_encode bs)"
    using unat_u32_bound [of outbuflen] by (simp only: unat_of_nat) simp
  show ?thesis
    using m by (intro conjI length_rfc) (auto simp: base64_encode_def Let_def word_less_nat_alt
      base64_encode_length [OF assms] encode_loop_rfc not_less)
qed

lemma rfc_encode_example: "rfc_encode [77, 97, 110, 33] = [84, 87, 70, 117, 73, 81, 61, 61]"
  by (simp add: rfc_encode_group [of 77 97 110 "[33]"] rfc_encode_cases base64table_eval)

theorem base64_encode_is_rfc4648_witness:
  "base64_encode 9 [77, 97, 110, 33] = (8, [84, 87, 70, 117, 73, 81, 61, 61, 0])"
  using base64_encode_is_rfc4648 [of "[77, 97, 110, 33]" 9] by (simp add: rfc_encode_example)

text \<open>C37: the decoder inverts the encoder, also in place: when the text of some bytes is decoded into a
  buffer that has room for them, and that starts at or before the text or lies after it, the bytes
  are in the buffer, their number is returned, and nothing else is written but a zero byte after
  them if there is room for it.\<close>

theorem base64_decode_inverts:
  assumes "stored mem inbuf (rfc_encode bs)" "length bs \<le> outbuflen"
    and "outbuf \<le> inbuf \<or> inbuf + length (rfc_encode bs) \<le> outbuf"
  shows "\<exists>mem'. base64_decode mem outbuf inbuf outbuflen (length (rfc_encode bs)) = Some (int (length bs), mem')
    \<and> stored mem' outbuf bs
    \<and> (\<forall>a. a < outbuf \<or> outbuf + length bs < a \<or> length bs = outbuflen \<and> outbuf + length bs \<le> a \<longrightarrow> mem' a = mem a)"
proof -
  define s where "s = \<lparr>b64_mem = mem, read_pos = 0, b64_bits = 0, char_count = 0, outlen = 0, b64_errors = False\<rparr>"
  have "at_group outbuf inbuf (length (rfc_encode bs)) s" using assms(3) by (simp add: at_group_def s_def)
  then obtain s' where s': "decode_loop outbuf inbuf outbuflen (length (rfc_encode bs)) s = Some s'" "\<not> b64_errors s'"
    "outlen s' = length bs" "stored (b64_mem s') outbuf bs"
    "\<forall>a. a < outbuf \<or> outbuf + length bs \<le> a \<longrightarrow> b64_mem s' a = mem a"
    using decode_loop_rfc [of outbuf inbuf "length (rfc_encode bs)" s bs outbuflen] assms by (auto simp: s_def)
  moreover have "stored ((b64_mem s')(outbuf + length bs := 0)) outbuf bs"
    using s'(4) by (subst stored_cong [where m' = "b64_mem s'"]) auto
  ultimately show ?thesis
    by (auto simp: base64_decode_def Let_def s_def [symmetric])
qed

theorem base64_decode_inverts_witness:
  "\<exists>mem'. base64_decode (\<lambda>a. [84, 87, 70, 117, 73, 81, 61, 61] ! a) 0 0 4 8 = Some (4, mem')
    \<and> stored mem' 0 [77, 97, 110, 33]"
proof -
  have "stored (\<lambda>a. [84, 87, 70, 117, 73, 81, 61, 61] ! a) 0 (rfc_encode [77, 97, 110, 33])"
    unfolding rfc_encode_example by simp
  from base64_decode_inverts [OF this, of 4 0] show ?thesis
    by (fastforce simp: rfc_encode_example numeral_eq_Suc)
qed

text \<open>Whatever the input, the decoder writes only into its output buffer and returns -1 or a
  number of bytes that the buffer holds. It reads outside of its table at a character of
  128 or more, which is negative as a \<open>char\<close>, if that is the first one; on an input of
  7-bit characters that is apart from the output it does not.\<close>

theorem base64_decode_stays_in_buffer:
  "(base64_decode mem outbuf inbuf outbuflen inbuflen = Some (n, mem') \<longrightarrow>
      in_bounds outbuf outbuflen mem mem' \<and> (n = -1 \<or> 0 \<le> n \<and> n \<le> int outbuflen))
   \<and> (0 < inbuflen \<and> 128 \<le> unat (mem inbuf) \<longrightarrow> base64_decode mem outbuf inbuf outbuflen inbuflen = None)
   \<and> ((\<forall>i<inbuflen. unat (mem (inbuf + i)) < 128) \<and> (outbuf + outbuflen \<le> inbuf \<or> inbuf + inbuflen \<le> outbuf) \<longrightarrow>
      base64_decode mem outbuf inbuf outbuflen inbuflen \<noteq> None)"
proof (intro conjI impI)
  define s where "s = \<lparr>b64_mem = mem, read_pos = 0, b64_bits = 0, char_count = 0, outlen = 0, b64_errors = False\<rparr>"
  note d = base64_decode_def [of mem outbuf inbuf outbuflen inbuflen, folded s_def]
  have sint: "0 \<le> sint (c::u8) \<longleftrightarrow> unat c < 128" for c
  proof -
    define k where "k = unat c"
    have k: "uint c = int k" "k < 256" using unat_u8_bound [of c] by (simp_all add: k_def)
    have "0 \<le> sint c \<longleftrightarrow> \<not> bit (int k) 7"
      unfolding sint_uint k(1) signed_take_bit_nonnegative_iff by simp
    also have "bit (int k) 7 \<longleftrightarrow> bit k 7" by (simp add: bit_of_nat_iff_bit)
    also have "bit k 7 \<longleftrightarrow> odd (k div 128)" by (simp add: bit_iff_odd)
    also have "k div 128 = (if k < 128 then 0 else 1)"
      using k(2) div_nat_eqI [of 128 1 k] by simp
    also have "odd (if k < 128 then 0 else 1 :: nat) \<longleftrightarrow> \<not> k < 128" by simp
    finally show ?thesis by (simp add: k_def)
  qed
  show "in_bounds outbuf outbuflen mem mem'" "n = -1 \<or> 0 \<le> n \<and> n \<le> int outbuflen"
    if "base64_decode mem outbuf inbuf outbuflen inbuflen = Some (n, mem')"
    using that decode_loop_bounds [of outbuf inbuf outbuflen inbuflen s]
    by (auto simp: d Let_def s_def in_bounds_def split: option.splits if_splits)
  show "base64_decode mem outbuf inbuf outbuflen inbuflen = None" if "0 < inbuflen \<and> 128 \<le> unat (mem inbuf)"
    using that sint [of "mem inbuf"] unfolding d by (subst decode_loop.simps) (simp add: s_def Let_def)
  show "base64_decode mem outbuf inbuf outbuflen inbuflen \<noteq> None"
    if "(\<forall>i<inbuflen. unat (mem (inbuf + i)) < 128) \<and> (outbuf + outbuflen \<le> inbuf \<or> inbuf + inbuflen \<le> outbuf)"
    using that decode_loop_defined [of inbuflen mem inbuf outbuf outbuflen s]
    by (auto simp: d Let_def s_def in_bounds_def sint split: option.splits)
qed

theorem base64_decode_stays_in_buffer_witness:
  "base64_decode (\<lambda>_. 200) 0 0 4 8 = None \<and> base64_decode (\<lambda>_. 65) 100 0 4 8 \<noteq> None"
  using base64_decode_stays_in_buffer [of "\<lambda>_. 200" 0 0 4 8] base64_decode_stays_in_buffer [of "\<lambda>_. 65" 100 0 4 8]
  by simp

end
