(* ===== verification/Moo521.thy ===== *)
theory Moo521
  imports Bytes
begin

text \<open>
  The codec of the buffer files of the Moo! Wrapper, \<open>common/moo521.cpp\<close>: the header of a file, the
  checksum of a record, and the cipher that turns a record of 168 bytes into a packet of 176. A
  buffer is the list of its bytes; the host is little-endian, as the code requires.
\<close>

section \<open>The code\<close>

definition rd32le :: "u8 list \<Rightarrow> nat \<Rightarrow> u32" where
  "rd32le p k = bytes4 (ucast (p ! k)) (ucast (p ! (k + 1))) (ucast (p ! (k + 2))) (ucast (p ! (k + 3)))"

definition wr32le :: "u8 list \<Rightarrow> nat \<Rightarrow> u32 \<Rightarrow> u8 list" where
  "wr32le p k v = p[k := ucast (byte v 0), k + 1 := ucast (byte v 1), k + 2 := ucast (byte v 2), k + 3 := ucast (byte v 3)]"

definition MOO521_CKSEED :: u32 where "MOO521_CKSEED = 0xB7E15163"
definition MOO521_CKQ :: u32 where "MOO521_CKQ = 0x61C88647"
definition MOO521_Q :: u32 where "MOO521_Q = 0x61C88647"
definition MOO521_DELTA :: u32 where "MOO521_DELTA = 0x481EAE9D"
definition MOO521_HEADERLEN :: nat where "MOO521_HEADERLEN = 32"

definition moo521_is_header :: "u8 list \<Rightarrow> bool" where
  "moo521_is_header buf \<longleftrightarrow> buf ! 0 = 0x83 \<and> buf ! 1 = 0xB6 \<and> buf ! 2 = 0x34 \<and> buf ! 3 = 0x1A"

text \<open>\<open>moo521_header_count\<close>: \<open>None\<close> is the return value -1.\<close>

definition moo521_header_count :: "u8 list \<Rightarrow> u32 option" where
  "moo521_header_count header =
     (if \<not> moo521_is_header header then None
      else
        let v = shl (ucast (header ! 4)) 24 OR shl (ucast (header ! 5)) 16 OR shl (ucast (header ! 6)) 8
              OR (ucast (header ! 7) :: u32);
            c = shl (ucast (header ! 8)) 24 OR shl (ucast (header ! 9)) 16 OR shl (ucast (header ! 10)) 8
              OR (ucast (header ! 11) :: u32)
        in if v \<noteq> 0x48 then None else if c > 0xFFFFFF then None else Some c)"

definition moo521_make_header :: "u32 \<Rightarrow> u8 list" where
  "moo521_make_header count =
     (let header = replicate MOO521_HEADERLEN 0;
          header = header[0 := 0x83, 1 := 0xB6, 2 := 0x34, 3 := 0x1A];
          header = header[4 := 0, 5 := 0, 6 := 0, 7 := 0x48]
      in header[8 := ucast (shr count 24 AND 0xFF), 9 := ucast (shr count 16 AND 0xFF),
           10 := ucast (shr count 8 AND 0xFF), 11 := ucast (count AND 0xFF)])"

definition moo521_checksum :: "u8 list \<Rightarrow> u32" where
  "moo521_checksum rec168 =
     (let w = map (\<lambda>i. rd32le rec168 (i * 4)) [0..<42]
      in foldl (\<lambda>edi pass. foldl (\<lambda>edi i. (bswap32 (w ! i) XOR edi) - MOO521_CKQ) edi [0..<42])
           MOO521_CKSEED [0..<8])"

text \<open>The two directions of the cipher on a dword, and the loop of both over the first \<open>n\<close> dwords.\<close>

definition decode_dword :: "u32 \<Rightarrow> u32 \<Rightarrow> u32" where
  "decode_dword K x =
     (let x = bswap32 x; x = x + MOO521_Q; x = NOT x; x = x XOR K in bswap32 x)"

definition encode_dword :: "u32 \<Rightarrow> u32 \<Rightarrow> u32" where
  "encode_dword K x =
     (let x = bswap32 x; x = x XOR K; x = NOT x; x = x - MOO521_Q in bswap32 x)"

definition cipher_loop :: "(u32 \<Rightarrow> u32 \<Rightarrow> u32) \<Rightarrow> nat \<Rightarrow> u32 \<Rightarrow> u8 list \<Rightarrow> u8 list" where
  "cipher_loop f n seed buf =
     fst (foldl (\<lambda>(buf, K) i. (wr32le buf (i * 4) (f K (rd32le buf (i * 4))), K - MOO521_DELTA))
            (buf, seed) [0..<n])"

definition moo521_decode :: "u8 list \<Rightarrow> u8 list" where
  "moo521_decode packet176 =
     (let seed = bswap32 (rd32le packet176 172);
          rec168 = take 168 packet176
      in cipher_loop decode_dword 42 seed rec168)"

definition moo521_encode :: "u8 list \<Rightarrow> u32 \<Rightarrow> u8 list" where
  "moo521_encode rec168 seed =
     (let packet176 = take 168 rec168 @ replicate 8 0;
          ck = moo521_checksum rec168;
          packet176 = wr32le packet176 168 (bswap32 ck);
          packet176 = wr32le packet176 172 (bswap32 seed)
      in cipher_loop encode_dword 43 seed packet176)"

section \<open>Dwords of a buffer\<close>

lemma length_wr32le [simp]: "length (wr32le p k v) = length p"
  by (simp add: wr32le_def)

lemma is_byte_ucast [simp]: "is_byte (ucast (b::u8))"
  unfolding is_byte_def by (rule bit_word_eqI) (auto simp: bit_ucast_iff bit_take_bit_iff dest: bit_imp_le_length)

lemma ucast_ucast_byte: "is_byte b \<Longrightarrow> ucast (ucast b :: u8) = b"
  by (rule bit_word_eqI) (auto simp: bit_ucast_iff dest: is_byte_bit)

lemma ucast_u8_u32_u8 [simp]: "ucast (ucast (b::u8) :: u32) = b"
  by (rule bit_word_eqI) (auto simp: bit_ucast_iff)

lemma rd_wr_same: "k + 3 < length p \<Longrightarrow> rd32le (wr32le p k v) k = v"
  by (simp add: rd32le_def wr32le_def ucast_ucast_byte byte_simps)

lemma rd_wr_other: "k + 4 \<le> j \<or> j + 4 \<le> k \<Longrightarrow> rd32le (wr32le p k v) j = rd32le p j"
  by (auto simp: rd32le_def wr32le_def)

lemma wr_rd: "k + 3 < length p \<Longrightarrow> wr32le p k (rd32le p k) = p"
  by (simp add: rd32le_def wr32le_def byte_simps)

lemma rd_take: "k + 4 \<le> n \<Longrightarrow> rd32le (take n p) k = rd32le p k"
  by (simp add: rd32le_def)

lemma rd_append: "k + 4 \<le> length p \<Longrightarrow> rd32le (p @ q) k = rd32le p k"
  by (simp add: rd32le_def nth_append)

lemma dwords_eqI:
  assumes "length p = 4 * n" "length q = 4 * n" "\<And>i. i < n \<Longrightarrow> rd32le p (i * 4) = rd32le q (i * 4)"
  shows "p = q"
proof (rule nth_equalityI)
  show "length p = length q" using assms by simp
  fix j
  assume "j < length p"
  then have i: "j div 4 < n" using assms(1) by (simp add: less_mult_imp_div_less mult.commute)
  define m where "m = j div 4 * 4"
  have e: "p ! m = q ! m \<and> p ! (m + 1) = q ! (m + 1) \<and> p ! (m + 2) = q ! (m + 2) \<and> p ! (m + 3) = q ! (m + 3)"
    using assms(3) [OF i, folded m_def] unfolding rd32le_def
    by (subst (asm) bytes4_inject) (simp_all, metis ucast_u8_u32_u8)
  have "k = 0 \<or> k = 1 \<or> k = 2 \<or> k = 3" if "k < 4" for k :: nat using that by linarith
  then have "p ! (m + k) = q ! (m + k)" if "k < 4" for k using e that by fastforce
  from this [of "j mod 4"] show "p ! j = q ! j" by (simp add: m_def div_mult_mod_eq)
qed

lemma cipher_loop_dwords:
  assumes "4 * n \<le> length p"
  shows "length (cipher_loop f n seed p) = length p
    \<and> (\<forall>i. i < n \<longrightarrow> rd32le (cipher_loop f n seed p) (i * 4) = f (seed - of_nat i * MOO521_DELTA) (rd32le p (i * 4)))
    \<and> (\<forall>k \<ge> 4 * n. rd32le (cipher_loop f n seed p) k = rd32le p k)"
proof -
  define st where "st m = foldl (\<lambda>(buf, K) i. (wr32le buf (i * 4) (f K (rd32le buf (i * 4))), K - MOO521_DELTA)) (p, seed) [0..<m]" for m
  have "m \<le> n \<Longrightarrow> length (fst (st m)) = length p \<and> snd (st m) = seed - of_nat m * MOO521_DELTA
    \<and> (\<forall>i. i < m \<longrightarrow> rd32le (fst (st m)) (i * 4) = f (seed - of_nat i * MOO521_DELTA) (rd32le p (i * 4)))
    \<and> (\<forall>k \<ge> 4 * m. rd32le (fst (st m)) k = rd32le p k)" for m
  proof (induction m)
    case (Suc m)
    obtain b K where bK: "st m = (b, K)" by (rule prod.exhaust)
    have "st (Suc m) = (wr32le b (m * 4) (f K (rd32le b (m * 4))), K - MOO521_DELTA)"
      using bK by (simp add: st_def)
    then show ?case
      using Suc bK assms by (auto simp: rd_wr_same rd_wr_other less_Suc_eq algebra_simps)
  qed (simp add: st_def)
  from this [of n] show ?thesis
    by (simp add: cipher_loop_def st_def)
qed

lemma decode_encode_dword: "decode_dword K (encode_dword K x) = x"
  by (simp add: decode_dword_def encode_dword_def Let_def xor.assoc)

lemma encode_decode_dword: "encode_dword K (decode_dword K x) = x"
  by (simp add: decode_dword_def encode_dword_def Let_def xor.assoc)

section \<open>Properties\<close>

lemma header_bytes:
  "ucast (ucast (c AND 0xFF) :: u8) = byte c 0" "byte (shr c 24) 0 = byte c 3" "byte (shr c 16) 0 = byte c 2"
  "byte (shr c 8) 0 = byte c 1"
proof -
  have m: "(0xFF :: u32) = mask 8" by (simp add: mask_eq_exp_minus_1)
  show "ucast (ucast (c AND 0xFF) :: u8) = byte c 0"
    unfolding m by (rule bit_word_eqI) (auto simp: bit_ucast_iff bit_byte bit_and_iff bit_mask_iff)
  show "byte (shr c 24) 0 = byte c 3" "byte (shr c 16) 0 = byte c 2" "byte (shr c 8) 0 = byte c 1"
    by (rule bit_word_eqI; simp add: bit_byte bit_shr)+
qed

text \<open>The header that is made for a count is recognised and gives the count back, if it is at most
  \<open>0xFFFFFF\<close>; one that is made for a greater count is rejected.\<close>

theorem moo521_header_roundtrip:
  "length (moo521_make_header count) = MOO521_HEADERLEN \<and> moo521_is_header (moo521_make_header count)
   \<and> moo521_header_count (moo521_make_header count) = (if count \<le> 0xFFFFFF then Some count else None)"
proof -
  have "shl (byte count 3) 24 OR shl (byte count 2) 16 OR shl (byte count 1) 8 OR byte count 0 = count"
    using bytes4_byte [of count] unfolding bytes4_def by (simp add: or.commute or.left_commute)
  then show ?thesis
    by (simp add: moo521_make_header_def moo521_is_header_def moo521_header_count_def Let_def MOO521_HEADERLEN_def
      header_bytes shl_def linorder_not_le)
qed

lemma moo521_encode_dwords:
  assumes b: "length b = 168"
  shows "length (moo521_encode b s) = 176" "rd32le (moo521_encode b s) 172 = bswap32 s"
    "i < 42 \<Longrightarrow> rd32le (moo521_encode b s) (i * 4) = encode_dword (s - of_nat i * MOO521_DELTA) (rd32le b (i * 4))"
    "rd32le (moo521_encode b s) 168 = encode_dword (s - 42 * MOO521_DELTA) (bswap32 (moo521_checksum b))"
proof -
  define q where "q = wr32le (wr32le (b @ replicate 8 0) 168 (bswap32 (moo521_checksum b))) 172 (bswap32 s)"
  have e: "moo521_encode b s = cipher_loop encode_dword 43 s q"
    using b by (simp add: moo521_encode_def q_def Let_def)
  have q: "length q = 176" "rd32le q 172 = bswap32 s" "rd32le q 168 = bswap32 (moo521_checksum b)"
    "i < 42 \<Longrightarrow> rd32le q (i * 4) = rd32le b (i * 4)"
    using b by (simp_all add: q_def rd_wr_same rd_wr_other rd_append)
  have l: "length (cipher_loop encode_dword 43 s q) = 176"
    "\<And>j. j < 43 \<Longrightarrow> rd32le (cipher_loop encode_dword 43 s q) (j * 4) = encode_dword (s - of_nat j * MOO521_DELTA) (rd32le q (j * 4))"
    "\<And>k. 172 \<le> k \<Longrightarrow> rd32le (cipher_loop encode_dword 43 s q) k = rd32le q k"
    using cipher_loop_dwords [of 43 q encode_dword s] q(1) by simp_all
  show "length (moo521_encode b s) = 176" "rd32le (moo521_encode b s) 172 = bswap32 s"
    "i < 42 \<Longrightarrow> rd32le (moo521_encode b s) (i * 4) = encode_dword (s - of_nat i * MOO521_DELTA) (rd32le b (i * 4))"
    "rd32le (moo521_encode b s) 168 = encode_dword (s - 42 * MOO521_DELTA) (bswap32 (moo521_checksum b))"
    using l(1) l(2) [of i] l(2) [of 42] l(3) [of 172] q by (simp_all add: e)
qed

lemma moo521_decode_dwords:
  assumes "length p = 176"
  shows "length (moo521_decode p) = 168"
    "i < 42 \<Longrightarrow> rd32le (moo521_decode p) (i * 4) = decode_dword (bswap32 (rd32le p 172) - of_nat i * MOO521_DELTA) (rd32le p (i * 4))"
  using assms cipher_loop_dwords [of 42 "take 168 p" decode_dword "bswap32 (rd32le p 172)"]
  by (simp_all add: moo521_decode_def Let_def rd_take)

text \<open>C39: the codec is exact in both directions. A record of 168 bytes comes back from its packet, which
  has 176 bytes, the last four of which are the swapped seed and the four before them the
  enciphered checksum; and a packet comes back from its record under its own seed, if its
  deciphered check dword is the swapped checksum of the record.\<close>

theorem moo521_roundtrip:
  assumes "length body = 168" "length packet = 176" "key = bswap32 (rd32le packet 172)"
  shows "(moo521_decode (moo521_encode body seed) = body \<and> length (moo521_encode body seed) = 176
      \<and> rd32le (moo521_encode body seed) 172 = bswap32 seed
      \<and> decode_dword (seed - 42 * MOO521_DELTA) (rd32le (moo521_encode body seed) 168) = bswap32 (moo521_checksum body))
    \<and> (decode_dword (key - 42 * MOO521_DELTA) (rd32le packet 168) = bswap32 (moo521_checksum (moo521_decode packet))
      \<longrightarrow> moo521_encode (moo521_decode packet) key = packet)"
proof (intro conjI impI)
  note enc = moo521_encode_dwords and dec = moo521_decode_dwords
  show "length (moo521_encode body seed) = 176" "rd32le (moo521_encode body seed) 172 = bswap32 seed"
    "decode_dword (seed - 42 * MOO521_DELTA) (rd32le (moo521_encode body seed) 168) = bswap32 (moo521_checksum body)"
    using enc [OF assms(1)] by (simp_all add: decode_encode_dword)
  show "moo521_decode (moo521_encode body seed) = body"
    by (rule dwords_eqI [of _ 42]) (use enc [OF assms(1)] dec [of "moo521_encode body seed"] assms(1) in \<open>simp_all add: decode_encode_dword\<close>)
  assume ck: "decode_dword (key - 42 * MOO521_DELTA) (rd32le packet 168) = bswap32 (moo521_checksum (moo521_decode packet))"
  note d = dec [OF assms(2), folded assms(3)]
  show "moo521_encode (moo521_decode packet) key = packet"
  proof (rule dwords_eqI [of _ 44])
    fix i :: nat
    assume "i < 44"
    then consider "i < 42" | "i = 42" | "i = 43" by linarith
    then show "rd32le (moo521_encode (moo521_decode packet) key) (i * 4) = rd32le packet (i * 4)"
      by cases (simp_all add: enc [OF d(1)] d(2) encode_decode_dword assms(3) flip: ck [unfolded assms(3)])
  qed (simp_all add: enc [OF d(1)] assms(2))
qed

theorem moo521_roundtrip_witness:
  "moo521_decode (moo521_encode (replicate 168 7) 0xDEADBEEF) = replicate 168 7"
  using moo521_roundtrip [of "replicate 168 7" "replicate 176 0" _ "0xDEADBEEF"] by simp

end
