(* ===== verification/PollSys.thy ===== *)
theory PollSys
  imports Prelude
begin

text \<open>
  The polling system of \<open>common/pollsys.cpp\<close>: procedures that are registered with a priority and a
  time and are called, one after the other, while the main thread sleeps. A pointer into the run
  list is the index of the slot; slots are never taken out of it, only all of them at once. A
  procedure is a value of the type \<open>'p\<close> that stands for its address with its argument. The fields
  of a new slot that \<open>malloc\<close> leaves uninitialised, and that are not read before they are
  set, are 0. Times are pairs of seconds and microseconds.
\<close>

section \<open>The data\<close>

type_synonym timeval = "int \<times> int"

definition MAX_POLL_RUNLEVEL :: nat where "MAX_POLL_RUNLEVEL = 32"

record 'p polldata =
  pd_priority :: nat
  pd_chainhead :: bool
  pd_inuse :: bool
  pd_fd :: int
  pd_proc :: "'p option"
  pd_execat :: timeval

text \<open>\<open>pollsysdata\<close>, the list \<open>pollsysdatapaused\<close>, and the static variables of \<open>__RunPollingLoop\<close>.\<close>

record 'p pollsys =
  runlist :: "'p polldata list"
  regcount :: u32
  nextrun :: "nat option list"
  paused :: "('p \<times> nat) list"
  isrunning :: u32
  overflow :: timeval

definition pollsys_start :: "'p pollsys" where
  "pollsys_start = \<lparr>runlist = [], regcount = 0, nextrun = replicate (MAX_POLL_RUNLEVEL + 1) None,
     paused = [], isrunning = 0, overflow = (0, 0)\<rparr>"

section \<open>Registration\<close>

text \<open>\<open>UnregPolledProcedure\<close>.\<close>

definition UnregPolledProcedure :: "int \<Rightarrow> 'p pollsys \<Rightarrow> int \<times> 'p pollsys" where
  "UnregPolledProcedure fd s =
     (let i = length (takeWhile (\<lambda>p. pd_fd p \<noteq> fd) (runlist s)) in
      if i < length (runlist s) then
        (if pd_inuse (runlist s ! i) then 0 else -1,
         s\<lparr>runlist := (runlist s)[i := (runlist s ! i)\<lparr>pd_inuse := False\<rparr>], regcount := regcount s - 1\<rparr>)
      else (-1, s))"

text \<open>The slots in one allocation: \<open>sizeof(struct polldata)\<close> is 56 with 64-bit pointers.\<close>

definition mcount :: nat where "mcount = 1024 div 56"

definition new_slots :: "int \<Rightarrow> 'p polldata list" where
  "new_slots fd = map (\<lambda>i. \<lparr>pd_priority = 0, pd_chainhead = (i = 0), pd_inuse = False,
     pd_fd = fd + 1 + int i, pd_proc = None, pd_execat = (0, 0)\<rparr>) [0..<mcount]"

text \<open>\<open>RegPolledProcedure\<close>: whether \<open>malloc\<close> succeeds and the reading of the clock are arguments.\<close>

definition find_slot :: "bool \<Rightarrow> 'p pollsys \<Rightarrow> nat option \<times> 'p pollsys" where
  "find_slot malloc_ok s =
     (let l = runlist s;
          i = length (takeWhile pd_inuse l)
      in
      if i < length l then (Some i, s)
      else
        let s = (if l = [] then s\<lparr>nextrun := replicate (MAX_POLL_RUNLEVEL + 1) None\<rparr> else s);
            fd = (if l = [] then -1 else pd_fd (last l))
        in
        if malloc_ok then (Some i, s\<lparr>runlist := l @ new_slots (if fd = -1 then 0 else fd)\<rparr>) else (None, s))"

definition exec_time :: "timeval \<Rightarrow> timeval option \<Rightarrow> timeval" where
  "exec_time now interval =
     (case interval of
        None \<Rightarrow> now
      | Some (sec, usec) \<Rightarrow>
          let tv_sec = fst now + sec;
              tv_usec = snd now + usec
          in (tv_sec + tv_usec div 1000000, tv_usec mod 1000000))"

definition RegPolledProcedure ::
  "bool \<Rightarrow> timeval option \<Rightarrow> 'p option \<Rightarrow> timeval option \<Rightarrow> nat \<Rightarrow> 'p pollsys \<Rightarrow> int \<times> 'p pollsys" where
  "RegPolledProcedure malloc_ok clock pr interval priority s =
     (case pr of
        None \<Rightarrow> (-1, s)
      | Some _ \<Rightarrow>
          let (slot, s) = find_slot malloc_ok s in
          case (slot, clock) of
            (Some i, Some now) \<Rightarrow>
              let thisp = (runlist s ! i)\<lparr>pd_inuse := True, pd_proc := pr,
                    pd_priority := (if priority \<ge> MAX_POLL_RUNLEVEL then MAX_POLL_RUNLEVEL - 1 else priority),
                    pd_execat := exec_time now interval\<rparr>
              in (pd_fd thisp, s\<lparr>regcount := regcount s + 1, runlist := (runlist s)[i := thisp]\<rparr>)
          | _ \<Rightarrow> (-1, s))"

definition InitializePolling :: "bool \<Rightarrow> timeval option \<Rightarrow> 'p \<Rightarrow> 'p pollsys \<Rightarrow> int \<times> 'p pollsys" where
  "InitializePolling malloc_ok clock initchk s =
     (if runlist s \<noteq> [] then (0, s)
      else
        let (fd, s) = RegPolledProcedure malloc_ok clock (Some initchk) None 0 s in
        if fd \<noteq> -1 then (0, snd (UnregPolledProcedure fd s)) else (-1, s))"

text \<open>\<open>DeinitializePolling\<close>, with the indices of the slots that are given to \<open>free\<close>: \<open>thatp\<close> is the head
  of the allocation before, which is freed when the next head or the end is reached.\<close>

fun free_chain :: "nat \<Rightarrow> nat option \<Rightarrow> 'p polldata list \<Rightarrow> nat list" where
  "free_chain k thatp [] = (case thatp of None \<Rightarrow> [] | Some h \<Rightarrow> [h])"
| "free_chain k thatp (p # ps) =
     (if pd_chainhead p then (case thatp of None \<Rightarrow> [] | Some h \<Rightarrow> [h]) @ free_chain (k + 1) (Some k) ps
      else free_chain (k + 1) thatp ps)"

definition DeinitializePolling :: "'p pollsys \<Rightarrow> nat list \<times> 'p pollsys" where
  "DeinitializePolling s = (free_chain 0 None (runlist s), s\<lparr>runlist := [], paused := []\<rparr>)"

definition EnqueuePolledProcedure :: "'p \<Rightarrow> nat \<Rightarrow> 'p pollsys \<Rightarrow> int \<times> 'p pollsys" where
  "EnqueuePolledProcedure pr priority s = (0, s\<lparr>paused := (pr, priority) # paused s\<rparr>)"

fun RegQueued_loop :: "bool list \<Rightarrow> timeval option list \<Rightarrow> ('p \<times> nat) list \<Rightarrow> 'p pollsys \<Rightarrow> 'p pollsys" where
  "RegQueued_loop (ok # oks) (c # cs) ((pr, priority) # q) s =
     RegQueued_loop oks cs q (snd (RegPolledProcedure ok c (Some pr) None priority (s\<lparr>paused := q\<rparr>)))"
| "RegQueued_loop _ _ _ s = s"

text \<open>The outcomes of \<open>malloc\<close> and the readings of the clock are as many as there are procedures.\<close>

definition RegQueuedPolledProcedures :: "bool list \<Rightarrow> timeval option list \<Rightarrow> 'p pollsys \<Rightarrow> int \<times> 'p pollsys" where
  "RegQueuedPolledProcedures oks cs s = (0, RegQueued_loop oks cs (paused s) s)"

section \<open>The loop\<close>

definition before :: "timeval \<Rightarrow> timeval \<Rightarrow> bool" where
  "before a b \<longleftrightarrow> fst a < fst b \<or> (fst a = fst b \<and> snd a < snd b)"

text \<open>\<open>CliTimerDiff\<close> of \<open>common/clitime.cpp\<close> on two times that are given: the absolute difference. The
  times of a monotonic clock are not negative, so that the comparison as \<open>unsigned long\<close> is the
  one of the integers.\<close>

definition CliTimerDiff :: "timeval \<Rightarrow> timeval \<Rightarrow> timeval" where
  "CliTimerDiff tv1 tv2 =
     (let (tv1, tv2) = (if before tv2 tv1 then (tv2, tv1) else (tv1, tv2));
          (sec, usec) = tv2;
          (sec, usec) = (if usec < snd tv1 then (sec - 1, usec + 1000000) else (sec, usec))
      in (sec - fst tv1, usec - snd tv1))"

definition due :: "nat \<Rightarrow> timeval \<Rightarrow> 'p polldata \<Rightarrow> bool" where
  "due runprio now p \<longleftrightarrow> pd_inuse p \<and> pd_priority p = runprio \<and> \<not> before now (pd_execat p)"

text \<open>The inner loop, which looks for a procedure to run at one priority. The result is the procedure
  that is called, if any, \<open>None\<close> for the whole if the fuel is used up.\<close>

fun scan_loop :: "nat \<Rightarrow> nat \<Rightarrow> timeval \<Rightarrow> nat \<Rightarrow> 'p pollsys \<Rightarrow> ('p option \<times> 'p pollsys) option" where
  "scan_loop 0 runprio now thisp s = None"
| "scan_loop (Suc fuel) runprio now thisp s =
     (let l = runlist s;
          nextp = (if thisp + 1 < length l then thisp + 1 else 0);
          loopend = (pd_fd (l ! the (nextrun s ! runprio)) = pd_fd (l ! nextp))
      in
      if due runprio now (l ! thisp) then
        Some (pd_proc (l ! thisp),
          s\<lparr>runlist := l[thisp := (l ! thisp)\<lparr>pd_inuse := False\<rparr>], regcount := regcount s - 1,
            nextrun := (nextrun s)[runprio := Some nextp]\<rparr>)
      else if loopend then Some (None, s)
      else scan_loop fuel runprio now nextp s)"

definition scan :: "nat \<Rightarrow> timeval \<Rightarrow> 'p pollsys \<Rightarrow> ('p option \<times> 'p pollsys) option" where
  "scan runprio now s =
     (if runlist s = [] then Some (None, s)
      else
        let s = (if nextrun s ! runprio = None then s\<lparr>nextrun := (nextrun s)[runprio := Some 0]\<rparr> else s)
        in scan_loop (length (runlist s)) runprio now (the (nextrun s ! runprio)) s)"

text \<open>What the loop gets from elsewhere: the clock, the sleep for a number of microseconds, and the
  procedures, which may use the polling system, on a world of the type \<open>'w\<close>.\<close>

record ('w, 'p) poll_env =
  pe_clock :: "'w \<Rightarrow> timeval option \<times> 'w"
  pe_usleep :: "int \<Rightarrow> 'w \<Rightarrow> 'w"
  pe_exec :: "'p \<Rightarrow> 'p pollsys \<Rightarrow> 'w \<Rightarrow> 'p pollsys \<times> 'w"

text \<open>One round of the outer loop: a scan at \<open>runprio\<close>, the call, and the next priority and time.\<close>

definition poll_round ::
  "('w, 'p) poll_env \<Rightarrow> timeval \<Rightarrow> nat \<times> timeval \<times> 'p pollsys \<times> 'w \<Rightarrow> (nat \<times> timeval \<times> 'p pollsys \<times> 'w) option" where
  "poll_round env until st =
     (case st of (runprio, now, s, w) \<Rightarrow>
        case scan runprio now s of
          None \<Rightarrow> None
        | Some (run, s) \<Rightarrow>
            let (s, w) = (case run of None \<Rightarrow> (s, w) | Some pr \<Rightarrow> pe_exec env pr s w);
                (runprio, reclock, w) =
                  (if run \<noteq> None then (MAX_POLL_RUNLEVEL, True, w)
                   else if runprio > 0 then (runprio - 1, False, w)
                   else (MAX_POLL_RUNLEVEL, True, if before now until then pe_usleep env 100 w else w))
            in
            if reclock then
              (case pe_clock env w of
                 (Some now, w) \<Rightarrow> Some (runprio, now, s, w)
               | (None, w) \<Rightarrow>
                   let ov = CliTimerDiff now until
                   in Some (runprio, until, s\<lparr>overflow := ov\<rparr>, pe_usleep env (fst ov * 1000000 + snd ov) w))
            else Some (runprio, now, s, w))"

fun poll_loop ::
  "nat \<Rightarrow> ('w, 'p) poll_env \<Rightarrow> timeval \<Rightarrow> nat \<times> timeval \<times> 'p pollsys \<times> 'w \<Rightarrow> (nat \<times> timeval \<times> 'p pollsys \<times> 'w) option" where
  "poll_loop 0 env until st = None"
| "poll_loop (Suc fuel) env until st =
     (case poll_round env until st of
        None \<Rightarrow> None
      | Some st \<Rightarrow> if before (fst (snd st)) until then poll_loop fuel env until st else Some st)"

definition RunPollingLoop ::
  "nat \<Rightarrow> ('w, 'p) poll_env \<Rightarrow> int \<Rightarrow> int \<Rightarrow> 'p pollsys \<Rightarrow> 'w \<Rightarrow> ('p pollsys \<times> 'w) option" where
  "RunPollingLoop fuel env secs usecs s w =
     (let s = s\<lparr>isrunning := isrunning s + 1\<rparr> in
      map_option (\<lambda>(s, w). (s\<lparr>isrunning := isrunning s - 1\<rparr>, w))
        (if isrunning s > 1 then Some (s, w)
         else if runlist s = [] \<or> regcount s = 0 then
           Some (s, pe_usleep env (if secs \<noteq> 0 then secs * 1000000 else usecs) w)
         else
           case pe_clock env w of
             (None, w) \<Rightarrow> Some (s, pe_usleep env (if secs \<noteq> 0 then secs * 1000000 else usecs) w)
           | (Some now, w) \<Rightarrow>
               let until_usec = snd now + usecs;
                   until = (fst now + secs + until_usec div 1000000, until_usec mod 1000000);
                   until = CliTimerDiff until (overflow s)
               in case poll_loop fuel env until (MAX_POLL_RUNLEVEL, now, s, w) of
                    None \<Rightarrow> None
                  | Some (_, now, s, w) \<Rightarrow> Some (s\<lparr>overflow := CliTimerDiff now until\<rparr>, w)))"

section \<open>The invariant\<close>

text \<open>The handle of a slot is its position, counted from 1; the entries of \<open>nextrun\<close> point into the list.\<close>

definition pollsys_ok :: "'p pollsys \<Rightarrow> bool" where
  "pollsys_ok s \<longleftrightarrow> (\<forall>i<length (runlist s). pd_fd (runlist s ! i) = int i + 1 \<and> (pd_inuse (runlist s ! i) \<longrightarrow> pd_proc (runlist s ! i) \<noteq> None))
     \<and> length (nextrun s) = MAX_POLL_RUNLEVEL + 1
     \<and> (runlist s \<noteq> [] \<longrightarrow> (\<forall>r\<le>MAX_POLL_RUNLEVEL. \<forall>k. nextrun s ! r = Some k \<longrightarrow> k < length (runlist s)))"

definition registered :: "'p pollsys \<Rightarrow> nat" where
  "registered s = length (filter pd_inuse (runlist s))"

definition counted :: "'p pollsys \<Rightarrow> bool" where
  "counted s \<longleftrightarrow> regcount s = of_nat (registered s)"

lemma pollsys_ok_start: "pollsys_ok pollsys_start" "counted pollsys_start"
  by (simp_all add: pollsys_ok_def pollsys_start_def counted_def registered_def)

lemma filter_update_True:
  "i < length l \<Longrightarrow> P x \<Longrightarrow> \<not> P (l ! i) \<Longrightarrow> length (filter P (l[i := x])) = Suc (length (filter P l))"
  by (induction l arbitrary: i) (auto split: nat.splits)

lemma filter_update_False:
  "i < length l \<Longrightarrow> \<not> P x \<Longrightarrow> P (l ! i) \<Longrightarrow> Suc (length (filter P (l[i := x]))) = length (filter P l)"
  by (induction l arbitrary: i) (auto split: nat.splits)

lemma takeWhile_nth: "length (takeWhile P l) < length l \<Longrightarrow> \<not> P (l ! length (takeWhile P l))"
  by (rule nth_length_takeWhile)

lemma length_new_slots [simp]: "length (new_slots fd) = mcount"
  by (simp add: new_slots_def)

lemma mcount_pos: "0 < mcount"
  by (simp add: mcount_def)

lemma new_slots_nth: "i < mcount \<Longrightarrow> pd_fd (new_slots fd ! i) = fd + 1 + int i \<and> \<not> pd_inuse (new_slots fd ! i)"
  by (simp add: new_slots_def)

lemma filter_new_slots [simp]: "filter pd_inuse (new_slots fd) = []"
  by (auto simp: new_slots_def filter_empty_conv)

lemma nextrun_reset [simp]: "r \<le> n \<Longrightarrow> (None # replicate n None) ! r = None"
  by (cases r) simp_all

lemma find_slot_ok:
  assumes "pollsys_ok s" "find_slot ok s = (slot, s')"
  shows "pollsys_ok s'" "registered s' = registered s" "regcount s' = regcount s" "paused s' = paused s"
    "slot = Some i \<Longrightarrow> i < length (runlist s') \<and> \<not> pd_inuse (runlist s' ! i)"
    "\<exists>new. runlist s' = runlist s @ new \<and> (\<forall>p\<in>set new. \<not> pd_inuse p)"
proof -
  define l where "l = runlist s"
  define k where "k = length (takeWhile pd_inuse l)"
  define fd where "fd = (if l = [] then 0 else pd_fd (last l))"
  have fd: "fd = int (length l)"
    using assms(1) by (cases l rule: rev_cases) (auto simp: fd_def pollsys_ok_def l_def nth_append)
  then have fd0: "(if (if l = [] then -1 else pd_fd (last l)) = -1 then 0 else (if l = [] then -1 else pd_fd (last l))) = fd"
    unfolding fd_def by (cases "l = []") auto
  consider "k < length l" "slot = Some k" "s' = s"
    | "\<not> k < length l" "ok" "slot = Some k" "s' = (if l = [] then s\<lparr>nextrun := replicate (MAX_POLL_RUNLEVEL + 1) None\<rparr> else s)\<lparr>runlist := l @ new_slots fd\<rparr>"
    | "\<not> k < length l" "slot = None" "s' = (if l = [] then s\<lparr>nextrun := replicate (MAX_POLL_RUNLEVEL + 1) None\<rparr> else s)"
    using assms(2) unfolding find_slot_def Let_def l_def [symmetric] k_def [symmetric] fd0
    by (cases "k < length l"; cases ok; cases "l = []") auto
  then have "pollsys_ok s' \<and> registered s' = registered s \<and> regcount s' = regcount s \<and> paused s' = paused s \<and>
      (slot = Some i \<longrightarrow> i < length (runlist s') \<and> \<not> pd_inuse (runlist s' ! i))
      \<and> (\<exists>new. runlist s' = runlist s @ new \<and> (\<forall>p\<in>set new. \<not> pd_inuse p))"
  proof cases
    case 1
    then show ?thesis using assms(1) takeWhile_nth [of pd_inuse l] by (auto simp: k_def l_def)
  next
    case 2
    have k: "k = length l" using 2(1) length_takeWhile_le [of pd_inuse l] by (simp add: k_def)
    have "pollsys_ok s'"
      using assms(1) fd 2(4)
      by (auto simp: pollsys_ok_def l_def nth_append new_slots_nth)
    then show ?thesis
      using 2 k mcount_pos new_slots_nth [of 0 fd]
      by (auto simp: registered_def l_def nth_append in_set_conv_nth new_slots_nth)
  next
    case 3
    then show ?thesis using assms(1) by (auto simp: pollsys_ok_def l_def registered_def)
  qed
  then show "pollsys_ok s'" "registered s' = registered s" "regcount s' = regcount s" "paused s' = paused s"
    "slot = Some i \<Longrightarrow> i < length (runlist s') \<and> \<not> pd_inuse (runlist s' ! i)"
    "\<exists>new. runlist s' = runlist s @ new \<and> (\<forall>p\<in>set new. \<not> pd_inuse p)" by blast+
qed

lemma RegPolledProcedure_ok:
  assumes "pollsys_ok s" "RegPolledProcedure ok clock pr interval priority s = (fd, s')"
  shows "pollsys_ok s'" "counted s \<Longrightarrow> counted s'"
    "fd \<noteq> -1 \<Longrightarrow> \<exists>i now. clock = Some now \<and> fd = int i + 1 \<and> i < length (runlist s') \<and> registered s' = Suc (registered s)
      \<and> \<not> (i < length (runlist s) \<and> pd_inuse (runlist s ! i))
      \<and> (\<forall>j<length (runlist s). j \<noteq> i \<longrightarrow> runlist s' ! j = runlist s ! j)
      \<and> pd_inuse (runlist s' ! i) \<and> pd_proc (runlist s' ! i) = pr \<and> pd_priority (runlist s' ! i) = min priority (MAX_POLL_RUNLEVEL - 1)
      \<and> pd_execat (runlist s' ! i) = exec_time now interval"
    "fd = -1 \<Longrightarrow> registered s' = registered s"
proof -
  obtain slot t where t: "find_slot ok s = (slot, t)" by (rule prod.exhaust)
  note f = find_slot_ok [OF assms(1) t]
  obtain new where new: "runlist t = runlist s @ new" "\<forall>p\<in>set new. \<not> pd_inuse p" using f(6) by blast
  consider (fail) "fd = -1" "s' = s \<or> s' = t" "pr = None \<or> slot = None \<or> clock = None"
    | (ok) p i now where "pr = Some p" "slot = Some i" "clock = Some now" "fd = pd_fd (runlist t ! i)"
      "s' = t\<lparr>regcount := regcount t + 1, runlist := (runlist t)[i := (runlist t ! i)\<lparr>pd_inuse := True, pd_proc := pr,
          pd_priority := (if priority \<ge> MAX_POLL_RUNLEVEL then MAX_POLL_RUNLEVEL - 1 else priority),
          pd_execat := exec_time now interval\<rparr>]\<rparr>"
    using assms(2) t by (auto simp: RegPolledProcedure_def Let_def split: option.splits)
  then have "pollsys_ok s' \<and> (counted s \<longrightarrow> counted s') \<and> (fd \<noteq> -1 \<longrightarrow> (\<exists>i now. clock = Some now \<and> fd = int i + 1 \<and> i < length (runlist s') \<and> registered s' = Suc (registered s)
      \<and> \<not> (i < length (runlist s) \<and> pd_inuse (runlist s ! i))
      \<and> (\<forall>j<length (runlist s). j \<noteq> i \<longrightarrow> runlist s' ! j = runlist s ! j)
      \<and> pd_inuse (runlist s' ! i) \<and> pd_proc (runlist s' ! i) = pr \<and> pd_priority (runlist s' ! i) = min priority (MAX_POLL_RUNLEVEL - 1)
      \<and> pd_execat (runlist s' ! i) = exec_time now interval)) \<and> (fd = -1 \<longrightarrow> registered s' = registered s)"
  proof cases
    case fail
    then show ?thesis using f(1,2,3) assms(1) by (auto simp: counted_def)
  next
    case ok
    have i: "i < length (runlist t)" "\<not> pd_inuse (runlist t ! i)" using f(5) ok(2) by auto
    then have r: "registered s' = Suc (registered s)"
      using f(2) by (simp add: ok(5) registered_def filter_update_True)
    have p: "pollsys_ok s'"
      using f(1) i ok(1,5) by (auto simp: pollsys_ok_def nth_list_update)
    have "fd = int i + 1" using f(1) i(1) ok(4) by (simp add: pollsys_ok_def)
    moreover have "\<not> (i < length (runlist s) \<and> pd_inuse (runlist s ! i))"
      using i(2) new(1) by (auto simp: nth_append)
    moreover have "\<forall>j<length (runlist s). j \<noteq> i \<longrightarrow> runlist s' ! j = runlist s ! j"
      using new(1) ok(5) by (simp add: nth_append)
    ultimately show ?thesis
      using p r i ok f(3) by (auto simp: counted_def min_def)
  qed
  then show "pollsys_ok s'" "counted s \<Longrightarrow> counted s'"
    "fd \<noteq> -1 \<Longrightarrow> \<exists>i now. clock = Some now \<and> fd = int i + 1 \<and> i < length (runlist s') \<and> registered s' = Suc (registered s)
      \<and> \<not> (i < length (runlist s) \<and> pd_inuse (runlist s ! i))
      \<and> (\<forall>j<length (runlist s). j \<noteq> i \<longrightarrow> runlist s' ! j = runlist s ! j)
      \<and> pd_inuse (runlist s' ! i) \<and> pd_proc (runlist s' ! i) = pr \<and> pd_priority (runlist s' ! i) = min priority (MAX_POLL_RUNLEVEL - 1)
      \<and> pd_execat (runlist s' ! i) = exec_time now interval"
    "fd = -1 \<Longrightarrow> registered s' = registered s" by blast+
qed

lemma find_fd:
  assumes "pollsys_ok s"
  shows "length (takeWhile (\<lambda>p. pd_fd p \<noteq> fd) (runlist s)) =
    (if 1 \<le> fd \<and> fd \<le> int (length (runlist s)) then nat fd - 1 else length (runlist s))"
proof (cases "1 \<le> fd \<and> fd \<le> int (length (runlist s))")
  case True
  define k where "k = nat fd - 1"
  have fd: "fd = int k + 1" and k: "k < length (runlist s)" using True by (auto simp: k_def)
  have "takeWhile (\<lambda>p. pd_fd p \<noteq> fd) (runlist s) = take k (runlist s)"
    using assms k by (intro takeWhile_eq_take_P_nth) (auto simp: pollsys_ok_def fd)
  then show ?thesis using True k by (simp add: k_def)
next
  case False
  then have "\<forall>p\<in>set (runlist s). pd_fd p \<noteq> fd"
    using assms by (fastforce simp: pollsys_ok_def in_set_conv_nth)
  then have "takeWhile (\<lambda>p. pd_fd p \<noteq> fd) (runlist s) = runlist s" by simp
  then show ?thesis using False by (simp only: if_False)
qed

lemma UnregPolledProcedure_ok:
  assumes "pollsys_ok s" "UnregPolledProcedure fd s = (rc, s')"
  shows "pollsys_ok s'" "length (runlist s') = length (runlist s)"
    "rc = 0 \<Longrightarrow> counted s \<Longrightarrow> counted s'"
proof -
  define i where "i = length (takeWhile (\<lambda>p. pd_fd p \<noteq> fd) (runlist s))"
  have "pollsys_ok s' \<and> length (runlist s') = length (runlist s) \<and> (rc = 0 \<longrightarrow> counted s \<longrightarrow> counted s')"
  proof (cases "i < length (runlist s)")
    case True
    then have s': "rc = (if pd_inuse (runlist s ! i) then 0 else -1)"
      "s' = s\<lparr>runlist := (runlist s)[i := (runlist s ! i)\<lparr>pd_inuse := False\<rparr>], regcount := regcount s - 1\<rparr>"
      using assms(2) by (simp_all add: UnregPolledProcedure_def Let_def i_def)
    have "counted s'" if "rc = 0" "counted s"
    proof -
      have "pd_inuse (runlist s ! i)" using that(1) s'(1) by (simp split: if_splits)
      then have "Suc (registered s') = registered s"
        using True filter_update_False [of i "runlist s" pd_inuse "(runlist s ! i)\<lparr>pd_inuse := False\<rparr>"]
        by (simp add: s'(2) registered_def)
      then have "registered s = Suc (registered s')" by simp
      moreover have "regcount s' = regcount s - 1" by (simp add: s'(2))
      ultimately show ?thesis using that(2) by (simp add: counted_def)
    qed
    then show ?thesis
      using assms(1) True by (auto simp: s'(2) pollsys_ok_def nth_list_update)
  next
    case False
    then show ?thesis using assms by (simp add: UnregPolledProcedure_def Let_def i_def)
  qed
  then show "pollsys_ok s'" "length (runlist s') = length (runlist s)" "rc = 0 \<Longrightarrow> counted s \<Longrightarrow> counted s'"
    by blast+
qed

section \<open>The scan\<close>

text \<open>What the scan is to do: the first slot that is due, in the circular order from where the last run
  at this priority left off.\<close>

definition scan_start :: "nat \<Rightarrow> 'p pollsys \<Rightarrow> nat" where
  "scan_start r s = (case nextrun s ! r of None \<Rightarrow> 0 | Some k \<Rightarrow> k)"

definition first_due :: "nat \<Rightarrow> timeval \<Rightarrow> 'p pollsys \<Rightarrow> nat option" where
  "first_due r now s =
     map_option (\<lambda>k. (scan_start r s + k) mod length (runlist s))
       (find (\<lambda>k. due r now (runlist s ! ((scan_start r s + k) mod length (runlist s)))) [0..<length (runlist s)])"

definition run_slot :: "nat \<Rightarrow> nat \<Rightarrow> 'p pollsys \<Rightarrow> 'p pollsys" where
  "run_slot r i s = s\<lparr>runlist := (runlist s)[i := (runlist s ! i)\<lparr>pd_inuse := False\<rparr>], regcount := regcount s - 1,
     nextrun := (nextrun s)[r := Some (Suc i mod length (runlist s))]\<rparr>"

lemma scan_loop_step:
  assumes ok: "pollsys_ok s" "nextrun s ! r = Some a" "r \<le> MAX_POLL_RUNLEVEL" and n: "n = length (runlist s)" and i: "i < n"
  shows "scan_loop (Suc fuel) r now i s =
    (if due r now (runlist s ! i) then Some (pd_proc (runlist s ! i), run_slot r i s)
     else if a = Suc i mod n then Some (None, s) else scan_loop fuel r now (Suc i mod n) s)"
proof -
  define nextp where "nextp = (if i + 1 < length (runlist s) then i + 1 else 0)"
  have np: "nextp = Suc i mod n" using i n by (auto simp: mod_Suc nextp_def)
  have "a < n" using ok n i unfolding pollsys_ok_def by fastforce
  moreover have "Suc i mod n < n" using i by simp
  ultimately have e: "pd_fd (runlist s ! the (nextrun s ! r)) = pd_fd (runlist s ! nextp) \<longleftrightarrow> a = Suc i mod n"
    using ok(1,2) n unfolding pollsys_ok_def np by simp
  show ?thesis
    unfolding scan_loop.simps Let_def nextp_def [symmetric] e
    using n by (simp add: np run_slot_def)
qed

lemma scan_loop_first:
  assumes ok: "pollsys_ok s" "nextrun s ! r = Some a" "r \<le> MAX_POLL_RUNLEVEL" and n: "n = length (runlist s)" "k < n"
  shows "scan_loop (n - k) r now ((a + k) mod n) s =
    (case find (\<lambda>k. due r now (runlist s ! ((a + k) mod n))) [k..<n] of
       None \<Rightarrow> Some (None, s)
     | Some j \<Rightarrow> Some (pd_proc (runlist s ! ((a + j) mod n)), run_slot r ((a + j) mod n) s))"
  using n(2)
proof (induction "n - k" arbitrary: k)
  case (Suc m)
  have a: "a < n" using ok n unfolding pollsys_ok_def by fastforce
  have nz: "0 < n" using Suc.prems by simp
  then have i: "(a + k) mod n < n" by simp
  have sk: "Suc ((a + k) mod n) mod n = (a + Suc k) mod n" by (simp add: mod_simps)
  have e: "a = (a + Suc k) mod n \<longleftrightarrow> Suc k = n"
  proof
    assume "a = (a + Suc k) mod n"
    then have "(a + Suc k) mod n = (a + 0) mod n" using a by simp
    then have "n dvd Suc k" by (metis add_diff_cancel_left' le_add1 mod_eq_dvd_iff_nat add.right_neutral)
    then show "Suc k = n" using Suc.prems by (metis Suc_leI dvd_imp_le le_antisym zero_less_Suc)
  qed (use a in simp)
  have u: "[k..<n] = k # [Suc k..<n]" using Suc.prems by (simp add: upt_conv_Cons)
  have step: "scan_loop (n - k) r now ((a + k) mod n) s =
    (if due r now (runlist s ! ((a + k) mod n)) then Some (pd_proc (runlist s ! ((a + k) mod n)), run_slot r ((a + k) mod n) s)
     else if Suc k = n then Some (None, s) else scan_loop m r now ((a + Suc k) mod n) s)"
    unfolding Suc.hyps(2) [symmetric] scan_loop_step [OF ok n(1) i] sk e ..
  show ?case
  proof (cases "due r now (runlist s ! ((a + k) mod n)) \<or> Suc k = n")
    case True
    then show ?thesis using u by (auto simp: step)
  next
    case False
    then have "scan_loop (n - Suc k) r now ((a + Suc k) mod n) s =
      (case find (\<lambda>k. due r now (runlist s ! ((a + k) mod n))) [Suc k..<n] of
         None \<Rightarrow> Some (None, s)
       | Some j \<Rightarrow> Some (pd_proc (runlist s ! ((a + j) mod n)), run_slot r ((a + j) mod n) s))"
      using Suc.prems Suc.hyps(2) by (intro Suc.hyps(1)) simp_all
    moreover have "n - Suc k = m" using Suc.hyps(2) by simp
    ultimately show ?thesis using False u by (simp add: step)
  qed
qed simp

text \<open>The state of the scan once the entry of the priority is set.\<close>

definition prime :: "nat \<Rightarrow> 'p pollsys \<Rightarrow> 'p pollsys" where
  "prime r s = (if runlist s \<noteq> [] \<and> nextrun s ! r = None then s\<lparr>nextrun := (nextrun s)[r := Some 0]\<rparr> else s)"

lemma scan_eq:
  assumes "pollsys_ok s" "r \<le> MAX_POLL_RUNLEVEL"
  shows "scan r now s = (case first_due r now s of None \<Rightarrow> Some (None, prime r s)
    | Some i \<Rightarrow> Some (pd_proc (runlist s ! i), run_slot r i (prime r s)))"
proof (cases "runlist s = []")
  case True
  then show ?thesis by (simp add: scan_def first_due_def prime_def)
next
  case False
  define t where "t = prime r s"
  have t: "runlist t = runlist s" "nextrun t ! r = Some (scan_start r s)" "pollsys_ok t"
    using assms False by (auto simp: t_def prime_def pollsys_ok_def scan_start_def nth_list_update split: option.splits)
  have "scan_start r s < length (runlist s)"
    using t assms(2) False unfolding pollsys_ok_def by auto
  moreover have "scan r now s = scan_loop (length (runlist s) - 0) r now (scan_start r s + 0) t"
    using False t(2) by (simp add: scan_def t_def [unfolded prime_def] Let_def)
  ultimately show ?thesis
    using scan_loop_first [OF t(3,2) assms(2) refl, of 0 now] False
    by (auto simp: t(1) first_due_def t_def [symmetric] split: option.splits)
qed

lemma first_due_Some:
  assumes "first_due r now s = Some i"
  shows "i < length (runlist s)" "due r now (runlist s ! i)"
    "\<exists>k<length (runlist s). i = (scan_start r s + k) mod length (runlist s)
      \<and> (\<forall>j<k. \<not> due r now (runlist s ! ((scan_start r s + j) mod length (runlist s))))"
proof -
  obtain k where k: "i = (scan_start r s + k) mod length (runlist s)"
    "find (\<lambda>k. due r now (runlist s ! ((scan_start r s + k) mod length (runlist s)))) [0..<length (runlist s)] = Some k"
    using assms by (auto simp: first_due_def)
  then have "k < length (runlist s)" by (auto simp: find_Some_iff)
  then have "i < length (runlist s)" unfolding k(1) by (intro mod_less_divisor) linarith
  with k show "i < length (runlist s)" "due r now (runlist s ! i)"
    "\<exists>k<length (runlist s). i = (scan_start r s + k) mod length (runlist s)
      \<and> (\<forall>j<k. \<not> due r now (runlist s ! ((scan_start r s + j) mod length (runlist s))))"
    by (auto simp: find_Some_iff)
qed

lemma offset_exists:
  assumes "(i::nat) < n" "a < n"
  shows "(a + (i + n - a) mod n) mod n = i"
  using assms by (simp add: mod_simps)

lemma first_due_None:
  assumes "pollsys_ok s" "r \<le> MAX_POLL_RUNLEVEL"
  shows "first_due r now s = None \<longleftrightarrow> (\<forall>p\<in>set (runlist s). \<not> due r now p)"
proof (cases "runlist s = []")
  case False
  define n where "n = length (runlist s)"
  have a: "scan_start r s < n"
    using assms False by (auto simp: scan_start_def pollsys_ok_def n_def split: option.splits)
  have "(\<forall>k<n. \<not> due r now (runlist s ! ((scan_start r s + k) mod n))) \<longleftrightarrow> (\<forall>i<n. \<not> due r now (runlist s ! i))"
  proof (intro iffI allI impI)
    fix i
    assume *: "\<forall>k<n. \<not> due r now (runlist s ! ((scan_start r s + k) mod n))" "i < n"
    then have "(i + n - scan_start r s) mod n < n" by simp
    then show "\<not> due r now (runlist s ! i)" using * offset_exists [OF *(2) a] by metis
  qed (use a in \<open>metis mod_less_divisor not_less_zero gr0I\<close>)
  then show ?thesis
    by (auto simp: first_due_def find_None_iff n_def all_set_conv_all_nth)
qed (simp add: first_due_def)

lemma run_slot_ok:
  assumes "pollsys_ok s" "i < length (runlist s)" "r \<le> MAX_POLL_RUNLEVEL"
  shows "pollsys_ok (run_slot r i s)" "pd_inuse (runlist s ! i) \<Longrightarrow> counted s \<Longrightarrow> counted (run_slot r i s)"
proof -
  show "pollsys_ok (run_slot r i s)"
    using assms by (auto simp: pollsys_ok_def run_slot_def nth_list_update intro: mod_less_divisor)
  assume u: "pd_inuse (runlist s ! i)" "counted s"
  have "registered s = Suc (registered (run_slot r i s))"
    using u(1) assms(2) filter_update_False [of i "runlist s" pd_inuse "(runlist s ! i)\<lparr>pd_inuse := False\<rparr>"]
    by (simp add: run_slot_def registered_def)
  moreover have "regcount (run_slot r i s) = regcount s - 1" by (simp add: run_slot_def)
  ultimately show "counted (run_slot r i s)" using u(2) by (simp add: counted_def)
qed

lemma prime_simps [simp]: "runlist (prime r s) = runlist s" "regcount (prime r s) = regcount s"
  "first_due r' now (prime r s) = first_due r' now s"
  "pollsys_ok s \<Longrightarrow> r \<le> MAX_POLL_RUNLEVEL \<Longrightarrow> pollsys_ok (prime r s)" "counted (prime r s) = counted s"
proof -
  show l: "runlist (prime r s) = runlist s" "regcount (prime r s) = regcount s" by (simp_all add: prime_def)
  then show "counted (prime r s) = counted s" by (simp add: counted_def registered_def)
  have "scan_start r' (prime r s) = scan_start r' s"
    by (cases "r' = r"; cases "r < length (nextrun s)")
      (auto simp: scan_start_def prime_def list_update_beyond linorder_not_less split: option.splits)
  then show "first_due r' now (prime r s) = first_due r' now s" by (simp add: first_due_def l)
  show "pollsys_ok s \<Longrightarrow> r \<le> MAX_POLL_RUNLEVEL \<Longrightarrow> pollsys_ok (prime r s)"
    by (auto simp: prime_def pollsys_ok_def nth_list_update)
qed

lemma poll_round_idle:
  assumes "pollsys_ok s" "Suc r \<le> MAX_POLL_RUNLEVEL" "first_due (Suc r) now s = None"
  shows "poll_round env until (Suc r, now, s, w) = Some (r, now, prime (Suc r) s, w)"
  using assms by (simp add: poll_round_def scan_eq)

lemma poll_loop_idle:
  assumes "pollsys_ok s" "p + k \<le> MAX_POLL_RUNLEVEL" "\<forall>r. p < r \<and> r \<le> p + k \<longrightarrow> first_due r now s = None" "before now until"
  shows "\<exists>s0. poll_loop (k + fuel) env until (p + k, now, s, w) = poll_loop fuel env until (p, now, s0, w)
    \<and> pollsys_ok s0 \<and> runlist s0 = runlist s \<and> regcount s0 = regcount s \<and> (\<forall>r. first_due r now s0 = first_due r now s)"
  using assms
proof (induction k arbitrary: s)
  case (Suc k)
  have "first_due (Suc (p + k)) now s = None" using Suc.prems(3) by simp
  then have 1: "poll_loop (Suc k + fuel) env until (p + Suc k, now, s, w)
      = poll_loop (k + fuel) env until (p + k, now, prime (Suc (p + k)) s, w)"
    using Suc.prems(1,2,4) by (simp add: poll_round_idle)
  have "\<exists>s0. poll_loop (k + fuel) env until (p + k, now, prime (Suc (p + k)) s, w) = poll_loop fuel env until (p, now, s0, w)
    \<and> pollsys_ok s0 \<and> runlist s0 = runlist (prime (Suc (p + k)) s) \<and> regcount s0 = regcount (prime (Suc (p + k)) s)
    \<and> (\<forall>r. first_due r now s0 = first_due r now (prime (Suc (p + k)) s))"
    using Suc.prems by (intro Suc.IH) simp_all
  then show ?case unfolding 1 by simp
qed auto

section \<open>Properties\<close>

text \<open>C33: the highest priority is served first. If a procedure is due at the priority \<open>p\<close> and none at a
  higher one, the loop gets from the highest priority down to \<open>p\<close> without calling anything, and the
  scan at \<open>p\<close> takes the first slot due at \<open>p\<close> in the circular order from where the last
  run at \<open>p\<close> left off.\<close>

theorem polling_serves_highest_priority:
  assumes "pollsys_ok s" "p \<le> MAX_POLL_RUNLEVEL" "before now until" "x \<in> set (runlist s)" "due p now x"
    and "\<forall>r y. p < r \<and> y \<in> set (runlist s) \<longrightarrow> \<not> due r now y"
  shows "\<exists>s0 i. poll_loop (MAX_POLL_RUNLEVEL - p + fuel) env until (MAX_POLL_RUNLEVEL, now, s, w)
        = poll_loop fuel env until (p, now, s0, w)
      \<and> scan p now s0 = Some (pd_proc (runlist s ! i), run_slot p i (prime p s0)) \<and> runlist s0 = runlist s
      \<and> i < length (runlist s) \<and> due p now (runlist s ! i) \<and> pd_proc (runlist s ! i) \<noteq> None
      \<and> (\<exists>k<length (runlist s). i = (scan_start p s + k) mod length (runlist s)
          \<and> (\<forall>j<k. \<not> due p now (runlist s ! ((scan_start p s + j) mod length (runlist s)))))"
proof -
  have "first_due p now s \<noteq> None" using first_due_None [OF assms(1,2), of now] assms(4,5) by blast
  then obtain i where i: "first_due p now s = Some i" by blast
  have "\<forall>r. p < r \<and> r \<le> p + (MAX_POLL_RUNLEVEL - p) \<longrightarrow> first_due r now s = None"
    using first_due_None [OF assms(1)] assms(2,6) by simp
  then obtain s0 where s0: "poll_loop (MAX_POLL_RUNLEVEL - p + fuel) env until (MAX_POLL_RUNLEVEL, now, s, w)
      = poll_loop fuel env until (p, now, s0, w)" "pollsys_ok s0" "runlist s0 = runlist s"
    "\<forall>r. first_due r now s0 = first_due r now s"
    using poll_loop_idle [OF assms(1), of p "MAX_POLL_RUNLEVEL - p" now until fuel env w] assms(2,3) by auto
  have "pd_proc (runlist s ! i) \<noteq> None"
    using first_due_Some(1,2) [OF i] assms(1) by (simp add: pollsys_ok_def due_def)
  moreover have "scan p now s0 = Some (pd_proc (runlist s ! i), run_slot p i (prime p s0))"
    unfolding scan_eq [OF s0(2) assms(2)] s0(3) s0(4) [rule_format] i by simp
  ultimately show ?thesis
    using s0(1,3) first_due_Some [OF i] by blast
qed

text \<open>An environment in which a procedure logs itself and a reading of the clock takes a microsecond.\<close>

definition log_env :: "(nat \<times> string list, string) poll_env" where
  "log_env = \<lparr>pe_clock = (\<lambda>(t, l). (Some ((int t + 1) div 1000000, (int t + 1) mod 1000000), (t + 1, l))),
     pe_usleep = (\<lambda>us (t, l). (t + nat us, l)), pe_exec = (\<lambda>p s (t, l). (s, (t, l @ [p])))\<rparr>"

definition two_procedures :: "string pollsys" where
  "two_procedures = snd (RegPolledProcedure True (Some (0, 0)) (Some ''b'') None 7
     (snd (RegPolledProcedure True (Some (0, 0)) (Some ''a'') None 3 pollsys_start)))"

lemma two_procedures_slots:
  "list_ex (due 7 (0, 0)) (runlist two_procedures)" "list_all (\<lambda>y. pd_priority y \<le> 7) (runlist two_procedures)"
  "length (runlist two_procedures) = 18" "due 7 (0, 0) (runlist two_procedures ! 1)"
  "pd_proc (runlist two_procedures ! 1) = Some ''b''" "registered two_procedures = 2"
  by code_simp+

lemma two_procedures_ok: "pollsys_ok two_procedures" "counted two_procedures"
  by (metis RegPolledProcedure_ok(1) pollsys_ok_start(1) prod.collapse two_procedures_def,
      metis RegPolledProcedure_ok(1,2) pollsys_ok_start prod.collapse two_procedures_def)

lemma circular_distance:
  fixes n :: nat
  assumes k: "k = (a + d) mod n" and i: "i = (a + m) mod n" and "m < d" "d < n" "a < n"
  shows "(k + n - Suc i mod n) mod n = d - Suc m"
proof -
  define b c where "b = Suc i mod n" and "c = d - Suc m"
  have bc: "b < n" "c < n" using assms(3,4,5) by (simp_all add: b_def c_def)
  have "b = (a + Suc m) mod n" unfolding b_def i by (simp add: mod_simps)
  then have "(b + c) mod n = (a + Suc m + c) mod n" by (simp add: mod_simps)
  also have "a + Suc m + c = a + d" using assms(3) by (simp add: c_def)
  finally have e: "(b + c) mod n = k" using k by simp
  have "(k + n - b) mod n = c"
  proof (cases "b + c < n")
    case True
    then have "k + n - b = c + n" using e by simp
    then show ?thesis using bc by simp
  next
    case False
    then have "k = b + c - n" using e bc by (simp add: le_mod_geq)
    then show ?thesis using False bc by simp
  qed
  then show ?thesis by (simp add: b_def c_def)
qed

text \<open>C34: the slots of one priority take turns. If a slot is due and the scan at its priority runs
  something, then that was this slot, or the slot is as it was and closer to where the next scan
  at this priority starts; so at most as many runs at its priority come first as there are slots.\<close>

theorem polling_is_fair:
  assumes "pollsys_ok s" "r \<le> MAX_POLL_RUNLEVEL" "k < length (runlist s)" "due r now (runlist s ! k)"
  shows "\<exists>p s'. scan r now s = Some (Some p, s') \<and> length (runlist s') = length (runlist s)
    \<and> (p = the (pd_proc (runlist s ! k)) \<and> \<not> pd_inuse (runlist s' ! k)
       \<or> runlist s' ! k = runlist s ! k
         \<and> (k + length (runlist s) - scan_start r s') mod length (runlist s)
           < (k + length (runlist s) - scan_start r s) mod length (runlist s))"
proof -
  define n where "n = length (runlist s)"
  define a where "a = scan_start r s"
  define d where "d = (k + n - a) mod n"
  have a: "a < n"
    using assms by (auto simp: a_def scan_start_def pollsys_ok_def n_def split: option.splits)
  obtain i where i: "first_due r now s = Some i"
    using first_due_None [OF assms(1,2), of now] assms(3,4) by fastforce
  obtain m where m: "m < n" "i = (a + m) mod n" "\<forall>j<m. \<not> due r now (runlist s ! ((a + j) mod n))"
    using first_due_Some(3) [OF i] by (auto simp: n_def a_def)
  have k: "(a + d) mod n = k" using offset_exists [of k n a] assms(3) a by (simp add: d_def n_def)
  then have "m \<le> d" using m(3) assms(4) by (metis not_less)
  have proc: "pd_proc (runlist s ! i) \<noteq> None"
    using first_due_Some(1,2) [OF i] assms(1) by (simp add: pollsys_ok_def due_def)
  define s' where "s' = run_slot r i (prime r s)"
  have sc: "scan r now s = Some (pd_proc (runlist s ! i), s')"
    using scan_eq [OF assms(1,2)] i by (simp add: s'_def)
  have l: "length (runlist s') = n" "scan_start r s' = Suc i mod n"
    using assms(1,2) by (auto simp: s'_def run_slot_def n_def scan_start_def prime_def pollsys_ok_def)
  show ?thesis
  proof (cases "i = k")
    case True
    then show ?thesis using sc proc l assms(3) by (auto simp: s'_def run_slot_def n_def)
  next
    case False
    then have "m < d" using \<open>m \<le> d\<close> k m(2) by (metis le_neq_implies_less)
    have dn: "d < n" using a by (simp add: d_def)
    have "(k + n - Suc i mod n) mod n = d - Suc m"
      using circular_distance [OF k [symmetric] m(2) \<open>m < d\<close> dn a] .
    then have "(k + n - scan_start r s') mod n < d" unfolding l(2) using \<open>m < d\<close> by simp
    then show ?thesis
      using sc proc l False by (auto simp: s'_def run_slot_def n_def d_def a_def)
  qed
qed

theorem polling_serves_highest_priority_witness:
  "\<exists>s0 i. poll_loop 30 log_env (1, 0) (MAX_POLL_RUNLEVEL, (0, 0), two_procedures, (0, []))
      = poll_loop 5 log_env (1, 0) (7, (0, 0), s0, (0, []))
    \<and> due 7 (0, 0) (runlist s0 ! i) \<and> scan 7 (0, 0) s0 \<noteq> None"
proof -
  obtain x where x: "x \<in> set (runlist two_procedures)" "due 7 (0, 0) x"
    using two_procedures_slots(1) by (auto simp: list_ex_iff)
  have "\<forall>r y. 7 < r \<and> y \<in> set (runlist two_procedures) \<longrightarrow> \<not> due r (0, 0) y"
    using two_procedures_slots(2) by (auto simp: list_all_iff due_def)
  from polling_serves_highest_priority [OF two_procedures_ok(1) _ _ x this, of "(1, 0)" 5 log_env "(0, [])"]
  obtain s0 i where s0: "poll_loop 30 log_env (1, 0) (MAX_POLL_RUNLEVEL, (0, 0), two_procedures, (0, []))
      = poll_loop 5 log_env (1, 0) (7, (0, 0), s0, (0, []))" "scan 7 (0, 0) s0 \<noteq> None"
    "due 7 (0, 0) (runlist s0 ! i)"
    by (force simp: MAX_POLL_RUNLEVEL_def before_def)
  then show ?thesis by (intro exI [of _ s0] exI [of _ i]) simp
qed

theorem polling_is_fair_witness:
  "\<exists>p s'. scan 7 (0, 0) two_procedures = Some (Some p, s') \<and> length (runlist s') = 18"
  using polling_is_fair [OF two_procedures_ok(1), of 7 1 "(0, 0)"] two_procedures_slots(3,4)
  by (auto simp: MAX_POLL_RUNLEVEL_def)

lemma RegUnreg:
  assumes "pollsys_ok s" "RegPolledProcedure ok clock pr interval priority s = (fd, s')" "fd \<noteq> -1"
  shows "fst (UnregPolledProcedure fd s') = 0" "registered (snd (UnregPolledProcedure fd s')) = registered s"
    "counted s \<Longrightarrow> counted (snd (UnregPolledProcedure fd s'))"
proof -
  note R = RegPolledProcedure_ok [OF assms(1,2)]
  from R(3) [OF assms(3)] obtain i where i: "fd = int i + 1" "i < length (runlist s')" "registered s' = Suc (registered s)"
    "pd_inuse (runlist s' ! i)" by auto
  have tk: "length (takeWhile (\<lambda>p. pd_fd p \<noteq> fd) (runlist s')) = i"
    unfolding find_fd [OF R(1)] using i(1,2) by simp
  have u: "UnregPolledProcedure fd s' = (0, s'\<lparr>runlist := (runlist s')[i := (runlist s' ! i)\<lparr>pd_inuse := False\<rparr>], regcount := regcount s' - 1\<rparr>)"
    using i(2,4) tk by (simp add: UnregPolledProcedure_def Let_def)
  show "fst (UnregPolledProcedure fd s') = 0" by (simp add: u)
  show "registered (snd (UnregPolledProcedure fd s')) = registered s"
    using i(2,3,4) filter_update_False [of i "runlist s'" pd_inuse "(runlist s' ! i)\<lparr>pd_inuse := False\<rparr>"]
    by (simp add: u registered_def)
  show "counted s \<Longrightarrow> counted (snd (UnregPolledProcedure fd s'))"
    using UnregPolledProcedure_ok(3) [OF R(1) u] R(2) by (simp add: u)
qed

lemma scan_counted:
  assumes "pollsys_ok s" "counted s" "r \<le> MAX_POLL_RUNLEVEL" "scan r now s = Some (run, s'')"
  shows "pollsys_ok s''" "counted s''" "registered s'' = registered s - (if run = None then 0 else 1)"
proof -
  consider "first_due r now s = None" "run = None" "s'' = prime r s"
    | i where "first_due r now s = Some i" "run = pd_proc (runlist s ! i)" "s'' = run_slot r i (prime r s)"
    using assms(4) scan_eq [OF assms(1,3), of now] by (auto split: option.splits)
  then have "pollsys_ok s'' \<and> counted s'' \<and> registered s'' = registered s - (if run = None then 0 else 1)"
  proof cases
    case 1
    then show ?thesis using assms by (simp add: registered_def)
  next
    case 2
    note f = first_due_Some(1,2) [OF 2(1)]
    have p: "pd_inuse (runlist s ! i)" "pd_proc (runlist s ! i) \<noteq> None"
      using f assms(1) by (simp_all add: due_def pollsys_ok_def)
    have "Suc (registered s'') = registered s"
      using f(1) p(1) filter_update_False [of i "runlist s" pd_inuse "(runlist s ! i)\<lparr>pd_inuse := False\<rparr>"]
      by (simp add: 2(3) run_slot_def registered_def)
    then show ?thesis
      using run_slot_ok [of "prime r s" i r] f(1) p assms by (simp add: 2(2,3))
  qed
  then show "pollsys_ok s''" "counted s''" "registered s'' = registered s - (if run = None then 0 else 1)"
    by blast+
qed

text \<open>\<open>regcount\<close> counts the registered procedures and the handles and the run list stay in order: a
  registration that succeeds adds one to the registered procedures, in a slot that was free, with the time and a priority
  below the maximum; taking it back by its handle removes it; and a scan removes the one it runs.\<close>

theorem registrations_are_counted:
  assumes "pollsys_ok s" "counted s"
  shows "(RegPolledProcedure ok (Some now) (Some q) interval priority s = (fd, s') \<longrightarrow>
      pollsys_ok s' \<and> counted s' \<and>
      (fd \<noteq> -1 \<longrightarrow> registered s' = Suc (registered s) \<and> 1 \<le> fd \<and> fd \<le> int (length (runlist s'))
         \<and> (\<forall>j<length (runlist s). j \<noteq> nat fd - 1 \<longrightarrow> runlist s' ! j = runlist s ! j)
         \<and> \<not> (nat fd - 1 < length (runlist s) \<and> pd_inuse (runlist s ! (nat fd - 1)))
         \<and> pd_proc (runlist s' ! (nat fd - 1)) = Some q \<and> pd_execat (runlist s' ! (nat fd - 1)) = exec_time now interval
         \<and> pd_priority (runlist s' ! (nat fd - 1)) < MAX_POLL_RUNLEVEL
         \<and> fst (UnregPolledProcedure fd s') = 0 \<and> registered (snd (UnregPolledProcedure fd s')) = registered s
         \<and> counted (snd (UnregPolledProcedure fd s'))))
    \<and> (r \<le> MAX_POLL_RUNLEVEL \<and> scan r now s = Some (run, s'') \<longrightarrow>
      pollsys_ok s'' \<and> counted s'' \<and> registered s'' = registered s - (if run = None then 0 else 1))"
proof (intro conjI impI)
  assume reg: "RegPolledProcedure ok (Some now) (Some q) interval priority s = (fd, s')"
  note R = RegPolledProcedure_ok [OF assms(1) reg]
  show "pollsys_ok s'" "counted s'" using R assms(2) by blast+
  assume "fd \<noteq> -1"
  from R(3) [OF this] obtain i where i: "fd = int i + 1" "i < length (runlist s')" "registered s' = Suc (registered s)"
    "\<not> (i < length (runlist s) \<and> pd_inuse (runlist s ! i))" "\<forall>j<length (runlist s). j \<noteq> i \<longrightarrow> runlist s' ! j = runlist s ! j"
    "pd_inuse (runlist s' ! i)" "pd_proc (runlist s' ! i) = Some q" "pd_priority (runlist s' ! i) = min priority (MAX_POLL_RUNLEVEL - 1)"
    "pd_execat (runlist s' ! i) = exec_time now interval" by auto
  have n: "nat fd - 1 = i" using i(1) by simp
  show "registered s' = Suc (registered s)" "1 \<le> fd" "fd \<le> int (length (runlist s'))"
    "\<not> (nat fd - 1 < length (runlist s) \<and> pd_inuse (runlist s ! (nat fd - 1)))"
    "pd_proc (runlist s' ! (nat fd - 1)) = Some q" "pd_execat (runlist s' ! (nat fd - 1)) = exec_time now interval"
    "pd_priority (runlist s' ! (nat fd - 1)) < MAX_POLL_RUNLEVEL"
    unfolding n using i by (simp_all add: MAX_POLL_RUNLEVEL_def)
  show "\<forall>j<length (runlist s). j \<noteq> nat fd - 1 \<longrightarrow> runlist s' ! j = runlist s ! j" using i(5) n by simp
  show "fst (UnregPolledProcedure fd s') = 0" "registered (snd (UnregPolledProcedure fd s')) = registered s"
    "counted (snd (UnregPolledProcedure fd s'))"
    using RegUnreg [OF assms(1) reg \<open>fd \<noteq> -1\<close>] assms(2) by simp_all
next
  assume "r \<le> MAX_POLL_RUNLEVEL \<and> scan r now s = Some (run, s'')"
  then show "pollsys_ok s''" "counted s''" "registered s'' = registered s - (if run = None then 0 else 1)"
    using scan_counted [OF assms, of r now run s''] by blast+
qed

theorem registrations_are_counted_witness:
  "fst (RegPolledProcedure True (Some (5, 999999)) (Some ''c'') (Some (2, 1)) 40 two_procedures) = -1
   \<or> registered (snd (RegPolledProcedure True (Some (5, 999999)) (Some ''c'') (Some (2, 1)) 40 two_procedures)) = 3"
  using registrations_are_counted [OF two_procedures_ok, of True "(5, 999999)" "''c''" "Some (2, 1)" 40
      "fst (RegPolledProcedure True (Some (5, 999999)) (Some ''c'') (Some (2, 1)) 40 two_procedures)"
      "snd (RegPolledProcedure True (Some (5, 999999)) (Some ''c'') (Some (2, 1)) 40 two_procedures)"]
    two_procedures_slots(6) by auto

text \<open>A second \<open>UnregPolledProcedure\<close> of a handle returns -1 but still takes one off \<open>regcount\<close>. If one
  other procedure is registered, the count is 0 then, and the loop sleeps without calling that
  procedure however long it is due.\<close>

theorem unreg_twice_stops_polling:
  assumes "pollsys_ok s" "counted s" "registered s = 1" "1 \<le> fd" "fd \<le> int (length (runlist s))"
    and "\<not> pd_inuse (runlist s ! (nat fd - 1))" "isrunning s = 0"
    and "UnregPolledProcedure fd s = (rc, s')"
  shows "rc = -1 \<and> registered s' = 1 \<and> regcount s' = 0
    \<and> RunPollingLoop fuel env secs usecs s' w
      = Some (s', pe_usleep env (if secs \<noteq> 0 then secs * 1000000 else usecs) w)"
proof -
  define i where "i = nat fd - 1"
  have i: "i < length (runlist s)" "\<not> pd_inuse (runlist s ! i)" using assms(4,5,6) by (simp_all add: i_def nat_less_iff)
  have tk: "length (takeWhile (\<lambda>p. pd_fd p \<noteq> fd) (runlist s)) = i"
    unfolding find_fd [OF assms(1)] using assms(4,5) by (simp add: i_def)
  have e: "(runlist s ! i)\<lparr>pd_inuse := False\<rparr> = runlist s ! i"
    using i(2) by (cases "runlist s ! i") simp
  have "rc = -1 \<and> s' = s\<lparr>regcount := regcount s - 1\<rparr>"
    using assms(8) i tk by (simp add: UnregPolledProcedure_def Let_def e)
  moreover have "regcount s = 1" using assms(2,3) by (simp add: counted_def)
  ultimately show ?thesis
    using assms(3,7) by (simp add: registered_def RunPollingLoop_def Let_def)
qed

theorem unreg_twice_stops_polling_witness:
  "regcount (snd (UnregPolledProcedure 1 (snd (UnregPolledProcedure 1 two_procedures)))) = 0
   \<and> pd_inuse (runlist (snd (UnregPolledProcedure 1 (snd (UnregPolledProcedure 1 two_procedures)))) ! 1)"
proof -
  define s where "s = snd (UnregPolledProcedure 1 two_procedures)"
  have u: "UnregPolledProcedure 1 two_procedures = (0, s)"
    and s: "registered s = 1" "isrunning s = 0" "\<not> pd_inuse (runlist s ! 0)" "length (runlist s) = 18"
      "pd_inuse (runlist (snd (UnregPolledProcedure 1 s)) ! 1)"
    unfolding s_def by code_simp+
  note ok = UnregPolledProcedure_ok(1) [OF two_procedures_ok(1) u] UnregPolledProcedure_ok(3) [OF two_procedures_ok(1) u refl two_procedures_ok(2)]
  have "1 \<le> (1::int)" "1 \<le> int (length (runlist s))" "\<not> pd_inuse (runlist s ! (nat 1 - 1))"
    "UnregPolledProcedure 1 s = (fst (UnregPolledProcedure 1 s), snd (UnregPolledProcedure 1 s))"
    using s by simp_all
  from unreg_twice_stops_polling [OF ok s(1) this(1,2,3) s(2) this(4), of 0 log_env 0 0 "(0, [])"] s(5) show ?thesis
    unfolding s_def [symmetric] by blast
qed

text \<open>What is assumed of the world for the loop to end: a reading of the clock, if it succeeds, is in
  normal form and later than the one before, the time being a number of microseconds; sleeping and
  the procedures do not turn it back; and the procedures leave the polling system in order.\<close>

definition usec :: "timeval \<Rightarrow> int" where
  "usec t = fst t * 1000000 + snd t"

definition clock_advances :: "('w, 'p) poll_env \<Rightarrow> ('w \<Rightarrow> int) \<Rightarrow> bool" where
  "clock_advances env time \<longleftrightarrow>
     (\<forall>w w' t. pe_clock env w = (Some t, w') \<longrightarrow> time w < time w' \<and> usec t = time w' \<and> 0 \<le> snd t \<and> snd t < 1000000)
     \<and> (\<forall>us w. time w \<le> time (pe_usleep env us w))
     \<and> (\<forall>p s w. pollsys_ok s \<longrightarrow> pollsys_ok (fst (pe_exec env p s w)) \<and> time w \<le> time (snd (pe_exec env p s w)))"

lemma before_usec:
  "0 \<le> snd a \<Longrightarrow> snd a < 1000000 \<Longrightarrow> 0 \<le> snd b \<Longrightarrow> snd b < 1000000 \<Longrightarrow> before a b \<longleftrightarrow> usec a < usec b"
  unfolding before_def usec_def by linarith

lemma poll_round_progress:
  assumes "clock_advances env time" "pollsys_ok s" "r \<le> MAX_POLL_RUNLEVEL"
  shows "\<exists>r' now' s' w'. poll_round env until (r, now, s, w) = Some (r', now', s', w') \<and> pollsys_ok s' \<and> r' \<le> MAX_POLL_RUNLEVEL
    \<and> (now' = until \<or> r' < r \<and> time w' = time w \<and> now' = now
       \<or> time w < time w' \<and> usec now' = time w' \<and> 0 \<le> snd now' \<and> snd now' < 1000000)"
proof -
  have clk: "\<exists>now' s' w'. (case pe_clock env w1 of
                 (Some now, w) \<Rightarrow> Some (MAX_POLL_RUNLEVEL, now, s1, w)
               | (None, w) \<Rightarrow>
                   let ov = CliTimerDiff now until
                   in Some (MAX_POLL_RUNLEVEL, until, s1\<lparr>overflow := ov\<rparr>, pe_usleep env (fst ov * 1000000 + snd ov) w))
      = Some (MAX_POLL_RUNLEVEL, now', s', w') \<and> pollsys_ok s' \<and> (now' = until \<or> time w < time w' \<and> usec now' = time w' \<and> 0 \<le> snd now' \<and> snd now' < 1000000)"
    if "pollsys_ok s1" "time w \<le> time w1" for s1 w1
  proof (cases "pe_clock env w1")
    case (Pair c w2)
    show ?thesis
    proof (cases c)
      case None
      then show ?thesis using Pair that(1) by (simp add: Let_def pollsys_ok_def)
    next
      case (Some t)
      have "time w1 < time w2 \<and> usec t = time w2 \<and> 0 \<le> snd t \<and> snd t < 1000000"
        using assms(1) Pair unfolding Some clock_advances_def by blast
      then show ?thesis using Pair Some that by auto
    qed
  qed
  show ?thesis
  proof (cases "first_due r now s")
    case None
    then have sc: "scan r now s = Some (None, prime r s)" using scan_eq [OF assms(2,3)] by simp
    show ?thesis
    proof (cases "r = 0")
      case True
      define w1 where "w1 = (if before now until then pe_usleep env 100 w else w)"
      have "time w \<le> time w1" using assms(1) by (simp add: w1_def clock_advances_def)
      from clk [OF prime_simps(4) [OF assms(2,3)] this] show ?thesis
        using sc True by (auto simp: poll_round_def w1_def [symmetric])
    next
      case False
      then have "poll_round env until (r, now, s, w) = Some (r - 1, now, prime r s, w)"
        by (simp add: poll_round_def sc)
      then show ?thesis using False assms(2,3) by auto
    qed
  next
    case (Some i)
    have p: "i < length (runlist s)" "pd_proc (runlist s ! i) \<noteq> None"
      using first_due_Some(1,2) [OF Some] assms(2) by (simp_all add: pollsys_ok_def due_def)
    then obtain q where q: "scan r now s = Some (Some q, run_slot r i (prime r s))"
      using scan_eq [OF assms(2,3), of now] Some by auto
    obtain s1 w1 where e: "pe_exec env q (run_slot r i (prime r s)) w = (s1, w1)" by (rule prod.exhaust)
    have "pollsys_ok (run_slot r i (prime r s))" using assms p(1) by (intro run_slot_ok(1)) simp_all
    then have "pollsys_ok s1" "time w \<le> time w1"
      using assms(1) e unfolding clock_advances_def by (metis fst_conv, metis snd_conv)
    from clk [OF this] show ?thesis using q e by (auto simp: poll_round_def)
  qed
qed

lemma poll_loop_returns:
  assumes "clock_advances env time" "0 \<le> snd until" "snd until < 1000000"
  shows "pollsys_ok s \<Longrightarrow> r \<le> MAX_POLL_RUNLEVEL \<Longrightarrow>
    nat (usec until - time w) * (MAX_POLL_RUNLEVEL + 1) + r < fuel \<Longrightarrow> poll_loop fuel env until (r, now, s, w) \<noteq> None"
proof (induction fuel arbitrary: r now s w)
  case (Suc fuel)
  obtain r' now' s' w' where st: "poll_round env until (r, now, s, w) = Some (r', now', s', w')" "pollsys_ok s'"
    "r' \<le> MAX_POLL_RUNLEVEL" "now' = until \<or> r' < r \<and> time w' = time w \<and> now' = now
       \<or> time w < time w' \<and> usec now' = time w' \<and> 0 \<le> snd now' \<and> snd now' < 1000000"
    using poll_round_progress [OF assms(1) Suc.prems(1,2), of until now w] by blast
  show ?case
  proof (cases "before now' until")
    case False
    then show ?thesis using st(1) by simp
  next
    case True
    then have "now' \<noteq> until" by (auto simp: before_def)
    moreover have "nat (usec until - time w') * (MAX_POLL_RUNLEVEL + 1) + r' < fuel"
      if "time w < time w'" "usec now' = time w'" "0 \<le> snd now'" "snd now' < 1000000"
    proof -
      have "time w' < usec until" using True that before_usec [OF that(3,4) assms(2,3)] by simp
      then have "Suc (nat (usec until - time w')) \<le> nat (usec until - time w)" using that(1) by linarith
      then have "Suc (nat (usec until - time w')) * (MAX_POLL_RUNLEVEL + 1) \<le> nat (usec until - time w) * (MAX_POLL_RUNLEVEL + 1)"
        by (rule mult_le_mono1)
      then show ?thesis using st(3) Suc.prems(3) by simp
    qed
    ultimately have "nat (usec until - time w') * (MAX_POLL_RUNLEVEL + 1) + r' < fuel"
      using st(4) Suc.prems(3) by auto
    then show ?thesis using st(1,2,3) True Suc.IH by simp
  qed
qed simp

text \<open>C35: the polling loop returns, if the clock advances: with as much fuel as 33 rounds for each
  microsecond from the first reading to the end of the sleep, and 34 more.\<close>

theorem polling_returns:
  assumes "clock_advances env time" "pollsys_ok s" "0 \<le> secs" "0 \<le> usecs"
    and "34 + 33 * nat (usec (CliTimerDiff (fst now + secs + (snd now + usecs) div 1000000, (snd now + usecs) mod 1000000) (overflow s)) - usec now) \<le> fuel"
    and "fst (pe_clock env w) = Some now" "0 \<le> snd (overflow s)" "snd (overflow s) < 1000000"
  shows "RunPollingLoop fuel env secs usecs s w \<noteq> None"
proof -
  define u where "u = (fst now + secs + (snd now + usecs) div 1000000, (snd now + usecs) mod 1000000)"
  define v where "v = CliTimerDiff u (overflow s)"
  have u: "0 \<le> snd u" "snd u < 1000000" by (simp_all add: u_def)
  have v: "0 \<le> snd v" "snd v < 1000000"
    using u assms(7,8) unfolding v_def CliTimerDiff_def Let_def by (auto split: prod.splits if_splits)
  obtain w1 where w1: "pe_clock env w = (Some now, w1)" using assms(6) by (cases "pe_clock env w") simp
  have t: "usec now = time w1" using assms(1) w1 unfolding clock_advances_def by blast
  define s1 where "s1 = s\<lparr>isrunning := isrunning s + 1\<rparr>"
  have "pollsys_ok s1" using assms(2) by (simp add: s1_def pollsys_ok_def)
  moreover have "nat (usec v - time w1) * (MAX_POLL_RUNLEVEL + 1) + MAX_POLL_RUNLEVEL < fuel"
    using assms(5) by (simp add: t v_def u_def MAX_POLL_RUNLEVEL_def mult.commute)
  ultimately have "poll_loop fuel env v (MAX_POLL_RUNLEVEL, now, s1, w1) \<noteq> None"
    using poll_loop_returns [OF assms(1) v] by simp
  moreover have "overflow s1 = overflow s" by (simp add: s1_def)
  ultimately show ?thesis
    by (auto simp: RunPollingLoop_def Let_def s1_def [symmetric] w1 v_def u_def split: option.splits)
qed

theorem polling_returns_witness: "RunPollingLoop 34 log_env 0 0 two_procedures (0, []) \<noteq> None"
proof -
  have "clock_advances log_env (\<lambda>(t, l). int t)"
    by (auto simp: clock_advances_def log_env_def usec_def split: prod.splits)
  moreover have "overflow two_procedures = (0, 0)" by code_simp
  moreover have "fst (pe_clock log_env (0, [])) = Some (0, 1)" by (simp add: log_env_def)
  ultimately show ?thesis
    using polling_returns [of log_env _ two_procedures 0 0 "(0, 1)" 34 "(0, [])"] two_procedures_ok(1)
    by (simp add: usec_def CliTimerDiff_def before_def)
qed

end
