(* ===== verification/DiskIO.thy ===== *)
theory DiskIO
  imports Prelude "HOL-Library.State_Monad" "HOL-Library.Multiset"
begin

text \<open>
  The part of the C library that the buffer files go through: a disk of named files of bytes and
  the calls \<open>access\<close>, \<open>fopen\<close>, \<open>fseek\<close>, \<open>ftell\<close>, \<open>fread\<close>, \<open>fwrite\<close>, \<open>fflush\<close> and \<open>remove\<close>. Any call but
  \<open>access\<close> may fail: \<open>d_fails n\<close> says whether call number \<open>n\<close> does, and a call that fails changes
  nothing. A file is a name and the position is an argument, since the code seeks before it
  writes. The names are those before \<open>GetFullPathForFilename\<close>. The second part is a calculus of
  weakest preconditions for the state monad, and the third cuts a file into slots of one record.
\<close>

section \<open>The calls\<close>

record disk =
  d_files :: "string \<Rightarrow> u8 list option"
  d_fails :: "nat \<Rightarrow> bool"
  d_calls :: nat

definition tick :: "'a disk_scheme \<Rightarrow> 'a disk_scheme" where
  "tick d = d\<lparr>d_calls := Suc (d_calls d)\<rparr>"

definition set_file :: "string \<Rightarrow> u8 list option \<Rightarrow> 'a disk_scheme \<Rightarrow> 'a disk_scheme" where
  "set_file f c d = d\<lparr>d_files := (d_files d)(f := c)\<rparr>"

definition io_call :: "('a disk_scheme, bool) state" where
  "io_call = State (\<lambda>d. (\<not> d_fails d (d_calls d), tick d))"

definition file_content :: "string \<Rightarrow> ('a disk_scheme, u8 list option) state" where
  "file_content f = State (\<lambda>d. (d_files d f, d))"

definition store_file :: "string \<Rightarrow> u8 list option \<Rightarrow> ('a disk_scheme, unit) state" where
  "store_file f c = State (\<lambda>d. ((), set_file f c d))"

text \<open>\<open>access (f, 0) == 0\<close>.\<close>

definition access_ok :: "string \<Rightarrow> ('a disk_scheme, bool) state" where
  "access_ok f = do { c \<leftarrow> file_content f; State_Monad.return (c \<noteq> None) }"

text \<open>\<open>fopen\<close> with \<open>r\<close> or \<open>r+\<close>, and with \<open>w\<close> or \<open>w+\<close>; \<open>False\<close> is the null pointer.\<close>

definition fopen_r :: "string \<Rightarrow> ('a disk_scheme, bool) state" where
  "fopen_r f = do { ok \<leftarrow> io_call; c \<leftarrow> file_content f; State_Monad.return (ok \<and> c \<noteq> None) }"

definition fopen_w :: "string \<Rightarrow> ('a disk_scheme, bool) state" where
  "fopen_w f = do { ok \<leftarrow> io_call; if ok then do { store_file f (Some []); State_Monad.return True } else State_Monad.return False }"

text \<open>\<open>fseek\<close> to a position that is an argument of the next call; \<open>fflush\<close> is the same.\<close>

definition fseek :: "('a disk_scheme, bool) state" where
  "fseek = io_call"

text \<open>\<open>ftell\<close> at the end of the file; \<open>None\<close> is -1.\<close>

definition ftell_end :: "string \<Rightarrow> ('a disk_scheme, nat option) state" where
  "ftell_end f = do { ok \<leftarrow> io_call; c \<leftarrow> file_content f;
     State_Monad.return (if ok then map_option length c else None) }"

text \<open>\<open>fread\<close> of \<open>n\<close> bytes; \<open>None\<close> if there are fewer.\<close>

definition fread :: "string \<Rightarrow> nat \<Rightarrow> nat \<Rightarrow> ('a disk_scheme, u8 list option) state" where
  "fread f pos n = do { ok \<leftarrow> io_call; c \<leftarrow> file_content f;
     State_Monad.return (case c of None \<Rightarrow> None
       | Some c \<Rightarrow> if ok \<and> pos + n \<le> length c then Some (take n (drop pos c)) else None) }"

definition overwrite :: "u8 list \<Rightarrow> nat \<Rightarrow> u8 list \<Rightarrow> u8 list" where
  "overwrite c pos bs = take pos c @ replicate (pos - length c) 0 @ bs @ drop (pos + length bs) c"

definition fwrite :: "string \<Rightarrow> nat \<Rightarrow> u8 list \<Rightarrow> ('a disk_scheme, bool) state" where
  "fwrite f pos bs = do { ok \<leftarrow> io_call; c \<leftarrow> file_content f;
     (case c of None \<Rightarrow> State_Monad.return False
      | Some c \<Rightarrow> if ok then do { store_file f (Some (overwrite c pos bs)); State_Monad.return True }
                  else State_Monad.return False) }"

definition remove_file :: "string \<Rightarrow> ('a disk_scheme, unit) state" where
  "remove_file f = do { ok \<leftarrow> io_call; if ok then store_file f None else State_Monad.return () }"

section \<open>Weakest preconditions\<close>

definition wp :: "('s, 'a) state \<Rightarrow> ('a \<Rightarrow> 's \<Rightarrow> bool) \<Rightarrow> 's \<Rightarrow> bool" where
  "wp m Q s \<longleftrightarrow> (case run_state m s of (x, s') \<Rightarrow> Q x s')"

named_theorems wps

lemma wp_run: "run_state m s = (x, s') \<Longrightarrow> wp m Q s \<longleftrightarrow> Q x s'"
  by (simp add: wp_def)

lemma wpD: "wp m Q s \<Longrightarrow> run_state m s = (x, s') \<Longrightarrow> Q x s'"
  by (simp add: wp_def)

lemma wpI: "(\<And>x s'. run_state m s = (x, s') \<Longrightarrow> Q x s') \<Longrightarrow> wp m Q s"
  by (auto simp: wp_def split: prod.splits)

lemma wp_mono: "wp m P s \<Longrightarrow> (\<And>x s'. P x s' \<Longrightarrow> Q x s') \<Longrightarrow> wp m Q s"
  by (auto simp: wp_def split: prod.splits)

lemma wp_return [wps]: "wp (State_Monad.return x) Q s \<longleftrightarrow> Q x s"
  by (simp add: wp_def)

lemma wp_return_fun: "wp (State_Monad.return x) Q = Q x"
  by (simp add: wp_return fun_eq_iff)

lemma wp_bind [wps]: "wp (State_Monad.bind m f) Q s \<longleftrightarrow> wp m (\<lambda>x. wp (f x) Q) s"
  by (simp add: wp_def State_Monad.bind_def split: prod.splits)

lemma wp_State [wps]: "wp (State f) Q s \<longleftrightarrow> (case f s of (x, s') \<Rightarrow> Q x s')"
  by (simp add: wp_def)

lemma wp_if [wps]: "wp (if b then m else n) Q s \<longleftrightarrow> (if b then wp m Q s else wp n Q s)"
  by simp

lemma wp_io_call [wps]: "wp io_call Q d \<longleftrightarrow> Q (\<not> d_fails d (d_calls d)) (tick d)"
  by (simp add: io_call_def wps)

lemma wp_file_content [wps]: "wp (file_content f) Q d \<longleftrightarrow> Q (d_files d f) d"
  by (simp add: file_content_def wps)

lemma wp_store_file [wps]: "wp (store_file f c) Q d \<longleftrightarrow> Q () (set_file f c d)"
  by (simp add: store_file_def wps)

lemma disk_simps [simp]:
  "d_files (tick d) = d_files d" "d_fails (tick d) = d_fails d"
  "d_files (set_file f c d) = (d_files d)(f := c)" "d_fails (set_file f c d) = d_fails d"
  "d_calls (set_file f c d) = d_calls d"
  "disk.more (tick d) = disk.more d" "disk.more (set_file f c d) = disk.more d"
  by (simp_all add: tick_def set_file_def)

text \<open>A disk on which no call fails.\<close>

definition no_fail :: "'a disk_scheme \<Rightarrow> bool" where
  "no_fail d \<longleftrightarrow> (\<forall>n. \<not> d_fails d n)"

lemma no_fail_simps [simp]: "no_fail (tick d) = no_fail d" "no_fail (set_file f c d) = no_fail d"
  "no_fail d \<Longrightarrow> \<not> d_fails d n"
  by (simp_all add: no_fail_def)

section \<open>Slots\<close>

text \<open>Slot \<open>i\<close> of a file with a header of \<open>h\<close> bytes and records of \<open>w\<close> bytes.\<close>

definition slot :: "nat \<Rightarrow> nat \<Rightarrow> u8 list \<Rightarrow> nat \<Rightarrow> u8 list" where
  "slot h w c i = take w (drop (h + i * w) c)"

lemma length_slot: "h + Suc i * w \<le> length c \<Longrightarrow> length (slot h w c i) = w"
  by (simp add: slot_def)

lemma length_overwrite: "length (overwrite c pos bs) = max (length c) (pos + length bs)"
  by (auto simp: overwrite_def max_def)

lemma nth_overwrite:
  "k < length (overwrite c pos bs) \<Longrightarrow> overwrite c pos bs ! k =
    (if pos \<le> k \<and> k < pos + length bs then bs ! (k - pos) else if k < length c then c ! k else 0)"
  by (auto simp: overwrite_def nth_append length_overwrite max_def min_def split: if_splits)

lemma slot_nth: "h + Suc i * w \<le> length c \<Longrightarrow> k < w \<Longrightarrow> slot h w c i ! k = c ! (h + i * w + k)"
  by (simp add: slot_def)

lemma slot_overwrite_same:
  assumes "length r = w" "h + i * w \<le> length c"
  shows "slot h w (overwrite c (h + i * w) r) i = r"
  using assms by (simp add: slot_def overwrite_def)

lemma slots_apart: "i \<noteq> j \<Longrightarrow> j * w + w \<le> i * w \<or> i * w + w \<le> j * (w::nat)"
proof -
  assume "i \<noteq> j"
  then consider "Suc j \<le> i" | "Suc i \<le> j" by linarith
  then show ?thesis
  proof cases
    case 1
    then have "Suc j * w \<le> i * w" by (rule mult_le_mono1)
    then show ?thesis by simp
  next
    case 2
    then have "Suc i * w \<le> j * w" by (rule mult_le_mono1)
    then show ?thesis by simp
  qed
qed

lemma slot_overwrite_other:
  assumes "length r = w" "i \<noteq> j" "h + Suc j * w \<le> length c"
  shows "slot h w (overwrite c (h + i * w) r) j = slot h w c j"
proof (rule nth_equalityI)
  have l: "h + Suc j * w \<le> length (overwrite c (h + i * w) r)" using assms by (simp add: length_overwrite)
  then show "length (slot h w (overwrite c (h + i * w) r) j) = length (slot h w c j)"
    using assms by (simp add: length_slot)
  fix k
  assume "k < length (slot h w (overwrite c (h + i * w) r) j)"
  then have k: "k < w" using l by (simp add: length_slot)
  then have "h + j * w + k < length (overwrite c (h + i * w) r)" "h + j * w + k < length c" using l assms(3) by simp_all
  moreover have "\<not> (h + i * w \<le> h + j * w + k \<and> h + j * w + k < h + i * w + w)"
    using slots_apart [OF assms(2), of w] k by linarith
  ultimately show "slot h w (overwrite c (h + i * w) r) j ! k = slot h w c j ! k"
    using assms(1) k l assms(3) by (simp only: slot_nth nth_overwrite) simp
qed

definition slots :: "nat \<Rightarrow> nat \<Rightarrow> u8 list \<Rightarrow> nat \<Rightarrow> u8 list list" where
  "slots h w c n = map (slot h w c) [0..<n]"

lemma length_slots [simp]: "length (slots h w c n) = n"
  by (simp add: slots_def)

lemma slots_Suc: "slots h w c (Suc n) = slots h w c n @ [slot h w c n]"
  by (simp add: slots_def)

lemma slots_overwrite:
  assumes "length r = w" "i < n" "h + n * w \<le> length c"
  shows "slots h w (overwrite c (h + i * w) r) n = (slots h w c n)[i := r]"
proof (rule nth_equalityI)
  fix j
  assume "j < length (slots h w (overwrite c (h + i * w) r) n)"
  then have j: "j < n" by simp
  then have b: "Suc j * w \<le> n * w" "i * w \<le> n * w" using assms(2) by (intro mult_le_mono1; simp)+
  show "slots h w (overwrite c (h + i * w) r) n ! j = (slots h w c n)[i := r] ! j"
  proof (cases "i = j")
    case True
    moreover have "h + i * w \<le> length c" using b(2) assms(3) by linarith
    ultimately show ?thesis using j assms(1) by (simp add: slots_def slot_overwrite_same)
  next
    case False
    moreover have "h + Suc j * w \<le> length c" using b(1) assms(3) by linarith
    ultimately show ?thesis using j assms(1) by (simp add: slots_def slot_overwrite_other del: mult_Suc)
  qed
qed simp

lemma slots_append:
  assumes "length r = w" "length c = h + n * w"
  shows "slots h w (overwrite c (h + n * w) r) (Suc n) = slots h w c n @ [r]"
proof -
  have "slot h w (overwrite c (h + n * w) r) j = slot h w c j" if "j < n" for j
  proof -
    have "Suc j * w \<le> n * w" using that by (intro mult_le_mono1) simp
    then show ?thesis using that assms by (intro slot_overwrite_other) (simp_all del: mult_Suc)
  qed
  then show ?thesis using assms by (simp add: slots_def slot_overwrite_same)
qed

end
