(* ===== verification/WorkRecord.thy ===== *)
theory WorkRecord
  imports Work Moo521
begin

text \<open>
  \<open>WorkRecord\<close> of \<open>common/problem.h\<close>, the unit of the buffers. Buffers copy, compare and store its
  168 bytes, so it is the list of them, on a machine that keeps the low byte of a word first; its
  fields are read at their offsets in the packed structure. The second half is the byte order on
  disk, \<open>__switch_byte_order\<close> of \<open>common/buffpub.cpp\<close>.
\<close>

section \<open>The fields\<close>

type_synonym work_record = "u8 list"

definition sizeof_WorkRecord :: nat where "sizeof_WorkRecord = 168"

text \<open>\<open>work\<close> is at 0, \<open>resultcode\<close> at 80, \<open>id\<close> at 84, \<open>contest\<close> at 148, and \<open>cpu\<close>, \<open>os\<close>, \<open>build\<close> and \<open>core\<close>
  follow.\<close>

definition wr_resultcode :: "work_record \<Rightarrow> u32" where "wr_resultcode r = rd32le r 80"
definition wr_contest :: "work_record \<Rightarrow> u32" where "wr_contest r = rd32le r 148"

definition set_resultcode :: "u32 \<Rightarrow> work_record \<Rightarrow> work_record" where
  "set_resultcode v r = wr32le r 80 v"

definition set_contest :: "u32 \<Rightarrow> work_record \<Rightarrow> work_record" where
  "set_contest v r = wr32le r 148 v"

definition rd16le :: "u8 list \<Rightarrow> nat \<Rightarrow> u16" where
  "rd16le p k = ucast (p ! k) OR shl (ucast (p ! (k + 1))) 8"

definition key_at :: "u8 list \<Rightarrow> nat \<Rightarrow> key72" where
  "key_at p k = \<lparr>k_hi = rd32le p k, k_mid = rd32le p (k + 4), k_lo = rd32le p (k + 8)\<rparr>"

text \<open>The members of the union, each read from its bytes.\<close>

definition bigcrypto_of :: "u8 list \<Rightarrow> bigcrypto" where
  "bigcrypto_of p = \<lparr>b_key = key_at p 0, b_iv_hi = rd32le p 12, b_iv_lo = rd32le p 16,
     b_plain_hi = rd32le p 20, b_plain_lo = rd32le p 24, b_cypher_hi = rd32le p 28, b_cypher_lo = rd32le p 32,
     b_keysdone_hi = rd32le p 36, b_keysdone_lo = rd32le p 40, b_iterations_hi = rd32le p 44,
     b_iterations_lo = rd32le p 48, b_randomsubspace = rd32le p 52, b_check_count = rd32le p 56, b_check = key_at p 60\<rparr>"

definition ogr_ng_of :: "u8 list \<Rightarrow> ogr_ng_work" where
  "ogr_ng_of p = \<lparr>ngw_stub = \<lparr>ng_marks = rd16le p 0, ng_length = rd16le p 2, ng_diffs = map (\<lambda>i. rd16le p (4 + 2 * i)) [0..<28],
       ng_worklength = rd16le p 60, ng_collapsed = rd16le p 62\<rparr>,
     ngw_nodes_hi = rd32le p 64, ngw_nodes_lo = rd32le p 68, ngw_ticket_hi = rd32le p 72, ngw_ticket_lo = rd32le p 76\<rparr>"

definition ogr_p2_of :: "u8 list \<Rightarrow> ogr_p2_work" where
  "ogr_p2_of p = \<lparr>p2w_stub = \<lparr>p2_marks = rd16le p 0, p2_length = rd16le p 2, p2_diffs = map (\<lambda>i. rd16le p (4 + 2 * i)) [0..<10],
       p2_worklength = rd32le p 24\<rparr>,
     p2w_nodes_hi = rd32le p 28, p2w_nodes_lo = rd32le p 32, p2w_minpos = rd32le p 36,
     p2w_ticket_hi = rd32le p 40, p2w_ticket_lo = rd32le p 44\<rparr>"

definition wr_work :: "work_record \<Rightarrow> contestwork" where
  "wr_work p = \<lparr>cw_bigcrypto = bigcrypto_of p, cw_ogr_ng = ogr_ng_of p, cw_ogr_p2 = ogr_p2_of p\<rparr>"

text \<open>The project of a contest id; ids of \<open>CONTEST_COUNT\<close> and above have none.\<close>

definition CONTEST_COUNT :: nat where "CONTEST_COUNT = 7"

definition project_of :: "u32 \<Rightarrow> project option" where
  "project_of c =
     (if unat c < CONTEST_COUNT then Some ([RC5, DES, OGR, CSC, OGR_NG, RC5_72, OGR_P2] ! unat c) else None)"

text \<open>
  \<open>BufferGetRecordInfo\<close> for a record that is there: the return value, and the statistics units it
  stores when that is not -1. A contest without a project has none of the cases of
  \<open>WorkGetSWUCount\<close>, as \<open>RC5\<close>.
\<close>

definition BufferGetRecordInfo :: "work_record \<Rightarrow> int \<times> u32 option" where
  "BufferGetRecordInfo r =
     WorkGetSWUCount (wr_work r) (sint (wr_resultcode r)) (case project_of (wr_contest r) of None \<Rightarrow> RC5 | Some p \<Rightarrow> p)"

section \<open>The byte order on disk\<close>

text \<open>\<open>ntohs\<close> and \<open>ntohl\<close> on the value at an offset.\<close>

definition ntohs_at :: "u8 list \<Rightarrow> nat \<Rightarrow> u8 list" where
  "ntohs_at p k = p[k := p ! (k + 1), k + 1 := p ! k]"

definition ntohl_at :: "u8 list \<Rightarrow> nat \<Rightarrow> u8 list" where
  "ntohl_at p k = wr32le p k (bswap32 (rd32le p k))"

definition switch_OGR_P2 :: "work_record \<Rightarrow> work_record" where
  "switch_OGR_P2 p =
     (let p = ntohs_at p 0;
          p = ntohs_at p 2;
          p = ntohl_at p 36;
          p = foldl (\<lambda>p i. ntohs_at p (4 + 2 * i)) p [0..<10];
          p = ntohl_at p 24;
          p = ntohl_at p 28
      in ntohl_at p 32)"

definition switch_OGR_NG :: "work_record \<Rightarrow> work_record" where
  "switch_OGR_NG p =
     (let p = ntohs_at p 0;
          p = ntohs_at p 2;
          p = ntohs_at p 62;
          p = foldl (\<lambda>p i. ntohs_at p (4 + 2 * i)) p [0..<28];
          p = ntohs_at p 60;
          p = ntohl_at p 64
      in ntohl_at p 68)"

text \<open>\<open>__switch_byte_order\<close>; \<open>from_disk\<close> only matters on OS/390.\<close>

definition switch_byte_order :: "work_record \<Rightarrow> work_record" where
  "switch_byte_order source =
     (let dest = source[84 + 64 - 1 := 0] in
      case project_of (wr_contest dest) of
        Some RC5_72 \<Rightarrow> foldl (\<lambda>p i. ntohl_at p (4 * i)) dest [0..<80 div 4]
      | Some OGR_P2 \<Rightarrow> switch_OGR_P2 dest
      | Some OGR_NG \<Rightarrow> switch_OGR_NG dest
      | _ \<Rightarrow> set_contest 0xff dest)"

section \<open>Switching twice\<close>

text \<open>A switch is a list of swaps, each of the two or four bytes at an offset.\<close>

definition swap_at :: "u8 list \<Rightarrow> nat \<times> nat \<Rightarrow> u8 list" where
  "swap_at p q = (if fst q = 2 then ntohs_at p (snd q) else ntohl_at p (snd q))"

definition width :: "nat \<times> nat \<Rightarrow> nat" where
  "width q = (if fst q = 2 then 2 else 4)"

definition fits :: "nat \<Rightarrow> nat \<times> nat \<Rightarrow> bool" where
  "fits n q \<longleftrightarrow> snd q + width q \<le> n"

definition apart :: "nat \<times> nat \<Rightarrow> nat \<times> nat \<Rightarrow> bool" where
  "apart q q' \<longleftrightarrow> snd q + width q \<le> snd q' \<or> snd q' + width q' \<le> snd q"

lemma length_ntohs_at [simp]: "length (ntohs_at p k) = length p"
  by (simp add: ntohs_at_def)

lemma length_ntohl_at [simp]: "length (ntohl_at p k) = length p"
  by (simp add: ntohl_at_def)

lemma length_swap_at [simp]: "length (swap_at p q) = length p"
  by (simp add: swap_at_def)

lemma length_swaps [simp]: "length (foldl swap_at p qs) = length p"
  by (induction qs arbitrary: p) simp_all

lemma ntohl_at_bytes:
  "ntohl_at p k = p[k := p ! (k + 3), k + 1 := p ! (k + 2), k + 2 := p ! (k + 1), k + 3 := p ! k]"
proof -
  have "bswap32 (rd32le p k) = bytes4 (ucast (p ! (k + 3))) (ucast (p ! (k + 2))) (ucast (p ! (k + 1))) (ucast (p ! k))"
    by (simp add: rd32le_def bswap32_bytes4)
  then show ?thesis by (simp add: ntohl_at_def wr32le_def byte_simps)
qed

text \<open>The byte that a swap brings to position \<open>j\<close>.\<close>

definition mirror :: "nat \<times> nat \<Rightarrow> nat \<Rightarrow> nat" where
  "mirror q j = 2 * snd q + width q - 1 - j"

lemma mirror_range:
  assumes "snd q \<le> j \<and> j < snd q + width q"
  shows "snd q \<le> mirror q j" "mirror q j < snd q + width q" "mirror q (mirror q j) = j"
  using assms by (auto simp: mirror_def)

lemma swap_at_nth:
  assumes "fits (length p) q" "j < length p"
  shows "swap_at p q ! j = (if snd q \<le> j \<and> j < snd q + width q then p ! mirror q j else p ! j)"
proof -
  let ?k = "snd q"
  show ?thesis
  proof (cases "fst q = 2")
    case True
    then show ?thesis using assms
      by (auto simp: swap_at_def width_def mirror_def fits_def ntohs_at_def nth_list_update less_Suc_eq intro!: arg_cong [of _ _ "nth p"])
  next
    case False
    then have k: "?k + 4 \<le> length p" using assms(1) by (simp add: fits_def width_def)
    consider "j = ?k" | "j = ?k + 1" | "j = ?k + 2" | "j = ?k + 3" | "j < ?k \<or> ?k + 4 \<le> j" by linarith
    then show ?thesis
    proof cases
      case 5
      then show ?thesis using False k by (auto simp: swap_at_def width_def mirror_def ntohl_at_bytes)
    qed (use False k in \<open>simp_all add: swap_at_def width_def mirror_def ntohl_at_bytes\<close>)
  qed
qed

lemma swap_at_twice: "fits (length p) q \<Longrightarrow> swap_at (swap_at p q) q = p"
proof (rule nth_equalityI)
  fix j
  assume f: "fits (length p) q" and j: "j < length (swap_at (swap_at p q) q)"
  show "swap_at (swap_at p q) q ! j = p ! j"
  proof (cases "snd q \<le> j \<and> j < snd q + width q")
    case True
    note m = mirror_range [OF True]
    then have "mirror q j < length p" using f by (simp add: fits_def)
    then show ?thesis using True j f m by (simp add: swap_at_nth)
  next
    case False
    then show ?thesis using j f by (auto simp: swap_at_nth)
  qed
qed simp

lemma swap_at_commute:
  assumes "apart q q'" "fits (length p) q" "fits (length p) q'"
  shows "swap_at (swap_at p q) q' = swap_at (swap_at p q') q"
proof (rule nth_equalityI)
  fix j
  assume "j < length (swap_at (swap_at p q) q')"
  then have j: "j < length p" by simp
  consider (l) "snd q \<le> j \<and> j < snd q + width q" | (r) "snd q' \<le> j \<and> j < snd q' + width q'"
    | (n) "\<not> (snd q \<le> j \<and> j < snd q + width q)" "\<not> (snd q' \<le> j \<and> j < snd q' + width q')" by blast
  then show "swap_at (swap_at p q) q' ! j = swap_at (swap_at p q') q ! j"
  proof cases
    case l
    note m = mirror_range [OF l]
    moreover have "mirror q j < length p" using m assms(2) by (simp add: fits_def)
    moreover have "\<not> (snd q' \<le> mirror q j \<and> mirror q j < snd q' + width q')" "\<not> (snd q' \<le> j \<and> j < snd q' + width q')"
      using l m assms(1) by (auto simp: apart_def)
    ultimately show ?thesis using l j assms(2,3) by (auto simp: swap_at_nth)
  next
    case r
    note m = mirror_range [OF r]
    moreover have "mirror q' j < length p" using m assms(3) by (simp add: fits_def)
    moreover have "\<not> (snd q \<le> mirror q' j \<and> mirror q' j < snd q + width q)" "\<not> (snd q \<le> j \<and> j < snd q + width q)"
      using r m assms(1) by (auto simp: apart_def)
    ultimately show ?thesis using r j assms(2,3) by (auto simp: swap_at_nth)
  next
    case n
    then show ?thesis using j assms(2,3) by (auto simp: swap_at_nth)
  qed
qed simp

lemma swaps_commute:
  assumes "\<forall>q'\<in>set qs. apart q q' \<and> fits (length p) q'" "fits (length p) q"
  shows "foldl swap_at (swap_at p q) qs = swap_at (foldl swap_at p qs) q"
  using assms by (induction qs arbitrary: p) (simp_all add: swap_at_commute)

lemma swaps_twice:
  assumes "sorted_wrt apart qs" "\<forall>q\<in>set qs. fits (length p) q"
  shows "foldl swap_at (foldl swap_at p qs) qs = p"
  using assms
proof (induction qs arbitrary: p)
  case (Cons q qs)
  have "foldl swap_at (swap_at (foldl swap_at (swap_at p q) qs) q) qs = foldl swap_at (foldl swap_at (swap_at (swap_at p q) q) qs) qs"
    using Cons.prems by (simp add: swaps_commute)
  also have "\<dots> = p" using Cons by (simp add: swap_at_twice)
  finally show ?case by simp
qed simp

text \<open>Bytes that no swap is about stay.\<close>

lemma swaps_nth:
  assumes "\<forall>q\<in>set qs. fits (length p) q \<and> snd q + width q \<le> k" "k \<le> j" "j < length p"
  shows "foldl swap_at p qs ! j = p ! j"
  using assms by (induction qs arbitrary: p) (auto simp: swap_at_nth)

definition swaps_RC5_72 :: "(nat \<times> nat) list" where
  "swaps_RC5_72 = map (\<lambda>i. (4, 4 * i)) [0..<20]"

definition swaps_OGR_P2 :: "(nat \<times> nat) list" where
  "swaps_OGR_P2 = [(2, 0), (2, 2), (4, 36)] @ map (\<lambda>i. (2, 4 + 2 * i)) [0..<10] @ [(4, 24), (4, 28), (4, 32)]"

definition swaps_OGR_NG :: "(nat \<times> nat) list" where
  "swaps_OGR_NG = [(2, 0), (2, 2), (2, 62)] @ map (\<lambda>i. (2, 4 + 2 * i)) [0..<28] @ [(2, 60), (4, 64), (4, 68)]"

lemma foldl_swap_map: "foldl swap_at p (map f is) = foldl (\<lambda>p i. swap_at p (f i)) p is"
  by (induction "is" arbitrary: p) simp_all

lemma switch_swaps:
  "foldl (\<lambda>p i. ntohl_at p (4 * i)) p [0..<20] = foldl swap_at p swaps_RC5_72"
  "switch_OGR_P2 p = foldl swap_at p swaps_OGR_P2"
  "switch_OGR_NG p = foldl swap_at p swaps_OGR_NG"
proof -
  show "foldl (\<lambda>p i. ntohl_at p (4 * i)) p [0..<20] = foldl swap_at p swaps_RC5_72"
    by (simp only: swaps_RC5_72_def foldl_swap_map swap_at_def fst_conv snd_conv) simp
  show "switch_OGR_P2 p = foldl swap_at p swaps_OGR_P2"
    unfolding switch_OGR_P2_def swaps_OGR_P2_def Let_def foldl_append foldl_swap_map by (simp add: swap_at_def)
  show "switch_OGR_NG p = foldl swap_at p swaps_OGR_NG"
    unfolding switch_OGR_NG_def swaps_OGR_NG_def Let_def foldl_append foldl_swap_map by (simp add: swap_at_def)
qed

definition good_swaps :: "(nat \<times> nat) list \<Rightarrow> bool" where
  "good_swaps qs \<longleftrightarrow> sorted_wrt apart qs \<and> (\<forall>q\<in>set qs. snd q + width q \<le> 80)"

lemma sorted_wrt_apart:
  assumes "\<And>i j. i < j \<Longrightarrow> apart (f i) (f j)"
  shows "sorted_wrt apart (map f [0..<n])"
  unfolding sorted_wrt_map using sorted_wrt_upt by (rule sorted_wrt_mono_rel [rotated]) (rule assms)

lemma swaps_good: "good_swaps swaps_RC5_72" "good_swaps swaps_OGR_P2" "good_swaps swaps_OGR_NG"
  by (auto simp: good_swaps_def swaps_RC5_72_def swaps_OGR_P2_def swaps_OGR_NG_def sorted_wrt_append apart_def width_def
    intro!: sorted_wrt_apart)

lemma rd32le_cong: "(\<And>j. k \<le> j \<and> j < k + 4 \<Longrightarrow> p ! j = q ! j) \<Longrightarrow> rd32le p k = rd32le q k"
  by (simp add: rd32le_def)

lemma swaps_fields:
  assumes "good_swaps qs" "length p = 168"
  shows "80 \<le> k \<Longrightarrow> k + 4 \<le> 168 \<Longrightarrow> rd32le (foldl swap_at p qs) k = rd32le p k"
    and "80 \<le> k \<Longrightarrow> k < 168 \<Longrightarrow> foldl swap_at p qs ! k = p ! k"
    and "foldl swap_at (foldl swap_at p qs) qs = p"
proof -
  have n: "foldl swap_at p qs ! j = p ! j" if "80 \<le> j" "j < 168" for j
    using that assms by (intro swaps_nth [of _ _ 80]) (auto simp: good_swaps_def fits_def)
  show "80 \<le> k \<Longrightarrow> k + 4 \<le> 168 \<Longrightarrow> rd32le (foldl swap_at p qs) k = rd32le p k"
    by (rule rd32le_cong) (use n in auto)
  show "80 \<le> k \<Longrightarrow> k < 168 \<Longrightarrow> foldl swap_at p qs ! k = p ! k" by (rule n)
  show "foldl swap_at (foldl swap_at p qs) qs = p"
    using assms by (intro swaps_twice) (auto simp: good_swaps_def fits_def)
qed

text \<open>The projects whose records have a byte order on disk, and a record as the client keeps it: of
  one of them, and with an \<open>id\<close> that ends.\<close>

definition has_order :: "u32 \<Rightarrow> bool" where
  "has_order c \<longleftrightarrow> project_of c \<in> {Some RC5_72, Some OGR_P2, Some OGR_NG}"

definition proper :: "work_record \<Rightarrow> bool" where
  "proper r \<longleftrightarrow> length r = sizeof_WorkRecord \<and> r ! 147 = 0 \<and> has_order (wr_contest r)"

lemma length_switch [simp]: "length (switch_byte_order r) = length r"
  by (simp add: switch_byte_order_def Let_def switch_swaps set_contest_def split: option.splits project.splits)

lemma switch_id:
  assumes "proper r"
  obtains qs where "good_swaps qs" "switch_byte_order r = foldl swap_at r qs"
    "\<And>r'. proper r' \<Longrightarrow> wr_contest r' = wr_contest r \<Longrightarrow> switch_byte_order r' = foldl swap_at r' qs"
proof -
  have e: "r'[147 := 0] = r'" if "proper r'" for r'
    using that by (metis list_update_id proper_def)
  define qs where "qs = (case project_of (wr_contest r) of Some OGR_P2 \<Rightarrow> swaps_OGR_P2 | Some OGR_NG \<Rightarrow> swaps_OGR_NG | _ \<Rightarrow> swaps_RC5_72)"
  have s: "switch_byte_order r' = foldl swap_at r' qs" if "proper r'" "wr_contest r' = wr_contest r" for r'
    using that by (auto simp: switch_byte_order_def e switch_swaps qs_def Let_def proper_def has_order_def)
  have "good_swaps qs" by (simp add: qs_def swaps_good split: option.splits project.splits)
  then show ?thesis using that s assms by blast
qed

lemma switch_fields:
  assumes "proper r"
  shows "wr_contest (switch_byte_order r) = wr_contest r" "wr_resultcode (switch_byte_order r) = wr_resultcode r"
    "proper (switch_byte_order r)" "switch_byte_order (switch_byte_order r) = r"
proof -
  obtain qs where qs: "good_swaps qs" "switch_byte_order r = foldl swap_at r qs"
      "\<And>r'. proper r' \<Longrightarrow> wr_contest r' = wr_contest r \<Longrightarrow> switch_byte_order r' = foldl swap_at r' qs"
    by (rule switch_id [OF assms]) blast
  have l: "length r = 168" using assms by (simp add: proper_def sizeof_WorkRecord_def)
  note f = swaps_fields [OF qs(1) l]
  show c: "wr_contest (switch_byte_order r) = wr_contest r" "wr_resultcode (switch_byte_order r) = wr_resultcode r"
    unfolding wr_contest_def wr_resultcode_def qs(2) by (rule f(1); simp)+
  show p: "proper (switch_byte_order r)"
    unfolding proper_def using assms f(2) [of 147] c(1) by (simp add: qs(2) proper_def)
  show "switch_byte_order (switch_byte_order r) = r"
    using qs(3) [OF p c(1)] f(3) unfolding qs(2) by simp
qed

section \<open>Properties\<close>

text \<open>C16: writing a record to disk and reading it again gives the record: the change of the byte order
  of a record of a known project, whose \<open>id\<close> ends, leaves its contest and its result as they are, and
  two changes are none.\<close>

theorem switch_byte_order_roundtrip:
  assumes "length r = sizeof_WorkRecord" "r ! 147 = 0" "project_of (wr_contest r) \<in> {Some RC5_72, Some OGR_P2, Some OGR_NG}"
  shows "wr_contest (switch_byte_order r) = wr_contest r \<and> wr_resultcode (switch_byte_order r) = wr_resultcode r \<and>
    length (switch_byte_order r) = length r \<and> switch_byte_order (switch_byte_order r) = r"
  using assms switch_fields [of r] by (simp add: proper_def has_order_def)

theorem switch_byte_order_roundtrip_witness:
  "let r = [0, 27] @ replicate 146 0 @ [4, 0, 0, 0] @ replicate 16 0
   in switch_byte_order (switch_byte_order r) = r \<and> wr_contest (switch_byte_order r) = 4"
proof -
  let ?r = "[0, 27] @ replicate 146 0 @ [4, 0, 0, 0] @ replicate 16 0 :: work_record"
  have c: "wr_contest ?r = 4" by (simp add: wr_contest_def rd32le_def bytes4_def shl_def nth_append)
  have "project_of (wr_contest ?r) = Some OGR_NG" unfolding c by (simp add: project_of_def CONTEST_COUNT_def)
  then have "wr_contest (switch_byte_order ?r) = wr_contest ?r \<and> wr_resultcode (switch_byte_order ?r) = wr_resultcode ?r \<and>
    length (switch_byte_order ?r) = length ?r \<and> switch_byte_order (switch_byte_order ?r) = ?r"
    by (intro switch_byte_order_roundtrip) (simp_all add: sizeof_WorkRecord_def nth_append)
  then show ?thesis using c by (simp add: Let_def)
qed

end
