(* ===== verification/BuffFile.thy ===== *)
theory BuffFile
  imports DiskIO WorkRecord
begin

text \<open>
  The buffer files of \<open>common/buffpub.cpp\<close>: records in slots of 168 bytes, or in the format of the
  Moo! Wrapper, packets of 176 bytes behind a header. A record of zeros is a free slot. The state is
  the disk and the flag \<open>moo_output_mode\<close>; \<open>True\<close> for an argument \<open>want_count\<close> says that the caller
  passes a place for the count. Every call of the C library may fail, and every return value that
  the code looks at is looked at here; those it does not look at are dropped.
\<close>

section \<open>The functions\<close>

record buffpub = disk +
  moo_output_mode :: bool

definition set_moo_output_mode :: "('a buffpub_scheme, unit) state" where
  "set_moo_output_mode = State (\<lambda>s. ((), s\<lparr>moo_output_mode := True\<rparr>))"

definition get_moo_output_mode :: "('a buffpub_scheme, bool) state" where
  "get_moo_output_mode = State (\<lambda>s. (moo_output_mode s, s))"

definition BUFFER_FLAGS_NONE :: u32 where "BUFFER_FLAGS_NONE = 0x00"
definition BUFFER_FLAGS_NOLWRITE :: u32 where "BUFFER_FLAGS_NOLWRITE = 0x02"
definition BUFFER_FLAGS_REMOTEBUF :: u32 where "BUFFER_FLAGS_REMOTEBUF = 0x04"
definition BUFFER_FLAGS_CHECKPOINT :: u32 where "BUFFER_FLAGS_CHECKPOINT = 0x08"

definition MOO521_RECLEN :: nat where "MOO521_RECLEN = 176"

definition blank_record :: work_record where "blank_record = replicate sizeof_WorkRecord 0"
definition blank_packet :: "u8 list" where "blank_packet = replicate MOO521_RECLEN 0"

definition BufferZapFileRecords :: "string \<Rightarrow> ('a buffpub_scheme, int) state" where
  "BufferZapFileRecords f = do {
     e \<leftarrow> access_ok f;
     if \<not> e then State_Monad.return 0
     else do {
       ok \<leftarrow> fopen_w f;
       if \<not> ok then do { remove_file f; State_Monad.return (-1) }
       else State_Monad.return 0 } }"

text \<open>\<open>BufferOpenFile\<close>: the number of records, or \<open>None\<close> for the null pointer.\<close>

definition open_or_create :: "string \<Rightarrow> ('a buffpub_scheme, bool) state" where
  "open_or_create f = do {
     e \<leftarrow> access_ok f;
     ok \<leftarrow> (if \<not> e then fopen_w f else State_Monad.return True);
     if \<not> ok then State_Monad.return False
     else do {
       e \<leftarrow> access_ok f;
       if \<not> e then State_Monad.return False else fopen_r f } }"

definition BufferOpenFile :: "string \<Rightarrow> u32 \<Rightarrow> ('a buffpub_scheme, nat option) state" where
  "BufferOpenFile f flags =
     (if flags AND BUFFER_FLAGS_REMOTEBUF \<noteq> 0 then State_Monad.return None
      else do {
        ok \<leftarrow> open_or_create f;
        if \<not> ok then State_Monad.return None
        else do {
          flushed \<leftarrow> fseek;
          ok \<leftarrow> (if flushed then fseek else State_Monad.return False);
          if \<not> ok then State_Monad.return None
          else do {
            filelen \<leftarrow> ftell_end f;
            State_Monad.return (case filelen of
                None \<Rightarrow> None
              | Some filelen \<Rightarrow> if filelen mod sizeof_WorkRecord \<noteq> 0 then None else Some (filelen div sizeof_WorkRecord)) } } })"

definition moo_file_detect :: "string \<Rightarrow> ('a buffpub_scheme, bool) state" where
  "moo_file_detect f = do {
     ok \<leftarrow> fopen_r f;
     if \<not> ok then State_Monad.return False
     else do {
       magic \<leftarrow> fread f 0 4;
       (case magic of
          None \<Rightarrow> State_Monad.return False
        | Some magic \<Rightarrow>
            if moo521_is_header magic then do { set_moo_output_mode; State_Monad.return True }
            else State_Monad.return False) } }"

definition moo_file_missing :: "string \<Rightarrow> ('a buffpub_scheme, bool) state" where
  "moo_file_missing f = do {
     ok \<leftarrow> fopen_r f;
     if \<not> ok then State_Monad.return True
     else do {
       ok \<leftarrow> fseek;
       if \<not> ok then State_Monad.return False
       else do { len \<leftarrow> ftell_end f; State_Monad.return (len = Some 0) } } }"

text \<open>The record of a packet in the order of the machine, as \<open>moo_count_records\<close> and
  \<open>moo_read_one_record\<close> make it; \<open>moo521_pack\<close> and \<open>moo521_unpack\<close> copy all bytes.\<close>

definition moo521_pack :: "work_record \<Rightarrow> u8 list" where "moo521_pack wr = take 168 wr"
definition moo521_unpack :: "u8 list \<Rightarrow> work_record" where "moo521_unpack body168 = take 168 body168"

definition packet_record :: "u8 list \<Rightarrow> work_record" where
  "packet_record pkt = switch_byte_order (set_contest 5 (moo521_unpack (moo521_decode pkt)))"

text \<open>The units that a record counts for.\<close>

definition swu_of :: "work_record \<Rightarrow> nat" where
  "swu_of r = (case BufferGetRecordInfo r of (rc, swu) \<Rightarrow> if rc \<ge> 0 then (case swu of None \<Rightarrow> 0 | Some u \<Rightarrow> unat u) else 0)"

fun moo_count_records :: "string \<Rightarrow> nat \<Rightarrow> nat \<Rightarrow> u32 \<Rightarrow> nat \<Rightarrow> nat \<Rightarrow> ('a buffpub_scheme, nat \<times> nat) state" where
  "moo_count_records f i 0 contest packetcount normcount = State_Monad.return (packetcount, normcount)"
| "moo_count_records f i (Suc n) contest packetcount normcount = do {
     pkt \<leftarrow> fread f (MOO521_HEADERLEN + i * MOO521_RECLEN) MOO521_RECLEN;
     (case pkt of
        None \<Rightarrow> State_Monad.return (packetcount, normcount)
      | Some pkt \<Rightarrow>
          if pkt = blank_packet then moo_count_records f (Suc i) n contest packetcount normcount
          else
            let wr = packet_record pkt in
            if wr_contest wr = contest
            then moo_count_records f (Suc i) n contest (packetcount + 1) (normcount + swu_of wr)
            else moo_count_records f (Suc i) n contest packetcount normcount) }"

text \<open>\<open>moo_read_one_record\<close>: the return value, with the record if that is 0.\<close>

definition moo_read_one_record :: "string \<Rightarrow> nat \<Rightarrow> ('a buffpub_scheme, int \<times> work_record) state" where
  "moo_read_one_record f recno = do {
     let fpos = MOO521_HEADERLEN + recno * MOO521_RECLEN;
     ok \<leftarrow> fseek;
     if \<not> ok then State_Monad.return (-1, [])
     else do {
       pkt \<leftarrow> fread f fpos MOO521_RECLEN;
       (case pkt of
          None \<Rightarrow> State_Monad.return (-1, [])
        | Some pkt \<Rightarrow>
            if pkt = blank_packet then State_Monad.return (1, [])
            else do {
              let wr = set_resultcode 0 (packet_record pkt);
              ok \<leftarrow> fseek;
              if \<not> ok then State_Monad.return (-1, [])
              else do {
                fwrite f fpos blank_packet;
                fseek;
                State_Monad.return (0, wr) } }) } }"

text \<open>The scan of \<open>moo_write_one_record\<close> for a blank slot: \<open>None\<close> is the return of -1.\<close>

fun moo_find_slot :: "string \<Rightarrow> nat \<Rightarrow> nat \<Rightarrow> ('a buffpub_scheme, nat option) state" where
  "moo_find_slot f i 0 = State_Monad.return (Some i)"
| "moo_find_slot f i (Suc n) = do {
     ok \<leftarrow> fseek;
     if \<not> ok then State_Monad.return None
     else do {
       rd \<leftarrow> fread f (MOO521_HEADERLEN + i * MOO521_RECLEN) MOO521_RECLEN;
       (case rd of
          None \<Rightarrow> State_Monad.return (Some (i + Suc n))
        | Some rd \<Rightarrow> if rd = blank_packet then State_Monad.return (Some i) else moo_find_slot f (Suc i) n) } }"

text \<open>\<open>moo_write_one_record\<close>: the return value and the number of slots afterwards.\<close>

definition moo_put_packet :: "string \<Rightarrow> nat \<Rightarrow> u8 list \<Rightarrow> nat \<Rightarrow> ('a buffpub_scheme, int \<times> nat) state" where
  "moo_put_packet f writerec pkt reccount = do {
     ok \<leftarrow> fseek;
     if \<not> ok then State_Monad.return (-1, reccount)
     else do {
       ok \<leftarrow> fwrite f (MOO521_HEADERLEN + writerec * MOO521_RECLEN) pkt;
       if \<not> ok then State_Monad.return (-1, reccount)
       else do { fseek; State_Monad.return (0, reccount) } } }"

definition moo_write_one_record :: "string \<Rightarrow> nat \<Rightarrow> work_record \<Rightarrow> ('a buffpub_scheme, int \<times> nat) state" where
  "moo_write_one_record f reccount record = do {
     let pkt = moo521_encode (moo521_pack (switch_byte_order record)) (NOT 0);
     writerec \<leftarrow> moo_find_slot f 0 reccount;
     (case writerec of
        None \<Rightarrow> State_Monad.return (-1, reccount)
      | Some writerec \<Rightarrow>
          if writerec = reccount then do {
            let reccount = reccount + 1;
            ok \<leftarrow> fseek;
            if \<not> ok then State_Monad.return (-1, reccount - 1)
            else do {
              fwrite f 0 (moo521_make_header (of_nat reccount));
              moo_put_packet f writerec pkt reccount } }
          else moo_put_packet f writerec pkt reccount) }"

text \<open>The count in the header of a file of the Moo! Wrapper, 0 if it cannot be read.\<close>

definition moo_reccount :: "string \<Rightarrow> ('a buffpub_scheme, nat) state" where
  "moo_reccount f = do {
     hdr \<leftarrow> fread f 0 MOO521_HEADERLEN;
     State_Monad.return (case hdr of None \<Rightarrow> 0
       | Some hdr \<Rightarrow> (case moo521_header_count hdr of None \<Rightarrow> 0 | Some c \<Rightarrow> unat c)) }"

text \<open>\<open>BufferPutFileRecord\<close>, on a file of the Moo! Wrapper and on one of the client. The second
  result is the count, \<open>None\<close> where the code does not store one.\<close>

definition moo_open_put :: "string \<Rightarrow> ('a buffpub_scheme, bool) state" where
  "moo_open_put f = do {
     ok \<leftarrow> fopen_r f;
     if ok then State_Monad.return True
     else do {
       ok \<leftarrow> fopen_w f;
       if \<not> ok then State_Monad.return False
       else do {
         fwrite f 0 (moo521_make_header 0);
         fseek;
         State_Monad.return True } } }"

definition moo_put_record :: "string \<Rightarrow> work_record \<Rightarrow> bool \<Rightarrow> ('a buffpub_scheme, int \<times> nat option) state" where
  "moo_put_record f record want_count = do {
     ok \<leftarrow> moo_open_put f;
     if \<not> ok then State_Monad.return (-1, None)
     else do {
       ok \<leftarrow> fseek;
       reccount \<leftarrow> (if ok then moo_reccount f else State_Monad.return 0);
       (rc, reccount) \<leftarrow> moo_write_one_record f reccount record;
       State_Monad.return (if rc = 0 then 0 else -1,
         if want_count then Some (if rc = 0 then reccount else 0) else None) } }"

fun put_scan :: "string \<Rightarrow> bool \<Rightarrow> nat \<Rightarrow> nat \<Rightarrow> nat \<Rightarrow> nat \<Rightarrow> ('a buffpub_scheme, (nat \<times> nat) option) state" where
  "put_scan f want_count recno 0 cnt writerec = State_Monad.return (Some (cnt, writerec))"
| "put_scan f want_count recno (Suc n) cnt writerec = do {
     scratch \<leftarrow> fread f (recno * sizeof_WorkRecord) sizeof_WorkRecord;
     (case scratch of
        None \<Rightarrow> State_Monad.return None
      | Some scratch \<Rightarrow>
          if scratch \<noteq> blank_record then put_scan f want_count (Suc recno) n (cnt + 1) writerec
          else if \<not> want_count then State_Monad.return (Some (cnt, recno))
          else put_scan f want_count (Suc recno) n cnt recno) }"

definition stock_put_at :: "string \<Rightarrow> work_record \<Rightarrow> bool \<Rightarrow> (nat \<times> nat) option \<Rightarrow> ('a buffpub_scheme, int \<times> nat option) state" where
  "stock_put_at f record want_count found =
     (case found of
        None \<Rightarrow> State_Monad.return (-1, None)
      | Some (cnt, writerec) \<Rightarrow> do {
          ok \<leftarrow> fseek;
          ok \<leftarrow> (if ok then fwrite f (writerec * sizeof_WorkRecord) (switch_byte_order record)
                 else State_Monad.return False);
          if ok then State_Monad.return (0, if want_count then Some (cnt + 1) else None)
          else State_Monad.return (-1, None) })"

definition stock_put_slots :: "string \<Rightarrow> work_record \<Rightarrow> bool \<Rightarrow> nat \<Rightarrow> ('a buffpub_scheme, int \<times> nat option) state" where
  "stock_put_slots f record want_count reccount = do {
     ok \<leftarrow> fseek;
     found \<leftarrow> (if ok then put_scan f want_count 0 reccount 0 reccount else State_Monad.return None);
     stock_put_at f record want_count found }"

definition stock_put_record :: "string \<Rightarrow> work_record \<Rightarrow> bool \<Rightarrow> u32 \<Rightarrow> ('a buffpub_scheme, int \<times> nat option) state" where
  "stock_put_record f record want_count flags = do {
     reccount \<leftarrow> BufferOpenFile f flags;
     (case reccount of
        None \<Rightarrow> State_Monad.return (-1, None)
      | Some reccount \<Rightarrow> stock_put_slots f record want_count reccount) }"

definition BufferPutFileRecord :: "string \<Rightarrow> work_record \<Rightarrow> bool \<Rightarrow> u32 \<Rightarrow> ('a buffpub_scheme, int \<times> nat option) state" where
  "BufferPutFileRecord f record want_count flags = do {
     moo \<leftarrow> moo_file_detect f;
     mode \<leftarrow> get_moo_output_mode;
     moo \<leftarrow> (if moo then State_Monad.return True
             else if mode then moo_file_missing f else State_Monad.return False);
     if moo then moo_put_record f record want_count
     else stock_put_record f record want_count flags }"

text \<open>\<open>BufferCountFileRecords\<close>: the return value and the two counts.\<close>

fun count_scan :: "string \<Rightarrow> u32 \<Rightarrow> nat \<Rightarrow> nat \<Rightarrow> nat \<Rightarrow> nat \<Rightarrow> ('a buffpub_scheme, (nat \<times> nat) option) state" where
  "count_scan f contest recno 0 packetcount normcount = State_Monad.return (Some (packetcount, normcount))"
| "count_scan f contest recno (Suc n) packetcount normcount = do {
     scratch \<leftarrow> fread f (recno * sizeof_WorkRecord) sizeof_WorkRecord;
     (case scratch of
        None \<Rightarrow> State_Monad.return None
      | Some scratch \<Rightarrow>
          if scratch = blank_record then count_scan f contest (Suc recno) n packetcount normcount
          else
            let scratch = switch_byte_order scratch in
            if wr_contest scratch = contest
            then count_scan f contest (Suc recno) n (packetcount + 1) (normcount + swu_of scratch)
            else count_scan f contest (Suc recno) n packetcount normcount) }"

definition moo_count_file :: "string \<Rightarrow> u32 \<Rightarrow> ('a buffpub_scheme, int \<times> nat \<times> nat) state" where
  "moo_count_file f contest = do {
     ok \<leftarrow> fopen_r f;
     if \<not> ok then State_Monad.return (-1, 0, 0)
     else do {
       hdr \<leftarrow> fread f 0 MOO521_HEADERLEN;
       (case Option.bind hdr moo521_header_count of
          None \<Rightarrow> State_Monad.return (-1, 0, 0)
        | Some reccount \<Rightarrow> do {
            counts \<leftarrow> moo_count_records f 0 (unat reccount) contest 0 0;
            State_Monad.return (0, counts) }) } }"

definition stock_count_file :: "string \<Rightarrow> u32 \<Rightarrow> ('a buffpub_scheme, int \<times> nat \<times> nat) state" where
  "stock_count_file f contest = do {
     reccount \<leftarrow> BufferOpenFile f BUFFER_FLAGS_NOLWRITE;
     (case reccount of
        None \<Rightarrow> State_Monad.return (-1, 0, 0)
      | Some reccount \<Rightarrow> do {
          ok \<leftarrow> fseek;
          counts \<leftarrow> (if ok then count_scan f contest 0 reccount 0 0 else State_Monad.return None);
          State_Monad.return (case counts of None \<Rightarrow> (-1, 0, 0) | Some counts \<Rightarrow> (0, counts)) }) }"

definition BufferCountFileRecords :: "string \<Rightarrow> u32 \<Rightarrow> ('a buffpub_scheme, int \<times> nat \<times> nat) state" where
  "BufferCountFileRecords f contest = do {
     moo \<leftarrow> moo_file_detect f;
     if moo then moo_count_file f contest else stock_count_file f contest }"

text \<open>\<open>BufferGetFileRecord\<close>: the return value, the record if that is 0, and the count, which the
  code always asks for here and leaves alone where the result is \<open>None\<close>.\<close>

fun moo_get_scan :: "string \<Rightarrow> nat \<Rightarrow> nat \<Rightarrow> ('a buffpub_scheme, int \<times> work_record) state" where
  "moo_get_scan f i 0 = State_Monad.return (1, [])"
| "moo_get_scan f i (Suc n) = do {
     (r, wr) \<leftarrow> moo_read_one_record f i;
     if r = 0 then State_Monad.return (0, wr)
     else if r = -1 then State_Monad.return (-1, wr)
     else moo_get_scan f (Suc i) n }"

definition moo_count_rest :: "string \<Rightarrow> ('a buffpub_scheme, nat) state" where
  "moo_count_rest f = do {
     ok \<leftarrow> fopen_r f;
     if \<not> ok then State_Monad.return 0
     else do {
       rc2 \<leftarrow> moo_reccount f;
       (packets, norm) \<leftarrow> moo_count_records f 0 rc2 5 0 0;
       State_Monad.return packets } }"

definition moo_get_file :: "string \<Rightarrow> ('a buffpub_scheme, int \<times> work_record \<times> nat option) state" where
  "moo_get_file f = do {
     ok \<leftarrow> fopen_r f;
     if \<not> ok then State_Monad.return (1, [], Some 0)
     else do {
       ok \<leftarrow> fseek;
       hdr \<leftarrow> (if ok then fread f 0 MOO521_HEADERLEN else State_Monad.return None);
       (case hdr of
          None \<Rightarrow> State_Monad.return (-1, [], None)
        | Some hdr \<Rightarrow> do {
            let reccount = (case moo521_header_count hdr of None \<Rightarrow> 0 | Some c \<Rightarrow> unat c);
            (rc, record) \<leftarrow> moo_get_scan f 0 reccount;
            if rc = 1 then do { BufferZapFileRecords f; State_Monad.return (1, record, Some 0) }
            else if rc = 0 then do { count \<leftarrow> moo_count_rest f; State_Monad.return (0, record, Some count) }
            else State_Monad.return (rc, record, Some 0) }) } }"

fun get_scan :: "string \<Rightarrow> nat \<Rightarrow> nat \<Rightarrow> nat \<Rightarrow> ('a buffpub_scheme, int \<times> work_record \<times> nat) state" where
  "get_scan f recno 0 blanked = State_Monad.return (1, [], blanked)"
| "get_scan f recno (Suc n) blanked = do {
     scratch \<leftarrow> fread f (recno * sizeof_WorkRecord) sizeof_WorkRecord;
     (case scratch of
        None \<Rightarrow> State_Monad.return (-1, [], blanked)
      | Some scratch \<Rightarrow>
          if scratch = blank_record then get_scan f (Suc recno) n (blanked + 1)
          else do {
            ok \<leftarrow> fseek;
            if \<not> ok then State_Monad.return (-1, [], blanked)
            else do {
              ok \<leftarrow> fwrite f (recno * sizeof_WorkRecord) blank_record;
              if \<not> ok then State_Monad.return (-1, [], blanked)
              else State_Monad.return (0, switch_byte_order scratch, blanked + 1) } }) }"

definition stock_get_slots :: "string \<Rightarrow> nat \<Rightarrow> ('a buffpub_scheme, int \<times> work_record) state" where
  "stock_get_slots f reccount = do {
     ok \<leftarrow> fseek;
     (rc, record, blanked) \<leftarrow>
       (if ok then get_scan f 0 reccount 0 else State_Monad.return (-1, [], 0));
     if reccount > 0 \<and> reccount = blanked
     then do { BufferZapFileRecords f; State_Monad.return (rc, record) }
     else State_Monad.return (rc, record) }"

definition stock_get_file :: "string \<Rightarrow> u32 \<Rightarrow> ('a buffpub_scheme, int \<times> work_record \<times> nat option) state" where
  "stock_get_file f flags = do {
     reccount \<leftarrow> BufferOpenFile f flags;
     (rc, record) \<leftarrow> (case reccount of
        None \<Rightarrow> State_Monad.return (-1, [])
      | Some reccount \<Rightarrow> stock_get_slots f reccount);
     if rc = 0 then do {
       (failed, packets, norm) \<leftarrow> BufferCountFileRecords f (wr_contest record);
       State_Monad.return (rc, record, Some packets) }
     else State_Monad.return (rc, record, Some 0) }"

definition BufferGetFileRecord :: "string \<Rightarrow> u32 \<Rightarrow> ('a buffpub_scheme, int \<times> work_record \<times> nat option) state" where
  "BufferGetFileRecord f flags = do {
     moo \<leftarrow> moo_file_detect f;
     if moo then moo_get_file f else stock_get_file f flags }"

end
