(* ===== verification/BuffStock.thy ===== *)
theory BuffStock
  imports BuffFile
begin

text \<open>
  What the buffer files of the client do, whichever calls of the C library fail: the records of a
  file are those of its slots that are not blank, in order. \<open>BufferPutFileRecord\<close> adds one record or
  none, and \<open>BufferGetFileRecord\<close> takes the first one or none, as their return values say.
\<close>

section \<open>The records of a file\<close>

definition file_slots :: "u8 list \<Rightarrow> u8 list list" where
  "file_slots c = slots 0 sizeof_WorkRecord c (length c div sizeof_WorkRecord)"

definition file_recs :: "u8 list \<Rightarrow> work_record list" where
  "file_recs c = map switch_byte_order (filter (\<lambda>r. r \<noteq> blank_record) (file_slots c))"

definition recs :: "'a disk_scheme \<Rightarrow> string \<Rightarrow> work_record list" where
  "recs s f = (case d_files s f of None \<Rightarrow> [] | Some c \<Rightarrow> file_recs c)"

definition moo_magic :: "u8 list \<Rightarrow> bool" where
  "moo_magic c \<longleftrightarrow> 4 \<le> length c \<and> moo521_is_header (take 4 c)"

text \<open>A disk with no file of the Moo! Wrapper, and whole records in every file.\<close>

definition stock_disk :: "'a buffpub_scheme \<Rightarrow> bool" where
  "stock_disk s \<longleftrightarrow> \<not> moo_output_mode s \<and> (\<forall>f c. d_files s f = Some c \<longrightarrow> \<not> moo_magic c \<and> sizeof_WorkRecord dvd length c)"

text \<open>What a call may change: nothing but calls of the C library, or one file.\<close>

definition same :: "'a disk_scheme \<Rightarrow> 'a disk_scheme \<Rightarrow> bool" where
  "same s s' \<longleftrightarrow> d_files s' = d_files s \<and> d_fails s' = d_fails s \<and> disk.more s' = disk.more s"

definition upd :: "'a disk_scheme \<Rightarrow> string \<Rightarrow> u8 list option \<Rightarrow> 'a disk_scheme \<Rightarrow> bool" where
  "upd s f c s' \<longleftrightarrow> d_files s' = (d_files s)(f := c) \<and> d_fails s' = d_fails s \<and> disk.more s' = disk.more s"

lemma same_refl [simp]: "same s s" and same_tick [simp]: "same s (tick s') \<longleftrightarrow> same s s'"
  by (simp_all add: same_def)

lemma tick_left [simp]: "same (tick s) s' \<longleftrightarrow> same s s'" "upd (tick s) f c s' \<longleftrightarrow> upd s f c s'"
  by (simp_all add: same_def upd_def)

lemma same_trans [trans]: "same s s' \<Longrightarrow> same s' s'' \<Longrightarrow> same s s''"
  by (simp add: same_def)

lemma upd_set_file [simp]: "same s s' \<Longrightarrow> upd s f c (set_file f c s')" and upd_tick [simp]: "upd s f c (tick s') \<longleftrightarrow> upd s f c s'"
  by (simp_all add: same_def upd_def)

lemma upd_same: "upd s f c s' \<Longrightarrow> same s' s'' \<Longrightarrow> upd s f c s''" and same_upd: "same s s' \<Longrightarrow> upd s' f c s'' \<Longrightarrow> upd s f c s''"
  and upd_upd: "upd s f c s' \<Longrightarrow> upd s' f c' s'' \<Longrightarrow> upd s f c' s''" and upd_self: "same s s' \<Longrightarrow> d_files s f = c \<Longrightarrow> upd s f c s'"
  by (simp_all add: same_def upd_def fun_upd_idem)

lemma same_moo: "same s s' \<Longrightarrow> moo_output_mode s' = moo_output_mode s" and upd_moo: "upd s f c s' \<Longrightarrow> moo_output_mode s' = moo_output_mode s"
  by (cases s; cases s'; simp add: same_def upd_def)+

lemma recs_same: "same s s' \<Longrightarrow> recs s' = recs s"
  by (simp add: same_def recs_def fun_eq_iff)

lemma recs_upd: "upd s f c s' \<Longrightarrow> recs s' = (recs s)(f := (case c of None \<Rightarrow> [] | Some c \<Rightarrow> file_recs c))"
  by (simp add: upd_def recs_def fun_eq_iff)

lemma stock_same: "same s s' \<Longrightarrow> stock_disk s \<Longrightarrow> stock_disk s'"
  using same_moo [of s s'] by (simp add: stock_disk_def same_def)

lemma stock_upd: "upd s f c s' \<Longrightarrow> stock_disk s \<Longrightarrow> (\<And>b. c = Some b \<Longrightarrow> \<not> moo_magic b \<and> sizeof_WorkRecord dvd length b) \<Longrightarrow> stock_disk s'"
  using upd_moo [of s f c s'] by (auto simp: stock_disk_def upd_def split: if_splits)

lemma file_recs_Nil [simp]: "file_recs [] = []"
  by (simp add: file_recs_def file_slots_def slots_def)

section \<open>Opening a file\<close>

lemma wp_access_ok [wps]: "wp (access_ok f) Q s \<longleftrightarrow> Q (d_files s f \<noteq> None) s"
  by (simp add: access_ok_def wps)

lemma wp_fopen_r [wps]: "wp (fopen_r f) Q s \<longleftrightarrow> Q (\<not> d_fails s (d_calls s) \<and> d_files s f \<noteq> None) (tick s)"
  by (simp add: fopen_r_def wps)

lemma wp_fopen_w [wps]:
  "wp (fopen_w f) Q s \<longleftrightarrow> (if d_fails s (d_calls s) then Q False (tick s) else Q True (set_file f (Some []) (tick s)))"
  by (simp add: fopen_w_def wps)

lemma wp_fseek [wps]: "wp fseek Q s \<longleftrightarrow> Q (\<not> d_fails s (d_calls s)) (tick s)"
  by (simp add: fseek_def wps)

lemma wp_ftell_end [wps]:
  "wp (ftell_end f) Q s \<longleftrightarrow> Q (if d_fails s (d_calls s) then None else map_option length (d_files s f)) (tick s)"
  by (simp add: ftell_end_def wps)

lemma wp_fread [wps]:
  "wp (fread f pos n) Q s \<longleftrightarrow> Q (case d_files s f of None \<Rightarrow> None
     | Some c \<Rightarrow> if \<not> d_fails s (d_calls s) \<and> pos + n \<le> length c then Some (take n (drop pos c)) else None) (tick s)"
  by (simp add: fread_def wps)

lemma wp_fwrite [wps]:
  "wp (fwrite f pos bs) Q s \<longleftrightarrow> (case d_files s f of None \<Rightarrow> Q False (tick s)
     | Some c \<Rightarrow> if d_fails s (d_calls s) then Q False (tick s) else Q True (set_file f (Some (overwrite c pos bs)) (tick s)))"
  by (simp add: fwrite_def wps split: option.split)

lemma wp_remove_file [wps]:
  "wp (remove_file f) Q s \<longleftrightarrow> Q () (if d_fails s (d_calls s) then tick s else set_file f None (tick s))"
  by (simp add: remove_file_def wps)

text \<open>An empty file instead of none, or nothing changed.\<close>

definition created :: "'a disk_scheme \<Rightarrow> string \<Rightarrow> 'a disk_scheme \<Rightarrow> bool" where
  "created s f s' \<longleftrightarrow> same s s' \<or> d_files s f = None \<and> upd s f (Some []) s'"

lemma created_recs: "created s f s' \<Longrightarrow> recs s' = recs s"
proof -
  assume "created s f s'"
  then consider "same s s'" | "d_files s f = None" "upd s f (Some []) s'" by (auto simp: created_def)
  then show ?thesis
  proof cases
    case 2
    then have "recs s' = (recs s)(f := [])" using recs_upd [OF 2(2)] by simp
    moreover have "recs s f = []" using 2(1) by (simp add: recs_def)
    ultimately show ?thesis by (simp add: fun_eq_iff)
  qed (rule recs_same)
qed

lemma created_stock: "created s f s' \<Longrightarrow> stock_disk s \<Longrightarrow> stock_disk s'"
  by (auto simp: created_def stock_same dest: stock_upd [of s f "Some []"] simp: moo_magic_def)

text \<open>A file opens unless a call fails or the caller passes \<open>BUFFER_FLAGS_REMOTEBUF\<close>.\<close>

definition ready :: "'a disk_scheme \<Rightarrow> u32 \<Rightarrow> bool" where
  "ready s flags \<longleftrightarrow> no_fail s \<and> flags AND BUFFER_FLAGS_REMOTEBUF = 0"

lemma not_no_fail: "d_fails s n \<Longrightarrow> \<not> no_fail s"
  by (auto simp: no_fail_def)

lemma wp_BufferOpenFile:
  assumes "stock_disk s"
  shows "wp (BufferOpenFile f flags) (\<lambda>n s'. created s f s' \<and>
     (case n of None \<Rightarrow> \<not> ready s flags | Some n \<Rightarrow> \<exists>c. d_files s' f = Some c \<and> length c = n * sizeof_WorkRecord)) s"
  using assms
  by (auto simp: BufferOpenFile_def open_or_create_def wps created_def ready_def stock_disk_def dvd_eq_mod_eq_0 dest: not_no_fail split: option.splits)

section \<open>The scans\<close>

lemma slot0: "slot 0 w c i = take w (drop (i * w) c)"
  by (simp add: slot_def)

lemma slot_fits: "(i + Suc n) * w \<le> l \<Longrightarrow> i * w + w \<le> (l::nat)"
  by (simp add: add_mult_distrib)

lemma wp_read_slot:
  assumes "d_files s f = Some c" "(i + Suc n) * sizeof_WorkRecord \<le> length c"
  shows "wp (fread f (i * sizeof_WorkRecord) sizeof_WorkRecord) Q s \<longleftrightarrow>
    Q (if d_fails s (d_calls s) then None else Some (slot 0 sizeof_WorkRecord c i)) (tick s)"
  using assms(1) slot_fits [OF assms(2)] by (simp add: wps slot0)

text \<open>What the scans of \<open>n\<close> slots from slot \<open>i\<close> do.\<close>

definition blank_slot :: "u8 list \<Rightarrow> nat \<Rightarrow> bool" where
  "blank_slot c j \<longleftrightarrow> slot 0 sizeof_WorkRecord c j = blank_record"

definition put_post :: "u8 list \<Rightarrow> bool \<Rightarrow> 'a disk_scheme \<Rightarrow> nat \<Rightarrow> nat \<Rightarrow> nat \<Rightarrow> nat \<Rightarrow> (nat \<times> nat) option \<Rightarrow> 'a disk_scheme \<Rightarrow> bool" where
  "put_post c want s i n k w r s' \<longleftrightarrow> same s s' \<and>
     (case r of None \<Rightarrow> \<not> no_fail s
      | Some (k', w') \<Rightarrow> (want \<longrightarrow> k' = k + length (filter (\<lambda>j. \<not> blank_slot c j) [i..<i + n])) \<and>
          (w' = w \<or> i \<le> w' \<and> w' < i + n \<and> blank_slot c w'))"

definition get_post :: "u8 list \<Rightarrow> string \<Rightarrow> 'a disk_scheme \<Rightarrow> nat \<Rightarrow> nat \<Rightarrow> nat \<Rightarrow> int \<times> work_record \<times> nat \<Rightarrow> 'a disk_scheme \<Rightarrow> bool" where
  "get_post c f s i n b x s' \<longleftrightarrow>
     fst x = 1 \<and> same s s' \<and> snd (snd x) = b + n \<and> (\<forall>j. i \<le> j \<and> j < i + n \<longrightarrow> blank_slot c j)
   \<or> fst x = -1 \<and> same s s' \<and> \<not> no_fail s \<and> snd (snd x) < b + n
   \<or> fst x = 0 \<and> (\<exists>m. i \<le> m \<and> m < i + n \<and> (\<forall>j. i \<le> j \<and> j < m \<longrightarrow> blank_slot c j) \<and> \<not> blank_slot c m \<and>
       fst (snd x) = switch_byte_order (slot 0 sizeof_WorkRecord c m) \<and>
       upd s f (Some (overwrite c (m * sizeof_WorkRecord) blank_record)) s' \<and> snd (snd x) = b + (m - i) + 1)"

lemma put_post_step:
  "put_post c want (tick s) (Suc i) n (if blank_slot c i then k else k + 1) (if blank_slot c i then i else w) r s'
    \<Longrightarrow> put_post c want s i (Suc n) k w r s'"
proof -
  have "[i..<i + Suc n] = i # [Suc i..<Suc i + n]" by (simp add: upt_rec)
  moreover assume "put_post c want (tick s) (Suc i) n (if blank_slot c i then k else k + 1) (if blank_slot c i then i else w) r s'"
  ultimately show ?thesis by (auto simp: put_post_def split: option.splits if_splits)
qed

lemma wp_put_scan:
  assumes "d_files s f = Some c" "(i + n) * sizeof_WorkRecord \<le> length c"
  shows "wp (put_scan f want i n k w) (put_post c want s i n k w) s"
  using assms
proof (induction n arbitrary: s i k w)
  case 0
  then show ?case by (simp add: wps put_post_def)
next
  case (Suc n)
  have step: "wp (put_scan f want i (Suc n) k w) Q s \<longleftrightarrow>
      (if d_fails s (d_calls s) then Q None (tick s)
       else if blank_slot c i \<and> \<not> want then Q (Some (k, i)) (tick s)
       else wp (put_scan f want (Suc i) n (if blank_slot c i then k else k + 1) (if blank_slot c i then i else w)) Q (tick s))" for Q
    unfolding put_scan.simps wp_bind wp_read_slot [OF Suc.prems] by (simp add: wps blank_slot_def)
  have IH: "wp (put_scan f want (Suc i) n (if blank_slot c i then k else k + 1) (if blank_slot c i then i else w))
      (put_post c want s i (Suc n) k w) (tick s)"
    by (rule wp_mono [OF Suc.IH put_post_step]) (use Suc.prems in simp_all)
  have a1: "put_post c want s i (Suc n) k w None (tick s)" if "d_fails s (d_calls s)"
    using that by (auto simp: put_post_def no_fail_def)
  have a2: "put_post c want s i (Suc n) k w (Some (k, i)) (tick s)" if "blank_slot c i" "\<not> want"
    using that by (simp add: put_post_def)
  show ?case unfolding step if_bool_eq_conj using IH a1 a2 by blast
qed

lemma get_post_step:
  assumes "get_post c f (tick s) (Suc i) n (b + 1) x s'" "blank_slot c i"
  shows "get_post c f s i (Suc n) b x s'"
proof -
  have b: "blank_slot c j" if "i \<le> j" "Suc i \<le> j \<Longrightarrow> blank_slot c j" for j
    using that assms(2) by (cases "j = i") auto
  from assms(1) consider
      "fst x = 1" "same s s'" "snd (snd x) = b + 1 + n" "\<forall>j. Suc i \<le> j \<and> j < Suc i + n \<longrightarrow> blank_slot c j"
    | "fst x = -1" "same s s'" "\<not> no_fail s" "snd (snd x) < b + 1 + n"
    | m where "fst x = 0" "Suc i \<le> m" "m < Suc i + n" "\<forall>j. Suc i \<le> j \<and> j < m \<longrightarrow> blank_slot c j" "\<not> blank_slot c m"
       "fst (snd x) = switch_byte_order (slot 0 sizeof_WorkRecord c m)"
       "upd s f (Some (overwrite c (m * sizeof_WorkRecord) blank_record)) s'" "snd (snd x) = b + 1 + (m - Suc i) + 1"
    unfolding get_post_def by auto
  then show ?thesis
  proof cases
    case 1
    then show ?thesis using b unfolding get_post_def by auto
  next
    case 2
    then show ?thesis by (simp add: get_post_def)
  next
    case (3 m)
    then show ?thesis using b unfolding get_post_def by (intro disjI2 conjI exI [of _ m]) auto
  qed
qed

lemma wp_get_scan:
  assumes "d_files s f = Some c" "(i + n) * sizeof_WorkRecord \<le> length c"
  shows "wp (get_scan f i n b) (get_post c f s i n b) s"
  using assms
proof (induction n arbitrary: s i b)
  case 0
  then show ?case by (auto simp: wps get_post_def)
next
  case (Suc n)
  have IH: "wp (get_scan f (Suc i) n (b + 1)) (get_post c f (tick s) (Suc i) n (b + 1)) (tick s)"
    using Suc.prems by (intro Suc.IH) simp_all
  consider "d_fails s (d_calls s)" | "\<not> d_fails s (d_calls s)" "blank_slot c i" | "\<not> d_fails s (d_calls s)" "\<not> blank_slot c i" by blast
  then show ?case
  proof cases
    case 1
    then show ?thesis
      unfolding get_scan.simps wp_bind wp_read_slot [OF Suc.prems] by (auto simp: wps no_fail_def get_post_def)
  next
    case 2
    then have "wp (get_scan f i (Suc n) b) Q s \<longleftrightarrow> wp (get_scan f (Suc i) n (b + 1)) Q (tick s)" for Q
      unfolding get_scan.simps wp_bind wp_read_slot [OF Suc.prems] by (simp add: blank_slot_def)
    moreover have "wp (get_scan f (Suc i) n (b + 1)) (get_post c f s i (Suc n) b) (tick s)"
      by (rule wp_mono [OF IH]) (rule get_post_step [OF _ 2(2)])
    ultimately show ?thesis by blast
  next
    case 3
    then show ?thesis
      unfolding get_scan.simps wp_bind wp_read_slot [OF Suc.prems] using Suc.prems(1)
      by (auto simp: wps get_post_def blank_slot_def intro: not_no_fail intro!: exI [of _ i])
  qed
qed

section \<open>Putting and getting\<close>

lemma length_file_slots [simp]: "length (file_slots c) = length c div sizeof_WorkRecord"
  by (simp add: file_slots_def)

lemma sizeof_pos [simp]: "0 < sizeof_WorkRecord" "length blank_record = sizeof_WorkRecord"
  by (simp_all add: sizeof_WorkRecord_def blank_record_def)

lemma length_overwrite_slot:
  assumes "length c = n * sizeof_WorkRecord" "length r = sizeof_WorkRecord" "i \<le> n"
  shows "length (overwrite c (i * sizeof_WorkRecord) r) = max n (Suc i) * sizeof_WorkRecord"
proof -
  have "length (overwrite c (i * sizeof_WorkRecord) r) = max (n * sizeof_WorkRecord) (Suc i * sizeof_WorkRecord)"
    using assms(1,2) by (simp add: length_overwrite add.commute)
  then show ?thesis using nat_mult_max_left [of n "Suc i" sizeof_WorkRecord] by simp
qed

lemma file_slots_overwrite:
  assumes "length c = n * sizeof_WorkRecord" "length r = sizeof_WorkRecord" "i < n"
  shows "file_slots (overwrite c (i * sizeof_WorkRecord) r) = (file_slots c)[i := r]"
proof -
  have "length (overwrite c (i * sizeof_WorkRecord) r) = n * sizeof_WorkRecord"
    using length_overwrite_slot [OF assms(1,2), of i] assms(3) by (simp add: max_def)
  then show ?thesis using slots_overwrite [OF assms(2,3), of 0 c] assms(1) by (simp add: file_slots_def)
qed

lemma file_slots_append:
  assumes "length c = n * sizeof_WorkRecord" "length r = sizeof_WorkRecord"
  shows "file_slots (overwrite c (n * sizeof_WorkRecord) r) = file_slots c @ [r]"
proof -
  have "length (overwrite c (n * sizeof_WorkRecord) r) = Suc n * sizeof_WorkRecord"
    using length_overwrite_slot [OF assms, of n] by (simp add: max_def)
  then show ?thesis using slots_append [OF assms(2), of c 0 n] assms(1) by (simp add: file_slots_def del: mult_Suc)
qed

lemma slot_file_slots: "j < length c div sizeof_WorkRecord \<Longrightarrow> file_slots c ! j = slot 0 sizeof_WorkRecord c j"
  by (simp add: file_slots_def slots_def)

lemma filter_first:
  assumes "m < length xs" "\<forall>j<m. \<not> P (xs ! j)" "P (xs ! m)" "\<not> P y"
  shows "filter P xs = xs ! m # filter P (xs[m := y])"
  using assms
proof (induction xs arbitrary: m)
  case (Cons x xs)
  show ?case
  proof (cases m)
    case (Suc k)
    then have "\<not> P x" "\<forall>j<k. \<not> P (xs ! j)" using Cons.prems(2) by fastforce+
    then show ?thesis using Cons Suc by simp
  qed (use Cons in simp)
qed simp

text \<open>The first record of a file, and the file without it.\<close>

lemma file_recs_first:
  assumes "length c = n * sizeof_WorkRecord" "m < n" "\<forall>j<m. blank_slot c j" "\<not> blank_slot c m"
  shows "file_recs c = switch_byte_order (slot 0 sizeof_WorkRecord c m) # file_recs (overwrite c (m * sizeof_WorkRecord) blank_record)"
  using filter_first [of m "file_slots c" "\<lambda>r. r \<noteq> blank_record" blank_record] assms
  by (simp add: file_recs_def file_slots_overwrite [OF assms(1)] slot_file_slots blank_slot_def)

lemma file_recs_blank:
  assumes "length c = n * sizeof_WorkRecord" "\<forall>j<n. blank_slot c j"
  shows "file_recs c = []"
proof -
  have "\<forall>r\<in>set (file_slots c). r = blank_record"
    using assms by (auto simp: in_set_conv_nth slot_file_slots blank_slot_def)
  then show ?thesis by (simp add: file_recs_def)
qed

lemma mset_file_recs_put:
  assumes "length c = n * sizeof_WorkRecord" "length r = sizeof_WorkRecord" "r \<noteq> blank_record"
    and "w = n \<or> w < n \<and> blank_slot c w"
  shows "mset (file_recs (overwrite c (w * sizeof_WorkRecord) r)) = add_mset (switch_byte_order r) (mset (file_recs c))"
  using assms(4)
proof
  assume "w = n"
  then show ?thesis using assms by (simp add: file_recs_def file_slots_append [OF assms(1)])
next
  assume w: "w < n \<and> blank_slot c w"
  then have b: "file_slots c ! w = blank_record" "w < length (file_slots c)"
    using assms(1) by (simp_all add: slot_file_slots blank_slot_def)
  then have "mset (file_slots c) = add_mset blank_record (mset (file_slots c) - {#blank_record#})"
    by (metis insert_DiffM nth_mem_mset)
  then show ?thesis
    using w assms b mset_update [OF b(2), of r] by (simp add: file_recs_def file_slots_overwrite [OF assms(1)])
qed

text \<open>The frame of an operation on one file.\<close>

definition frame :: "string \<Rightarrow> 'a disk_scheme \<Rightarrow> 'a disk_scheme \<Rightarrow> bool" where
  "frame f s s' \<longleftrightarrow> (\<forall>g. g \<noteq> f \<longrightarrow> d_files s' g = d_files s g) \<and> d_fails s' = d_fails s \<and> disk.more s' = disk.more s"

lemma frame_same: "same s s' \<Longrightarrow> frame f s s'" and frame_upd: "upd s f c s' \<Longrightarrow> frame f s s'"
  and frame_created: "created s f s' \<Longrightarrow> frame f s s'"
  and frame_trans: "frame f s s' \<Longrightarrow> frame f s' s'' \<Longrightarrow> frame f s s''"
  and frame_no_fail: "frame f s s' \<Longrightarrow> no_fail s' = no_fail s"
  and frame_recs: "frame f s s' \<Longrightarrow> g \<noteq> f \<Longrightarrow> recs s' g = recs s g"
  by (auto simp: same_def upd_def created_def frame_def no_fail_def recs_def)

lemma moo_magic_overwrite:
  assumes "length c = n * sizeof_WorkRecord" "length r = sizeof_WorkRecord" "w \<le> n" "\<not> moo_magic c" "\<not> moo_magic r"
  shows "\<not> moo_magic (overwrite c (w * sizeof_WorkRecord) r)"
proof (cases w)
  case 0
  then have "take 4 (overwrite c (w * sizeof_WorkRecord) r) = take 4 r"
    using assms(2) by (simp add: overwrite_def sizeof_WorkRecord_def)
  then show ?thesis using assms(2,5) by (simp add: moo_magic_def sizeof_WorkRecord_def)
next
  case (Suc k)
  then have "4 \<le> w * sizeof_WorkRecord" "w * sizeof_WorkRecord \<le> length c" "4 \<le> length c"
    using assms(1,3) by (auto simp: sizeof_WorkRecord_def)
  then have "take 4 (overwrite c (w * sizeof_WorkRecord) r) = take 4 c" by (simp add: overwrite_def min_def)
  then show ?thesis using assms(4) \<open>4 \<le> length c\<close> by (simp add: moo_magic_def)
qed

lemma moo_magic_blank: "\<not> moo_magic blank_record"
  by (simp add: moo_magic_def blank_record_def sizeof_WorkRecord_def moo521_is_header_def)

lemma stock_not_moo:
  assumes "stock_disk s"
  shows "wp (moo_file_detect f) (\<lambda>b s'. \<not> b \<and> same s s') s"
  using assms by (auto simp: moo_file_detect_def wps stock_disk_def moo_magic_def split: option.splits)

lemma proper_nonblank:
  assumes "proper r"
  shows "switch_byte_order r \<noteq> blank_record" "length (switch_byte_order r) = sizeof_WorkRecord"
proof -
  have "wr_contest blank_record = 0"
    by (simp add: wr_contest_def rd32le_def blank_record_def sizeof_WorkRecord_def bytes4_def shl_def)
  moreover have "\<not> has_order 0" by (simp add: has_order_def project_of_def CONTEST_COUNT_def)
  ultimately show "switch_byte_order r \<noteq> blank_record"
    using switch_fields(3) [OF assms] by (auto simp: proper_def)
  show "length (switch_byte_order r) = sizeof_WorkRecord" using assms by (simp add: proper_def)
qed

lemma length_file_recs:
  "length c = n * sizeof_WorkRecord \<Longrightarrow> length (file_recs c) = length (filter (\<lambda>j. \<not> blank_slot c j) [0..<n])"
  by (simp add: file_recs_def file_slots_def slots_def filter_map o_def blank_slot_def)

text \<open>The record is one that can be told from a header.\<close>

definition storable :: "work_record \<Rightarrow> bool" where
  "storable r \<longleftrightarrow> proper r \<and> \<not> moo_magic (switch_byte_order r)"

definition put_ok :: "'a buffpub_scheme \<Rightarrow> string \<Rightarrow> work_record \<Rightarrow> bool \<Rightarrow> u32 \<Rightarrow> int \<times> nat option \<Rightarrow> 'a buffpub_scheme \<Rightarrow> bool" where
  "put_ok s f r want flags x s' \<longleftrightarrow> stock_disk s' \<and> frame f s s' \<and>
     (fst x = 0 \<and> mset (recs s' f) = add_mset r (mset (recs s f)) \<and> snd x = (if want then Some (length (recs s' f)) else None)
    \<or> fst x = -1 \<and> recs s' f = recs s f \<and> \<not> ready s flags)"

lemma put_ok_same: "same s s' \<Longrightarrow> put_ok s' f r want flags x s'' \<Longrightarrow> put_ok s f r want flags x s''"
  unfolding put_ok_def using frame_same [of s s' f] frame_trans [of f s s' s''] frame_no_fail [of f s s'] by (simp add: recs_same ready_def)

lemma put_ok_created: "created s f s' \<Longrightarrow> put_ok s' f r want flags x s'' \<Longrightarrow> put_ok s f r want flags x s''"
  unfolding put_ok_def using frame_created [of s f s'] frame_trans [of f s s' s''] frame_no_fail [of f s s'] by (simp add: created_recs ready_def)

lemma put_slot_ok:
  assumes "stock_disk s" "storable r" "d_files s f = Some c" "length c = n * sizeof_WorkRecord"
    and "w = n \<or> w < n \<and> blank_slot c w" "upd s f (Some (overwrite c (w * sizeof_WorkRecord) (switch_byte_order r))) s'"
    and "want \<Longrightarrow> k = length (file_recs c)"
  shows "put_ok s f r want flags (0, if want then Some (k + 1) else None) s'"
proof -
  have p: "proper r" and l: "w \<le> n" and m: "\<not> moo_magic c" "\<not> moo_magic (switch_byte_order r)"
    using assms(1-3,5) by (auto simp: storable_def stock_disk_def)
  note nb = proper_nonblank [OF p]
  have "mset (file_recs (overwrite c (w * sizeof_WorkRecord) (switch_byte_order r))) = add_mset r (mset (file_recs c))"
    using mset_file_recs_put [OF assms(4) nb(2,1) assms(5)] switch_fields(4) [OF p] by simp
  moreover from this have "length (file_recs (overwrite c (w * sizeof_WorkRecord) (switch_byte_order r))) = length (file_recs c) + 1"
    by (metis size_add_mset size_mset Suc_eq_plus1)
  moreover have "recs s f = file_recs c" using assms(3) by (simp add: recs_def)
  ultimately show ?thesis
    using stock_upd [OF assms(6,1)] moo_magic_overwrite [OF assms(4) nb(2) l m] length_overwrite_slot [OF assms(4) nb(2) l] frame_upd [OF assms(6)] recs_upd [OF assms(6)] assms(7)
    by (simp add: put_ok_def)
qed

lemma put_ok_fail: "stock_disk s \<Longrightarrow> created s f s' \<Longrightarrow> \<not> ready s flags \<Longrightarrow> put_ok s f r want flags (-1, None) s'"
  by (simp add: put_ok_def created_stock frame_created created_recs)

lemma put_ok_fail1: "stock_disk s \<Longrightarrow> same s s' \<Longrightarrow> \<not> no_fail s \<Longrightarrow> put_ok s f r want flags (-1, None) s'"
  by (rule put_ok_fail) (auto simp: created_def ready_def)

lemma wp_stock_put_slots:
  assumes "stock_disk s" "storable r" "d_files s f = Some c" "length c = n * sizeof_WorkRecord"
  shows "wp (stock_put_slots f r want n) (put_ok s f r want flags) s"
proof -
  have fail: "put_ok s f r want flags (-1, None) s''" if "same s s''" "\<not> no_fail s" for s''
    using that by (rule put_ok_fail1 [OF assms(1)])
  have scan: "wp (put_scan f want 0 n 0 n) (put_post c want (tick s) 0 n 0 n) (tick s)"
    by (rule wp_put_scan) (use assms in simp_all)
  have at: "wp (stock_put_at f r want found) (put_ok s f r want flags) s'" if p: "put_post c want (tick s) 0 n 0 n found s'" for found s'
  proof (cases found)
    case None
    then show ?thesis using fail p by (simp add: wps stock_put_at_def put_post_def)
  next
    case (Some kw)
    obtain k w where kw: "kw = (k, w)" by (rule prod.exhaust)
    have sm: "same s s'" and w: "w = n \<or> w < n \<and> blank_slot c w" and k: "want \<Longrightarrow> k = length (file_recs c)"
      using p Some kw by (auto simp: put_post_def length_file_recs [OF assms(4)])
    have c: "d_files s' f = Some c" using sm assms(3) by (simp add: same_def)
    have "put_ok s f r want flags (0, if want then Some (k + 1) else None)
        (set_file f (Some (overwrite c (w * sizeof_WorkRecord) (switch_byte_order r))) (tick (tick s')))"
      by (rule put_slot_ok [OF assms w _ k]) (use sm in simp_all)
    moreover have "no_fail s' = no_fail s" using sm by (simp add: same_def no_fail_def)
    ultimately show ?thesis using Some kw c sm fail by (auto simp: wps stock_put_at_def dest: not_no_fail)
  qed
  show ?thesis
  proof (cases "d_fails s (d_calls s)")
    case True
    then show ?thesis using fail not_no_fail [OF True] by (simp add: stock_put_slots_def stock_put_at_def wps)
  next
    case False
    then show ?thesis unfolding stock_put_slots_def using wp_mono [OF scan at] by (simp add: wps)
  qed
qed

lemma wp_stock_put_record:
  assumes "stock_disk s" "storable r"
  shows "wp (stock_put_record f r want flags) (put_ok s f r want flags) s"
  unfolding stock_put_record_def wp_bind
proof (rule wp_mono [OF wp_BufferOpenFile [OF assms(1)]], elim conjE)
  fix n s1
  assume cr: "created s f s1" and n: "case n of None \<Rightarrow> \<not> ready s flags | Some n \<Rightarrow> \<exists>c. d_files s1 f = Some c \<and> length c = n * sizeof_WorkRecord"
  have st: "stock_disk s1" by (rule created_stock [OF cr assms(1)])
  show "wp (case n of None \<Rightarrow> State_Monad.return (-1, None) | Some reccount \<Rightarrow> stock_put_slots f r want reccount)
      (put_ok s f r want flags) s1"
  proof (cases n)
    case None
    then show ?thesis using n by (simp add: wps put_ok_fail [OF assms(1) cr])
  next
    case (Some m)
    then obtain c where c: "d_files s1 f = Some c" "length c = m * sizeof_WorkRecord" using n by auto
    show ?thesis using wp_mono [OF wp_stock_put_slots [OF st assms(2) c] put_ok_created [OF cr]] Some by simp
  qed
qed

lemma wp_BufferPutFileRecord:
  assumes "stock_disk s" "storable r"
  shows "wp (BufferPutFileRecord f r want flags) (put_ok s f r want flags) s"
proof -
  have "wp (stock_put_record f r want flags) (put_ok s f r want flags) s'" if "same s s'" for s'
    using wp_stock_put_record [OF stock_same [OF that assms(1)] assms(2)] put_ok_same [OF that] by (rule wp_mono)
  moreover have "moo_output_mode s' = False" if "same s s'" for s'
    using same_moo [OF that] assms(1) by (simp add: stock_disk_def)
  ultimately show ?thesis
    unfolding BufferPutFileRecord_def wp_bind
    by (intro wp_mono [OF stock_not_moo [OF assms(1)]]) (simp add: wps get_moo_output_mode_def)
qed

section \<open>Counting\<close>

text \<open>The records of a contest, and the statistics units they count for.\<close>

definition of_contest :: "u32 \<Rightarrow> work_record list \<Rightarrow> work_record list" where
  "of_contest contest rs = filter (\<lambda>r. wr_contest r = contest) rs"

definition units_of :: "work_record list \<Rightarrow> nat" where
  "units_of rs = sum_list (map swu_of rs)"

definition recs_from :: "u8 list \<Rightarrow> nat \<Rightarrow> nat \<Rightarrow> work_record list" where
  "recs_from c i n = map (\<lambda>j. switch_byte_order (slot 0 sizeof_WorkRecord c j)) (filter (\<lambda>j. \<not> blank_slot c j) [i..<i + n])"

lemma recs_from_Suc: "recs_from c i (Suc n) =
    (if blank_slot c i then [] else [switch_byte_order (slot 0 sizeof_WorkRecord c i)]) @ recs_from c (Suc i) n"
proof -
  have "[i..<i + Suc n] = i # [Suc i..<Suc i + n]" by (simp add: upt_rec)
  then show ?thesis by (simp add: recs_from_def)
qed

lemma recs_from_all: "length c = n * sizeof_WorkRecord \<Longrightarrow> recs_from c 0 n = file_recs c"
  by (simp add: recs_from_def file_recs_def file_slots_def slots_def filter_map o_def blank_slot_def)

definition count_post :: "u8 list \<Rightarrow> u32 \<Rightarrow> 'a disk_scheme \<Rightarrow> nat \<Rightarrow> nat \<Rightarrow> nat \<Rightarrow> nat \<Rightarrow> (nat \<times> nat) option \<Rightarrow> 'a disk_scheme \<Rightarrow> bool" where
  "count_post c ct s i n k q r s' \<longleftrightarrow> same s s' \<and>
     (case r of None \<Rightarrow> \<not> no_fail s
      | Some kq \<Rightarrow> kq = (k + length (of_contest ct (recs_from c i n)), q + units_of (of_contest ct (recs_from c i n))))"

lemma wp_count_scan:
  assumes "d_files s f = Some c" "(i + n) * sizeof_WorkRecord \<le> length c"
  shows "wp (count_scan f ct i n k q) (count_post c ct s i n k q) s"
  using assms
proof (induction n arbitrary: s i k q)
  case 0
  then show ?case by (simp add: wps count_post_def recs_from_def of_contest_def units_of_def)
next
  case (Suc n)
  let ?r = "switch_byte_order (slot 0 sizeof_WorkRecord c i)"
  define hit where "hit \<longleftrightarrow> \<not> blank_slot c i \<and> wr_contest ?r = ct"
  have step: "wp (count_scan f ct i (Suc n) k q) Q s \<longleftrightarrow>
      (if d_fails s (d_calls s) then Q None (tick s)
       else wp (count_scan f ct (Suc i) n (if hit then k + 1 else k) (if hit then q + swu_of ?r else q)) Q (tick s))" for Q
    unfolding count_scan.simps wp_bind wp_read_slot [OF Suc.prems] by (simp add: wps blank_slot_def hit_def Let_def)
  have IH: "wp (count_scan f ct (Suc i) n (if hit then k + 1 else k) (if hit then q + swu_of ?r else q))
      (count_post c ct s i (Suc n) k q) (tick s)"
  proof (rule wp_mono [OF Suc.IH])
    fix x s'
    assume "count_post c ct (tick s) (Suc i) n (if hit then k + 1 else k) (if hit then q + swu_of ?r else q) x s'"
    then show "count_post c ct s i (Suc n) k q x s'"
      by (auto simp: count_post_def recs_from_Suc of_contest_def units_of_def hit_def split: option.splits if_splits)
  qed (use Suc.prems in simp_all)
  have "count_post c ct s i (Suc n) k q None (tick s)" if "d_fails s (d_calls s)"
    using that by (auto simp: count_post_def dest: not_no_fail)
  then show ?case unfolding step if_bool_eq_conj using IH by blast
qed

definition count_ok :: "'a buffpub_scheme \<Rightarrow> string \<Rightarrow> u32 \<Rightarrow> int \<times> nat \<times> nat \<Rightarrow> 'a buffpub_scheme \<Rightarrow> bool" where
  "count_ok s f ct x s' \<longleftrightarrow> stock_disk s' \<and> frame f s s' \<and> recs s' f = recs s f \<and>
     (x = (0, length (of_contest ct (recs s f)), units_of (of_contest ct (recs s f))) \<or> x = (-1, 0, 0) \<and> \<not> no_fail s)"

lemma NOLWRITE_ready: "ready s BUFFER_FLAGS_NOLWRITE = no_fail s"
  by (simp add: ready_def BUFFER_FLAGS_NOLWRITE_def BUFFER_FLAGS_REMOTEBUF_def)

lemma wp_BufferCountFileRecords:
  assumes "stock_disk s"
  shows "wp (BufferCountFileRecords f ct) (count_ok s f ct) s"
proof -
  have stock: "wp (stock_count_file f ct) (count_ok s f ct) s1" if sm: "same s s1" for s1
    unfolding stock_count_file_def wp_bind
  proof (rule wp_mono [OF wp_BufferOpenFile [OF stock_same [OF sm assms]]], elim conjE, unfold NOLWRITE_ready)
    fix n s2
    assume cr: "created s1 f s2" and n: "case n of None \<Rightarrow> \<not> no_fail s1 | Some n \<Rightarrow> \<exists>c. d_files s2 f = Some c \<and> length c = n * sizeof_WorkRecord"
    have st: "stock_disk s2" by (rule created_stock [OF cr stock_same [OF sm assms]])
    have fr: "frame f s s2" by (rule frame_trans [OF frame_same [OF sm] frame_created [OF cr]])
    have rc: "recs s2 = recs s" using created_recs [OF cr] recs_same [OF sm] by simp
    have fin: "count_ok s f ct (case kq of None \<Rightarrow> (-1, 0, 0) | Some kq \<Rightarrow> (0, kq)) s3"
      if "same s2 s3" "case kq of None \<Rightarrow> \<not> no_fail s2 | Some kq \<Rightarrow> kq = (length (of_contest ct (recs s f)), units_of (of_contest ct (recs s f)))" for kq s3
      using that stock_same [OF that(1) st] frame_trans [OF fr frame_same [OF that(1)]] frame_no_fail [OF fr] recs_same [OF that(1)] rc
      by (simp add: count_ok_def split: option.splits)
    show "wp (case n of None \<Rightarrow> State_Monad.return (-1, 0, 0)
      | Some reccount \<Rightarrow> do {
          ok \<leftarrow> fseek;
          counts \<leftarrow> (if ok then count_scan f ct 0 reccount 0 0 else State_Monad.return None);
          State_Monad.return (case counts of None \<Rightarrow> (-1, 0, 0) | Some counts \<Rightarrow> (0, counts)) }) (count_ok s f ct) s2"
    proof (cases n)
      case None
      then show ?thesis using n st fr rc frame_no_fail [OF frame_same [OF sm]] by (simp add: wps count_ok_def)
    next
      case (Some m)
      then obtain c where c: "d_files s2 f = Some c" "length c = m * sizeof_WorkRecord" using n by auto
      have "recs s2 f = recs_from c 0 m" using c by (simp add: recs_from_all recs_def)
      then have "recs s f = recs_from c 0 m" using rc by simp
      moreover have "wp (count_scan f ct 0 m 0 0) (count_post c ct (tick s2) 0 m 0 0) (tick s2)"
        using wp_count_scan [of "tick s2" f c 0 m] c by simp
      moreover have "count_ok s f ct (case kq of None \<Rightarrow> (-1, 0, 0) | Some kq \<Rightarrow> (0, kq)) s3"
        if "count_post c ct (tick s2) 0 m 0 0 kq s3" for kq s3
        using that calculation by (intro fin) (auto simp: count_post_def split: option.splits)
      ultimately have "wp (count_scan f ct 0 m 0 0) (\<lambda>kq s3. count_ok s f ct (case kq of None \<Rightarrow> (-1, 0, 0) | Some kq \<Rightarrow> (0, kq)) s3) (tick s2)"
        by (elim wp_mono)
      moreover have "count_ok s f ct (-1, 0, 0) (tick s2)" if "d_fails s2 (d_calls s2)"
        using fin [of "tick s2" None] not_no_fail [OF that] by simp
      ultimately show ?thesis using Some by (simp add: wps wp_return_fun)
    qed
  qed
  show ?thesis
    unfolding BufferCountFileRecords_def wp_bind
    by (intro wp_mono [OF stock_not_moo [OF assms]]) (simp add: stock)
qed

section \<open>Getting\<close>

lemma wp_BufferZapFileRecords:
  "wp (BufferZapFileRecords f) (\<lambda>rc s'. same s s' \<or> upd s f None s' \<or> upd s f (Some []) s') s"
  by (auto simp: BufferZapFileRecords_def wps)

definition take_ok :: "'a buffpub_scheme \<Rightarrow> string \<Rightarrow> int \<times> work_record \<Rightarrow> 'a buffpub_scheme \<Rightarrow> bool" where
  "take_ok s f x s' \<longleftrightarrow> stock_disk s' \<and> frame f s s' \<and>
     (fst x = 0 \<and> recs s f = snd x # recs s' f
    \<or> fst x = 1 \<and> recs s f = [] \<and> recs s' f = []
    \<or> fst x = -1 \<and> recs s' f = recs s f \<and> \<not> no_fail s)"

text \<open>Cutting a file to nothing does not matter when it has no records.\<close>

lemma take_ok_zap:
  assumes "take_ok s f x s1" "recs s1 f = []" "same s1 s2 \<or> upd s1 f None s2 \<or> upd s1 f (Some []) s2"
  shows "take_ok s f x s2"
proof -
  have st: "stock_disk s1" and fr: "frame f s s1" using assms(1) by (simp_all add: take_ok_def)
  have "stock_disk s2 \<and> frame f s s2 \<and> recs s2 f = []"
    using assms(3)
  proof (elim disjE)
    assume sm: "same s1 s2"
    show ?thesis using stock_same [OF sm st] frame_trans [OF fr frame_same [OF sm]] recs_same [OF sm] assms(2) by simp
  next
    assume u: "upd s1 f None s2"
    show ?thesis using stock_upd [OF u st] frame_trans [OF fr frame_upd [OF u]] recs_upd [OF u] by simp
  next
    assume u: "upd s1 f (Some []) s2"
    show ?thesis using stock_upd [OF u st] frame_trans [OF fr frame_upd [OF u]] recs_upd [OF u] by (simp add: moo_magic_def)
  qed
  then show ?thesis using assms(1,2) by (simp add: take_ok_def)
qed

lemma take_slot_ok:
  assumes "stock_disk s" "d_files s f = Some c" "length c = n * sizeof_WorkRecord" "get_post c f s 0 n 0 (rc, r, b) s'"
  shows "take_ok s f (rc, r) s'" "b = n \<Longrightarrow> recs s' f = []"
proof -
  have rs: "recs s f = file_recs c" using assms(2) by (simp add: recs_def)
  have m: "\<not> moo_magic c" using assms(1,2) by (simp add: stock_disk_def)
  from assms(4) consider "rc = 1" "same s s'" "b = n" "\<forall>j<n. blank_slot c j"
    | "rc = -1" "same s s'" "\<not> no_fail s" "b < n"
    | k where "rc = 0" "k < n" "\<forall>j<k. blank_slot c j" "\<not> blank_slot c k" "r = switch_byte_order (slot 0 sizeof_WorkRecord c k)"
       "upd s f (Some (overwrite c (k * sizeof_WorkRecord) blank_record)) s'" "b = k + 1"
    unfolding get_post_def by auto
  then have "take_ok s f (rc, r) s' \<and> (b = n \<longrightarrow> recs s' f = [])"
  proof cases
    case 1
    have "recs s f = []" using file_recs_blank [OF assms(3) 1(4)] rs by simp
    then show ?thesis using 1 stock_same [OF 1(2) assms(1)] frame_same [OF 1(2)] recs_same [OF 1(2)] by (simp add: take_ok_def)
  next
    case 2
    then show ?thesis using stock_same [OF 2(2) assms(1)] frame_same [OF 2(2)] recs_same [OF 2(2)] by (simp add: take_ok_def)
  next
    case (3 k)
    let ?c = "overwrite c (k * sizeof_WorkRecord) blank_record"
    have l: "length ?c = n * sizeof_WorkRecord"
      using length_overwrite_slot [OF assms(3) sizeof_pos(2), of k] 3(2) by (simp add: max_def)
    have "stock_disk s'"
      using stock_upd [OF 3(6) assms(1)] moo_magic_overwrite [OF assms(3) sizeof_pos(2) _ m moo_magic_blank, of k] 3(2) l by simp
    moreover have f: "recs s' f = file_recs ?c" using recs_upd [OF 3(6)] by simp
    moreover have "recs s f = r # file_recs ?c" using file_recs_first [OF assms(3) 3(2-4)] 3(5) rs by simp
    moreover have "file_recs ?c = []" if "b = n"
    proof -
      have "\<forall>j<n. file_slots c ! j = blank_record \<or> j = k"
        using 3(3,7) that assms(3) by (auto simp: slot_file_slots blank_slot_def less_Suc_eq)
      then have "\<And>j. j < n \<Longrightarrow> j \<noteq> k \<Longrightarrow> file_slots c ! j = blank_record" by blast
      then have "\<forall>x\<in>set (file_slots ?c). x = blank_record"
        using 3(2) assms(3) unfolding file_slots_overwrite [OF assms(3) sizeof_pos(2) 3(2)]
        by (auto simp: in_set_conv_nth nth_list_update)
      then show ?thesis by (simp add: file_recs_def)
    qed
    ultimately show ?thesis using 3(1) frame_upd [OF 3(6)] by (simp add: take_ok_def)
  qed
  then show "take_ok s f (rc, r) s'" "b = n \<Longrightarrow> recs s' f = []" by auto
qed

lemma wp_stock_get_slots:
  assumes "stock_disk s" "d_files s f = Some c" "length c = n * sizeof_WorkRecord"
  shows "wp (stock_get_slots f n) (take_ok s f) s"
proof (cases "d_fails s (d_calls s)")
  case True
  have "take_ok s f (-1, []) (tick s)"
    using assms(1) not_no_fail [OF True] stock_same [of s "tick s"] frame_same [of s "tick s"]
    by (simp add: take_ok_def recs_same [of s "tick s"])
  then show ?thesis using True by (auto simp: stock_get_slots_def wps)
next
  case False
  have scan: "wp (get_scan f 0 n 0) (get_post c f (tick s) 0 n 0) (tick s)"
    by (rule wp_get_scan) (use assms in simp_all)
  have rest: "wp (if 0 < n \<and> n = b then do { BufferZapFileRecords f; State_Monad.return (rc, r) } else State_Monad.return (rc, r))
      (take_ok s f) s'" if "get_post c f (tick s) 0 n 0 (rc, r, b) s'" for rc r b s'
  proof -
    have g: "get_post c f s 0 n 0 (rc, r, b) s'" using that by (simp add: get_post_def)
    note t = take_slot_ok [OF assms g]
    have "wp (BufferZapFileRecords f) (\<lambda>_. take_ok s f (rc, r)) s'" if "b = n"
      by (rule wp_mono [OF wp_BufferZapFileRecords]) (rule take_ok_zap [OF t(1) t(2) [OF that]])
    then show ?thesis using t(1) by (simp add: wps wp_return_fun)
  qed
  have "wp (get_scan f 0 n 0) (\<lambda>(rc, r, b). wp (if 0 < n \<and> n = b
      then do { BufferZapFileRecords f; State_Monad.return (rc, r) } else State_Monad.return (rc, r)) (take_ok s f)) (tick s)"
    by (rule wp_mono [OF scan]) (auto simp only: split_paired_all prod.case intro: rest)
  then show ?thesis using False by (simp add: stock_get_slots_def wp_bind wp_fseek case_prod_beta')
qed

definition get_ok :: "'a buffpub_scheme \<Rightarrow> string \<Rightarrow> u32 \<Rightarrow> int \<times> work_record \<times> nat option \<Rightarrow> 'a buffpub_scheme \<Rightarrow> bool" where
  "get_ok s f flags x s' \<longleftrightarrow> stock_disk s' \<and> frame f s s' \<and>
     (case x of (rc, r, n) \<Rightarrow>
        rc = 0 \<and> recs s f = r # recs s' f \<and>
          (n = Some (length (of_contest (wr_contest r) (recs s' f))) \<or> n = Some 0 \<and> \<not> no_fail s)
      \<or> rc = 1 \<and> recs s f = [] \<and> recs s' f = [] \<and> n = Some 0
      \<or> rc = -1 \<and> recs s' f = recs s f \<and> n = Some 0 \<and> \<not> ready s flags)"

lemma wp_stock_get_file:
  assumes "stock_disk s"
  shows "wp (stock_get_file f flags) (get_ok s f flags) s"
proof -
  have tail: "wp (case x of (rc, record) \<Rightarrow> if rc = 0 then do {
       (failed, packets, norm) \<leftarrow> BufferCountFileRecords f (wr_contest record);
       State_Monad.return (rc, record, Some packets) }
     else State_Monad.return (rc, record, Some 0)) (get_ok s f flags) s1"
    if t: "take_ok s f x s1" for x s1
  proof (cases "fst x = 0")
    case True
    obtain rc r where x: "x = (rc, r)" by (rule prod.exhaust)
    have st: "stock_disk s1" and fr: "frame f s s1" and rs: "recs s f = r # recs s1 f" using t True x by (auto simp: take_ok_def)
    have "get_ok s f flags (rc, r, Some k) s2" if "count_ok s1 f (wr_contest r) (fl, k, q) s2" for fl k q s2
      using that frame_trans [OF fr] frame_no_fail [OF fr] rs True x by (auto simp: count_ok_def get_ok_def)
    then have "wp (BufferCountFileRecords f (wr_contest r)) (\<lambda>y s2. get_ok s f flags (rc, r, Some (fst (snd y))) s2) s1"
      by (intro wp_mono [OF wp_BufferCountFileRecords [OF st, of f "wr_contest r"]]) (metis prod.collapse)
    then show ?thesis using True x by (simp add: wps wp_return_fun case_prod_beta')
  next
    case False
    then show ?thesis using t by (auto simp: wps take_ok_def get_ok_def ready_def split: prod.splits)
  qed
  have no: "take_ok s f (-1, []) s1" if "created s f s1" "\<not> no_fail s" for s1
    using that created_stock [OF that(1) assms] frame_created [OF that(1)] created_recs [OF that(1)] by (simp add: take_ok_def)
  have noflag: "get_ok s f flags (-1, [], Some 0) s1" if "created s f s1" "\<not> ready s flags" for s1
    using that created_stock [OF that(1) assms] frame_created [OF that(1)] created_recs [OF that(1)] by (simp add: get_ok_def)
  show ?thesis
    unfolding stock_get_file_def wp_bind
  proof (rule wp_mono [OF wp_BufferOpenFile [OF assms]], elim conjE)
    fix n s1
    assume cr: "created s f s1" and n: "case n of None \<Rightarrow> \<not> ready s flags | Some n \<Rightarrow> \<exists>c. d_files s1 f = Some c \<and> length c = n * sizeof_WorkRecord"
    show "wp (case n of None \<Rightarrow> State_Monad.return (-1, []) | Some reccount \<Rightarrow> stock_get_slots f reccount)
       (\<lambda>x. wp (case x of (rc, record) \<Rightarrow> if rc = 0 then do {
           (failed, packets, norm) \<leftarrow> BufferCountFileRecords f (wr_contest record);
           State_Monad.return (rc, record, Some packets) }
         else State_Monad.return (rc, record, Some 0)) (get_ok s f flags)) s1"
    proof (cases n)
      case None
      then show ?thesis using noflag [OF cr] n by (simp add: wps)
    next
      case (Some m)
      then obtain c where c: "d_files s1 f = Some c" "length c = m * sizeof_WorkRecord" using n by auto
      have "take_ok s f x s2" if "take_ok s1 f x s2" for x s2
        using that frame_trans [OF frame_created [OF cr]] created_recs [OF cr] frame_no_fail [OF frame_created [OF cr]]
        by (auto simp: take_ok_def)
      then show ?thesis
        using Some wp_mono [OF wp_stock_get_slots [OF created_stock [OF cr assms] c], of "\<lambda>x. wp (case x of (rc, record) \<Rightarrow> if rc = 0 then do {
           (failed, packets, norm) \<leftarrow> BufferCountFileRecords f (wr_contest record);
           State_Monad.return (rc, record, Some packets) }
         else State_Monad.return (rc, record, Some 0)) (get_ok s f flags)"] tail by simp
    qed
  qed
qed

lemma wp_BufferGetFileRecord:
  assumes "stock_disk s"
  shows "wp (BufferGetFileRecord f flags) (get_ok s f flags) s"
proof -
  have "wp (stock_get_file f flags) (get_ok s f flags) s'" if sm: "same s s'" for s'
  proof (rule wp_mono [OF wp_stock_get_file [OF stock_same [OF sm assms]]])
    fix x s''
    assume "get_ok s' f flags x s''"
    then show "get_ok s f flags x s''"
      using frame_trans [OF frame_same [OF sm, of f]] frame_no_fail [OF frame_same [OF sm]] recs_same [OF sm] by (simp add: get_ok_def ready_def)
  qed
  then show ?thesis
    unfolding BufferGetFileRecord_def wp_bind
    by (intro wp_mono [OF stock_not_moo [OF assms]]) simp
qed

section \<open>Properties\<close>

text \<open>A record of an RC5-72 work for the witnesses, in the state \<open>v\<close>, and a disk with given files.\<close>

definition test_record :: "u8 \<Rightarrow> work_record" where
  "test_record v = replicate 80 0 @ [v, 0, 0, 0] @ replicate 64 0 @ [5, 0, 0, 0] @ replicate 16 0"

definition test_disk :: "(string \<Rightarrow> u8 list option) \<Rightarrow> buffpub" where
  "test_disk fs = \<lparr>d_files = fs, d_fails = \<lambda>_. False, d_calls = 0, moo_output_mode = False\<rparr>"

lemma ntohl_at_level: "p ! (k + 3) = p ! k \<Longrightarrow> p ! (k + 2) = p ! (k + 1) \<Longrightarrow> ntohl_at p k = p"
  by (simp add: ntohl_at_bytes) (metis list_update_id)

lemma foldl_ntohl_zero: "\<forall>i\<in>set is. \<forall>j<4. p ! (4 * i + j) = 0 \<Longrightarrow> foldl (\<lambda>p i. ntohl_at p (4 * i)) p is = p"
proof (induction "is")
  case (Cons a "is")
  have z: "\<forall>j<4. p ! (4 * a + j) = 0" using Cons.prems by simp
  have "ntohl_at p (4 * a) = p"
    using z [rule_format, of 0] z [rule_format, of 1] z [rule_format, of 2] z [rule_format, of 3] by (simp add: ntohl_at_level)
  then show ?case using Cons by simp
qed simp

lemma test_record_fields:
  "length (test_record v) = 168" "wr_contest (test_record v) = 5" "wr_resultcode (test_record v) = ucast v"
  "test_record v ! 147 = 0" "k < 80 \<Longrightarrow> test_record v ! k = 0"
  by (simp_all add: test_record_def wr_contest_def wr_resultcode_def rd32le_def nth_append bytes4_def shl_def)

lemma test_record_not_blank: "test_record v \<noteq> blank_record"
proof
  assume "test_record v = blank_record"
  then have "test_record v ! 148 = blank_record ! 148" by simp
  then show False by (simp add: test_record_def blank_record_def sizeof_WorkRecord_def nth_append)
qed

lemma test_record_storable: "switch_byte_order (test_record v) = test_record v" "storable (test_record v)"
proof -
  have p: "project_of 5 = Some RC5_72" by (simp add: project_of_def CONTEST_COUNT_def)
  have "(test_record v)[147 := 0] = test_record v" using test_record_fields(4) [of v] by (metis list_update_id)
  then have "switch_byte_order (test_record v) = foldl (\<lambda>p i. ntohl_at p (4 * i)) (test_record v) [0..<20]"
    by (simp add: switch_byte_order_def Let_def p test_record_fields(2))
  also have "\<dots> = test_record v" by (rule foldl_ntohl_zero) (auto simp: test_record_fields(5))
  finally show s: "switch_byte_order (test_record v) = test_record v" .
  have "\<not> moo_magic (test_record v)"
    using test_record_fields(5) [of 0 v] by (simp add: moo_magic_def moo521_is_header_def)
  then show "storable (test_record v)"
    by (simp add: storable_def proper_def s test_record_fields sizeof_WorkRecord_def has_order_def p)
qed

lemma test_file_recs: "file_recs (test_record v @ test_record w) = [test_record v, test_record w]" "file_recs [] = []"
proof -
  have "file_slots (test_record v @ test_record w) = [test_record v, test_record w]"
    by (simp add: file_slots_def slots_def slot_def sizeof_WorkRecord_def test_record_fields upt_rec)
  then show "file_recs (test_record v @ test_record w) = [test_record v, test_record w]"
    by (simp add: file_recs_def test_record_not_blank test_record_storable)
  show "file_recs [] = []" by (simp add: file_recs_def file_slots_def slots_def)
qed

lemma test_disk_ok:
  "no_fail (test_disk fs)" "stock_disk (test_disk (\<lambda>_. None))"
  "stock_disk (test_disk [f \<mapsto> test_record v @ test_record w])"
  "recs (test_disk (\<lambda>_. None)) f = []"
  "recs (test_disk [f \<mapsto> test_record v @ test_record w]) f = [test_record v, test_record w]"
  using test_record_fields(5) [of 0 v]
  by (simp_all add: no_fail_def test_disk_def stock_disk_def moo_magic_def moo521_is_header_def test_record_fields
    sizeof_WorkRecord_def recs_def test_file_recs nth_append)

text \<open>C12: \<open>BufferPutFileRecord\<close> refines the insertion into a bag. Whichever calls of the C library fail,
  it leaves every other file alone, and either adds the record to those of the file, returns 0 and
  gives their number if it is asked for, or changes nothing about them and returns -1, which
  happens only if a call failed or the flags ask for a remote buffer.\<close>

theorem BufferPutFileRecord_adds:
  assumes "stock_disk s" "storable r" "run_state (BufferPutFileRecord f r want flags) s = ((rc, n), s')"
  shows "stock_disk s' \<and> (\<forall>g. g \<noteq> f \<longrightarrow> d_files s' g = d_files s g) \<and>
    (rc = 0 \<and> mset (recs s' f) = add_mset r (mset (recs s f)) \<and> n = (if want then Some (length (recs s' f)) else None)
     \<or> rc = -1 \<and> recs s' f = recs s f \<and> \<not> ready s flags)"
  using wpD [OF wp_BufferPutFileRecord [OF assms(1,2)] assms(3)] by (simp add: put_ok_def frame_def)

theorem BufferPutFileRecord_adds_witness:
  "\<exists>n s'. run_state (BufferPutFileRecord ''buff-in.r72'' (test_record 0) True BUFFER_FLAGS_NONE) (test_disk (\<lambda>_. None)) = ((0, n), s') \<and>
    recs s' ''buff-in.r72'' = [test_record 0] \<and> n = Some 1"
proof -
  obtain rc n s' where r: "run_state (BufferPutFileRecord ''buff-in.r72'' (test_record 0) True BUFFER_FLAGS_NONE) (test_disk (\<lambda>_. None)) = ((rc, n), s')"
    by (metis prod.exhaust)
  show ?thesis
    using BufferPutFileRecord_adds [OF test_disk_ok(2) test_record_storable(2) r] r test_disk_ok(1)
    by (auto simp: test_disk_ok(4) ready_def BUFFER_FLAGS_NONE_def)
qed

text \<open>C13: \<open>BufferGetFileRecord\<close> refines taking the first record of a list. Whichever calls fail, it
  leaves every other file alone, and either returns 0 with the first record of the file, which is
  gone from it, and the number of those of its contest that are left, or 1 for a file
  without records, or -1 with the records as they were, which happens only if a call failed or the
  flags ask for a remote buffer.\<close>

theorem BufferGetFileRecord_takes:
  assumes "stock_disk s" "run_state (BufferGetFileRecord f flags) s = ((rc, r, n), s')"
  shows "stock_disk s' \<and> (\<forall>g. g \<noteq> f \<longrightarrow> d_files s' g = d_files s g) \<and>
    (rc = 0 \<and> recs s f = r # recs s' f \<and>
       (n = Some (length (filter (\<lambda>q. wr_contest q = wr_contest r) (recs s' f))) \<or> n = Some 0 \<and> \<not> no_fail s)
     \<or> rc = 1 \<and> recs s f = [] \<and> recs s' f = [] \<and> n = Some 0
     \<or> rc = -1 \<and> recs s' f = recs s f \<and> n = Some 0 \<and> \<not> ready s flags)"
  using wpD [OF wp_BufferGetFileRecord [OF assms(1)] assms(2)] by (simp add: get_ok_def frame_def of_contest_def)

theorem BufferGetFileRecord_takes_witness:
  "\<exists>s'. run_state (BufferGetFileRecord ''a'' BUFFER_FLAGS_NONE) (test_disk [''a'' \<mapsto> test_record 1 @ test_record 2])
     = ((0, test_record 1, Some 1), s') \<and> recs s' ''a'' = [test_record 2]"
proof -
  obtain rc r n s' where r: "run_state (BufferGetFileRecord ''a'' BUFFER_FLAGS_NONE) (test_disk [''a'' \<mapsto> test_record 1 @ test_record 2]) = ((rc, r, n), s')"
    by (metis prod.exhaust)
  have "rc = 0 \<and> r = test_record 1 \<and> recs s' ''a'' = [test_record 2] \<and> n = Some 1"
    using BufferGetFileRecord_takes [OF test_disk_ok(3) r] test_disk_ok(1) [of "[''a'' \<mapsto> test_record 1 @ test_record 2]"]
    by (auto simp: test_disk_ok(5) test_record_fields(2) ready_def BUFFER_FLAGS_NONE_def dest!: sym [of "[test_record 2]"])
  then show ?thesis using r by auto
qed

end
