(* ===== verification/BuffBase.thy ===== *)
theory BuffBase
  imports BuffStock
begin

text \<open>
  The buffers of the client, \<open>common/buffbase.cpp\<close> with \<open>common/checkpt.cpp\<close>: for every contest one
  of work to do and one of finished work, in files or, for a client without them, in memory. A
  buffer is named by its contest and whether it is the one for finished work. The state adds the
  table of the buffers in memory, and the request to exit, which other parts of the client may
  raise at any time: it is looked up by the number of calls done so far. \<open>malloc\<close> and \<open>realloc\<close> may fail
  as the calls of the C library for files.
\<close>

section \<open>Buffers in memory\<close>

record membuffstruct =
  mb_count :: nat
  mb_maxcount :: nat
  mb_buff :: "work_record option list"

record buffbase = buffpub +
  membufftable :: "nat \<times> bool \<Rightarrow> membuffstruct"
  exit_request :: "nat \<Rightarrow> bool"

definition MEMBUFF_COUNT_MAX :: nat where "MEMBUFF_COUNT_MAX = 20000"
definition MEMBUFF_STEPS :: nat where "MEMBUFF_STEPS = 200"

definition get_membuff :: "nat \<times> bool \<Rightarrow> ('a buffbase_scheme, membuffstruct) state" where
  "get_membuff i = State (\<lambda>s. (membufftable s i, s))"

definition set_membuff :: "nat \<times> bool \<Rightarrow> membuffstruct \<Rightarrow> ('a buffbase_scheme, unit) state" where
  "set_membuff i mb = State (\<lambda>s. ((), s\<lparr>membufftable := (membufftable s)(i := mb)\<rparr>))"

text \<open>\<open>BufferPutMemRecord\<close>: the array grows, then the record is copied behind the last one.\<close>

definition grow_membuff :: "nat \<times> bool \<Rightarrow> ('a buffbase_scheme, unit) state" where
  "grow_membuff i = do {
     mb \<leftarrow> get_membuff i;
     if mb_count mb = mb_maxcount mb \<and> mb_maxcount mb < MEMBUFF_COUNT_MAX then do {
       let newmax = mb_maxcount mb + MEMBUFF_STEPS;
       ok \<leftarrow> io_call;
       if ok then set_membuff i (mb\<lparr>mb_maxcount := newmax,
         mb_buff := take (mb_count mb) (mb_buff mb) @ replicate (newmax - mb_count mb) None\<rparr>)
       else State_Monad.return () }
     else State_Monad.return () }"

definition BufferPutMemRecord :: "nat \<times> bool \<Rightarrow> work_record \<Rightarrow> ('a buffbase_scheme, int \<times> nat option) state" where
  "BufferPutMemRecord i record = do {
     grow_membuff i;
     mb \<leftarrow> get_membuff i;
     if mb_count mb < mb_maxcount mb then do {
       ok \<leftarrow> io_call;
       if ok then do {
         set_membuff i (mb\<lparr>mb_buff := (mb_buff mb)[mb_count mb := Some record], mb_count := mb_count mb + 1\<rparr>);
         State_Monad.return (0, Some (mb_count mb + 1)) }
       else State_Monad.return (-1, Some 0) }
     else State_Monad.return (-1, Some 0) }"

definition BufferGetMemRecord :: "nat \<times> bool \<Rightarrow> ('a buffbase_scheme, int \<times> work_record \<times> nat option) state" where
  "BufferGetMemRecord i = do {
     mb \<leftarrow> get_membuff i;
     if mb_count mb > 0 then do {
       let n = mb_count mb - 1;
       set_membuff i (mb\<lparr>mb_count := n, mb_buff := (mb_buff mb)[n := None]\<rparr>);
       State_Monad.return (case mb_buff mb ! n of
           None \<Rightarrow> (-1, [], Some 0)
         | Some src \<Rightarrow> (0, src, Some n)) }
     else State_Monad.return (1, [], Some 0) }"

text \<open>\<open>BufferCountMemRecords\<close>: without a place for the units it counts every record.\<close>

definition BufferCountMemRecords :: "nat \<times> bool \<Rightarrow> u32 \<Rightarrow> bool \<Rightarrow> ('a buffbase_scheme, int \<times> nat \<times> nat) state" where
  "BufferCountMemRecords i contest want_norm = do {
     mb \<leftarrow> get_membuff i;
     State_Monad.return
       (if want_norm then
          let counted = filter (\<lambda>r. wr_contest r = contest \<and> fst (BufferGetRecordInfo r) \<noteq> -1)
                (map the (filter (\<lambda>x. x \<noteq> None) (take (mb_count mb) (mb_buff mb))))
          in (0, length counted, sum_list (map swu_of counted))
        else (0, mb_count mb, 0)) }"

section \<open>Names of files\<close>

record client =
  nodiskbuffers :: bool
  in_buffer_basename :: string
  out_buffer_basename :: string
  checkpoint_file :: string

definition ProjectGetFileExtension :: "nat \<Rightarrow> string" where
  "ProjectGetFileExtension projectid =
     (if projectid < 7 then [''rc5'', ''des'', ''ogr'', ''csc'', ''og2'', ''r72'', ''ogf''] ! projectid else ''zzz'')"

text \<open>The blanks at both ends of a name go.\<close>

definition trim_name :: "string \<Rightarrow> string" where
  "trim_name s = rev (dropWhile c_isspace (rev (take 127 (dropWhile c_isspace s))))"

definition BufferGetDefaultFilename :: "nat \<Rightarrow> bool \<Rightarrow> string \<Rightarrow> string" where
  "BufferGetDefaultFilename project is_out_type basename =
     (let filename = trim_name basename;
          filename = (if filename = [] then (if is_out_type then ''buff-out'' else ''buff-in'') else filename)
      in take 123 filename @ ''.'' @ map c_tolower (take 3 (ProjectGetFileExtension project)))"

definition buffer_file :: "client \<Rightarrow> nat \<times> bool \<Rightarrow> string" where
  "buffer_file client i =
     BufferGetDefaultFilename (fst i) (snd i) (if snd i then out_buffer_basename client else in_buffer_basename client)"

text \<open>\<open>__CheckBuffLimits\<close>: \<open>True\<close> is the return value -1.\<close>

definition CheckBuffLimits :: "client \<Rightarrow> bool" where
  "CheckBuffLimits client \<longleftrightarrow> \<not> nodiskbuffers client \<and> out_buffer_basename client \<noteq> [] \<and> in_buffer_basename client \<noteq> []
     \<and> in_buffer_basename client = out_buffer_basename client"

section \<open>Single records\<close>

text \<open>The branches of \<open>PutBufferRecord\<close> and \<open>GetBufferRecord\<close> on the kind of buffer.\<close>

definition store_put :: "client \<Rightarrow> nat \<times> bool \<Rightarrow> work_record \<Rightarrow> bool \<Rightarrow> ('a buffbase_scheme, int \<times> nat option) state" where
  "store_put client i record want_count =
     (if \<not> nodiskbuffers client then BufferPutFileRecord (buffer_file client i) record want_count BUFFER_FLAGS_NONE
      else BufferPutMemRecord i record)"

definition store_get :: "client \<Rightarrow> nat \<times> bool \<Rightarrow> ('a buffbase_scheme, int \<times> work_record \<times> nat option) state" where
  "store_get client i =
     (if \<not> nodiskbuffers client then BufferGetFileRecord (buffer_file client i) BUFFER_FLAGS_NONE
      else BufferGetMemRecord i)"

definition known_state :: "work_record \<Rightarrow> bool" where
  "known_state r \<longleftrightarrow> wr_resultcode r \<in> {0, 1, 2}"

text \<open>Where a record belongs.\<close>

definition home :: "work_record \<Rightarrow> nat \<times> bool" where
  "home r = (unat (wr_contest r), wr_resultcode r \<noteq> 0)"

definition PutBufferRecord :: "client \<Rightarrow> work_record \<Rightarrow> ('a buffbase_scheme, int) state" where
  "PutBufferRecord client record =
     (if \<not> unat (wr_contest record) < CONTEST_COUNT then State_Monad.return (-1)
      else if \<not> known_state record then State_Monad.return (-1)
      else if CheckBuffLimits client then State_Monad.return (-1)
      else do {
        (rc, n) \<leftarrow> store_put client (home record) record True;
        State_Monad.return (if rc = 0 then (case n of None \<Rightarrow> 0 | Some n \<Rightarrow> int n) else -1) })"

definition CheckExitRequestTriggerNoIO :: "('a buffbase_scheme, bool) state" where
  "CheckExitRequestTriggerNoIO = State (\<lambda>s. (exit_request s (d_calls s), tick s))"

text \<open>What the loop of \<open>GetBufferRecord\<close> does with a record: \<open>True\<close> if it is one that was asked for.\<close>

definition accept_record :: "(nat \<times> bool \<Rightarrow> work_record \<Rightarrow> bool \<Rightarrow> ('s, int \<times> nat option) state) \<Rightarrow>
    nat \<times> bool \<Rightarrow> work_record \<Rightarrow> ('s, bool) state" where
  "accept_record put i record =
     (if \<not> unat (wr_contest record) < CONTEST_COUNT then State_Monad.return False
      else if \<not> known_state record then State_Monad.return False
      else if home record \<noteq> i then do { put (home record) record False; State_Monad.return False }
      else State_Monad.return True)"

partial_function (option) get_record_loop ::
  "(nat \<times> bool \<Rightarrow> ('s, int \<times> work_record \<times> nat option) state) \<Rightarrow>
   (nat \<times> bool \<Rightarrow> work_record \<Rightarrow> bool \<Rightarrow> ('s, int \<times> nat option) state) \<Rightarrow>
   ('s, bool) state \<Rightarrow> bool \<Rightarrow> nat \<times> bool \<Rightarrow> 's \<Rightarrow> ((int \<times> work_record) \<times> 's) option" where
  "get_record_loop get put check_exit break_pending i s =
     (let ((rc, record, n), s) = run_state (get i) s in
      if rc \<noteq> 0 \<and> rc \<noteq> -123 then Some ((-1, record), s)
      else
        let (ok, s) = (if rc = 0 then run_state (accept_record put i record) s else (False, s)) in
        if ok then Some ((case n of None \<Rightarrow> 0 | Some n \<Rightarrow> int n, record), s)
        else
          let (stop, s) = (if \<not> break_pending then run_state check_exit s else (False, s)) in
          if \<not> stop \<and> n \<noteq> Some 0 then get_record_loop get put check_exit break_pending i s
          else Some ((-1, record), s))"

definition GetBufferRecord :: "client \<Rightarrow> u32 \<Rightarrow> bool \<Rightarrow> 'a buffbase_scheme \<Rightarrow> ((int \<times> work_record) \<times> 'a buffbase_scheme) option" where
  "GetBufferRecord client contest use_out_file s =
     (let (break_pending, s) = run_state CheckExitRequestTriggerNoIO s in
      if CheckBuffLimits client then Some ((-1, []), s)
      else if \<not> unat contest < CONTEST_COUNT then Some ((-1, []), s)
      else get_record_loop (store_get client) (store_put client) CheckExitRequestTriggerNoIO break_pending
             (unat contest, use_out_file) s)"

section \<open>Import and checkpoints\<close>

text \<open>The loop of \<open>BufferImportFileRecords\<close>: the number of records that were imported and \<open>errs\<close>.\<close>

partial_function (option) import_loop ::
  "client \<Rightarrow> string \<Rightarrow> nat \<Rightarrow> nat \<Rightarrow> 'a buffbase_scheme \<Rightarrow> ((nat \<times> bool) \<times> 'a buffbase_scheme) option" where
  "import_loop client f lastremaining recovered s =
     (let ((rc, record, n), s) = run_state (BufferGetFileRecord f BUFFER_FLAGS_REMOTEBUF) s in
      if rc \<noteq> 0 then Some ((recovered, False), s)
      else
        let remaining = (case n of None \<Rightarrow> 0 | Some n \<Rightarrow> n) in
        if lastremaining \<noteq> 0 \<and> lastremaining \<le> remaining then Some ((recovered, True), s)
        else
          let (r, s) = run_state (PutBufferRecord client record) s in
          if r > 0 then import_loop client f remaining (recovered + 1) s
          else
            let (_, s) = run_state (BufferPutFileRecord f record False BUFFER_FLAGS_NONE) s in
            Some ((recovered, True), s))"

definition BufferImportFileRecords :: "client \<Rightarrow> string \<Rightarrow> 'a buffbase_scheme \<Rightarrow> (int \<times> 'a buffbase_scheme) option" where
  "BufferImportFileRecords client f s =
     (let (e, s) = run_state (access_ok f) s in
      if \<not> e then Some (-1, s)
      else
        (case import_loop client f 0 0 s of
           None \<Rightarrow> None
         | Some ((recovered, errs), s) \<Rightarrow>
             let s = (if recovered > 0 \<and> \<not> errs then snd (run_state (BufferZapFileRecords f) s) else s)
             in Some (int recovered, s)))"

end
