(* ===== verification/BuffStore.thy ===== *)
theory BuffStore
  imports BuffBase
begin

text \<open>
  What \<open>GetBufferRecord\<close> and \<open>PutBufferRecord\<close> rely on, as an interface: a store holds a bag of records
  under each name, \<open>get\<close> takes one of a bag or none, and \<open>put\<close> adds one or none. The loop of
  \<open>GetBufferRecord\<close> is proved over the interface once; files and memory provide it.
\<close>

section \<open>The interface\<close>

definition buffers :: "(nat \<times> bool) set" where
  "buffers = {0..<CONTEST_COUNT} \<times> UNIV"

lemma finite_buffers [simp]: "finite buffers"
  by (simp add: buffers_def)

definition everything :: "(nat \<times> bool \<Rightarrow> work_record multiset) \<Rightarrow> work_record multiset" where
  "everything h = (\<Sum>i\<in>buffers. h i)"

lemma everything_upd:
  assumes "i \<in> buffers" "h' = h(i := add_mset r (h i))"
  shows "everything h' = add_mset r (everything h)"
proof -
  have "everything h' = add_mset r (h i) + (\<Sum>j\<in>buffers - {i}. h j)"
    using assms by (simp add: everything_def sum.remove [of buffers i])
  also have "\<dots> = add_mset r (everything h)"
    using assms(1) by (simp add: everything_def sum.remove [of buffers i h])
  finally show ?thesis .
qed

locale work_store =
  fixes get :: "nat \<times> bool \<Rightarrow> ('s, int \<times> work_record \<times> nat option) state"
    and put :: "nat \<times> bool \<Rightarrow> work_record \<Rightarrow> bool \<Rightarrow> ('s, int \<times> nat option) state"
    and check_exit :: "('s, bool) state"
    and holds :: "'s \<Rightarrow> nat \<times> bool \<Rightarrow> work_record multiset"
    and inv :: "'s \<Rightarrow> bool"
    and reliable :: "'s \<Rightarrow> bool"
    and keeps :: "work_record \<Rightarrow> bool"
  assumes keeps_law: "keeps r \<Longrightarrow> unat (wr_contest r) < CONTEST_COUNT"
    and get_law: "inv s \<Longrightarrow> i \<in> buffers \<Longrightarrow> run_state (get i) s = ((rc, r, n), s') \<Longrightarrow>
      inv s' \<and> (reliable s \<longrightarrow> reliable s') \<and>
      (rc = 0 \<and> keeps r \<and> holds s = (holds s')(i := add_mset r (holds s' i)) \<or> rc \<in> {1, -1} \<and> holds s' = holds s)"
    and put_law: "inv s \<Longrightarrow> i \<in> buffers \<Longrightarrow> keeps r \<Longrightarrow> run_state (put i r w) s = ((rc, n), s') \<Longrightarrow>
      inv s' \<and> (reliable s \<longrightarrow> reliable s' \<and> rc = 0) \<and>
      (rc = 0 \<and> holds s' = (holds s)(i := add_mset r (holds s i)) \<or> rc = -1 \<and> holds s' = holds s)"
    and exit_law: "inv s \<Longrightarrow> run_state check_exit s = (b, s') \<Longrightarrow>
      inv s' \<and> (reliable s \<longrightarrow> reliable s') \<and> holds s' = holds s"
begin

text \<open>What became of the records: the one that was returned and those that were given up, which are
  those of an unknown state when the store is reliable.\<close>

definition outcome :: "nat \<times> bool \<Rightarrow> 's \<Rightarrow> int \<times> work_record \<Rightarrow> 's \<Rightarrow> bool" where
  "outcome i s x s' \<longleftrightarrow> inv s' \<and> (reliable s \<longrightarrow> reliable s') \<and> (0 \<le> fst x \<longrightarrow> home (snd x) = i \<and> known_state (snd x)) \<and>
     (\<exists>lost. everything (holds s) = everything (holds s') + (if 0 \<le> fst x then {#snd x#} else {#}) + lost \<and>
       (reliable s \<longrightarrow> (\<forall>y\<in>#lost. \<not> known_state y)))"

lemma outcome_step:
  assumes "outcome i s1 x s2" "everything (holds s) = everything (holds s1) + gone"
    and "reliable s \<Longrightarrow> reliable s1 \<and> (\<forall>y\<in>#gone. \<not> known_state y)"
  shows "outcome i s x s2"
proof -
  obtain lost where l: "everything (holds s1) = everything (holds s2) + (if 0 \<le> fst x then {#snd x#} else {#}) + lost"
    "reliable s1 \<longrightarrow> (\<forall>y\<in>#lost. \<not> known_state y)" using assms(1) by (auto simp: outcome_def)
  have "everything (holds s) = everything (holds s2) + (if 0 \<le> fst x then {#snd x#} else {#}) + (lost + gone)"
    using l(1) assms(2) by (simp add: ac_simps)
  moreover have "reliable s \<longrightarrow> (\<forall>y\<in>#lost + gone. \<not> known_state y)" using l(2) assms(3) by auto
  ultimately show ?thesis using assms(1,3) unfolding outcome_def by blast
qed

lemma outcome_none: "inv s \<Longrightarrow> outcome i s (-1, r) s"
  by (simp add: outcome_def)

text \<open>A record that is not the one asked for leaves the buffer, to its home if it has one.\<close>

lemma accept_law:
  assumes "inv s1" "i \<in> buffers" "keeps r" "run_state (accept_record put i r) s1 = (ok, s2)"
  shows "ok \<and> s2 = s1 \<and> home r = i \<and> known_state r \<or>
    \<not> ok \<and> inv s2 \<and> holds s2 i = holds s1 i \<and> (reliable s1 \<longrightarrow> reliable s2) \<and>
    (\<exists>gone. add_mset r (everything (holds s1)) = everything (holds s2) + gone \<and>
      (reliable s1 \<longrightarrow> (\<forall>y\<in>#gone. \<not> known_state y)))"
proof -
  consider "\<not> known_state r" "ok = False" "s2 = s1"
    | rc n where "home r \<noteq> i" "ok = False" "run_state (put (home r) r False) s1 = ((rc, n), s2)" "unat (wr_contest r) < CONTEST_COUNT"
    | "home r = i" "ok" "s2 = s1" "known_state r"
    using assms(4) keeps_law [OF assms(3)] by (auto simp: accept_record_def State_Monad.bind_def split: if_splits prod.splits)
  then show ?thesis
  proof cases
    case 1
    then show ?thesis using assms(1) by (intro disjI2 conjI exI [of _ "{#r#}"]) auto
  next
    case (2 rc n)
    have hb: "home r \<in> buffers" using 2(4) by (simp add: home_def buffers_def)
    from put_law [OF assms(1) hb assms(3) 2(3)] have
      p: "inv s2" "reliable s1 \<longrightarrow> reliable s2 \<and> rc = 0"
        "rc = 0 \<and> holds s2 = (holds s1)(home r := add_mset r (holds s1 (home r))) \<or> rc = -1 \<and> holds s2 = holds s1"
      by blast+
    have h: "holds s2 i = holds s1 i" using p(3) 2(1) by auto
    show ?thesis
    proof (cases "rc = 0")
      case True
      then have "everything (holds s2) = add_mset r (everything (holds s1))" using p(3) everything_upd [OF hb] by auto
      then show ?thesis using 2(2) p(1,2) h by (intro disjI2 conjI exI [of _ "{#}"]) auto
    next
      case False
      then have "holds s2 = holds s1" "\<not> reliable s1" using p by auto
      then show ?thesis using 2(2) p(1) by (intro disjI2 conjI exI [of _ "{#r#}"]) auto
    qed
  qed blast
qed

lemma get_record_loop_ok:
  assumes "inv s" "i \<in> buffers"
  shows "\<exists>x s'. get_record_loop get put check_exit bp i s = Some (x, s') \<and> outcome i s x s'"
  using assms(1)
proof (induction "size (holds s i)" arbitrary: s rule: less_induct)
  case less
  obtain rc r n s1 where g: "run_state (get i) s = ((rc, r, n), s1)" by (metis prod.exhaust)
  note gl = get_law [OF less.prems assms(2) g]
  show ?case
  proof (cases "rc = 0")
    case False
    then have "get_record_loop get put check_exit bp i s = Some ((-1, r), s1)"
      using gl g by (subst get_record_loop.simps) auto
    moreover have "holds s1 = holds s" "inv s1" using gl False by auto
    ultimately show ?thesis using outcome_step [OF outcome_none [of s1 i r], of s "{#}"] gl by auto
  next
    case True
    then have g1: "inv s1" "reliable s \<longrightarrow> reliable s1" "keeps r" "holds s = (holds s1)(i := add_mset r (holds s1 i))"
      using gl by auto
    have ev: "everything (holds s) = add_mset r (everything (holds s1))" by (rule everything_upd [OF assms(2) g1(4)])
    have "size (holds s i) = Suc (size (holds s1 i))" by (subst g1(4)) simp
    obtain ok s2 where a: "run_state (accept_record put i r) s1 = (ok, s2)" by (rule prod.exhaust)
    note al = accept_law [OF g1(1) assms(2) g1(3) a]
    show ?thesis
    proof (cases ok)
      case ok: True
      then have "get_record_loop get put check_exit bp i s = Some ((case n of None \<Rightarrow> 0 | Some n \<Rightarrow> int n, r), s2)"
        using g True a by (subst get_record_loop.simps) simp
      moreover have "outcome i s (case n of None \<Rightarrow> 0 | Some n \<Rightarrow> int n, r) s2"
        using al ok g1(1,2) ev by (auto simp: outcome_def split: option.splits)
      ultimately show ?thesis by blast
    next
      case nok: False
      obtain gone where gone: "add_mset r (everything (holds s1)) = everything (holds s2) + gone"
          "reliable s1 \<longrightarrow> (\<forall>y\<in>#gone. \<not> known_state y)"
        and s2: "inv s2" "holds s2 i = holds s1 i" "reliable s1 \<longrightarrow> reliable s2" using al nok by blast
      obtain stop s3 where c: "(if \<not> bp then run_state check_exit s2 else (False, s2)) = (stop, s3)" by (rule prod.exhaust)
      have s3: "inv s3" "reliable s2 \<longrightarrow> reliable s3" "holds s3 = holds s2"
        using exit_law [OF s2(1), of stop s3] c s2(1) by (auto split: if_splits)
      have run: "get_record_loop get put check_exit bp i s =
          (if \<not> stop \<and> n \<noteq> Some 0 then get_record_loop get put check_exit bp i s3 else Some ((-1, r), s3))"
        using g True a nok c by (subst get_record_loop.simps) simp
      have "size (holds s3 i) < size (holds s i)" using s3(3) s2(2) \<open>size (holds s i) = _\<close> by simp
      then have "\<exists>x s'. get_record_loop get put check_exit bp i s3 = Some (x, s') \<and> outcome i s3 x s'"
        using less.hyps s3(1) by blast
      then obtain x s' where x: "get_record_loop get put check_exit bp i s = Some (x, s')" "outcome i s3 x s'"
        using run outcome_none [OF s3(1), of i r] by (cases "\<not> stop \<and> n \<noteq> Some 0") auto
      have "everything (holds s) = everything (holds s3) + gone" using ev gone(1) s3(3) by simp
      moreover have "reliable s3 \<and> (\<forall>y\<in>#gone. \<not> known_state y)" if "reliable s"
        using that g1(2) s2(3) s3(2) gone(2) by blast
      ultimately show ?thesis using x outcome_step [OF x(2)] by blast
    qed
  qed
qed

end

section \<open>Files\<close>

definition disk_holds :: "client \<Rightarrow> 'a buffbase_scheme \<Rightarrow> nat \<times> bool \<Rightarrow> work_record multiset" where
  "disk_holds c s i = (if i \<in> buffers then mset (recs s (buffer_file c i)) else {#})"

text \<open>A client with files, each buffer in its own, and records that can be written back.\<close>

definition disk_inv :: "client \<Rightarrow> 'a buffbase_scheme \<Rightarrow> bool" where
  "disk_inv c s \<longleftrightarrow> \<not> nodiskbuffers c \<and> inj_on (buffer_file c) buffers \<and> stock_disk s \<and>
     (\<forall>i\<in>buffers. \<forall>r\<in>set (recs s (buffer_file c i)). storable r)"

lemma storable_contest: "storable r \<Longrightarrow> unat (wr_contest r) < CONTEST_COUNT"
  by (auto simp: storable_def proper_def has_order_def project_of_def split: if_splits)

lemma disk_frame:
  assumes "disk_inv c s" "i \<in> buffers" "j \<in> buffers" "j \<noteq> i" "frame (buffer_file c i) s s'"
  shows "recs s' (buffer_file c j) = recs s (buffer_file c j)"
  using assms by (intro frame_recs) (auto simp: disk_inv_def dest: inj_onD)

lemma upd_elsewhere: "(\<And>j. j \<noteq> i \<Longrightarrow> h' j = h j) \<Longrightarrow> h' = h(i := h' i)"
  by (rule ext) simp

lemma disk_holds_at: "i \<in> buffers \<Longrightarrow> disk_holds c s i = mset (recs s (buffer_file c i))"
  by (simp add: disk_holds_def)

lemma flags_none_ready: "ready s BUFFER_FLAGS_NONE = no_fail s"
  by (simp add: ready_def BUFFER_FLAGS_NONE_def)

lemma disk_get_law:
  assumes "disk_inv c s" "i \<in> buffers" "run_state (store_get c i) s = ((rc, r, n), s')"
  shows "disk_inv c s' \<and> (no_fail s \<longrightarrow> no_fail s') \<and>
    (rc = 0 \<and> storable r \<and> disk_holds c s = (disk_holds c s')(i := add_mset r (disk_holds c s' i))
     \<or> rc \<in> {1, -1} \<and> disk_holds c s' = disk_holds c s)"
proof -
  let ?f = "buffer_file c i"
  have run: "run_state (BufferGetFileRecord ?f BUFFER_FLAGS_NONE) s = ((rc, r, n), s')"
    using assms(1,3) by (simp add: disk_inv_def store_get_def)
  have "stock_disk s" using assms(1) by (simp add: disk_inv_def)
  from wpD [OF wp_BufferGetFileRecord [OF this] run] have g: "get_ok s ?f BUFFER_FLAGS_NONE (rc, r, n) s'" .
  have fr: "frame ?f s s'" using g by (simp add: get_ok_def)
  note oth = disk_frame [OF assms(1,2) _ _ fr]
  have rs: "rc = 0 \<and> recs s ?f = r # recs s' ?f \<or> rc \<in> {1, -1} \<and> recs s' ?f = recs s ?f"
    using g by (auto simp: get_ok_def)
  have sub: "set (recs s' (buffer_file c j)) \<subseteq> set (recs s (buffer_file c j))" if "j \<in> buffers" for j
    using oth [OF that] rs by (cases "j = i") auto
  have "disk_inv c s'" using assms(1) g sub by (fastforce simp: disk_inv_def get_ok_def)
  moreover have "rc = 0 \<Longrightarrow> storable r" using assms(1,2) rs by (auto simp: disk_inv_def)
  moreover have "disk_holds c s = (disk_holds c s')(i := disk_holds c s i)"
    by (rule upd_elsewhere) (use oth in \<open>simp add: disk_holds_def\<close>)
  ultimately show ?thesis
    using frame_no_fail [OF fr] rs assms(2) by (auto simp: disk_holds_at fun_upd_idem)
qed

lemma disk_put_law:
  assumes "disk_inv c s" "i \<in> buffers" "storable r" "run_state (store_put c i r w) s = ((rc, n), s')"
  shows "disk_inv c s' \<and> (no_fail s \<longrightarrow> no_fail s' \<and> rc = 0) \<and>
    (rc = 0 \<and> disk_holds c s' = (disk_holds c s)(i := add_mset r (disk_holds c s i)) \<or> rc = -1 \<and> disk_holds c s' = disk_holds c s)"
proof -
  let ?f = "buffer_file c i"
  have run: "run_state (BufferPutFileRecord ?f r w BUFFER_FLAGS_NONE) s = ((rc, n), s')"
    using assms(1,4) by (simp add: disk_inv_def store_put_def)
  have "stock_disk s" using assms(1) by (simp add: disk_inv_def)
  from wpD [OF wp_BufferPutFileRecord [OF this assms(3)] run] have g: "put_ok s ?f r w BUFFER_FLAGS_NONE (rc, n) s'" .
  have fr: "frame ?f s s'" using g by (simp add: put_ok_def)
  note oth = disk_frame [OF assms(1,2) _ _ fr]
  have rs: "rc = 0 \<and> mset (recs s' ?f) = add_mset r (mset (recs s ?f)) \<or> rc = -1 \<and> recs s' ?f = recs s ?f \<and> \<not> no_fail s"
    using g by (auto simp: put_ok_def flags_none_ready)
  have "set (recs s' ?f) \<subseteq> insert r (set (recs s ?f))"
    using rs by (metis set_mset_add_mset_insert set_mset_mset subset_insertI subset_refl)
  then have sub: "set (recs s' (buffer_file c j)) \<subseteq> insert r (set (recs s (buffer_file c j)))" if "j \<in> buffers" for j
    using oth [OF that] by (cases "j = i") auto
  have "disk_inv c s'" using assms(1,3) g sub by (fastforce simp: disk_inv_def put_ok_def)
  moreover have "disk_holds c s' = (disk_holds c s)(i := disk_holds c s' i)"
    by (rule upd_elsewhere) (use oth in \<open>simp add: disk_holds_def\<close>)
  ultimately show ?thesis
    using frame_no_fail [OF fr] rs assms(2) by (auto simp: disk_holds_at fun_upd_idem)
qed

lemma check_exit_same: "run_state CheckExitRequestTriggerNoIO s = (b, s') \<Longrightarrow> s' = tick s"
  by (simp add: CheckExitRequestTriggerNoIO_def)

lemma recs_tick [simp]: "recs (tick s) = recs s"
  by (simp add: recs_def fun_eq_iff)

lemma stock_disk_tick [simp]: "stock_disk (tick s) = stock_disk s"
  by (cases s) (simp add: stock_disk_def tick_def)

interpretation files: work_store "store_get c" "store_put c" CheckExitRequestTriggerNoIO "disk_holds c" "disk_inv c" no_fail storable
  for c :: client
proof
  show "disk_inv c s' \<and> (no_fail s \<longrightarrow> no_fail s') \<and> disk_holds c s' = disk_holds c s"
    if "disk_inv c s" "run_state CheckExitRequestTriggerNoIO s = (b, s')" for s b s'
    using that check_exit_same [OF that(2)] by (simp add: disk_inv_def disk_holds_def fun_eq_iff)
qed (fact storable_contest disk_get_law disk_put_law)+

section \<open>Memory\<close>

definition mem_ok :: "membuffstruct \<Rightarrow> bool" where
  "mem_ok mb \<longleftrightarrow> length (mb_buff mb) = mb_maxcount mb \<and> mb_count mb \<le> mb_maxcount mb \<and>
     mb_maxcount mb \<le> MEMBUFF_COUNT_MAX \<and> MEMBUFF_STEPS dvd mb_maxcount mb \<and>
     (\<forall>k<mb_count mb. \<exists>r. mb_buff mb ! k = Some r \<and> unat (wr_contest r) < CONTEST_COUNT)"

definition mem_recs :: "membuffstruct \<Rightarrow> work_record list" where
  "mem_recs mb = map the (take (mb_count mb) (mb_buff mb))"

definition mem_holds :: "'a buffbase_scheme \<Rightarrow> nat \<times> bool \<Rightarrow> work_record multiset" where
  "mem_holds s i = (if i \<in> buffers then mset (mem_recs (membufftable s i)) else {#})"

definition mem_inv :: "client \<Rightarrow> 'a buffbase_scheme \<Rightarrow> bool" where
  "mem_inv c s \<longleftrightarrow> nodiskbuffers c \<and> (\<forall>i\<in>buffers. mem_ok (membufftable s i))"

lemma membufftable_tick [simp]: "membufftable (tick s) = membufftable s"
  by (cases s) (simp add: tick_def)

lemma mem_recs_get:
  assumes "mem_ok mb" "0 < mb_count mb"
  defines "mb' \<equiv> mb\<lparr>mb_count := mb_count mb - 1, mb_buff := (mb_buff mb)[mb_count mb - 1 := None]\<rparr>"
  obtains r where "mb_buff mb ! (mb_count mb - 1) = Some r" "unat (wr_contest r) < CONTEST_COUNT"
    "mem_ok mb'" "mem_recs mb = mem_recs mb' @ [r]"
proof -
  obtain r where r: "mb_buff mb ! (mb_count mb - 1) = Some r" "unat (wr_contest r) < CONTEST_COUNT"
    using assms(1,2) by (auto simp: mem_ok_def dest!: spec [of _ "mb_count mb - 1"])
  have "take (mb_count mb) (mb_buff mb) = take (mb_count mb - 1) (mb_buff mb) @ [mb_buff mb ! (mb_count mb - 1)]"
  proof -
    have "mb_count mb - 1 < length (mb_buff mb)" using assms(1,2) unfolding mem_ok_def by linarith
    then show ?thesis using assms(2) take_Suc_conv_app_nth [of "mb_count mb - 1" "mb_buff mb"] by simp
  qed
  then have "mem_recs mb = mem_recs mb' @ [r]" using r by (simp add: mem_recs_def mb'_def)
  moreover have "mem_ok mb'" using assms(1,2) by (auto simp: mem_ok_def mb'_def nth_list_update)
  ultimately show ?thesis using r that by blast
qed

lemma mem_recs_put:
  assumes "mem_ok mb" "mb_count mb < mb_maxcount mb" "unat (wr_contest r) < CONTEST_COUNT"
  defines "mb' \<equiv> mb\<lparr>mb_buff := (mb_buff mb)[mb_count mb := Some r], mb_count := mb_count mb + 1\<rparr>"
  shows "mem_ok mb'" "mem_recs mb' = mem_recs mb @ [r]"
  using assms(1-3) by (auto simp: mem_ok_def mem_recs_def mb'_def nth_list_update less_Suc_eq take_Suc_conv_app_nth)

lemma mem_grow_ok:
  assumes "mem_ok mb" "mb_count mb = mb_maxcount mb" "mb_maxcount mb < MEMBUFF_COUNT_MAX"
  defines "mb' \<equiv> mb\<lparr>mb_maxcount := mb_maxcount mb + MEMBUFF_STEPS,
      mb_buff := take (mb_count mb) (mb_buff mb) @ replicate (mb_maxcount mb + MEMBUFF_STEPS - mb_count mb) None\<rparr>"
  shows "mem_ok mb'" "mem_recs mb' = mem_recs mb"
proof -
  have "mb_maxcount mb + MEMBUFF_STEPS \<le> MEMBUFF_COUNT_MAX"
    using assms(1,3) by (auto simp: mem_ok_def MEMBUFF_STEPS_def MEMBUFF_COUNT_MAX_def elim!: dvdE)
  then show "mem_ok mb'" using assms(1,2) by (auto simp: mem_ok_def mb'_def nth_append)
  show "mem_recs mb' = mem_recs mb" using assms(1,2) by (simp add: mem_recs_def mb'_def mem_ok_def)
qed

lemma wp_get_membuff [wps]: "wp (get_membuff i) Q s \<longleftrightarrow> Q (membufftable s i) s"
  by (simp add: get_membuff_def wps)

definition set_mem :: "nat \<times> bool \<Rightarrow> membuffstruct \<Rightarrow> 'a buffbase_scheme \<Rightarrow> 'a buffbase_scheme" where
  "set_mem i mb s = s\<lparr>membufftable := (membufftable s)(i := mb)\<rparr>"

lemma wp_set_membuff [wps]: "wp (set_membuff i mb) Q s \<longleftrightarrow> Q () (set_mem i mb s)"
  by (simp add: set_membuff_def set_mem_def wps)

lemma membufftable_set_mem [simp]: "membufftable (set_mem i mb s) = (membufftable s)(i := mb)"
  by (simp add: set_mem_def)

lemma mem_holds_at: "i \<in> buffers \<Longrightarrow> mem_holds s i = mset (mem_recs (membufftable s i))"
  by (simp add: mem_holds_def)

lemma mem_inv_upd:
  assumes "mem_inv c s" "membufftable s' = (membufftable s)(i := mb)" "mem_ok mb"
  shows "mem_inv c s'"
  using assms by (simp add: mem_inv_def)

lemma mem_holds_upd:
  assumes "i \<in> buffers" "membufftable s' = (membufftable s)(i := mb)"
  shows "mem_holds s' = (mem_holds s)(i := mset (mem_recs mb))"
  by (rule ext) (use assms in \<open>simp add: mem_holds_def\<close>)

lemma mem_holds_tick [simp]: "mem_holds (tick s) = mem_holds s" and mem_inv_tick [simp]: "mem_inv c (tick s) = mem_inv c s"
  by (simp_all add: mem_holds_def mem_inv_def fun_eq_iff)

lemma mem_get_law:
  assumes "mem_inv c s" "i \<in> buffers" "run_state (store_get c i) s = ((rc, r, n), s')"
  shows "mem_inv c s' \<and>
    (rc = 0 \<and> unat (wr_contest r) < CONTEST_COUNT \<and> mem_holds s = (mem_holds s')(i := add_mset r (mem_holds s' i))
     \<or> rc \<in> {1, -1} \<and> mem_holds s' = mem_holds s)"
proof -
  let ?mb = "membufftable s i"
  have ok: "mem_ok ?mb" using assms(1,2) by (simp add: mem_inv_def)
  have run: "wp (BufferGetMemRecord i) (\<lambda>x s''. x = (rc, r, n) \<and> s'' = s') s"
    using assms(1,3) by (simp add: mem_inv_def store_get_def wp_def)
  show ?thesis
  proof (cases "0 < mb_count ?mb")
    case True
    let ?mb' = "?mb\<lparr>mb_count := mb_count ?mb - 1, mb_buff := (mb_buff ?mb)[mb_count ?mb - 1 := None]\<rparr>"
    obtain q where q: "mb_buff ?mb ! (mb_count ?mb - 1) = Some q" "unat (wr_contest q) < CONTEST_COUNT" "mem_ok ?mb'"
        "mem_recs ?mb = mem_recs ?mb' @ [q]" by (rule mem_recs_get [OF ok True])
    have s': "rc = 0" "r = q" "s' = set_mem i ?mb' s" using run True q(1) by (auto simp: BufferGetMemRecord_def wps Let_def)
    have t: "membufftable s' = (membufftable s)(i := ?mb')" using s'(3) by simp
    show ?thesis
      using s'(1,2) q(2) mem_inv_upd [OF assms(1) t q(3)] mem_holds_upd [OF assms(2) t] q(4)
      by (simp add: mem_holds_at [OF assms(2)] fun_upd_idem)
  next
    case False
    then show ?thesis using run assms(1) by (auto simp: BufferGetMemRecord_def wps)
  qed
qed

lemma mem_grow_law:
  assumes "mem_inv c s" "i \<in> buffers"
  shows "wp (grow_membuff i) (\<lambda>_ s'. mem_inv c s' \<and> mem_holds s' = mem_holds s) s"
proof -
  let ?mb = "membufftable s i"
  have ok: "mem_ok ?mb" using assms by (simp add: mem_inv_def)
  have same: "mem_inv c (tick s)" "mem_holds (tick s) = mem_holds s"
    using assms(1) by simp_all
  show ?thesis
  proof (cases "mb_count ?mb = mb_maxcount ?mb \<and> mb_maxcount ?mb < MEMBUFF_COUNT_MAX")
    case True
    define mb' where "mb' = ?mb\<lparr>mb_maxcount := mb_maxcount ?mb + MEMBUFF_STEPS,
      mb_buff := take (mb_count ?mb) (mb_buff ?mb) @ replicate (mb_maxcount ?mb + MEMBUFF_STEPS - mb_count ?mb) None\<rparr>"
    note g = mem_grow_ok [OF ok conjunct1 [OF True] conjunct2 [OF True], folded mb'_def]
    have t: "membufftable (set_mem i mb' (tick s)) = (membufftable s)(i := mb')" by simp
    have u: "mem_inv c (set_mem i mb' (tick s)) \<and> mem_holds (set_mem i mb' (tick s)) = mem_holds s"
      using mem_inv_upd [OF assms(1) t g(1)] mem_holds_upd [OF assms(2) t] g(2) mem_holds_at [OF assms(2), of s] by (simp add: fun_upd_idem)
    have "wp (grow_membuff i) Q s \<longleftrightarrow>
        (if d_fails s (d_calls s) then Q () (tick s) else Q () (set_mem i mb' (tick s)))" for Q
      using True by (simp add: grow_membuff_def wps Let_def mb'_def)
    then show ?thesis using same u by simp
  next
    case False
    then have "wp (grow_membuff i) Q s \<longleftrightarrow> Q () s" for Q
      unfolding grow_membuff_def wp_bind wp_get_membuff by (simp only: if_False wp_return)
    then show ?thesis using assms(1) by simp
  qed
qed

lemma mem_put_law:
  assumes "mem_inv c s" "i \<in> buffers" "unat (wr_contest r) < CONTEST_COUNT" "run_state (store_put c i r w) s = ((rc, n), s')"
  shows "mem_inv c s' \<and>
    (rc = 0 \<and> mem_holds s' = (mem_holds s)(i := add_mset r (mem_holds s i)) \<or> rc = -1 \<and> mem_holds s' = mem_holds s)"
proof -
  have "wp (BufferPutMemRecord i r) (\<lambda>x s'. mem_inv c s' \<and>
      (fst x = 0 \<and> mem_holds s' = (mem_holds s)(i := add_mset r (mem_holds s i)) \<or> fst x = -1 \<and> mem_holds s' = mem_holds s)) s"
    unfolding BufferPutMemRecord_def wp_bind
  proof (rule wp_mono [OF mem_grow_law [OF assms(1,2)]], elim conjE)
    fix x s1
    assume iv: "mem_inv c s1" and h: "mem_holds s1 = mem_holds s"
    let ?mb = "membufftable s1 i"
    have ok: "mem_ok ?mb" using iv assms(2) by (simp add: mem_inv_def)
    have tk: "mem_inv c (tick s1)" "mem_holds (tick s1) = mem_holds s"
      using iv h by simp_all
    define mb' where "mb' = ?mb\<lparr>mb_buff := (mb_buff ?mb)[mb_count ?mb := Some r], mb_count := mb_count ?mb + 1\<rparr>"
    have u: "mem_inv c (set_mem i mb' (tick s1)) \<and> mem_holds (set_mem i mb' (tick s1)) = (mem_holds s)(i := add_mset r (mem_holds s i))"
      if "mb_count ?mb < mb_maxcount ?mb"
    proof -
      note p = mem_recs_put [OF ok that assms(3), folded mb'_def]
      have t: "membufftable (set_mem i mb' (tick s1)) = (membufftable s1)(i := mb')" by simp
      show ?thesis using mem_inv_upd [OF iv t p(1)] mem_holds_upd [OF assms(2) t] p(2) mem_holds_at [OF assms(2), of s1] h by simp
    qed
    then show "wp (get_membuff i) (\<lambda>mb. wp (if mb_count mb < mb_maxcount mb then do {
           ok \<leftarrow> io_call;
           if ok then do {
             set_membuff i (mb\<lparr>mb_buff := (mb_buff mb)[mb_count mb := Some r], mb_count := mb_count mb + 1\<rparr>);
             State_Monad.return (0, Some (mb_count mb + 1)) }
           else State_Monad.return (-1, Some 0) }
         else State_Monad.return (-1, Some 0)) (\<lambda>x s'. mem_inv c s' \<and>
      (fst x = 0 \<and> mem_holds s' = (mem_holds s)(i := add_mset r (mem_holds s i)) \<or> fst x = -1 \<and> mem_holds s' = mem_holds s))) s1"
      using iv h tk by (simp add: wps mb'_def)
  qed
  moreover have "run_state (BufferPutMemRecord i r) s = ((rc, n), s')" using assms(1,4) by (simp add: mem_inv_def store_put_def)
  ultimately show ?thesis by (auto dest: wpD)
qed

interpretation memory: work_store "store_get c" "store_put c" CheckExitRequestTriggerNoIO mem_holds "mem_inv c" "\<lambda>_. False"
    "\<lambda>r. unat (wr_contest r) < CONTEST_COUNT"
  for c :: client
proof
  show "mem_inv c s' \<and> (False \<longrightarrow> False) \<and> mem_holds s' = mem_holds s"
    if "mem_inv c s" "run_state CheckExitRequestTriggerNoIO s = (b, s')" for s b s'
    using that check_exit_same [OF that(2)] by simp
qed (use mem_get_law mem_put_law in blast)+

section \<open>Distinct names\<close>

lemma extensions_distinct:
  assumes "p < 7" "q < 7" "map c_tolower (take 3 (ProjectGetFileExtension p)) = map c_tolower (take 3 (ProjectGetFileExtension q))"
  shows "p = q"
proof -
  have "distinct (map (\<lambda>p. map c_tolower (take 3 (ProjectGetFileExtension p))) [0..<7])" by code_simp
  then show ?thesis using assms by (auto simp: distinct_map dest: inj_onD)
qed

lemma length_extension: "length (map c_tolower (take 3 (ProjectGetFileExtension p))) = 3"
  by (auto simp: ProjectGetFileExtension_def nth_Cons' eval_nat_numeral split: if_splits)

definition stem :: "client \<Rightarrow> bool \<Rightarrow> string" where
  "stem c out = (let n = trim_name (if out then out_buffer_basename c else in_buffer_basename c)
     in take 123 (if n = [] then (if out then ''buff-out'' else ''buff-in'') else n))"

lemma buffer_file_stem: "buffer_file c (p, out) = stem c out @ ''.'' @ map c_tolower (take 3 (ProjectGetFileExtension p))"
  by (simp add: buffer_file_def BufferGetDefaultFilename_def stem_def Let_def)

lemma buffer_file_eq:
  assumes "p < 7" "q < 7"
  shows "buffer_file c (p, a) = buffer_file c (q, b) \<longleftrightarrow> stem c a = stem c b \<and> p = q"
proof
  let ?e = "\<lambda>p. map c_tolower (take 3 (ProjectGetFileExtension p))"
  assume e: "buffer_file c (p, a) = buffer_file c (q, b)"
  have "length (''.'' @ ?e p) = length (''.'' @ ?e q)" by (simp only: length_append length_extension)
  then have "stem c a = stem c b \<and> ''.'' @ ?e p = ''.'' @ ?e q"
    using e unfolding buffer_file_stem by (metis append_eq_append_conv)
  then show "stem c a = stem c b \<and> p = q" using extensions_distinct [OF assms] by simp
qed (simp add: buffer_file_stem)

lemma buffers_in_own_files:
  assumes "stem c False \<noteq> stem c True"
  shows "inj_on (buffer_file c) buffers"
proof (rule inj_onI)
  fix i j
  assume ij: "i \<in> buffers" "j \<in> buffers" "buffer_file c i = buffer_file c j"
  obtain p a q b where pq: "i = (p, a)" "j = (q, b)" by (metis prod.exhaust)
  have "p < 7" "q < 7" using ij(1,2) pq by (simp_all add: buffers_def CONTEST_COUNT_def)
  then have "stem c a = stem c b" "p = q" using ij(3) pq by (simp_all add: buffer_file_eq)
  moreover have "a = b" using calculation(1) assms by (cases a; cases b; simp)
  ultimately show "i = j" using pq by simp
qed

section \<open>Properties\<close>

text \<open>A client of either kind, what its buffers hold, and the record of a test work.\<close>

definition store_inv :: "client \<Rightarrow> 'a buffbase_scheme \<Rightarrow> bool" where
  "store_inv c s \<longleftrightarrow> (if nodiskbuffers c then mem_inv c s else disk_inv c s)"

definition held :: "client \<Rightarrow> 'a buffbase_scheme \<Rightarrow> work_record multiset" where
  "held c s = everything (if nodiskbuffers c then mem_holds s else disk_holds c s)"

lemma store_inv_tick: "store_inv c s \<Longrightarrow> store_inv c (tick s) \<and> held c (tick s) = held c s"
  by (simp add: store_inv_def held_def disk_inv_def disk_holds_def cong: if_cong)
    (simp add: disk_holds_def fun_eq_iff everything_def)

lemma store_loop:
  assumes "store_inv c s" "i \<in> buffers"
  shows "\<exists>x s' lost. get_record_loop (store_get c) (store_put c) CheckExitRequestTriggerNoIO bp i s = Some (x, s') \<and>
    store_inv c s' \<and> held c s = held c s' + (if 0 \<le> fst x then {#snd x#} else {#}) + lost \<and>
    (0 \<le> fst x \<longrightarrow> home (snd x) = i \<and> known_state (snd x)) \<and>
    (\<not> nodiskbuffers c \<and> no_fail s \<longrightarrow> no_fail s' \<and> (\<forall>y\<in>#lost. \<not> known_state y))"
proof (cases "nodiskbuffers c")
  case True
  then have "mem_inv c s" using assms(1) by (simp add: store_inv_def)
  from memory.get_record_loop_ok [OF this assms(2), of bp] True show ?thesis
    by (fastforce simp: memory.outcome_def store_inv_def held_def)
next
  case False
  then have "disk_inv c s" using assms(1) by (simp add: store_inv_def)
  from files.get_record_loop_ok [OF this assms(2), of bp] False show ?thesis
    by (fastforce simp: files.outcome_def store_inv_def held_def)
qed

lemma GetBufferRecord_law:
  assumes "store_inv c s" "unat contest < CONTEST_COUNT"
  shows "\<exists>n r s' lost. GetBufferRecord c contest out s = Some ((n, r), s') \<and> store_inv c s' \<and>
    held c s = held c s' + (if 0 \<le> n then {#r#} else {#}) + lost \<and>
    (0 \<le> n \<longrightarrow> home r = (unat contest, out) \<and> known_state r) \<and>
    (\<not> nodiskbuffers c \<and> no_fail s \<longrightarrow> no_fail s' \<and> (\<forall>y\<in>#lost. \<not> known_state y))"
proof (cases "CheckBuffLimits c")
  case True
  then show ?thesis using store_inv_tick [OF assms(1)] by (simp add: GetBufferRecord_def CheckExitRequestTriggerNoIO_def)
next
  case False
  have "(unat contest, out) \<in> buffers" using assms(2) by (simp add: buffers_def)
  from store_loop [OF conjunct1 [OF store_inv_tick [OF assms(1)]] this, of "exit_request s (d_calls s)"]
  obtain x s' lost where l: "get_record_loop (store_get c) (store_put c) CheckExitRequestTriggerNoIO (exit_request s (d_calls s))
      (unat contest, out) (tick s) = Some (x, s')" "store_inv c s'"
    "held c (tick s) = held c s' + (if 0 \<le> fst x then {#snd x#} else {#}) + lost"
    "0 \<le> fst x \<longrightarrow> home (snd x) = (unat contest, out) \<and> known_state (snd x)"
    "\<not> nodiskbuffers c \<and> no_fail (tick s) \<longrightarrow> no_fail s' \<and> (\<forall>y\<in>#lost. \<not> known_state y)" by blast
  obtain n r where x: "x = (n, r)" by (rule prod.exhaust)
  have "GetBufferRecord c contest out s = Some ((n, r), s')"
    using l(1) x False assms(2) by (simp add: GetBufferRecord_def CheckExitRequestTriggerNoIO_def)
  then show ?thesis using l(2-5) x store_inv_tick [OF assms(1)] by auto
qed

text \<open>A client with files for the witnesses, and a state with given files.\<close>

definition test_client :: client where
  "test_client = \<lparr>nodiskbuffers = False, in_buffer_basename = [], out_buffer_basename = [], checkpoint_file = ''ckpt''\<rparr>"

definition test_state :: "(string \<Rightarrow> u8 list option) \<Rightarrow> buffbase" where
  "test_state fs = \<lparr>d_files = fs, d_fails = \<lambda>_. False, d_calls = 0, moo_output_mode = False,
     membufftable = \<lambda>_. \<lparr>mb_count = 0, mb_maxcount = 0, mb_buff = []\<rparr>, exit_request = \<lambda>_. False\<rparr>"

lemma test_state_ok:
  "no_fail (test_state fs)" "stock_disk (test_state (\<lambda>_. None))" "stock_disk (test_state [f \<mapsto> test_record v @ test_record w])"
  "recs (test_state [f \<mapsto> test_record v @ test_record w]) g = (if g = f then [test_record v, test_record w] else [])"
  using test_record_fields(5) [of 0 v]
  by (simp_all add: no_fail_def test_state_def stock_disk_def moo_magic_def moo521_is_header_def test_record_fields
    sizeof_WorkRecord_def recs_def test_file_recs nth_append)

lemma test_client_files: "inj_on (buffer_file test_client) buffers"
  by (rule buffers_in_own_files) (simp add: stem_def test_client_def trim_name_def)

lemma test_state_inv:
  assumes "i \<in> buffers"
  shows "store_inv test_client (test_state [buffer_file test_client i \<mapsto> test_record v @ test_record w])"
    "held test_client (test_state [buffer_file test_client i \<mapsto> test_record v @ test_record w]) = {#test_record v, test_record w#}"
proof -
  let ?s = "test_state [buffer_file test_client i \<mapsto> test_record v @ test_record w]"
  have d: "\<not> nodiskbuffers test_client" by (simp add: test_client_def)
  show "store_inv test_client ?s"
    using d by (auto simp: store_inv_def disk_inv_def test_client_files test_state_ok test_record_storable(2) split: if_splits)
  have "disk_holds test_client ?s j = (if j = i then {#test_record v, test_record w#} else {#})" if "j \<in> buffers" for j
    using that assms test_client_files by (auto simp: disk_holds_at test_state_ok(4) dest: inj_onD)
  then have "everything (disk_holds test_client ?s) = (\<Sum>j\<in>buffers. if j = i then {#test_record v, test_record w#} else {#})"
    unfolding everything_def by (intro sum.cong) simp_all
  then show "held test_client ?s = {#test_record v, test_record w#}" using assms d by (simp add: held_def)
qed

text \<open>C11: \<open>GetBufferRecord\<close> always returns, and neither loses nor invents work. Whichever calls fail, the
  records that the buffers held are those they hold afterwards, the one it returned if it returned
  one, and those it gave up; a record that it returns is of the contest and the state that were
  asked for; and if no call on the files fails it gives up only records of an unknown state.\<close>

theorem GetBufferRecord_conserves:
  assumes "store_inv c s" "unat contest < CONTEST_COUNT"
  shows "\<exists>n r s' lost. GetBufferRecord c contest out s = Some ((n, r), s') \<and> store_inv c s' \<and>
    held c s = held c s' + (if 0 \<le> n then {#r#} else {#}) + lost \<and>
    (0 \<le> n \<longrightarrow> home r = (unat contest, out) \<and> known_state r) \<and>
    (\<not> nodiskbuffers c \<and> no_fail s \<longrightarrow> (\<forall>y\<in>#lost. \<not> known_state y))"
  using GetBufferRecord_law [OF assms, of out] by blast

theorem GetBufferRecord_conserves_witness:
  "\<exists>n r s' lost. GetBufferRecord test_client 5 False
       (test_state [buffer_file test_client (5, False) \<mapsto> test_record 1 @ test_record 0]) = Some ((n, r), s') \<and>
     {#test_record 1, test_record 0#} = held test_client s' + (if 0 \<le> n then {#r#} else {#}) + lost \<and> (\<forall>y\<in>#lost. \<not> known_state y)"
proof -
  have b: "(5, False) \<in> buffers" by (simp add: buffers_def CONTEST_COUNT_def)
  have c: "unat (5 :: u32) < CONTEST_COUNT" "\<not> nodiskbuffers test_client" by (simp_all add: CONTEST_COUNT_def test_client_def)
  show ?thesis
    using GetBufferRecord_conserves [OF test_state_inv(1) [OF b, of 1 0] c(1), of False] c(2)
    unfolding test_state_inv(2) [OF b] by (auto simp: test_state_ok(1))
qed

end
