(* ===== verification/Checkpoint.thy ===== *)
theory Checkpoint
  imports BuffStore
begin

text \<open>
  The checkpoints of \<open>common/checkpt.cpp\<close>, which are buffer files that \<open>BufferImportFileRecords\<close> is
  to bring back, and two faults of the buffers: no file of the client itself can be imported, so
  that opening the checkpoints throws them away, and a client whose two buffers share a file can
  run forever in \<open>GetBufferRecord\<close>.
\<close>

section \<open>The functions\<close>

datatype checkpoint_action = CHECKPOINT_OPEN | CHECKPOINT_REFRESH | CHECKPOINT_CLOSE

text \<open>The name of the checkpoint file without the blanks at its ends, which the code stores back.\<close>

definition checkpoint_name :: "client \<Rightarrow> string" where
  "checkpoint_name client =
     (if nodiskbuffers client then checkpoint_file client
      else rev (dropWhile c_isspace (rev (dropWhile c_isspace (checkpoint_file client)))))"

definition do_checkpoint :: "client \<Rightarrow> bool" where
  "do_checkpoint client \<longleftrightarrow> \<not> nodiskbuffers client \<and> checkpoint_name client \<noteq> [] \<and> checkpoint_name client \<noteq> ''none''"

text \<open>The loop over the problems that saves them; its argument are the records it makes of them.\<close>

fun save_records :: "string \<Rightarrow> work_record list \<Rightarrow> ('a buffpub_scheme, unit) state" where
  "save_records f [] = State_Monad.return ()"
| "save_records f (r # rs) = do {
     BufferPutFileRecord f r False BUFFER_FLAGS_CHECKPOINT;
     save_records f rs }"

text \<open>\<open>CheckpointAction\<close>: the return value is whether checkpoints are off.\<close>

definition CheckpointAction ::
  "client \<Rightarrow> checkpoint_action \<Rightarrow> work_record list \<Rightarrow> 'a buffbase_scheme \<Rightarrow> (bool \<times> 'a buffbase_scheme) option" where
  "CheckpointAction client action snapshots s =
     (let f = checkpoint_name client in
      case (if action = CHECKPOINT_OPEN \<and> do_checkpoint client
            then map_option (\<lambda>(recovered, s). (CHECKPOINT_CLOSE, s)) (BufferImportFileRecords client f s)
            else Some (action, s)) of
        None \<Rightarrow> None
      | Some (action, s) \<Rightarrow>
          let s = (if action \<noteq> CHECKPOINT_OPEN \<and> do_checkpoint client then snd (run_state (BufferZapFileRecords f) s) else s);
              s = (if action = CHECKPOINT_REFRESH \<and> do_checkpoint client then snd (run_state (save_records f snapshots) s) else s)
          in Some (\<not> do_checkpoint client, s))"

section \<open>What an import does\<close>

text \<open>A file of the client does not open with the flag that the import passes.\<close>

lemma import_of_stock_file:
  assumes "stock_disk s"
  shows "\<exists>s'. BufferImportFileRecords c f s = Some (if d_files s f = None then -1 else 0, s') \<and> same s s'"
proof -
  have remote: "wp (stock_get_file f BUFFER_FLAGS_REMOTEBUF) (\<lambda>x s'. x = (-1, [], Some 0) \<and> same s s') s1" if "same s s1" for s1
    using that by (simp add: stock_get_file_def BufferOpenFile_def BUFFER_FLAGS_REMOTEBUF_def wps)
  have "wp (BufferGetFileRecord f BUFFER_FLAGS_REMOTEBUF) (\<lambda>x s'. x = (-1, [], Some 0) \<and> same s s') s"
    unfolding BufferGetFileRecord_def wp_bind
    by (rule wp_mono [OF stock_not_moo [OF assms]]) (simp add: remote)
  then obtain s' where "run_state (BufferGetFileRecord f BUFFER_FLAGS_REMOTEBUF) s = ((-1, [], Some 0), s')" "same s s'"
    by (auto simp: wp_def split: prod.splits)
  then have "import_loop c f 0 0 s = Some ((0, False), s')" by (subst import_loop.simps) simp
  moreover have "run_state (access_ok f) s = (d_files s f \<noteq> None, s)"
    by (simp add: access_ok_def file_content_def State_Monad.bind_def)
  ultimately show ?thesis using \<open>same s s'\<close> by (simp add: BufferImportFileRecords_def)
qed

lemma zap_clears:
  assumes "no_fail s" "run_state (BufferZapFileRecords f) s = (rc, s')"
  shows "recs s' f = [] \<and> frame f s s'"
proof -
  have "wp (BufferZapFileRecords f) (\<lambda>rc s'. recs s' f = [] \<and> frame f s s') s"
    using assms(1) by (simp add: BufferZapFileRecords_def wps recs_def frame_def no_fail_def)
  then show ?thesis using assms(2) by (rule wpD)
qed

lemma save_records_law:
  assumes "stock_disk s" "\<forall>r\<in>set rs. storable r" "no_fail s"
  shows "wp (save_records f rs) (\<lambda>_ s'. stock_disk s' \<and> frame f s s' \<and> mset (recs s' f) = mset (recs s f) + mset rs) s"
  using assms
proof (induction rs arbitrary: s)
  case Nil
  then show ?case by (simp add: wps frame_def)
next
  case (Cons r rs)
  have "storable r" using Cons.prems(2) by simp
  note p = wp_BufferPutFileRecord [OF Cons.prems(1) this, of f False BUFFER_FLAGS_CHECKPOINT]
  have rdy: "ready s BUFFER_FLAGS_CHECKPOINT"
    using Cons.prems(3) by (simp add: ready_def BUFFER_FLAGS_CHECKPOINT_def BUFFER_FLAGS_REMOTEBUF_def)
  show ?case
    unfolding save_records.simps wp_bind
  proof (rule wp_mono [OF p])
    fix x s1
    assume "put_ok s f r False BUFFER_FLAGS_CHECKPOINT x s1"
    then have s1: "stock_disk s1" "frame f s s1" "mset (recs s1 f) = add_mset r (mset (recs s f))"
      using rdy by (auto simp: put_ok_def)
    have "no_fail s1" using frame_no_fail [OF s1(2)] Cons.prems(3) by simp
    from Cons.IH [OF s1(1) _ this] Cons.prems(2)
    show "wp (save_records f rs) (\<lambda>_ s'. stock_disk s' \<and> frame f s s' \<and> mset (recs s' f) = mset (recs s f) + mset (r # rs)) s1"
      using frame_trans [OF s1(2)] s1(3) by (auto elim!: wp_mono)
  qed
qed

lemma zap_stock:
  assumes "stock_disk s" "run_state (BufferZapFileRecords f) s = (rc, s')"
  shows "stock_disk s'"
  using wpD [OF wp_BufferZapFileRecords assms(2)]
proof (elim disjE)
  assume "upd s f None s'"
  then show ?thesis by (rule stock_upd) (use assms(1) in auto)
next
  assume "upd s f (Some []) s'"
  then show ?thesis by (rule stock_upd) (use assms(1) in \<open>auto simp: moo_magic_def\<close>)
qed (use stock_same assms(1) in blast)

section \<open>A loop without end\<close>

text \<open>Two buffers in one file, with two or more finished records and nothing else in it.\<close>

definition trapped :: "client \<Rightarrow> u32 \<Rightarrow> 'a buffbase_scheme \<Rightarrow> bool" where
  "trapped c contest s \<longleftrightarrow> \<not> nodiskbuffers c \<and> unat contest < CONTEST_COUNT \<and>
     buffer_file c (unat contest, True) = buffer_file c (unat contest, False) \<and>
     stock_disk s \<and> no_fail s \<and> (\<forall>n. \<not> exit_request s n) \<and>
     2 \<le> length (recs s (buffer_file c (unat contest, False))) \<and>
     (\<forall>r\<in>set (recs s (buffer_file c (unat contest, False))). storable r \<and> wr_contest r = contest \<and> wr_resultcode r \<in> {1, 2})"

lemma frame_exit: "frame f s s' \<Longrightarrow> exit_request s' = exit_request s"
  by (cases s; cases s'; simp add: frame_def)

lemma exit_request_tick [simp]: "exit_request (tick s) = exit_request s"
  by (cases s) (simp add: tick_def)

lemma trapped_step:
  assumes "trapped c contest s"
  obtains r n s1 s2 where "run_state (store_get c (unat contest, False)) s = ((0, r, Some n), s1)" "0 < n"
    "run_state (accept_record (store_put c) (unat contest, False) r) s1 = (False, s2)" "trapped c contest s2"
proof -
  let ?f = "buffer_file c (unat contest, False)"
  have c: "\<not> nodiskbuffers c" "unat contest < CONTEST_COUNT" "buffer_file c (unat contest, True) = ?f"
    and s: "stock_disk s" "no_fail s" "\<forall>n. \<not> exit_request s n" "2 \<le> length (recs s ?f)"
    and rs: "\<forall>r\<in>set (recs s ?f). storable r \<and> wr_contest r = contest \<and> wr_resultcode r \<in> {1, 2}"
    using assms by (simp_all add: trapped_def)
  obtain rc r n s1 where g: "run_state (BufferGetFileRecord ?f BUFFER_FLAGS_NONE) s = ((rc, r, n), s1)" by (metis prod.exhaust)
  from wpD [OF wp_BufferGetFileRecord [OF s(1)] g] s(2,4)
  have s1: "stock_disk s1" "frame ?f s s1" "rc = 0" "recs s ?f = r # recs s1 ?f"
      "n = Some (length (of_contest (wr_contest r) (recs s1 ?f)))"
    by (auto simp: get_ok_def flags_none_ready)
  have r: "storable r" "wr_contest r = contest" "wr_resultcode r \<in> {1, 2}" using rs s1(4) by auto
  have "of_contest contest (recs s1 ?f) = recs s1 ?f" using rs s1(4) by (simp add: of_contest_def filter_id_conv)
  then have n: "n = Some (length (recs s1 ?f))" "0 < length (recs s1 ?f)" using s1(4,5) s(4) r(2) by auto
  have h: "home r = (unat contest, True)" "known_state r" using r by (auto simp: home_def known_state_def)
  obtain rc' n' s2 where p: "run_state (BufferPutFileRecord ?f r False BUFFER_FLAGS_NONE) s1 = ((rc', n'), s2)" by (metis prod.exhaust)
  have nf: "no_fail s1" using frame_no_fail [OF s1(2)] s(2) by simp
  from wpD [OF wp_BufferPutFileRecord [OF s1(1) r(1)] p] nf
  have s2: "stock_disk s2" "frame ?f s1 s2" "mset (recs s2 ?f) = add_mset r (mset (recs s1 ?f))"
    by (auto simp: put_ok_def flags_none_ready)
  have "set (recs s2 ?f) = set (recs s ?f)" "length (recs s2 ?f) = length (recs s ?f)"
    using s2(3) s1(4) by (metis set_mset_mset mset.simps(2), metis size_mset mset.simps(2))
  then have "trapped c contest s2"
    using assms s2(1) frame_no_fail [OF s2(2)] nf frame_exit [OF s1(2)] frame_exit [OF s2(2)] by (simp add: trapped_def)
  moreover have "run_state (accept_record (store_put c) (unat contest, False) r) s1 = (False, s2)"
    using p h c r(2) by (simp add: accept_record_def store_put_def State_Monad.bind_def)
  moreover have "run_state (store_get c (unat contest, False)) s = ((0, r, n), s1)" using g c(1) s1(3) by (simp add: store_get_def)
  ultimately show ?thesis using that n by blast
qed

lemma trapped_tick: "trapped c contest s \<Longrightarrow> trapped c contest (tick s)"
  by (simp add: trapped_def)

lemma trapped_loops:
  assumes "get_record_loop get put ce bp i s = Some y"
  shows "get = store_get c \<and> put = store_put c \<and> ce = CheckExitRequestTriggerNoIO \<and> i = (unat contest, False) \<longrightarrow> \<not> trapped c contest s"
  using assms
proof (rule get_record_loop.raw_induct [where P = "\<lambda>get put ce bp i s y. get = store_get c \<and> put = store_put c
      \<and> ce = CheckExitRequestTriggerNoIO \<and> i = (unat contest, False) \<longrightarrow> \<not> trapped c contest s", rotated 1], intro impI notI, elim conjE)
  fix loop get put ce bp i s y
  assume IH: "\<And>get put ce bp i s y. loop get put ce bp i s = Some y \<Longrightarrow>
      get = store_get c \<and> put = store_put c \<and> ce = CheckExitRequestTriggerNoIO \<and> i = (unat contest, False) \<longrightarrow> \<not> trapped c contest s"
    and body: "(let ((rc, record, n), s) = run_state (get i) s in
      if rc \<noteq> 0 \<and> rc \<noteq> -123 then Some ((-1, record), s)
      else
        let (ok, s) = (if rc = 0 then run_state (accept_record put i record) s else (False, s)) in
        if ok then Some ((case n of None \<Rightarrow> 0 | Some n \<Rightarrow> int n, record), s)
        else
          let (stop, s) = (if \<not> bp then run_state ce s else (False, s)) in
          if \<not> stop \<and> n \<noteq> Some 0 then loop get put ce bp i s
          else Some ((-1, record), s)) = Some y"
    and t: "trapped c contest s" and eq: "get = store_get c" "put = store_put c" "ce = CheckExitRequestTriggerNoIO" "i = (unat contest, False)"
  obtain r n s1 s2 where st: "run_state (store_get c (unat contest, False)) s = ((0, r, Some n), s1)" "0 < n"
    "run_state (accept_record (store_put c) (unat contest, False) r) s1 = (False, s2)" "trapped c contest s2"
    by (rule trapped_step [OF t])
  have ex: "run_state CheckExitRequestTriggerNoIO s2 = (False, tick s2)"
    using st(4) by (simp add: CheckExitRequestTriggerNoIO_def trapped_def)
  have "loop get put ce bp i (if \<not> bp then tick s2 else s2) = Some y"
    using body st ex unfolding eq by (cases bp) simp_all
  from IH [OF this] show False using st(4) trapped_tick [OF st(4)] eq by (simp split: if_splits)
qed

section \<open>Properties\<close>

text \<open>C14: opening the checkpoints loses the work that was saved in them. A client with checkpoints and
  no failing call saves its problems, and starts again: the import takes nothing over, since the
  flag that it passes is one that the files of the client refuse, and then the checkpoint
  is cut to nothing.\<close>

theorem checkpoint_open_loses_work:
  assumes "do_checkpoint c" "stock_disk s" "no_fail s" "\<forall>r\<in>set ws. storable r"
  shows "\<exists>s1 s2. CheckpointAction c CHECKPOINT_REFRESH ws s = Some (False, s1) \<and>
    mset (recs s1 (checkpoint_name c)) = mset ws \<and>
    CheckpointAction c CHECKPOINT_OPEN [] s1 = Some (False, s2) \<and>
    recs s2 (checkpoint_name c) = [] \<and> (\<forall>g. g \<noteq> checkpoint_name c \<longrightarrow> d_files s2 g = d_files s g)"
proof -
  let ?f = "checkpoint_name c"
  obtain x z where z: "run_state (BufferZapFileRecords ?f) s = (x, z)" by (rule prod.exhaust)
  note zc = zap_clears [OF assms(3) z] and zs = zap_stock [OF assms(2) z]
  have nz: "no_fail z" using frame_no_fail [of ?f s z] zc assms(3) by simp
  obtain u s1 where s1: "run_state (save_records ?f ws) z = (u, s1)" by (rule prod.exhaust)
  from wpD [OF save_records_law [OF zs assms(4) nz] s1] zc
  have l1: "stock_disk s1" "frame ?f z s1" "mset (recs s1 ?f) = mset ws" by simp_all
  have n1: "no_fail s1" using frame_no_fail [OF l1(2)] nz by simp
  have refresh: "CheckpointAction c CHECKPOINT_REFRESH ws s = Some (False, s1)"
    using assms(1) z s1 by (simp add: CheckpointAction_def)
  obtain i s' where imp: "BufferImportFileRecords c ?f s1 = Some (i, s')" "same s1 s'"
    using import_of_stock_file [OF l1(1), of c ?f] by blast
  obtain y s2 where s2: "run_state (BufferZapFileRecords ?f) s' = (y, s2)" by (rule prod.exhaust)
  have "no_fail s'" using n1 frame_no_fail [OF frame_same [OF imp(2)]] by simp
  note zc2 = zap_clears [OF this s2]
  have "CheckpointAction c CHECKPOINT_OPEN [] s1 = Some (False, s2)"
    using assms(1) imp(1) s2 by (simp add: CheckpointAction_def)
  moreover have "frame ?f s s2"
    using zc l1(2) frame_same [OF imp(2)] zc2 frame_trans by blast
  ultimately show ?thesis using refresh l1(3) zc2 by (auto simp: frame_def)
qed

theorem checkpoint_open_loses_work_witness:
  "\<exists>s1 s2. CheckpointAction test_client CHECKPOINT_REFRESH [test_record 0] (test_state (\<lambda>_. None)) = Some (False, s1) \<and>
    recs s1 ''ckpt'' = [test_record 0] \<and>
    CheckpointAction test_client CHECKPOINT_OPEN [] s1 = Some (False, s2) \<and> recs s2 ''ckpt'' = []"
proof -
  have n: "checkpoint_name test_client = ''ckpt''" by (simp add: checkpoint_name_def test_client_def c_isspace_def)
  then have d: "do_checkpoint test_client" by (simp add: do_checkpoint_def) (simp add: test_client_def)
  show ?thesis
    using checkpoint_open_loses_work [OF d test_state_ok(2,1), of "[test_record 0]"] test_record_storable(2) [of 0]
    unfolding n by auto
qed

text \<open>C15: a client can run forever in \<open>GetBufferRecord\<close>. If its buffers of a contest share a file, as
  they do when one has a default name and the other is given that name, which \<open>__CheckBuffLimits\<close>
  does not notice, and the file holds two finished records and no other kind, then the loop takes a
  record, puts it back where it belongs, and goes on with the next.\<close>

theorem GetBufferRecord_hangs:
  assumes "\<not> CheckBuffLimits c" "trapped c contest s"
  shows "GetBufferRecord c contest False s = None"
proof -
  have "get_record_loop (store_get c) (store_put c) CheckExitRequestTriggerNoIO bp (unat contest, False) (tick s) \<noteq> Some y" for bp y
    using trapped_loops [of "store_get c" "store_put c" CheckExitRequestTriggerNoIO bp "(unat contest, False)" "tick s" y c contest]
      trapped_tick [OF assms(2)] by blast
  then have "get_record_loop (store_get c) (store_put c) CheckExitRequestTriggerNoIO bp (unat contest, False) (tick s) = None" for bp
    by (metis option.exhaust)
  moreover have "unat contest < CONTEST_COUNT" using assms(2) by (simp add: trapped_def)
  ultimately show ?thesis using assms(1) by (simp add: GetBufferRecord_def CheckExitRequestTriggerNoIO_def)
qed

theorem GetBufferRecord_hangs_witness:
  "GetBufferRecord (test_client\<lparr>out_buffer_basename := ''buff-in''\<rparr>) 5 False
     (test_state [''buff-in.r72'' \<mapsto> test_record 1 @ test_record 2]) = None"
proof -
  let ?c = "test_client\<lparr>out_buffer_basename := ''buff-in''\<rparr>"
  have f: "buffer_file ?c (5, False) = ''buff-in.r72''" "buffer_file ?c (5, True) = ''buff-in.r72''" "\<not> CheckBuffLimits ?c"
    by code_simp+
  have "trapped ?c 5 (test_state [''buff-in.r72'' \<mapsto> test_record 1 @ test_record 2])"
    using f(1,2) by (simp add: trapped_def test_state_ok test_record_storable test_record_fields CONTEST_COUNT_def)
      (simp add: test_state_def test_client_def)
  then show ?thesis by (rule GetBufferRecord_hangs [OF f(3)])
qed

end
