(* ===== verification/Hyunjin.thy ===== *)
theory Hyunjin
  imports Rc5Core "HOL-Library.Multiset"
begin

text \<open>
  The CUDA core of RC5-72, \<open>src/hyunjin_r72_cuda.cu\<close>, and the function that makes it a core of the
  client, \<open>src/hyunjin_r72.cpp\<close>. A launch runs one thread for every four keys; a thread reports
  matches by \<open>atomicOr\<close> on its word of the results, and the host scans the words. The CUDA runtime is
  a parameter: it says which of its calls fail, by their number in one call of the core, how many
  devices there are, and in what order the atomic operations of all threads of a launch take
  effect. Indices stay below \<open>2 ^ 31\<close>, since a launch has at most 1024 * 65535 threads.
\<close>

section \<open>Device functions\<close>

definition HYUNJIN_PIPELINE :: nat where "HYUNJIN_PIPELINE = 4"
definition HYUNJIN_BLOCK_SIZE :: int where "HYUNJIN_BLOCK_SIZE = 256"
definition MAX_GRID :: int where "MAX_GRID = 65535"
definition RC5_P :: u32 where "RC5_P = 0xB7E15163"
definition RC5_Q :: u32 where "RC5_Q = 0x9E3779B9"

text \<open>The count is an \<open>int\<close> of which only the low five bits matter; here it is the word it was cast from.\<close>

definition hy_rotl :: "u32 \<Rightarrow> u32 \<Rightarrow> u32" where
  "hy_rotl x n = (let n = n AND 31 in if n = 0 then x else shl x (unat n) OR shr x (unat (32 - n)))"

definition hy_bswap32 :: "u32 \<Rightarrow> u32" where
  "hy_bswap32 x = shl (x AND 0x000000FF) 24 OR shl (x AND 0x0000FF00) 8
     OR shr (x AND 0x00FF0000) 8 OR shr (x AND 0xFF000000) 24"

definition hy_increment_l0 :: "key72 \<Rightarrow> u32 \<Rightarrow> key72" where
  "hy_increment_l0 key amount =
     (let Hs = ucast (k_hi key) :: u64;
          M64 = ucast (hy_bswap32 (k_mid key)) :: u64;
          Bs = ucast (hy_bswap32 (k_lo key)) :: u64;
          mask40 = shl 1 40 - 1;
          lo64 = Hs + shl M64 8;
          lo64 = lo64 + ucast amount;
          carry = shr lo64 40;
          lo64 = lo64 AND mask40;
          Bc = Bs + carry
      in \<lparr>k_hi = ucast (lo64 AND 0xFF),
          k_mid = hy_bswap32 (ucast (shr lo64 8 AND 0xFFFFFFFF)),
          k_lo = hy_bswap32 (ucast (Bc AND 0xFFFFFFFF))\<rparr>)"

text \<open>The three parts of the kernel for one key: the table, the 78 steps of the key expansion, of which
  the state is \<open>A\<close>, \<open>B\<close>, \<open>si\<close>, \<open>lj\<close> and the arrays, and the 12 rounds.\<close>

definition hy_table :: "u32 list" where
  "hy_table = map (\<lambda>it. RC5_P + of_nat it * RC5_Q) [0..<26]"

definition hy_expand_step :: "u32 \<times> u32 \<times> nat \<times> nat \<times> u32 list \<times> u32 list
    \<Rightarrow> u32 \<times> u32 \<times> nat \<times> nat \<times> u32 list \<times> u32 list" where
  "hy_expand_step = (\<lambda>(A, B, si, lj, S, L).
     let a_tmp = S ! si + A + B;
         S = S[si := hy_rotl a_tmp 3];
         A = S ! si;
         b_tmp = L ! lj + A + B;
         L = L[lj := hy_rotl b_tmp (A + B)];
         B = L ! lj
     in (A, B, (si + 1) mod 26, (lj + 1) mod 3, S, L))"

definition hy_expand :: "u32 list \<Rightarrow> u32 list \<Rightarrow> u32 list" where
  "hy_expand S L = (case (hy_expand_step ^^ 78) (0, 0, 0, 0, S, L) of (A, B, si, lj, S, L) \<Rightarrow> S)"

definition hy_rounds :: "u32 list \<Rightarrow> u32 \<Rightarrow> u32 \<Rightarrow> u32 \<times> u32" where
  "hy_rounds S plainhi plainlo =
     foldl (\<lambda>(A, B) i.
         let A = hy_rotl (A XOR B) B + S ! (2 + 2 * i);
             B = hy_rotl (B XOR A) A + S ! (3 + 2 * i)
         in (A, B))
       (plainlo + S ! 0, plainhi + S ! 1) [0..<12]"

section \<open>The kernel\<close>

record launch_args =
  la_plain_hi :: u32
  la_plain_lo :: u32
  la_cypher_hi :: u32
  la_cypher_lo :: u32
  la_L0 :: key72
  la_process_amount :: u32

text \<open>What one pass of the loop of a thread does to the results: its calls of \<open>atomicOr\<close>, each a word of
  the results and the bits to set.\<close>

definition kernel_key :: "launch_args \<Rightarrow> nat \<Rightarrow> nat \<Rightarrow> (nat \<times> u32) list" where
  "kernel_key la idx k =
     (let base = of_nat idx * of_nat HYUNJIN_PIPELINE :: u32;
          key = hy_increment_l0 (la_L0 la) (base + of_nat k);
          S = hy_expand hy_table [k_lo key, k_mid key, k_hi key];
          (A, B) = hy_rounds S (la_plain_hi la) (la_plain_lo la)
      in if A = la_cypher_lo la then
           (idx, shl 1 (2 * k)) # (if B = la_cypher_hi la then [(idx, shl 2 (2 * k))] else [])
         else [])"

definition hyunjin_r72_kernel :: "launch_args \<Rightarrow> nat \<Rightarrow> nat \<Rightarrow> nat \<Rightarrow> (nat \<times> u32) list" where
  "hyunjin_r72_kernel la bx bd tx =
     (let idx = bx * bd + tx in
      if int idx \<ge> sint (la_process_amount la) then []
      else concat (map (kernel_key la idx) [0..<HYUNJIN_PIPELINE]))"

definition atomicOr :: "u32 list \<Rightarrow> nat \<times> u32 \<Rightarrow> u32 list" where
  "atomicOr results = (\<lambda>(idx, v). results[idx := results ! idx OR v])"

section \<open>The driver\<close>

text \<open>The CUDA runtime during one call: \<open>gp_fails n\<close> says whether call number \<open>n\<close> fails, and
  \<open>gp_order\<close> puts the atomic operations of a launch in the order in which they take effect.\<close>

record gpu =
  gp_devices :: int
  gp_current :: int
  gp_fails :: "nat \<Rightarrow> bool"
  gp_order :: "(nat \<times> u32) list \<Rightarrow> (nat \<times> u32) list"

text \<open>Choosing the device: \<open>False\<close> is the return of -1. The second result is the number of the next call.\<close>

definition select_device :: "gpu \<Rightarrow> int \<Rightarrow> nat \<Rightarrow> bool \<times> nat" where
  "select_device gpu device n =
     (if gp_fails gpu n \<or> gp_devices gpu \<le> 0 then (False, n + 1)
      else
        let device = (if device < 0 \<or> device \<ge> gp_devices gpu then 0 else device) in
        if gp_fails gpu (n + 1) then (False, n + 2)
        else if gp_current gpu \<noteq> device then (\<not> gp_fails gpu (n + 2), n + 3)
        else (True, n + 2))"

definition threads_per_block :: "int \<Rightarrow> int" where
  "threads_per_block block_size =
     (let nthreads = (if block_size < 32 then HYUNJIN_BLOCK_SIZE else block_size)
      in if nthreads > 1024 then 1024 else nthreads)"

text \<open>The results of a launch on a cleared buffer, all threads of a grid of \<open>grid\<close> blocks.\<close>

definition launch :: "gpu \<Rightarrow> launch_args \<Rightarrow> nat \<Rightarrow> nat \<Rightarrow> u32 list" where
  "launch gpu la grid nthreads =
     foldl atomicOr (replicate (unat (la_process_amount la)) 0)
       (gp_order gpu (concat (map (\<lambda>bx. concat (map (hyunjin_r72_kernel la bx nthreads) [0..<nthreads])) [0..<grid])))"

text \<open>One pass up to the copy of the results: \<open>None\<close> if one of the four calls fails.\<close>

definition run_pass :: "gpu \<Rightarrow> launch_args \<Rightarrow> nat \<Rightarrow> nat \<Rightarrow> nat \<Rightarrow> u32 list option \<times> nat" where
  "run_pass gpu la grid nthreads n =
     (if gp_fails gpu n then (None, n + 1)
      else if gp_fails gpu (n + 1) then (None, n + 2)
      else if gp_fails gpu (n + 2) then (None, n + 3)
      else if gp_fails gpu (n + 3) then (None, n + 4)
      else (Some (launch gpu la grid nthreads), n + 4))"

text \<open>The scan of the results; a key that was found comes with its offset in the pass.\<close>

record scan =
  sc_n_check :: u32
  sc_check :: key72
  sc_found :: "(key72 \<times> int) option"

fun scan_word :: "key72 \<Rightarrow> u32 \<Rightarrow> nat \<Rightarrow> nat list \<Rightarrow> scan \<Rightarrow> scan" where
  "scan_word base h j [] sc = sc"
| "scan_word base h j (k # ks) sc =
     (if h AND shl 1 (2 * k) \<noteq> 0 then
        let offset = HYUNJIN_PIPELINE * j + k;
            c = hy_increment_l0 base (of_nat offset);
            sc = sc\<lparr>sc_n_check := sc_n_check sc + 1, sc_check := c\<rparr>
        in if h AND shl 2 (2 * k) \<noteq> 0 then sc\<lparr>sc_found := Some (c, int offset)\<rparr>
           else scan_word base h j ks sc
      else scan_word base h j ks sc)"

fun scan_results :: "key72 \<Rightarrow> u32 list \<Rightarrow> nat \<Rightarrow> scan \<Rightarrow> scan" where
  "scan_results base [] j sc = sc"
| "scan_results base (h # hs) j sc =
     (if h = 0 then scan_results base hs (Suc j) sc
      else
        let sc = scan_word base h j [0..<HYUNJIN_PIPELINE] sc in
        if sc_found sc \<noteq> None then sc else scan_results base hs (Suc j) sc)"

text \<open>The loop over the passes. Its results are \<open>ret\<close>, \<open>done\<close>, the base key and the scan.\<close>

definition keys_this_pass :: "int \<Rightarrow> int \<Rightarrow> int" where
  "keys_this_pass nthreads remain =
     (if remain > nthreads * MAX_GRID * int HYUNJIN_PIPELINE then nthreads * MAX_GRID * int HYUNJIN_PIPELINE else remain)"

definition nthreads_this_pass :: "int \<Rightarrow> int \<Rightarrow> u32" where
  "nthreads_this_pass nthreads remain =
     of_int ((keys_this_pass nthreads remain + int HYUNJIN_PIPELINE - 1) div int HYUNJIN_PIPELINE)"

lemma threads_per_block_range: "32 \<le> threads_per_block b" "threads_per_block b \<le> 1024"
  by (simp_all add: threads_per_block_def HYUNJIN_BLOCK_SIZE_def Let_def)

lemma keys_this_pass_range:
  assumes "0 < remain"
  shows "1 \<le> keys_this_pass (threads_per_block b) remain" "keys_this_pass (threads_per_block b) remain \<le> 268431360"
    "keys_this_pass (threads_per_block b) remain \<le> remain"
  using assms threads_per_block_range [of b] by (auto simp: keys_this_pass_def MAX_GRID_def HYUNJIN_PIPELINE_def)

lemma nthreads_this_pass_int:
  assumes "0 < remain"
  shows "int (unat (nthreads_this_pass (threads_per_block b) remain)) = (keys_this_pass (threads_per_block b) remain + 3) div 4"
    and "1 \<le> unat (nthreads_this_pass (threads_per_block b) remain)"
    and "unat (nthreads_this_pass (threads_per_block b) remain) \<le> 67107840"
proof -
  define q where "q = (keys_this_pass (threads_per_block b) remain + 3) div 4"
  have q: "1 \<le> q" "q \<le> 67107840" using keys_this_pass_range [OF assms, of b] unfolding q_def by linarith+
  have "nthreads_this_pass (threads_per_block b) remain = of_int q"
    by (simp add: nthreads_this_pass_def HYUNJIN_PIPELINE_def q_def algebra_simps)
  moreover have "uint (of_int q :: u32) = q" using q by (simp add: unsigned_of_int take_bit_int_eq_self)
  ultimately show "int (unat (nthreads_this_pass (threads_per_block b) remain)) = (keys_this_pass (threads_per_block b) remain + 3) div 4"
    "1 \<le> unat (nthreads_this_pass (threads_per_block b) remain)" "unat (nthreads_this_pass (threads_per_block b) remain) \<le> 67107840"
    using q by (simp_all add: q_def [symmetric] unat_eq_nat_uint)
qed

lemma nthreads_pos: "0 < remain \<Longrightarrow> 0 < uint (nthreads_this_pass (threads_per_block b) remain)"
proof -
  assume "0 < remain"
  then have "0 < int (unat (nthreads_this_pass (threads_per_block b) remain))"
    using nthreads_this_pass_int(2) [of remain b] by linarith
  then show ?thesis by simp
qed

function run_loop :: "gpu \<Rightarrow> launch_args \<Rightarrow> int \<Rightarrow> int \<Rightarrow> int \<Rightarrow> key72 \<Rightarrow> nat \<Rightarrow> scan \<Rightarrow> int \<times> int \<times> key72 \<times> scan" where
  "run_loop gpu la block_size iterations_in done base n sc =
     (if done < iterations_in then
        let nthreads = threads_per_block block_size;
            remain = iterations_in - done;
            ntp = nthreads_this_pass nthreads remain;
            grid = (int (unat ntp) + nthreads - 1) div nthreads
        in case run_pass gpu (la\<lparr>la_L0 := base, la_process_amount := ntp\<rparr>) (nat grid) (nat nthreads) n of
             (None, n) \<Rightarrow> (-1, done, base, sc)
           | (Some h_res, n) \<Rightarrow>
               let sc = scan_results base h_res 0 sc in
               if sc_found sc \<noteq> None then (2, done, base, sc)
               else run_loop gpu la block_size iterations_in (done + int (unat ntp) * int HYUNJIN_PIPELINE)
                      (hy_increment_l0 base (ntp * of_nat HYUNJIN_PIPELINE)) n sc
      else (1, done, base, sc))"
  by pat_completeness auto
termination
proof (relation "measure (\<lambda>(gpu, la, b, it, done, base, n, sc). nat (it - done))", goal_cases)
  case (2 gpu la b it "done" base n sc nthreads remain ntp)
  then have "0 < uint ntp" using nthreads_pos [of remain b] by simp
  then show ?case using 2(1) by (simp add: HYUNJIN_PIPELINE_def)
qed simp

declare run_loop.simps [simp del]

record run_result =
  rr_ret :: int
  rr_iterations_out :: int
  rr_n_check :: u32
  rr_check :: key72
  rr_found :: key72
  rr_res_l0 :: key72

definition zero_key72 :: key72 where "zero_key72 = \<lparr>k_hi = 0, k_mid = 0, k_lo = 0\<rparr>"

definition hyunjin_r72_run :: "gpu \<Rightarrow> launch_args \<Rightarrow> int \<Rightarrow> int \<Rightarrow> int \<Rightarrow> run_result" where
  "hyunjin_r72_run gpu la iterations_in device block_size =
     (let result = \<lparr>rr_ret = -1, rr_iterations_out = 0, rr_n_check = 0, rr_check = zero_key72, rr_found = zero_key72,
            rr_res_l0 = la_L0 la\<rparr>;
          (ok, n) = select_device gpu device 0
      in if \<not> ok then result
         else if gp_fails gpu n then result
         else if gp_fails gpu (n + 1) then result
         else case run_loop gpu la block_size iterations_in 0 (la_L0 la) (n + 2)
                \<lparr>sc_n_check = 0, sc_check = zero_key72, sc_found = None\<rparr> of
             (ret, done, base, sc) \<Rightarrow>
               \<lparr>rr_ret = ret,
                rr_iterations_out = (if ret = 1 then done
                  else case sc_found sc of None \<Rightarrow> 0 | Some (c, offset) \<Rightarrow> done + offset),
                rr_n_check = sc_n_check sc, rr_check = sc_check sc,
                rr_found = (case sc_found sc of None \<Rightarrow> zero_key72 | Some (c, offset) \<Rightarrow> c),
                rr_res_l0 = base\<rparr>)"

section \<open>The core of the client\<close>

text \<open>\<open>rc5_72_unit_func_hyunjin\<close> without its banner; the core memory is not used.\<close>

definition rc5_72_unit_func_hyunjin :: "gpu \<Rightarrow> unitwork72 \<Rightarrow> u32 \<Rightarrow> int \<times> unitwork72 \<times> u32" where
  "rc5_72_unit_func_hyunjin gpu w iterations =
     (let r = hyunjin_r72_run gpu \<lparr>la_plain_hi = plain_hi w, la_plain_lo = plain_lo w, la_cypher_hi = cypher_hi w,
            la_cypher_lo = cypher_lo w, la_L0 = L0 w, la_process_amount = 0\<rparr> (uint iterations) 0 256;
          w = (if rr_n_check r \<noteq> 0
               then w\<lparr>check_count := check_count w + rr_n_check r, check_key := rr_check r\<rparr> else w)
      in if rr_ret r = 2 then (rr_ret r, w\<lparr>L0 := rr_found r\<rparr>, of_int (rr_iterations_out r))
         else if rr_ret r = 1 \<or> rr_ret r = 0 then (rr_ret r, w\<lparr>L0 := rr_res_l0 r\<rparr>, of_int (rr_iterations_out r))
         else (rr_ret r, w, iterations))"

end
