(* ===== verification/HyunjinCore.thy ===== *)
theory HyunjinCore
  imports Hyunjin
begin

text \<open>
  The functions of the CUDA core agree with the reference core: the rotation, the key expansion and
  the rounds; and the increment adds to the key number. The words that a launch leaves in its results are
  those that the threads compute one by one, and their bits say which keys match.
\<close>

section \<open>The device functions\<close>

lemma hy_rotl_ROTL: "hy_rotl x n = ROTL x n"
proof (cases "n AND 31 = 0")
  case True
  then show ?thesis
    by (simp add: hy_rotl_def ROTL_def SHL_def SHR_def shl_def shr_def)
next
  case False
  have "unat (n AND 31) < 32" by (simp add: unat_and_31)
  then have "unat (32 - (n AND 31)) = 32 - unat (n AND 31)" by (simp add: unat_minus_u32)
  then show ?thesis using False by (simp add: hy_rotl_def ROTL_def SHL_def SHR_def Let_def)
qed

lemma hy_bswap32_eq: "hy_bswap32 x = bswap32 x"
  by (simp add: hy_bswap32_def bswap32_def)

lemma hy_expand_ref: "hy_expand S L = ref_mix S L"
proof -
  have "hy_expand_step = ref_mix_step"
    by (intro ext) (simp add: hy_expand_step_def hy_rotl_ROTL ROTL3_def Let_def add.assoc split: prod.split)
  then show ?thesis by (simp add: hy_expand_def ref_mix_def)
qed

lemma hy_rounds_ref: "hy_rounds S plainhi plainlo = ref_crypt S plainhi plainlo"
proof -
  have u: "[1..<13] = map Suc [0..<12]" by (simp add: map_Suc_upt)
  have i: "3 + 2 * i = Suc (Suc (Suc (2 * i)))" "2 + 2 * i = Suc (Suc (2 * i))" for i :: nat by simp_all
  show ?thesis
    unfolding hy_rounds_def ref_crypt_def u foldl_map
    by (intro foldl_cong refl) (simp add: hy_rotl_ROTL i split: prod.split)
qed

lemma hy_table_ref: "hy_table = ref_init"
  unfolding ref_init_eq by (simp add: hy_table_def ansi1_key_init_def ansi1_KEY_INIT_def RC5_P_def RC5_Q_def rc5_P_def rc5_Q_def
    upt_rec numeral_nat)

lemma hy_encrypt: "hy_rounds (hy_expand hy_table [k_lo k, k_mid k, k_hi k]) hi lo = rc5_encrypt k hi lo"
  by (simp add: rc5_encrypt_def hy_rounds_ref hy_expand_ref hy_table_ref)

text \<open>The increment adds to the key number, in 64-bit arithmetic that does not wrap.\<close>

lemma unat_ucast_64: "unat (ucast (x :: u32) :: u64) = unat x"
  by (simp add: unsigned_ucast_eq take_bit_nat_eq_self_iff order.strict_trans1 [OF unat_u32_le])

lemma unat_ucast_32: "unat (ucast (x :: u64) :: u32) = unat x mod 2 ^ 32"
  by (simp add: unsigned_ucast_eq take_bit_eq_mod)

lemma unat_and_mask: "unat (x AND mask n) = unat (x :: 'a::len word) mod 2 ^ n"
  unfolding take_bit_eq_mask [symmetric] unsigned_take_bit_eq by (simp only: take_bit_eq_mod)

lemma unat_plus_64: "unat (a :: u64) + unat b < 2 ^ 64 \<Longrightarrow> unat (a + b) = unat a + unat b"
  by (simp add: unat_word_ariths)

lemma hy_increment_val:
  assumes "key_ok k"
  shows "key_ok (hy_increment_l0 k n)" "mangled_val (hy_increment_l0 k n) = (mangled_val k + unat n) mod 2 ^ 72"
proof -
  let ?H = "unat (k_hi k)" and ?M = "unat (bswap32 (k_mid k))" and ?B = "unat (bswap32 (k_lo k))"
  define lo64 :: u64 where "lo64 = ucast (k_hi k) + shl (ucast (bswap32 (k_mid k))) 8 + ucast n"
  define Bc :: u64 where "Bc = ucast (bswap32 (k_lo k)) + shr lo64 40"
  have m: "(0xFF :: u64) = mask 8" "(0xFFFFFFFF :: u64) = mask 32" "shl 1 40 - 1 = (mask 40 :: u64)"
    by (simp_all add: mask_eq_exp_minus_1 shl_def)
  have inc: "hy_increment_l0 k n = \<lparr>k_hi = ucast ((lo64 AND mask 40) AND mask 8),
      k_mid = bswap32 (ucast (shr (lo64 AND mask 40) 8 AND mask 32)), k_lo = bswap32 (ucast (Bc AND mask 32))\<rparr>"
    unfolding hy_increment_l0_def Let_def hy_bswap32_eq m lo64_def Bc_def by (rule refl)
  have lt: "?H < 256" "?M < 2 ^ 32" "?B < 2 ^ 32" "unat n < 2 ^ 32"
    using assms unat_u32_bound [of "bswap32 (k_mid k)"] unat_u32_bound [of "bswap32 (k_lo k)"] unat_u32_bound [of n]
    by (simp_all add: key_ok_def is_byte_iff)
  have sh: "unat (shl (ucast (bswap32 (k_mid k))) 8 :: u64) = ?M * 256"
    using lt(2) by (simp add: unat_shl unat_ucast_64)
  have l: "unat lo64 = ?H + ?M * 256 + unat n"
  proof -
    have "unat (ucast (k_hi k) + shl (ucast (bswap32 (k_mid k))) 8 :: u64) = ?H + ?M * 256"
      using lt(1,2) sh by (subst unat_plus_64) (simp_all add: unat_ucast_64)
    then show ?thesis unfolding lo64_def using lt(1,2,4) by (subst unat_plus_64) (simp_all add: unat_ucast_64)
  qed
  define q where "q = unat lo64"
  have q: "q < 2 ^ 41" unfolding q_def l using lt(1,2,4) by simp
  have bc: "unat Bc = ?B + q div 2 ^ 40"
    unfolding Bc_def using lt(3) q by (subst unat_plus_64) (simp_all add: unat_ucast_64 unat_shr q_def)
  have hi: "unat (ucast ((lo64 AND mask 40) AND mask 8) :: u32) = q mod 2 ^ 40 mod 256"
    by (simp add: unat_ucast_32 unat_and_mask q_def)
  have mid: "unat (ucast (shr (lo64 AND mask 40) 8 AND mask 32) :: u32) = q mod 2 ^ 40 div 256"
  proof -
    have "q mod 2 ^ 40 div 256 < 2 ^ 32" by (simp add: less_mult_imp_div_less)
    then show ?thesis by (simp add: unat_ucast_32 unat_and_mask unat_shr q_def)
  qed
  have lo: "unat (ucast (Bc AND mask 32) :: u32) = (?B + q div 2 ^ 40) mod 2 ^ 32"
    by (simp add: unat_ucast_32 unat_and_mask bc)
  show "key_ok (hy_increment_l0 k n)" by (simp add: inc key_ok_def is_byte_iff hi)
  have "mangled_val (hy_increment_l0 k n) = (?B + q div 2 ^ 40) mod 2 ^ 32 * 2 ^ 40 + q mod 2 ^ 40 div 256 * 256 + q mod 2 ^ 40 mod 256"
    unfolding inc mangled_val_def by (simp only: key72.simps bswap32_bswap32 hi mid lo) simp
  also have "\<dots> = (?B + q div 2 ^ 40) mod 2 ^ 32 * 2 ^ 40 + q mod 2 ^ 40" by (simp add: add.assoc)
  also have "\<dots> = ((?B + q div 2 ^ 40) * 2 ^ 40 + q mod 2 ^ 40) mod 2 ^ 72"
  proof -
    have e: "(a * 2 ^ 40 + b) mod 2 ^ 72 = a mod 2 ^ 32 * 2 ^ 40 + b" if "b < 2 ^ 40" for a b :: nat
    proof -
      have "(a * 2 ^ 40 + b) mod (2 ^ 40 * 2 ^ 32) = 2 ^ 40 * ((a * 2 ^ 40 + b) div 2 ^ 40 mod 2 ^ 32) + (a * 2 ^ 40 + b) mod 2 ^ 40"
        by (rule mod_mult2_eq)
      then show ?thesis using that by (simp add: mult.commute)
    qed
    show ?thesis by (rule e [symmetric]) simp
  qed
  also have "(?B + q div 2 ^ 40) * 2 ^ 40 + q mod 2 ^ 40 = ?B * 2 ^ 40 + q"
    by (simp add: add_mult_distrib add.assoc)
  also have "\<dots> = mangled_val k + unat n" by (simp add: q_def l mangled_val_def)
  finally show "mangled_val (hy_increment_l0 k n) = (mangled_val k + unat n) mod 2 ^ 72" .
qed

lemma hy_increment_nth: "key_ok k \<Longrightarrow> hy_increment_l0 k n = nth_key k (unat n)"
  using hy_increment_val [of k n] nth_key_val [of k "unat n"] by (intro mangled_val_inject) simp_all

section \<open>The results of a launch\<close>

text \<open>A runtime of which no call fails, and which loses no atomic operation.\<close>

definition gpu_ok :: "gpu \<Rightarrow> bool" where
  "gpu_ok gpu \<longleftrightarrow> 0 < gp_devices gpu \<and> (\<forall>n. \<not> gp_fails gpu n) \<and> (\<forall>ops. mset (gp_order gpu ops) = mset ops)"

lemma atomicOr_commute: "atomicOr (atomicOr r a) b = atomicOr (atomicOr r b) a"
proof (cases "fst a < length r \<and> fst a = fst b")
  case True
  then show ?thesis by (cases a; cases b) (simp add: atomicOr_def or.assoc or.commute or.left_commute)
next
  case False
  then show ?thesis by (cases a; cases b) (auto simp: atomicOr_def list_update_swap nth_list_update list_update_beyond)
qed

lemma foldl_atomicOr_order:
  assumes "mset ops = mset ops'"
  shows "foldl atomicOr r ops = foldl atomicOr r ops'"
proof -
  have "fold (\<lambda>x r. atomicOr r x) ops = fold (\<lambda>x r. atomicOr r x) ops'"
    using assms by (intro fold_multiset_equiv) (auto simp: fun_eq_iff atomicOr_commute)
  then show ?thesis by (simp add: foldl_conv_fold)
qed

text \<open>The threads of a grid, numbered through.\<close>

lemma concat_grid: "concat (map (\<lambda>bx. concat (map (\<lambda>tx. f (bx * m + tx)) [0..<m])) [0..<n]) = concat (map f [0..<n * m])"
proof (induction n)
  case (Suc n)
  have u: "[0..<n * m + m] = [0..<n * m] @ map ((+) (n * m)) [0..<m]"
  proof -
    have "(+) (n * m) = (\<lambda>i. i + n * m)" by auto
    then show ?thesis using upt_add_eq_append [of 0 "n * m" m] map_add_upt [of "n * m" m] by (simp add: add.commute)
  qed
  have "map (\<lambda>tx. f (n * m + tx)) [0..<m] = map f (map ((+) (n * m)) [0..<m])" by simp
  then show ?case using Suc by (simp add: u add.commute [of m] del: map_map)
qed simp

definition thread_ops :: "launch_args \<Rightarrow> nat \<Rightarrow> (nat \<times> u32) list" where
  "thread_ops la idx = concat (map (kernel_key la idx) [0..<4])"

definition thread_word :: "launch_args \<Rightarrow> nat \<Rightarrow> u32" where
  "thread_word la idx = foldl (OR) 0 (map snd (thread_ops la idx))"

lemma kernel_key_idx: "x \<in> set (kernel_key la idx k) \<Longrightarrow> fst x = idx"
  by (auto simp: kernel_key_def Let_def split: prod.splits if_splits)

lemma thread_ops_idx: "x \<in> set (thread_ops la idx) \<Longrightarrow> fst x = idx"
  by (auto simp: thread_ops_def dest: kernel_key_idx)

lemma atomicOr_one_word:
  assumes "\<forall>x\<in>set ops. fst x = i" "i < length r"
  shows "foldl atomicOr r ops = r[i := foldl (OR) (r ! i) (map snd ops)]"
  using assms by (induction ops arbitrary: r) (auto simp: atomicOr_def split: prod.split)

lemma atomicOr_threads:
  assumes "m \<le> n"
  shows "foldl atomicOr (replicate n 0) (concat (map (thread_ops la) [0..<m]))
    = map (thread_word la) [0..<m] @ replicate (n - m) 0"
  using assms
proof (induction m)
  case (Suc m)
  let ?r = "map (thread_word la) [0..<m] @ replicate (n - m) 0"
  have l: "m < length ?r" "?r ! m = 0" using Suc.prems by (simp_all add: nth_append)
  have "replicate (n - m) (0 :: u32) = 0 # replicate (n - Suc m) 0"
    using Suc.prems by (metis Suc_diff_Suc Suc_le_lessD replicate_Suc)
  then have u: "?r[m := thread_word la m] = map (thread_word la) [0..<Suc m] @ replicate (n - Suc m) 0"
    by (simp add: list_update_append)
  have "foldl atomicOr (replicate n 0) (concat (map (thread_ops la) [0..<Suc m])) = foldl atomicOr ?r (thread_ops la m)"
    using Suc by simp
  also have "\<dots> = ?r[m := thread_word la m]"
    using atomicOr_one_word [of "thread_ops la m" m ?r] thread_ops_idx l by (simp add: thread_word_def)
  finally show ?case using u by simp
qed simp

lemma kernel_threads:
  assumes "unat (la_process_amount la) < 2 ^ 31"
  shows "hyunjin_r72_kernel la bx bd tx = (if bx * bd + tx < unat (la_process_amount la) then thread_ops la (bx * bd + tx) else [])"
proof -
  have "int (unat (la_process_amount la)) < 2 ^ 31"
    unfolding of_nat_less_numeral_power_cancel_iff by (rule assms)
  then have "sint (la_process_amount la) = int (unat (la_process_amount la))"
    by (simp add: sint_uint signed_take_bit_int_eq_self_iff word_less_nat_alt signed_take_bit_eq_if_positive bit_iff_odd
      take_bit_int_eq_self)
  then have i: "sint (la_process_amount la) \<le> int idx \<longleftrightarrow> unat (la_process_amount la) \<le> idx" for idx
    by (simp only: of_nat_le_iff)
  show ?thesis unfolding hyunjin_r72_kernel_def Let_def i thread_ops_def HYUNJIN_PIPELINE_def by auto
qed

lemma launch_words:
  assumes "\<forall>ops. mset (gp_order gpu ops) = mset ops" "unat (la_process_amount la) < 2 ^ 31"
    and "unat (la_process_amount la) \<le> grid * nthreads"
  shows "launch gpu la grid nthreads = map (thread_word la) [0..<unat (la_process_amount la)]"
proof -
  let ?n = "unat (la_process_amount la)"
  let ?ops = "concat (map (\<lambda>bx. concat (map (hyunjin_r72_kernel la bx nthreads) [0..<nthreads])) [0..<grid])"
  let ?f = "\<lambda>i. if i < ?n then thread_ops la i else []"
  have "?ops = concat (map ?f [0..<grid * nthreads])"
    unfolding kernel_threads [OF assms(2)] by (rule concat_grid)
  also have "[0..<grid * nthreads] = [0..<?n] @ [?n..<grid * nthreads]"
    using assms(3) by (metis le0 le_add_diff_inverse upt_add_eq_append)
  also have "concat (map ?f ([0..<?n] @ [?n..<grid * nthreads])) = concat (map (thread_ops la) [0..<?n])"
  proof -
    have "map ?f [0..<?n] = map (thread_ops la) [0..<?n]" by simp
    moreover have "concat (map ?f [?n..<grid * nthreads]) = []" by simp
    ultimately show ?thesis by (simp only: map_append concat_append append_Nil2)
  qed
  finally have ops: "?ops = concat (map (thread_ops la) [0..<?n])" .
  have "launch gpu la grid nthreads = foldl atomicOr (replicate ?n 0) ?ops"
    unfolding launch_def by (rule foldl_atomicOr_order) (use assms(1) in simp)
  then show ?thesis using atomicOr_threads [of ?n ?n la] ops by simp
qed

section \<open>The bits of a word\<close>

definition partial :: "unitwork72 \<Rightarrow> key72 \<Rightarrow> bool" where
  "partial w k \<longleftrightarrow> fst (rc5_encrypt k (plain_hi w) (plain_lo w)) = cypher_lo w"

lemma hit_partial: "hit w k \<Longrightarrow> partial w k"
  by (simp add: hit_def partial_def)

text \<open>The arguments of a launch for a unit of work, from a base key.\<close>

definition args_of :: "unitwork72 \<Rightarrow> key72 \<Rightarrow> u32 \<Rightarrow> launch_args" where
  "args_of w base n = \<lparr>la_plain_hi = plain_hi w, la_plain_lo = plain_lo w, la_cypher_hi = cypher_hi w,
     la_cypher_lo = cypher_lo w, la_L0 = base, la_process_amount = n\<rparr>"

lemma of_nat_u32: "x < 2 ^ 32 \<Longrightarrow> unat (of_nat x :: u32) = x"
  by (simp add: unat_of_nat)

lemma base_offset:
  assumes "4 * j + k < 2 ^ 32"
  shows "unat (of_nat j * of_nat HYUNJIN_PIPELINE + of_nat k :: u32) = 4 * j + k"
proof -
  have e: "of_nat j * of_nat HYUNJIN_PIPELINE + of_nat k = (of_nat (4 * j + k) :: u32)"
    by (simp add: HYUNJIN_PIPELINE_def)
  show ?thesis unfolding e by (rule of_nat_u32) (use assms in simp)
qed

lemma kernel_key_args:
  assumes "key_ok base" "4 * j + k < 2 ^ 32"
  shows "kernel_key (args_of w base n) j k =
    (let key = nth_key base (4 * j + k) in
     if partial w key then (j, shl 1 (2 * k)) # (if hit w key then [(j, shl 2 (2 * k))] else []) else [])"
proof -
  have "hy_increment_l0 base (of_nat j * of_nat HYUNJIN_PIPELINE + of_nat k) = nth_key base (4 * j + k)"
    using hy_increment_nth [OF assms(1)] base_offset [OF assms(2)] by simp
  then show ?thesis
    by (auto simp: kernel_key_def args_of_def hy_encrypt partial_def hit_def Let_def split: prod.split)
qed

lemma bit_foldl_or: "bit (foldl (OR) (a :: u32) xs) n \<longleftrightarrow> bit a n \<or> (\<exists>x\<in>set xs. bit x n)"
  by (induction xs arbitrary: a) (auto simp: bit_or_iff)

lemma bit_marks:
  assumes "k < 4" "k' < 4"
  shows "bit (shl 1 (2 * k') :: u32) (2 * k) \<longleftrightarrow> k = k'" "bit (shl 2 (2 * k') :: u32) (2 * k + 1) \<longleftrightarrow> k = k'"
    "\<not> bit (shl 1 (2 * k') :: u32) (2 * k + 1)" "\<not> bit (shl 2 (2 * k') :: u32) (2 * k)"
proof -
  have "k \<in> {0, 1, 2, 3}" "k' \<in> {0, 1, 2, 3}" using assms by auto
  then show "bit (shl 1 (2 * k') :: u32) (2 * k) \<longleftrightarrow> k = k'" "bit (shl 2 (2 * k') :: u32) (2 * k + 1) \<longleftrightarrow> k = k'"
    "\<not> bit (shl 1 (2 * k') :: u32) (2 * k + 1)" "\<not> bit (shl 2 (2 * k') :: u32) (2 * k)"
    by (auto simp: bit_shl bit_1_iff bit_numeral_rec)
qed

lemma test_marks:
  "h AND shl 1 (2 * k) = (0 :: u32) \<longleftrightarrow> \<not> bit h (2 * k)" "h AND shl 2 (2 * k) = (0 :: u32) \<longleftrightarrow> \<not> bit h (2 * k + 1)"
proof -
  have "shl 1 (2 * k) = (2 ^ (2 * k) :: u32)" "shl 2 (2 * k) = (2 ^ (2 * k + 1) :: u32)"
    by (simp_all add: shl_def push_bit_eq_mult)
  then show "h AND shl 1 (2 * k) = (0 :: u32) \<longleftrightarrow> \<not> bit h (2 * k)" "h AND shl 2 (2 * k) = (0 :: u32) \<longleftrightarrow> \<not> bit h (2 * k + 1)"
    by (simp_all only: and_exp_eq_0_iff_not_bit)
qed

lemma thread_word_bits:
  assumes "key_ok base" "4 * j + 4 \<le> 2 ^ 32" "k < 4"
  shows "bit (thread_word (args_of w base n) j) (2 * k) \<longleftrightarrow> partial w (nth_key base (4 * j + k))"
    and "bit (thread_word (args_of w base n) j) (2 * k + 1) \<longleftrightarrow> hit w (nth_key base (4 * j + k))"
proof -
  have e: "kernel_key (args_of w base n) j k' = (let key = nth_key base (4 * j + k') in
     if partial w key then (j, shl 1 (2 * k')) # (if hit w key then [(j, shl 2 (2 * k'))] else []) else [])" if "k' < 4" for k'
    using assms(2) that by (intro kernel_key_args [OF assms(1)]) simp
  have "bit (thread_word (args_of w base n) j) m \<longleftrightarrow> (\<exists>k'<4. \<exists>x\<in>set (kernel_key (args_of w base n) j k'). bit (snd x) m)" for m
    by (simp add: thread_word_def thread_ops_def bit_foldl_or) (auto simp: atLeast0LessThan)
  also have "\<dots> m \<longleftrightarrow> (\<exists>k'<4. partial w (nth_key base (4 * j + k')) \<and> (bit (shl 1 (2 * k') :: u32) m
      \<or> hit w (nth_key base (4 * j + k')) \<and> bit (shl 2 (2 * k') :: u32) m))" for m
    by (intro ex_cong1 conj_cong refl) (auto simp: e Let_def)
  finally have b: "bit (thread_word (args_of w base n) j) m \<longleftrightarrow> (\<exists>k'<4. partial w (nth_key base (4 * j + k')) \<and> (bit (shl 1 (2 * k') :: u32) m
      \<or> hit w (nth_key base (4 * j + k')) \<and> bit (shl 2 (2 * k') :: u32) m))" for m .
  show "bit (thread_word (args_of w base n) j) (2 * k) \<longleftrightarrow> partial w (nth_key base (4 * j + k))"
    unfolding b using assms(3) bit_marks [of k] by blast
  show "bit (thread_word (args_of w base n) j) (2 * k + 1) \<longleftrightarrow> hit w (nth_key base (4 * j + k))"
    unfolding b using assms(3) bit_marks [of k] hit_partial by blast
qed

lemma thread_word_zero:
  assumes "key_ok base" "4 * j + 4 \<le> 2 ^ 32" "thread_word (args_of w base n) j = 0" "k < 4"
  shows "\<not> partial w (nth_key base (4 * j + k))"
  using thread_word_bits(1) [OF assms(1,2,4), of w n] assms(3) by simp

section \<open>Properties\<close>

text \<open>C20: the threads of a launch do not interfere: the results do not depend on the order in which their atomic
  operations take effect, and a thread touches only the word with its own number, which is in the buffer.\<close>

theorem kernel_is_race_free:
  assumes "\<forall>ops. mset (gp_order gpu ops) = mset ops" "unat (la_process_amount la) < 2 ^ 31"
  shows "launch gpu la grid nthreads = foldl atomicOr (replicate (unat (la_process_amount la)) 0)
      (concat (map (\<lambda>bx. concat (map (hyunjin_r72_kernel la bx nthreads) [0..<nthreads])) [0..<grid])) \<and>
    (\<forall>bx tx. \<forall>x\<in>set (hyunjin_r72_kernel la bx nthreads tx). fst x = bx * nthreads + tx \<and> fst x < unat (la_process_amount la))"
proof
  show "launch gpu la grid nthreads = foldl atomicOr (replicate (unat (la_process_amount la)) 0)
      (concat (map (\<lambda>bx. concat (map (hyunjin_r72_kernel la bx nthreads) [0..<nthreads])) [0..<grid]))"
    unfolding launch_def by (rule foldl_atomicOr_order) (use assms(1) in simp)
  show "\<forall>bx tx. \<forall>x\<in>set (hyunjin_r72_kernel la bx nthreads tx). fst x = bx * nthreads + tx \<and> fst x < unat (la_process_amount la)"
    using thread_ops_idx [of _ la] by (auto simp: kernel_threads [OF assms(2)] split: if_splits) (metis fst_conv)+
qed

theorem kernel_is_race_free_witness:
  "launch \<lparr>gp_devices = 1, gp_current = 0, gp_fails = \<lambda>_. False, gp_order = rev\<rparr>
     \<lparr>la_plain_hi = 1, la_plain_lo = 2, la_cypher_hi = 3, la_cypher_lo = 4, la_L0 = \<lparr>k_hi = 0, k_mid = 0, k_lo = 0\<rparr>, la_process_amount = 3\<rparr> 2 2
   = foldl atomicOr [0, 0, 0] (concat (map (\<lambda>bx. concat (map (hyunjin_r72_kernel
     \<lparr>la_plain_hi = 1, la_plain_lo = 2, la_cypher_hi = 3, la_cypher_lo = 4, la_L0 = \<lparr>k_hi = 0, k_mid = 0, k_lo = 0\<rparr>, la_process_amount = 3\<rparr>
     bx 2) [0..<2])) [0..<2]))"
proof -
  have r: "replicate (unat (3 :: u32)) (0 :: u32) = [0, 0, 0]"
  proof -
    have "unat (3 :: u32) = Suc (Suc (Suc 0))" by simp
    then show ?thesis by (simp only:) simp
  qed
  show ?thesis
    using kernel_is_race_free [of "\<lparr>gp_devices = 1, gp_current = 0, gp_fails = \<lambda>_. False, gp_order = rev\<rparr>"
     "\<lparr>la_plain_hi = 1, la_plain_lo = 2, la_cypher_hi = 3, la_cypher_lo = 4, la_L0 = \<lparr>k_hi = 0, k_mid = 0, k_lo = 0\<rparr>, la_process_amount = 3\<rparr>" 2 2]
    unfolding launch_args.simps gpu.simps r by simp
qed

end
