(* ===== verification/HyunjinSearch.thy ===== *)
theory HyunjinSearch
  imports HyunjinCore
begin

text \<open>
  The passes of the CUDA core as one search: the scan of the results follows \<open>search\<close> of the keys in
  order, a pass takes the search on by its whole threads, and so does the loop. The last section is
  about a call of the CUDA runtime that fails between two passes.
\<close>

section \<open>The scan\<close>

text \<open>The unit of work with the partial matches of a scan.\<close>

definition counted :: "unitwork72 \<Rightarrow> scan \<Rightarrow> unitwork72" where
  "counted w sc = (if sc_n_check sc = 0 then w
     else w\<lparr>check_count := check_count w + sc_n_check sc, check_key := sc_check sc\<rparr>)"

text \<open>After the first \<open>t\<close> keys: none of them was found, or the one at offset \<open>off\<close> of the pass from \<open>t\<close> on.\<close>

definition going :: "unitwork72 \<Rightarrow> nat \<Rightarrow> scan \<Rightarrow> bool" where
  "going w t sc \<longleftrightarrow> sc_found sc = None \<and> search w (L0 w) t = (counted w sc, None) \<and> unat (sc_n_check sc) \<le> t"

definition ended :: "unitwork72 \<Rightarrow> nat \<Rightarrow> nat \<Rightarrow> scan \<Rightarrow> bool" where
  "ended w t T sc \<longleftrightarrow> (\<exists>off. sc_found sc = Some (nth_key (L0 w) (t + off), int off) \<and> t + off < T \<and>
     search w (L0 w) (t + off + 1) = (counted w sc, Some (t + off)))"

definition count_check :: "key72 \<Rightarrow> scan \<Rightarrow> scan" where
  "count_check c sc = sc\<lparr>sc_n_check := sc_n_check sc + 1, sc_check := c\<rparr>"

lemma check_counted:
  assumes "unat (sc_n_check sc) < 2 ^ 32 - 1"
  shows "check_one (counted w sc) k =
    (if partial w k then (counted w (count_check k sc), hit w k) else (counted w sc, False))"
proof -
  have "sc_n_check sc + 1 \<noteq> 0"
  proof
    assume "sc_n_check sc + 1 = 0"
    then have "unat (sc_n_check sc + 1) = 0" by simp
    then show False using assms by (simp add: unat_plus_u32)
  qed
  then show ?thesis
    by (auto simp: check_one_def counted_def count_check_def partial_def hit_def add.assoc split: prod.splits)
qed

lemma search_one_more:
  assumes "search w (L0 w) t = (w', None)" "check_one w' (nth_key (L0 w) t) = (w'', found)"
  shows "search w (L0 w) (t + 1) = (w'', if found then Some t else None)"
  unfolding search_add [of w "L0 w" t 1] using assms by simp

lemma scan_key:
  assumes "going w t sc" "t < 2 ^ 32 - 1"
  defines "k \<equiv> nth_key (L0 w) t"
  shows "\<not> partial w k \<Longrightarrow> going w (t + 1) sc"
    and "partial w k \<Longrightarrow> \<not> hit w k \<Longrightarrow> going w (t + 1) (count_check k sc)"
    and "hit w k \<Longrightarrow> search w (L0 w) (t + 1) = (counted w (count_check k sc), Some t)"
proof -
  have s: "search w (L0 w) t = (counted w sc, None)" "unat (sc_n_check sc) \<le> t" using assms(1) by (simp_all add: going_def)
  have n: "unat (sc_n_check sc) < 2 ^ 32 - 1" using s(2) assms(2) by linarith
  then have u: "unat (sc_n_check sc + 1) \<le> t + 1" using s(2) by (simp add: unat_plus_u32)
  note c = check_counted [OF n, of w k]
  show "going w (t + 1) sc" if "\<not> partial w k"
    using search_one_more [OF s(1), of "counted w sc" False] c that assms(1) s(2) by (simp add: going_def k_def)
  show "going w (t + 1) (count_check k sc)" if "partial w k" "\<not> hit w k"
    using search_one_more [OF s(1), of "counted w (count_check k sc)" False] c that assms(1) u
    by (simp add: going_def k_def count_check_def)
  show "search w (L0 w) (t + 1) = (counted w (count_check k sc), Some t)" if "hit w k"
    using search_one_more [OF s(1), of "counted w (count_check k sc)" True] c that hit_partial [OF that] by (simp add: k_def)
qed

lemma scan_word_keys:
  assumes "key_ok (L0 w)" "going w (t + (4 * j + i)) sc" "i \<le> 4" "t + (4 * j + 4) < 2 ^ 32"
    and h: "h = thread_word (args_of w (nth_key (L0 w) t) n) j"
  defines "sc' \<equiv> scan_word (nth_key (L0 w) t) h j [i..<4] sc"
  shows "going w (t + (4 * j + 4)) sc' \<or> ended w t (t + (4 * j + 4)) sc'"
  using assms(2,3) unfolding sc'_def
proof (induction "4 - i" arbitrary: i sc)
  case 0
  then show ?case by simp
next
  case (Suc m)
  let ?B = "nth_key (L0 w) t" and ?c = "nth_key (L0 w) (t + (4 * j + i))"
  have i: "i < 4" "[i..<4] = i # [Suc i..<4]" using Suc.hyps(2) by (simp_all add: upt_conv_Cons)
  have tb: "t + (4 * j + i) < 2 ^ 32 - 1" using i(1) assms(4) by linarith
  have B: "key_ok ?B" using assms(1) nth_key_ok by blast
  have bits: "bit h (2 * i) = partial w ?c" "bit h (2 * i + 1) = hit w ?c"
    using thread_word_bits [OF B _ i(1), of j w n] assms(4) by (simp_all add: h nth_key_add)
  have c: "hy_increment_l0 ?B (of_nat (HYUNJIN_PIPELINE * j + i)) = ?c"
    using hy_increment_nth [OF B] of_nat_u32 [of "4 * j + i"] tb by (simp add: HYUNJIN_PIPELINE_def nth_key_add del: of_nat_add of_nat_mult)
  have run: "scan_word ?B h j [i..<4] sc =
    (if partial w ?c then if hit w ?c then (count_check ?c sc)\<lparr>sc_found := Some (?c, int (4 * j + i))\<rparr>
       else scan_word ?B h j [Suc i..<4] (count_check ?c sc)
     else scan_word ?B h j [Suc i..<4] sc)"
    unfolding i(2) scan_word.simps Let_def c test_marks bits by (simp add: count_check_def HYUNJIN_PIPELINE_def)
  note key = scan_key [OF Suc.prems(1) tb]
  show ?case
  proof (cases "hit w ?c")
    case True
    have "ended w t (t + (4 * j + 4)) ((count_check ?c sc)\<lparr>sc_found := Some (?c, int (4 * j + i))\<rparr>)"
      unfolding ended_def using key(3) [OF True] i(1)
      by (intro exI [of _ "4 * j + i"]) (simp add: counted_def add.assoc)
    then show ?thesis using run hit_partial [OF True] True by simp
  next
    case False
    define sc1 where "sc1 = (if partial w ?c then count_check ?c sc else sc)"
    have g: "going w (t + (4 * j + Suc i)) sc1" using key(1,2) False by (simp add: sc1_def)
    have m: "m = 4 - Suc i" "Suc i \<le> 4" using Suc.hyps(2) i(1) by simp_all
    have "scan_word ?B h j [i..<4] sc = scan_word ?B h j [Suc i..<4] sc1" using run False by (simp add: sc1_def)
    then show ?thesis by (simp only:) (rule Suc.hyps(1) [OF m(1) g m(2)])
  qed
qed

lemma going_skip:
  assumes "going w t sc" "\<forall>i<m. \<not> partial w (nth_key (L0 w) (t + i))" "t + m < 2 ^ 32"
  shows "going w (t + m) sc"
  using assms(2,3)
proof (induction m)
  case 0
  then show ?case using assms(1) by simp
next
  case (Suc m)
  then have "going w (t + m) sc" by simp
  from scan_key(1) [OF this] Suc.prems show ?case by simp
qed

lemma scan_results_keys:
  fixes n :: u32
  assumes "key_ok (L0 w)" "going w (t + 4 * j) sc" "t + 4 * (j + m) < 2 ^ 32"
  defines "sc' \<equiv> scan_results (nth_key (L0 w) t) (map (thread_word (args_of w (nth_key (L0 w) t) n)) [j..<j + m]) j sc"
  shows "going w (t + 4 * (j + m)) sc' \<or> ended w t (t + 4 * (j + m)) sc'"
  using assms(2,3) unfolding sc'_def
proof (induction m arbitrary: j sc)
  case 0
  then show ?case by simp
next
  case (Suc m)
  let ?B = "nth_key (L0 w) t"
  define h where "h = thread_word (args_of w ?B n) j"
  define sc1 where "sc1 = (if h = 0 then sc else scan_word ?B h j [0..<4] sc)"
  have B: "key_ok ?B" using assms(1) nth_key_ok by blast
  have u: "[j..<j + Suc m] = j # [Suc j..<Suc j + m]" by (simp add: upt_conv_Cons)
  have run: "scan_results ?B (map (thread_word (args_of w ?B n)) [j..<j + Suc m]) j sc =
      (if h \<noteq> 0 \<and> sc_found sc1 \<noteq> None then sc1
       else scan_results ?B (map (thread_word (args_of w ?B n)) [Suc j..<Suc j + m]) (Suc j) sc1)"
    unfolding u list.map scan_results.simps HYUNJIN_PIPELINE_def h_def [symmetric] by (simp add: sc1_def Let_def)
  have one: "going w (t + (4 * j + 4)) sc1 \<or> h \<noteq> 0 \<and> ended w t (t + (4 * j + 4)) sc1"
  proof (cases "h = 0")
    case True
    have "\<not> partial w (nth_key (L0 w) (t + 4 * j + i))" if "i < 4" for i
      using thread_word_zero [OF B _ True [unfolded h_def] that] Suc.prems(2) by (simp add: nth_key_add add.assoc)
    then show ?thesis using going_skip [OF Suc.prems(1), of 4] Suc.prems(2) True by (simp add: sc1_def add.assoc)
  next
    case False
    have "going w (t + (4 * j + 0)) sc" using Suc.prems(1) by simp
    from scan_word_keys [OF assms(1) this _ _ h_def] Suc.prems(2) False show ?thesis by (simp add: sc1_def)
  qed
  then show ?case
  proof (elim disjE conjE)
    assume g: "going w (t + (4 * j + 4)) sc1"
    then have f: "sc_found sc1 = None" by (simp add: going_def)
    have e: "t + (4 * j + 4) = t + 4 * Suc j" "t + 4 * (j + Suc m) = t + 4 * (Suc j + m)" by simp_all
    show ?thesis
      unfolding run f e(2) by (simp only: simp_thms if_False) (rule Suc.IH [OF g [unfolded e(1)] Suc.prems(2) [unfolded e(2)]])
  next
    assume "h \<noteq> 0" and e: "ended w t (t + (4 * j + 4)) sc1"
    then have "ended w t (t + 4 * (j + Suc m)) sc1" by (fastforce simp: ended_def)
    moreover have "sc_found sc1 \<noteq> None" using e by (auto simp: ended_def)
    ultimately show ?thesis using run \<open>h \<noteq> 0\<close> by simp
  qed
qed

section \<open>The passes\<close>

text \<open>The keys that a call for \<open>n\<close> keys does: whole threads of four.\<close>

definition whole :: "nat \<Rightarrow> nat" where
  "whole n = 4 * ((n + 3) div 4)"

lemma whole_bounds: "n \<le> whole n" "whole n \<le> n + 3" "4 dvd whole n" "4 dvd n \<Longrightarrow> whole n = n" "4 dvd t \<Longrightarrow> t < n \<Longrightarrow> t + whole (n - t) = whole n"
proof -
  show "n \<le> whole n" "whole n \<le> n + 3" "4 dvd whole n" "4 dvd n \<Longrightarrow> whole n = n" unfolding whole_def by presburger+
  show "t + whole (n - t) = whole n" if d: "4 dvd t" "t < n"
  proof -
    obtain q where q: "t = 4 * q" using d(1) by (elim dvdE)
    have "n + 3 = (n - t + 3) + 4 * q" using d(2) q by simp
    then have "(n + 3) div 4 = (n - t + 3) div 4 + q" by presburger
    then show ?thesis by (simp add: whole_def q)
  qed
qed

text \<open>The keys of the next pass.\<close>

lemma pass_keys:
  fixes b :: int
  assumes "t < it" "4 dvd t"
  defines "m \<equiv> unat (nthreads_this_pass (threads_per_block b) (int it - int t))"
  shows "1 \<le> m" "m < 2 ^ 31" "4 dvd t + 4 * m" "t + 4 * m \<le> whole it" "t + 4 * m < it \<or> t + 4 * m = whole it"
proof -
  let ?n = "threads_per_block b" and ?r = "int it - int t"
  have r: "0 < ?r" using assms(1) by simp
  show "1 \<le> m" using nthreads_this_pass_int(2) [OF r] by (simp add: m_def)
  show "m < 2 ^ 31" using nthreads_this_pass_int(3) [OF r, of b] by (simp add: m_def)
  show "4 dvd t + 4 * m" using assms(2) by simp
  have m: "int m = (keys_this_pass ?n ?r + 3) div 4" using nthreads_this_pass_int(1) [OF r] by (simp only: m_def)
  have "t + 4 * m < it \<or> t + 4 * m = whole it"
  proof (cases "?r > ?n * MAX_GRID * int HYUNJIN_PIPELINE")
    case True
    then have "keys_this_pass ?n ?r = 4 * (?n * MAX_GRID)" by (simp add: keys_this_pass_def HYUNJIN_PIPELINE_def)
    then have "int m = ?n * MAX_GRID" using m by simp
    then have "4 * int m < ?r" using True by (simp add: HYUNJIN_PIPELINE_def)
    then show ?thesis by linarith
  next
    case False
    then have "int m = (?r + 3) div 4" using m by (simp add: keys_this_pass_def)
    then have "int m = int ((it - t + 3) div 4)" using assms(1) by (simp add: of_nat_diff zdiv_int)
    then have "4 * m = whole (it - t)" by (simp add: whole_def)
    then show ?thesis using whole_bounds(5) [OF assms(2,1)] by simp
  qed
  then show "t + 4 * m < it \<or> t + 4 * m = whole it" "t + 4 * m \<le> whole it" using whole_bounds(1) [of it] by auto
qed

lemma grid_covers:
  fixes m N :: int
  assumes "0 < N" "0 \<le> m"
  shows "nat m \<le> nat ((m + N - 1) div N) * nat N"
proof -
  have "m \<le> (m + N - 1) div N * N"
    using assms(1) pos_mod_bound [OF assms(1), of "m + N - 1"] div_mult_mod_eq [of "m + N - 1" N] by linarith
  then show ?thesis using assms by (simp add: nat_mult_distrib [symmetric] nat_mono pos_imp_zdiv_nonneg_iff)
qed

lemma run_pass_ok:
  assumes "\<forall>i<4. \<not> gp_fails gpu (n + i)"
  shows "run_pass gpu la grid nthreads n = (Some (launch gpu la grid nthreads), n + 4)"
  using assms [rule_format, of 0] assms [rule_format, of 1] assms [rule_format, of 2] assms [rule_format, of 3]
  by (simp add: run_pass_def)

text \<open>One pass whose calls do not fail.\<close>

lemma run_loop_pass:
  fixes it t n :: nat and b :: int
  defines "m \<equiv> unat (nthreads_this_pass (threads_per_block b) (int it - int t))"
  assumes "\<forall>ops. mset (gp_order gpu ops) = mset ops" "\<forall>i<4. \<not> gp_fails gpu (n + i)" "key_ok (L0 w)" "whole it < 2 ^ 32"
    and "going w t sc" "4 dvd t" "t < it"
  obtains sc' where "going w (t + 4 * m) sc'"
      "run_loop gpu (args_of w x y) b (int it) (int t) (nth_key (L0 w) t) n sc =
       run_loop gpu (args_of w x y) b (int it) (int (t + 4 * m)) (nth_key (L0 w) (t + 4 * m)) (n + 4) sc'"
  | sc' where "ended w t (t + 4 * m) sc'"
      "run_loop gpu (args_of w x y) b (int it) (int t) (nth_key (L0 w) t) n sc = (2, int t, nth_key (L0 w) t, sc')"
proof -
  let ?N = "threads_per_block b" and ?B = "nth_key (L0 w) t"
  define ntp where "ntp = nthreads_this_pass ?N (int it - int t)"
  have m: "unat ntp = m" by (simp add: ntp_def m_def)
  note p = pass_keys [OF assms(8,7), of b, folded m_def]
  define h where "h = launch gpu (args_of w ?B ntp) (nat ((int m + ?N - 1) div ?N)) (nat ?N)"
  have N: "0 < ?N" using threads_per_block_range(1) [of b] by linarith
  have "h = map (thread_word (args_of w ?B ntp)) [0..<m]"
    unfolding h_def using launch_words [OF assms(2), of "args_of w ?B ntp"] p(2) grid_covers [OF N, of "int m"]
    by (simp add: args_of_def m)
  then have h: "scan_results ?B h 0 sc = scan_results ?B (map (thread_word (args_of w ?B ntp)) [0..<0 + m]) 0 sc" by simp
  define sc' where "sc' = scan_results ?B h 0 sc"
  have b: "t + 4 * (0 + m) < 2 ^ 32" using p(4) assms(5) by simp
  have go: "going w (t + 4 * m) sc' \<or> ended w t (t + 4 * m) sc'"
    using scan_results_keys [OF assms(4) _ b, of sc ntp] assms(6) by (simp add: sc'_def h)
  have "4 * m < 2 ^ 32" using b by simp
  then have B: "hy_increment_l0 ?B (ntp * of_nat HYUNJIN_PIPELINE) = nth_key (L0 w) (t + 4 * m)"
    using hy_increment_nth [OF nth_key_ok [OF assms(4)], of t "ntp * of_nat HYUNJIN_PIPELINE"]
    by (simp add: HYUNJIN_PIPELINE_def nth_key_add m unat_word_ariths mult.commute)
  have run: "run_loop gpu (args_of w x y) b (int it) (int t) ?B n sc =
      (if sc_found sc' \<noteq> None then (2, int t, ?B, sc')
       else run_loop gpu (args_of w x y) b (int it) (int (t + 4 * m)) (nth_key (L0 w) (t + 4 * m)) (n + 4) sc')"
  proof -
    have e: "(args_of w x y)\<lparr>la_L0 := ?B, la_process_amount := ntp\<rparr> = args_of w ?B ntp" by (simp add: args_of_def)
    have i: "int t + int m * int HYUNJIN_PIPELINE = int (t + 4 * m)" by (simp add: HYUNJIN_PIPELINE_def mult.commute)
    have "int t < int it" using assms(8) by simp
    then show ?thesis
      by (subst run_loop.simps) (simp only: Let_def if_True ntp_def [symmetric] e run_pass_ok [OF assms(3)] prod.case option.case
        m h_def [symmetric] sc'_def [symmetric] B i)
  qed
  show ?thesis
  proof (cases "sc_found sc'")
    case None
    then have "going w (t + 4 * m) sc'" using go by (auto simp: ended_def)
    then show ?thesis using run None by (intro that(1)) simp_all
  next
    case (Some f)
    then have "ended w t (t + 4 * m) sc'" using go by (auto simp: going_def)
    then show ?thesis using run Some by (intro that(2)) simp_all
  qed
qed

definition loop_end :: "unitwork72 \<Rightarrow> nat \<Rightarrow> int \<times> int \<times> key72 \<times> scan \<Rightarrow> bool" where
  "loop_end w T x \<longleftrightarrow> (case x of (ret, done, base, sc) \<Rightarrow>
     ret = 1 \<and> done = int T \<and> base = nth_key (L0 w) T \<and> going w T sc
   \<or> ret = 2 \<and> (\<exists>s. done = int s \<and> ended w s T sc))"

lemma run_loop_end:
  assumes "gpu_ok gpu" "key_ok (L0 w)" "whole it < 2 ^ 32"
    and "going w t sc" "4 dvd t" "t < it \<or> t = whole it"
  shows "loop_end w (whole it) (run_loop gpu (args_of w x y) b (int it) (int t) (nth_key (L0 w) t) n sc)"
  using assms(4-6)
proof (induction "it - t" arbitrary: t n sc rule: less_induct)
  case less
  show ?case
  proof (cases "t < it")
    case False
    then have "t = whole it" using less.prems(3) by simp
    then show ?thesis using less.prems(1) whole_bounds(1) [of it] by (subst run_loop.simps) (simp add: loop_end_def)
  next
    case True
    define m where "m = unat (nthreads_this_pass (threads_per_block b) (int it - int t))"
    note p = pass_keys [OF True less.prems(2), of b, folded m_def]
    have ok: "\<forall>ops. mset (gp_order gpu ops) = mset ops" "\<forall>i<4. \<not> gp_fails gpu (n + i)" using assms(1) by (simp_all add: gpu_ok_def)
    show ?thesis
    proof (rule run_loop_pass [OF ok assms(2,3) less.prems(1,2) True, of b, folded m_def])
      fix sc'
      assume g: "going w (t + 4 * m) sc'" and run: "run_loop gpu (args_of w x y) b (int it) (int t) (nth_key (L0 w) t) n sc =
       run_loop gpu (args_of w x y) b (int it) (int (t + 4 * m)) (nth_key (L0 w) (t + 4 * m)) (n + 4) sc'"
      have "it - (t + 4 * m) < it - t" using p(1) True by simp
      from less.hyps [OF this g p(3,5)] show ?thesis unfolding run .
    next
      fix sc'
      assume "ended w t (t + 4 * m) sc'" and run: "run_loop gpu (args_of w x y) b (int it) (int t) (nth_key (L0 w) t) n sc = (2, int t, nth_key (L0 w) t, sc')"
      then have "ended w t (whole it) sc'" using p(4) by (fastforce simp: ended_def)
      then show ?thesis unfolding run by (auto simp: loop_end_def)
    qed
  qed
qed

section \<open>The core\<close>

text \<open>What one call of the core does on a runtime without failures.\<close>

theorem hyunjin_search:
  assumes "gpu_ok gpu" "key_ok (L0 w)" "whole (unat it) < 2 ^ 32"
  shows "rc5_72_unit_func_hyunjin gpu w it =
    (case search w (L0 w) (whole (unat it)) of
       (w', None) \<Rightarrow> (1, w'\<lparr>L0 := nth_key (L0 w) (whole (unat it))\<rparr>, of_nat (whole (unat it)))
     | (w', Some d) \<Rightarrow> (2, w'\<lparr>L0 := nth_key (L0 w) d\<rparr>, of_nat d))"
proof -
  let ?T = "whole (unat it)" and ?zero = "\<lparr>sc_n_check = 0, sc_check = zero_key72, sc_found = None\<rparr>"
  obtain n where sel: "select_device gpu 0 0 = (True, n)"
    using assms(1) by (cases "gp_current gpu = 0") (auto simp: select_device_def gpu_ok_def)
  have nf: "\<not> gp_fails gpu i" for i using assms(1) by (simp add: gpu_ok_def)
  have start: "going w 0 ?zero" by (simp add: going_def counted_def)
  have t0: "0 < unat it \<or> 0 = ?T" by (cases "unat it = 0") (simp_all add: whole_def)
  obtain ret fin base sc where run: "run_loop gpu (args_of w (L0 w) 0) 256 (uint it) 0 (L0 w) (n + 2) ?zero = (ret, fin, base, sc)"
    by (metis prod.exhaust)
  have "loop_end w ?T (ret, fin, base, sc)"
    using run_loop_end [OF assms start _ t0, of "L0 w" 0 256 "n + 2"] run by simp
  then consider (none) "ret = 1" "fin = int ?T" "base = nth_key (L0 w) ?T" "going w ?T sc"
    | (found) s where "ret = 2" "fin = int s" "ended w s ?T sc" by (auto simp: loop_end_def)
  then show ?thesis
  proof cases
    case none
    then have "search w (L0 w) ?T = (counted w sc, None)" "sc_found sc = None" by (simp_all add: going_def)
    then show ?thesis using none(1-3) run sel nf
      by (simp add: rc5_72_unit_func_hyunjin_def hyunjin_r72_run_def args_of_def counted_def)
  next
    case found
    then obtain off where off: "sc_found sc = Some (nth_key (L0 w) (s + off), int off)" "s + off < ?T"
      "search w (L0 w) (s + off + 1) = (counted w sc, Some (s + off))" by (auto simp: ended_def)
    have "?T = (s + off + 1) + (?T - (s + off + 1))" using off(2) by simp
    then have "search w (L0 w) ?T = (counted w sc, Some (s + off))"
      using search_add [of w "L0 w" "s + off + 1" "?T - (s + off + 1)"] off(3) by simp
    then show ?thesis using found(1,2) off(1) run sel nf
      by (simp add: rc5_72_unit_func_hyunjin_def hyunjin_r72_run_def args_of_def counted_def)
  qed
qed

section \<open>A call that fails\<close>

text \<open>The keys of a pass of blocks of 256 threads.\<close>

definition full_pass :: nat where "full_pass = 67107840"

text \<open>C21: a failure in the second pass leaves a unit of work that counts the partial matches of the
  first pass but starts at its first key, so the next call counts them again: the result is -1, the
  count of keys is that of the call, and the unit of work is that of a search of the first pass.\<close>

theorem hyunjin_failure_counts_twice:
  assumes "0 < gp_devices gpu" "gp_current gpu = 0" "\<forall>ops. mset (gp_order gpu ops) = mset ops"
    and "\<forall>i<8. \<not> gp_fails gpu i" "gp_fails gpu 8"
    and "key_ok (L0 w)" "full_pass < unat it" "unat it \<le> 2 ^ 32 - 4" "\<forall>d<full_pass. \<not> hit w (nth_key (L0 w) d)"
  shows "rc5_72_unit_func_hyunjin gpu w it = (-1, fst (search w (L0 w) full_pass), it)
    \<and> L0 (fst (search w (L0 w) full_pass)) = L0 w"
proof -
  let ?zero = "\<lparr>sc_n_check = 0, sc_check = zero_key72, sc_found = None\<rparr>"
  have nf: "\<not> gp_fails gpu 0" "\<not> gp_fails gpu 1" "\<not> gp_fails gpu 2" "\<not> gp_fails gpu 3"
    using assms(4) by simp_all
  have sel: "select_device gpu 0 0 = (True, 2)" using assms(1,2) nf by (simp add: select_device_def)
  have T: "whole (unat it) < 2 ^ 32"
  proof -
    obtain q where q: "whole (unat it) = 4 * q" using whole_bounds(3) [of "unat it"] by (elim dvdE)
    have "whole (unat it) \<le> 2 ^ 32 - 4 + 3" using whole_bounds(2) [of "unat it"] assms(8) by linarith
    then show ?thesis using q by simp
  qed
  have tb: "threads_per_block 256 = 256" by (simp add: threads_per_block_def)
  have "256 * MAX_GRID * int HYUNJIN_PIPELINE < int (unat it)"
    using assms(7) by (simp add: full_pass_def MAX_GRID_def HYUNJIN_PIPELINE_def del: of_nat_unat)
  then have "keys_this_pass 256 (int (unat it)) = 67107840"
    by (simp only: keys_this_pass_def if_True) (simp add: MAX_GRID_def HYUNJIN_PIPELINE_def)
  then have m: "4 * unat (nthreads_this_pass (threads_per_block 256) (int (unat it) - int 0)) = full_pass"
    unfolding tb by (simp add: nthreads_this_pass_def full_pass_def HYUNJIN_PIPELINE_def)
  have start: "going w 0 ?zero" by (simp add: going_def counted_def)
  have pos: "0 < unat it" using assms(7) by simp
  have calls: "\<forall>i<4. \<not> gp_fails gpu (4 + i)" using assms(4) by simp
  obtain sc' where run: "going w full_pass sc'" "run_loop gpu (args_of w (L0 w) 0) 256 (int (unat it)) 0 (L0 w) 4 ?zero =
       run_loop gpu (args_of w (L0 w) 0) 256 (int (unat it)) (int full_pass) (nth_key (L0 w) full_pass) 8 sc'"
  proof -
    assume r: "\<And>sc'. going w full_pass sc' \<Longrightarrow> run_loop gpu (args_of w (L0 w) 0) 256 (int (unat it)) 0 (L0 w) 4 ?zero =
       run_loop gpu (args_of w (L0 w) 0) 256 (int (unat it)) (int full_pass) (nth_key (L0 w) full_pass) 8 sc' \<Longrightarrow> thesis"
    have "\<not> ended w 0 full_pass sc'" for sc'
    proof
      assume "ended w 0 full_pass sc'"
      then obtain off where o: "off < full_pass" "search w (L0 w) (off + 1) = (counted w sc', Some off)" by (auto simp: ended_def)
      then have "hit w (nth_key (L0 w) off)" using search_Some [of w "L0 w" "off + 1" off] by simp
      then show False using o(1) assms(9) by blast
    qed
    then show thesis
      using run_loop_pass [OF assms(3) calls assms(6) T start _ pos, of 256 "L0 w" 0, unfolded m] r
      by (simp del: of_nat_unat) blast
  qed
  have fail: "run_loop gpu (args_of w (L0 w) 0) 256 (int (unat it)) (int full_pass) (nth_key (L0 w) full_pass) 8 sc'
      = (-1, int full_pass, nth_key (L0 w) full_pass, sc')"
    using assms(5,7) by (subst run_loop.simps) (simp add: run_pass_def Let_def del: of_nat_unat)
  have s: "search w (L0 w) full_pass = (counted w sc', None)" "sc_found sc' = None" using run(1) by (simp_all add: going_def)
  have "rc5_72_unit_func_hyunjin gpu w it = (-1, counted w sc', it)"
    using run(2) fail sel nf s(2) by (simp add: rc5_72_unit_func_hyunjin_def hyunjin_r72_run_def args_of_def counted_def eval_nat_numeral)
  then show ?thesis using s(1) search_frame [of w "L0 w" full_pass] by (simp add: same_problem_def)
qed

theorem hyunjin_failure_counts_twice_witness:
  "\<exists>w. partial w (L0 w) \<and> rc5_72_unit_func_hyunjin \<lparr>gp_devices = 1, gp_current = 0, gp_fails = \<lambda>n. n = 8, gp_order = \<lambda>ops. ops\<rparr> w 80000000
     = (-1, fst (search w (L0 w) full_pass), 80000000)"
proof -
  let ?k = "\<lparr>k_hi = 0, k_mid = 0, k_lo = 0\<rparr>"
  let ?gpu = "\<lparr>gp_devices = 1, gp_current = 0, gp_fails = \<lambda>n. n = 8, gp_order = \<lambda>ops. ops\<rparr>"
  define enc where "enc d = rc5_encrypt (nth_key ?k d) 1 2" for d
  have "card ((\<lambda>d. snd (enc d)) ` {..<full_pass}) \<le> full_pass" using card_image_le [of "{..<full_pass}"] by simp
  moreover have "full_pass < card (UNIV :: u32 set)" by (simp add: full_pass_def card_word)
  ultimately have "(\<lambda>d. snd (enc d)) ` {..<full_pass} \<noteq> UNIV" by auto
  then obtain c where "c \<notin> (\<lambda>d. snd (enc d)) ` {..<full_pass}" by blast
  then have c: "\<forall>d<full_pass. snd (enc d) \<noteq> c" by blast
  define w where "w = \<lparr>plain_hi = 1, plain_lo = 2, cypher_hi = c, cypher_lo = fst (enc 0), L0 = ?k, check_count = 0, check_key = ?k\<rparr>"
  have n: "\<forall>d<full_pass. \<not> hit w (nth_key (L0 w) d)" using c by (auto simp: hit_def w_def enc_def)
  have "rc5_72_unit_func_hyunjin ?gpu w 80000000 = (-1, fst (search w (L0 w) full_pass), 80000000)
      \<and> L0 (fst (search w (L0 w) full_pass)) = L0 w"
    by (rule hyunjin_failure_counts_twice [OF _ _ _ _ _ _ _ _ n]) (simp_all add: w_def key_ok_def full_pass_def)
  moreover have "partial w (L0 w)" by (simp add: partial_def w_def enc_def)
  ultimately show ?thesis by blast
qed

end
