(* ===== verification/HyunjinClient.thy ===== *)
theory HyunjinClient
  imports HyunjinSearch SelfTest
begin

text \<open>
  The CUDA core as a core of the client: on a runtime without failures it keeps the contract of
  \<open>rc5_72_core\<close>, with any starting key and calls for multiples of four keys, so that what is proved of
  problems with such a core holds for it.
\<close>

section \<open>The core behind its function pointer\<close>

definition gen_of_hyunjin :: "gpu \<Rightarrow> unitwork72 \<Rightarrow> u32 \<Rightarrow> 'm \<Rightarrow> int \<times> unitwork72 \<times> u32 \<times> 'm" where
  "gen_of_hyunjin gpu w it mem = (case rc5_72_unit_func_hyunjin gpu w it of (r, w', it') \<Rightarrow> (r, w', it', mem))"

text \<open>One runtime without failures, and the core on it.\<close>

definition working_gpu :: gpu where
  "working_gpu = \<lparr>gp_devices = 1, gp_current = 0, gp_fails = \<lambda>_. False, gp_order = \<lambda>ops. ops\<rparr>"

definition hyunjin_core :: "unitwork72 \<Rightarrow> u32 \<Rightarrow> resultcode \<times> unitwork72 \<times> u32" where
  "hyunjin_core w it = (case rc5_72_unit_func_hyunjin working_gpu w it of (r, w', it') \<Rightarrow>
     (if r = 2 then RESULT_FOUND else RESULT_NOTHING, w', it'))"

lemma working_gpu_ok: "gpu_ok working_gpu"
  by (simp add: gpu_ok_def working_gpu_def)

lemma launch_gpu:
  assumes "gpu_ok gpu"
  shows "launch gpu la grid nthreads = launch working_gpu la grid nthreads"
  unfolding launch_def by (rule foldl_atomicOr_order) (use assms in \<open>simp add: gpu_ok_def working_gpu_def\<close>)

lemma gpu_pass:
  assumes "gpu_ok gpu"
  shows "run_pass gpu la grid nthreads n = (Some (launch gpu la grid nthreads), n + 4)"
  using assms by (intro run_pass_ok) (simp add: gpu_ok_def)

lemma run_loop_gpu:
  assumes "gpu_ok gpu"
  shows "run_loop gpu la b it t base n sc = run_loop working_gpu la b it t base n' sc"
    and "fst (run_loop gpu la b it t base n sc) \<in> {1, 2}"
proof (induction "nat (it - t)" arbitrary: t base n n' sc rule: less_induct)
  case less
  define m where "m = nthreads_this_pass (threads_per_block b) (it - t)"
  have dec: "nat (it - (t + int (unat m) * int HYUNJIN_PIPELINE)) < nat (it - t)" if "t < it"
    using nthreads_pos [of "it - t" b] that by (simp add: m_def HYUNJIN_PIPELINE_def)
  {
    case 1
    show ?case
      by (subst (1 2) run_loop.simps) (use less(1) dec in \<open>simp add: Let_def m_def [symmetric] gpu_pass [OF assms] gpu_pass [OF working_gpu_ok]
        launch_gpu [OF assms]\<close>)
  next
    case 2
    show ?case
      by (subst run_loop.simps) (use less(2) dec in \<open>simp add: Let_def m_def [symmetric] gpu_pass [OF assms]\<close>)
  }
qed

lemma hyunjin_r72_run_gpu:
  assumes "gpu_ok gpu"
  shows "hyunjin_r72_run gpu la it 0 b = hyunjin_r72_run working_gpu la it 0 b" "rr_ret (hyunjin_r72_run gpu la it 0 b) \<in> {1, 2}"
proof -
  obtain n where sel: "select_device gpu 0 0 = (True, n)"
    using assms by (cases "gp_current gpu = 0") (auto simp: select_device_def gpu_ok_def)
  have sel': "select_device working_gpu 0 0 = (True, 2)" by (simp add: select_device_def working_gpu_def)
  have nf: "\<not> gp_fails gpu i" "\<not> gp_fails working_gpu i" for i using assms by (simp_all add: gpu_ok_def working_gpu_def)
  let ?zero = "\<lparr>sc_n_check = 0, sc_check = zero_key72, sc_found = None\<rparr>"
  obtain ret fin base sc where r: "run_loop gpu la b it 0 (la_L0 la) (n + 2) ?zero = (ret, fin, base, sc)" by (metis prod.exhaust)
  then have r': "run_loop working_gpu la b it 0 (la_L0 la) (2 + 2) ?zero = (ret, fin, base, sc)"
    using run_loop_gpu(1) [OF assms] by metis
  show "hyunjin_r72_run gpu la it 0 b = hyunjin_r72_run working_gpu la it 0 b"
    unfolding hyunjin_r72_run_def Let_def sel sel' prod.case r r' by (simp add: nf)
  show "rr_ret (hyunjin_r72_run gpu la it 0 b) \<in> {1, 2}"
    using run_loop_gpu(2) [OF assms, of la b it 0 "la_L0 la" "n + 2" ?zero] r
    unfolding hyunjin_r72_run_def Let_def sel prod.case by (simp add: nf)
qed

lemma hyunjin_gpu:
  assumes "gpu_ok gpu"
  shows "rc5_72_unit_func_hyunjin gpu w it = rc5_72_unit_func_hyunjin working_gpu w it"
    and "fst (rc5_72_unit_func_hyunjin gpu w it) \<in> {1, 2}"
proof -
  show "rc5_72_unit_func_hyunjin gpu w it = rc5_72_unit_func_hyunjin working_gpu w it"
    unfolding rc5_72_unit_func_hyunjin_def hyunjin_r72_run_gpu(1) [OF assms] ..
  show "fst (rc5_72_unit_func_hyunjin gpu w it) \<in> {1, 2}"
    unfolding rc5_72_unit_func_hyunjin_def Let_def
    using hyunjin_r72_run_gpu(2) [OF assms, of "args_of w (L0 w) 0" "uint it" 256] by (auto simp: args_of_def)
qed

lemma gen_of_hyunjin_core:
  assumes "gpu_ok gpu"
  shows "gen_of_hyunjin gpu = gen_of_core hyunjin_core"
proof (intro ext)
  fix w it and mem :: 'a
  obtain r w' it' where r: "rc5_72_unit_func_hyunjin working_gpu w it = (r, w', it')" by (metis prod.exhaust)
  have "r = 1 \<or> r = 2" using hyunjin_gpu(2) [OF working_gpu_ok, of w it] r by simp
  then show "gen_of_hyunjin gpu w it mem = gen_of_core hyunjin_core w it mem"
    unfolding gen_of_hyunjin_def gen_of_core_def hyunjin_core_def hyunjin_gpu(1) [OF assms] r
    by (auto simp: RES_NOTHING_def RES_FOUND_def)
qed

interpretation hyunjin: rc5_72_core hyunjin_core 1 4
proof
  fix w :: unitwork72 and it :: u32
  assume a: "aligned 1 (L0 w)" "4 dvd unat it"
  have k: "key_ok (L0 w)" using a(1) by (simp add: aligned_def)
  have e: "whole (unat it) = unat it" using whole_bounds(4) [OF a(2)] .
  have "whole (unat it) < 2 ^ 32" unfolding e using unat_u32_bound [of it] by simp
  from hyunjin_search [OF working_gpu_ok k this] show "hyunjin_core w it = search_result 1 w (unat it)"
    unfolding hyunjin_core_def search_result_def e by (auto split: prod.split option.split)
qed simp_all

section \<open>Properties\<close>

text \<open>C9: on a GPU none of whose calls fails, the CUDA core gives exactly the results of the reference
  core for the number of keys rounded up to whole threads of four: the result code, the
  count, and the unit of work with \<open>L0\<close> and the partial matches, whatever the order of the
  atomic operations.\<close>

theorem hyunjin_is_reference:
  assumes "gpu_ok gpu" "key_ok (L0 w)" "unat it \<le> 2 ^ 32 - 4"
  shows "rc5_72_unit_func_hyunjin gpu w it =
    (case rc5_72_unit_func_ansi_ref w (of_nat (4 * ((unat it + 3) div 4))) of (r, w', it') \<Rightarrow> (rescode r, w', it'))"
proof -
  let ?n = "whole (unat it)"
  have n: "?n < 2 ^ 32"
  proof -
    obtain q where q: "?n = 4 * q" using whole_bounds(3) [of "unat it"] by (elim dvdE)
    have "?n \<le> 2 ^ 32 - 4 + 3" using whole_bounds(2) [of "unat it"] assms(3) by linarith
    then show ?thesis using q by simp
  qed
  have u: "unat (of_nat ?n :: u32) = ?n" by (rule of_nat_u32 [OF n])
  have "aligned 1 (L0 w)" using assms(2) by (simp add: aligned_def)
  then have "rc5_72_unit_func_ansi_ref w (of_nat ?n) = search_result 1 w ?n"
    using ref.core_search [of w "of_nat ?n"] by (simp add: u)
  then show ?thesis
    using hyunjin_search [OF assms(1,2) n]
    by (auto simp: whole_def [symmetric] search_result_def RES_NOTHING_def RES_FOUND_def split: prod.splits option.splits)
qed

theorem hyunjin_is_reference_witness:
  "fst (rc5_72_unit_func_hyunjin working_gpu \<lparr>plain_hi = 1, plain_lo = 2, cypher_hi = 3, cypher_lo = 4,
      L0 = \<lparr>k_hi = 255, k_mid = 7, k_lo = 9\<rparr>, check_count = 0, check_key = zero_key72\<rparr> 1) =
   rescode (fst (rc5_72_unit_func_ansi_ref \<lparr>plain_hi = 1, plain_lo = 2, cypher_hi = 3, cypher_lo = 4,
      L0 = \<lparr>k_hi = 255, k_mid = 7, k_lo = 9\<rparr>, check_count = 0, check_key = zero_key72\<rparr> 4))"
proof -
  let ?w = "\<lparr>plain_hi = 1, plain_lo = 2, cypher_hi = 3, cypher_lo = 4,
      L0 = \<lparr>k_hi = 255, k_mid = 7, k_lo = 9\<rparr>, check_count = 0, check_key = zero_key72\<rparr> :: unitwork72"
  have "rc5_72_unit_func_hyunjin working_gpu ?w 1 =
    (case rc5_72_unit_func_ansi_ref ?w (of_nat (4 * ((unat (1 :: u32) + 3) div 4))) of (r, w', it') \<Rightarrow> (rescode r, w', it'))"
    by (rule hyunjin_is_reference [OF working_gpu_ok]) (simp_all add: key_ok_def is_byte_iff)
  then show ?thesis by (simp split: prod.split)
qed

text \<open>C10: the client searches a block of RC5-72 completely with the CUDA core. The statement is that for
  the portable core with four pipelines, but the start position may be any; and the order in which the threads
  of a launch report their matches is free.\<close>

theorem hyunjin_block_is_searched:
  assumes "ProblemLoadState env ex (Work w) RC5_72 n p g = (0, p1, g1)"
    and "sc_use_generic_proto (le_selinfo env)"
    and "gen_72 (sc_unit_func (le_selinfo env)) = gen_of_hyunjin gpu" "gpu_ok gpu"
    and "b = cw_bigcrypto (contestwork (PICKPROB_MAIN p1))"
    and "keysdone b < iterations b" "iterations b + 2 ^ 32 < 2 ^ 64"
    and "(iterations b - keysdone b) div 32 < runs"
  shows "\<exists>r p2 g2. run_repeat runs clocks p1 g1 = (r, p2, g2)
    \<and> search_outcome b r (cw_bigcrypto (contestwork (PICKPROB_MAIN p2)))"
proof -
  have "gen_72 (sc_unit_func (le_selinfo env)) = gen_of_core hyunjin_core"
    using assms(3) gen_of_hyunjin_core [OF assms(4)] by simp
  note ready = hyunjin.load_ready [OF assms(1,2) this assms(5) one_dvd]
  show ?thesis
    using hyunjin.run_repeat_search [OF ready(1) _ ready(2,3) assms(5,6) _ assms(8)] assms(7)
    by fastforce
qed

definition hyunjin_env :: "unit load_env" where
  "hyunjin_env = ansi4_env\<lparr>le_selinfo := (le_selinfo ansi4_env)\<lparr>sc_unit_func := ansi4_funcs\<lparr>gen_72 := gen_of_hyunjin working_gpu\<rparr>\<rparr>\<rparr>"

lemma hyunjin_env_simps [simp]:
  "sc_use_generic_proto (le_selinfo hyunjin_env)"
  "gen_72 (sc_unit_func (le_selinfo hyunjin_env)) = gen_of_hyunjin working_gpu"
  by (simp_all add: hyunjin_env_def)

theorem hyunjin_block_is_searched_witness:
  "\<exists>p1 g1 r p2 g2.
     ProblemLoadState hyunjin_env ansi4_expected (Work small_work) RC5_72 1000 unused_super start_globals = (0, p1, g1)
     \<and> run_repeat 6 (\<lambda>_. idle_clocks) p1 g1 = (r, p2, g2)
     \<and> search_outcome (cw_bigcrypto small_work) r (cw_bigcrypto (contestwork (PICKPROB_MAIN p2)))"
proof -
  obtain p1 g1 where l: "ProblemLoadState hyunjin_env ansi4_expected (Work small_work) RC5_72 1000
      unused_super start_globals = (0, p1, g1)"
    "cw_bigcrypto (contestwork (PICKPROB_MAIN p1)) = cw_bigcrypto small_work"
    by (simp add: ProblemLoadState_def load_begin_def load_finish_def copy_internal_problem_def hyunjin_env_def
      InternalLoadState_def load_rc5_72_def reset_problem_def unused_super_def unused_problem_def
      ansi4_env_def ansi4_expected_def small_work_def zero_bigcrypto_def zero_key_def origin_mismatch_def
      IsProblemLoadPermitted_def MINIMUM_ITERATIONS_def ProblemSetRandomSubspace_def Let_def finish_load_def)
  then show ?thesis
    using hyunjin_block_is_searched [OF l(1) hyunjin_env_simps working_gpu_ok l(2) [symmetric], of 6 "\<lambda>_. idle_clocks"]
    by (auto simp: small_work_vals)
qed

text \<open>C22: the first self-test, the official test case of RSA, is solved by the client with the CUDA core.\<close>

theorem hyunjin_selftest_0:
  assumes "ProblemLoadState env ex (Work (selftest_work 0 rc5_72_test_case_0)) RC5_72 n p g = (0, p1, g1)"
    and "sc_use_generic_proto (le_selinfo env)"
    and "gen_72 (sc_unit_func (le_selinfo env)) = gen_of_hyunjin gpu" "gpu_ok gpu"
  shows "\<exists>p2 g2 m. run_repeat 4097 clocks p1 g1 = (RES_FOUND, p2, g2)
    \<and> plain_val (b_key (cw_bigcrypto (contestwork (PICKPROB_MAIN p2)))) = m
    \<and> 0xC90C0353C0D4E10000 \<le> m \<and> m \<le> 0xC90C0353C0D4E1FE85
    \<and> solves test_bigcrypto m \<and> solves test_bigcrypto 0xC90C0353C0D4E1FE85"
proof -
  have "gen_72 (sc_unit_func (le_selinfo env)) = gen_of_core hyunjin_core"
    using assms(3) gen_of_hyunjin_core [OF assms(4)] by simp
  from hyunjin.test_0_solved [OF assms(1,2) this one_dvd] show ?thesis by simp
qed

theorem hyunjin_selftest_0_witness:
  "\<exists>p1 g1 p2 g2. ProblemLoadState hyunjin_env ansi4_expected (Work (selftest_work 0 rc5_72_test_case_0)) RC5_72 1000
       unused_super start_globals = (0, p1, g1)
     \<and> run_repeat 4097 (\<lambda>_. idle_clocks) p1 g1 = (RES_FOUND, p2, g2)"
proof -
  obtain p1 g1 where l: "ProblemLoadState hyunjin_env ansi4_expected (Work (selftest_work 0 rc5_72_test_case_0)) RC5_72 1000
       unused_super start_globals = (0, p1, g1)"
    by (simp add: ProblemLoadState_def load_begin_def load_finish_def copy_internal_problem_def hyunjin_env_def
      InternalLoadState_def load_rc5_72_def reset_problem_def unused_super_def unused_problem_def
      ansi4_env_def selftest_work_def selftest_key_def rc5_72_test_case_0_def zero_bigcrypto_def
      IsProblemLoadPermitted_def MINIMUM_ITERATIONS_def ProblemSetRandomSubspace_def Let_def finish_load_def)
  then show ?thesis
    using hyunjin_selftest_0 [OF l hyunjin_env_simps working_gpu_ok, of "\<lambda>_. idle_clocks"] by auto
qed

end
