(* ===== verification/Triggers.thy ===== *)
theory Triggers
  imports Prelude "HOL-Library.Signed_Division"
begin

text \<open>
  The requests to exit, to pause and to restart of \<open>common/triggers.cpp\<close>: flags that are set by signals,
  by files, by a change of the ini file, by programs that run, by the loss of mains power and by the
  temperature. The build is one for Linux on AMD64, where signals are handled by \<open>CliSignalHandler\<close> and
  nothing registers a \<open>pollproc\<close>. What a check sees of its environment is a record of answers; the
  messages of the checks are left out. A handler runs between two operations, not inside of one.
\<close>

section \<open>The state\<close>

definition PAUSEFILE_CHECKTIME_WHENON :: int where "PAUSEFILE_CHECKTIME_WHENON = 3"
definition PAUSEFILE_CHECKTIME_WHENOFF :: int where "PAUSEFILE_CHECKTIME_WHENOFF = 3 * PAUSEFILE_CHECKTIME_WHENON"
definition EXITFILE_CHECKTIME :: int where "EXITFILE_CHECKTIME = PAUSEFILE_CHECKTIME_WHENOFF"

definition TRIGSETBY_SIGNAL :: u32 where "TRIGSETBY_SIGNAL = 0x01"
definition TRIGSETBY_FLAGFILE :: u32 where "TRIGSETBY_FLAGFILE = 0x02"
definition TRIGSETBY_CUSTOM :: u32 where "TRIGSETBY_CUSTOM = 0x04"
definition TRIGPAUSEBY_APPACTIVE :: u32 where "TRIGPAUSEBY_APPACTIVE = 0x10"
definition TRIGPAUSEBY_SRCBATTERY :: u32 where "TRIGPAUSEBY_SRCBATTERY = 0x20"
definition TRIGPAUSEBY_CPUTEMP :: u32 where "TRIGPAUSEBY_CPUTEMP = 0x40"

record trigstruct =
  flagfile :: "string option"
  whenon :: int
  whenoff :: int
  incheck :: nat
  trigger :: u32
  laststate :: u32
  nextcheck :: int

datatype signal = SigPause | SigUnpause | SigHup | SigShutdown nat

text \<open>\<open>trigstatics\<close>, with the signals that \<open>CliSignalHandler\<close> gets. The names of programs lie in a buffer
  of 128 characters; \<open>pauseplist\<close> holds their offsets.\<close>

record trigstatics =
  doingmodes :: bool
  exittrig :: trigstruct
  pausetrig :: trigstruct
  huptrig :: trigstruct
  overrideinifiletime :: int
  nextinifilecheck :: int
  currinifiletime :: nat
  inifile :: string
  pauseplistbuffer :: string
  pauseplist :: "nat list"
  lastactivep :: nat
  pause_if_no_mains_power :: bool
  lothresh :: u32
  hithresh :: u32
  marking_high :: bool
  handled :: "signal \<Rightarrow> bool"

text \<open>
  What a check sees: the clock at its three readings, \<open>None\<close> if \<open>CliClock\<close> fails; which files there
  are; the time of the ini file, 0 if \<open>stat\<close> fails; what \<open>utilGetPIDList\<close> returns for a name; the number
  read from \<open>/sys/class/power_supply/AC/online\<close>; and the temperature in hundredths of a Kelvin, which is
  negative where it cannot be read, as on this build.
\<close>

record trig_env =
  te_clock_exit :: "int option"
  te_clock_ini :: "int option"
  te_clock_pause :: "int option"
  te_access :: "string \<Rightarrow> bool"
  te_mtime :: "string \<Rightarrow> nat"
  te_pids :: "string \<Rightarrow> int"
  te_acline :: "int option"
  te_cputemp :: int

section \<open>Raising and clearing\<close>

definition trig_raise :: "trigstruct \<Rightarrow> u32 \<times> trigstruct" where
  "trig_raise trig = (trigger trig, trig\<lparr>trigger := trigger trig OR TRIGSETBY_SIGNAL\<rparr>)"

definition trig_clear :: "trigstruct \<Rightarrow> u32 \<times> trigstruct" where
  "trig_clear trig = (trigger trig, trig\<lparr>trigger := trigger trig AND NOT TRIGSETBY_SIGNAL\<rparr>)"

definition RaiseExitRequestTrigger :: "trigstatics \<Rightarrow> u32 \<times> trigstatics" where
  "RaiseExitRequestTrigger s = (case trig_raise (exittrig s) of (old, t) \<Rightarrow> (old, s\<lparr>exittrig := t\<rparr>))"

definition RaiseRestartRequestTrigger :: "trigstatics \<Rightarrow> u32 \<times> trigstatics" where
  "RaiseRestartRequestTrigger s =
     (let (_, s) = RaiseExitRequestTrigger s; (old, t) = trig_raise (huptrig s) in (old, s\<lparr>huptrig := t\<rparr>))"

definition ClearRestartRequestTrigger :: "trigstatics \<Rightarrow> u32 \<times> trigstatics" where
  "ClearRestartRequestTrigger s = (case trig_clear (huptrig s) of (old, t) \<Rightarrow> (old, s\<lparr>huptrig := t\<rparr>))"

definition RaisePauseRequestTrigger :: "trigstatics \<Rightarrow> u32 \<times> trigstatics" where
  "RaisePauseRequestTrigger s = (case trig_raise (pausetrig s) of (old, t) \<Rightarrow> (old, s\<lparr>pausetrig := t\<rparr>))"

definition ClearPauseRequestTrigger :: "trigstatics \<Rightarrow> u32 \<times> trigstatics" where
  "ClearPauseRequestTrigger s = (case trig_clear (pausetrig s) of (old, t) \<Rightarrow> (old, s\<lparr>pausetrig := t\<rparr>))"

definition CheckExitRequestTriggerNoIO :: "trigstatics \<Rightarrow> u32" where
  "CheckExitRequestTriggerNoIO s = trigger (exittrig s)"

definition CheckPauseRequestTriggerNoIO :: "trigstatics \<Rightarrow> u32" where
  "CheckPauseRequestTriggerNoIO s =
     (trigger (pausetrig s) AND (TRIGSETBY_SIGNAL OR TRIGSETBY_FLAGFILE))
     OR (if trigger (pausetrig s) AND NOT (TRIGSETBY_SIGNAL OR TRIGSETBY_FLAGFILE) \<noteq> 0 then TRIGSETBY_CUSTOM else 0)"

definition CheckRestartRequestTriggerNoIO :: "trigstatics \<Rightarrow> u32" where
  "CheckRestartRequestTriggerNoIO s = trigger (huptrig s)"

text \<open>\<open>CliSignalHandler\<close>: a signal to shut down is ignored from then on.\<close>

definition CliSignalHandler :: "signal \<Rightarrow> trigstatics \<Rightarrow> trigstatics" where
  "CliSignalHandler sig s =
     (case sig of
        SigPause \<Rightarrow> snd (RaisePauseRequestTrigger s)
      | SigUnpause \<Rightarrow> snd (ClearPauseRequestTrigger s)
      | SigHup \<Rightarrow> snd (RaiseRestartRequestTrigger s)
      | SigShutdown n \<Rightarrow>
          let s = snd (ClearRestartRequestTrigger s);
              s = snd (RaiseExitRequestTrigger s)
          in s\<lparr>handled := (handled s)(SigShutdown n := False)\<rparr>)"

section \<open>The checks\<close>

definition PollExternalTrigger :: "(string \<Rightarrow> bool) \<Rightarrow> int option \<Rightarrow> trigstruct \<Rightarrow> bool \<Rightarrow> trigstruct" where
  "PollExternalTrigger access clock trig undoable =
     (case flagfile trig of
        None \<Rightarrow> trig
      | Some f \<Rightarrow>
          if undoable \<or> trigger trig AND TRIGSETBY_FLAGFILE = 0 then
            (case clock of
               None \<Rightarrow> trig
             | Some now \<Rightarrow>
                 if now \<ge> nextcheck trig then
                   if access f
                   then trig\<lparr>nextcheck := now + whenon trig, trigger := trigger trig OR TRIGSETBY_FLAGFILE\<rparr>
                   else trig\<lparr>nextcheck := now + whenoff trig, trigger := trigger trig AND NOT TRIGSETBY_FLAGFILE\<rparr>
                 else trig)
          else trig)"

definition CheckIniFileChangeStuff :: "trig_env \<Rightarrow> trigstatics \<Rightarrow> trigstatics" where
  "CheckIniFileChangeStuff env s =
     (if inifile s = [] then s
      else
        (case te_clock_ini env of
           None \<Rightarrow> s
         | Some now \<Rightarrow>
             if now > nextinifilecheck s then
               let filetime = te_mtime env (inifile s);
                   s = s\<lparr>nextinifilecheck := now + 5\<rparr>
               in
               if filetime = 0 then s
               else if overrideinifiletime s > 0 then
                 s\<lparr>currinifiletime := 0, overrideinifiletime := overrideinifiletime s - 1\<rparr>
               else if currinifiletime s = 0 then s\<lparr>currinifiletime := filetime\<rparr>
               else if currinifiletime s = 1 then
                 (snd (RaiseRestartRequestTrigger s))\<lparr>currinifiletime := 0, nextinifilecheck := now + 60\<rparr>
               else if filetime \<noteq> currinifiletime s then s\<lparr>currinifiletime := 1\<rparr>
               else s
             else s))"

definition OverrideNextConffileChangeTrigger :: "trigstatics \<Rightarrow> int \<times> trigstatics" where
  "OverrideNextConffileChangeTrigger s =
     (overrideinifiletime s + 1, s\<lparr>overrideinifiletime := overrideinifiletime s + 1\<rparr>)"

definition CheckExitRequestTrigger :: "trig_env \<Rightarrow> trigstatics \<Rightarrow> u32 \<times> trigstatics" where
  "CheckExitRequestTrigger env s =
     (let s =
        (if laststate (exittrig s) = 0 \<and> incheck (exittrig s) = 0 then
           let s = s\<lparr>exittrig := (exittrig s)\<lparr>incheck := incheck (exittrig s) + 1\<rparr>\<rparr>;
               s = (if trigger (exittrig s) = 0
                    then s\<lparr>exittrig := PollExternalTrigger (te_access env) (te_clock_exit env) (exittrig s) False\<rparr> else s);
               s = (if trigger (exittrig s) = 0 then CheckIniFileChangeStuff env s else s);
               s = (if trigger (exittrig s) \<noteq> 0 then s\<lparr>exittrig := (exittrig s)\<lparr>laststate := 1\<rparr>\<rparr> else s)
           in s\<lparr>exittrig := (exittrig s)\<lparr>incheck := incheck (exittrig s) - 1\<rparr>\<rparr>
         else s)
      in (trigger (exittrig s), s))"

definition CheckRestartRequestTrigger :: "trig_env \<Rightarrow> trigstatics \<Rightarrow> u32 \<times> trigstatics" where
  "CheckRestartRequestTrigger env s =
     (let (_, s) = CheckExitRequestTrigger env s in (trigger (huptrig s), s))"

text \<open>The name at an offset of the buffer, up to the null character.\<close>

definition plist_name :: "trigstatics \<Rightarrow> nat \<Rightarrow> string" where
  "plist_name s p = takeWhile (\<lambda>c. c \<noteq> CHR 0x00) (drop p (pauseplistbuffer s))"

text \<open>The programs of \<open>CheckPauseRequestTrigger\<close>: the loop over the list, which passes over the one that
  has just been found not to run, and what is done with its result.\<close>

fun scan_plist :: "(string \<Rightarrow> int) \<Rightarrow> nat option \<Rightarrow> nat \<Rightarrow> string list \<Rightarrow> nat option" where
  "scan_plist pids nowcleared idx [] = None"
| "scan_plist pids nowcleared idx (pp # pps) =
     (if Some idx \<noteq> nowcleared \<and> pids pp > 0 then Some idx
      else scan_plist pids nowcleared (idx + 1) pps)"

definition check_programs :: "trig_env \<Rightarrow> trigstatics \<Rightarrow> trigstatics" where
  "check_programs env s =
     (if pauseplist s = [] then s
      else
        let pp = map (plist_name s) (pauseplist s);
            trig = pausetrig s;
            (nowcleared, s) =
              (if trigger trig AND TRIGPAUSEBY_APPACTIVE \<noteq> 0 \<and> te_pids env (pp ! lastactivep s) \<le> 0
               then (Some (lastactivep s),
                     s\<lparr>pausetrig := trig\<lparr>trigger := trigger trig AND NOT TRIGPAUSEBY_APPACTIVE\<rparr>, lastactivep := 0\<rparr>)
               else (None, s));
            trig = pausetrig s
        in
        if trigger trig AND TRIGPAUSEBY_APPACTIVE = 0 then
          (case scan_plist (te_pids env) nowcleared 0 pp of
             None \<Rightarrow> s
           | Some idx \<Rightarrow> s\<lparr>pausetrig := trig\<lparr>trigger := trigger trig OR TRIGPAUSEBY_APPACTIVE\<rparr>, lastactivep := idx\<rparr>)
        else s)"

text \<open>\<open>__IsRunningOnBattery\<close>: 0 is no, 1 is yes, -1 is unknown.\<close>

definition IsRunningOnBattery :: "trig_env \<Rightarrow> trigstatics \<Rightarrow> int" where
  "IsRunningOnBattery env s =
     (if pause_if_no_mains_power s then
        (case te_acline env of
           None \<Rightarrow> -1
         | Some online \<Rightarrow> if online = 1 then 0 else if online = 0 then 1 else -1)
      else -1)"

definition CPUTemperaturePoll :: "trig_env \<Rightarrow> trigstatics \<Rightarrow> int \<times> trigstatics" where
  "CPUTemperaturePoll env s =
     (let lowthresh = sint (lothresh s); highthresh = sint (hithresh s) in
      if lowthresh > 0 \<and> highthresh \<ge> lowthresh then
        if te_cputemp env < 0 then (-1, s)
        else
          let s = (if te_cputemp env \<ge> highthresh then s\<lparr>marking_high := True\<rparr>
                   else if te_cputemp env < lowthresh then s\<lparr>marking_high := False\<rparr> else s)
          in (if marking_high s then 1 else 0, s)
      else if highthresh < lowthresh then (-1, s\<lparr>hithresh := 0, lothresh := 0, marking_high := False\<rparr>)
      else (if marking_high s then 1 else 0, s))"

definition set_pause_bit :: "u32 \<Rightarrow> int \<Rightarrow> trigstatics \<Rightarrow> trigstatics" where
  "set_pause_bit b v s =
     (if v > 0 then s\<lparr>pausetrig := (pausetrig s)\<lparr>trigger := trigger (pausetrig s) OR b\<rparr>\<rparr>
      else if v = 0 then s\<lparr>pausetrig := (pausetrig s)\<lparr>trigger := trigger (pausetrig s) AND NOT b\<rparr>\<rparr>
      else s)"

text \<open>The comparison of \<open>laststate\<close> with \<open>trigger\<close>, one bit at a time.\<close>

definition follow_bit :: "u32 \<Rightarrow> u32 \<Rightarrow> u32 \<Rightarrow> u32" where
  "follow_bit trig seen b =
     (if trig AND b \<noteq> 0 \<and> seen AND b = 0 then seen OR b
      else if trig AND b = 0 \<and> seen AND b \<noteq> 0 then seen AND NOT b
      else seen)"

text \<open>The part of \<open>CheckPauseRequestTrigger\<close> that looks at its environment.\<close>

definition check_conditions :: "trig_env \<Rightarrow> trigstatics \<Rightarrow> trigstatics" where
  "check_conditions env s =
     (let s = check_programs env s;
          s = set_pause_bit TRIGPAUSEBY_SRCBATTERY (IsRunningOnBattery env s) s;
          (cputemp, s) = CPUTemperaturePoll env s;
          s = set_pause_bit TRIGPAUSEBY_CPUTEMP cputemp s
      in s\<lparr>pausetrig := PollExternalTrigger (te_access env) (te_clock_pause env) (pausetrig s) True\<rparr>)"

text \<open>\<open>CheckPauseRequestTrigger\<close>: the second result says whether it calls \<open>RegQueuedPolledProcedures\<close>.\<close>

definition CheckPauseRequestTrigger :: "trig_env \<Rightarrow> trigstatics \<Rightarrow> u32 \<times> bool \<times> trigstatics" where
  "CheckPauseRequestTrigger env s =
     (let (e, s) = CheckExitRequestTrigger env s in
      if e \<noteq> 0 then (0, False, s)
      else if doingmodes s then (0, False, s)
      else
        let s = s\<lparr>pausetrig := (pausetrig s)\<lparr>incheck := incheck (pausetrig s) + 1\<rparr>\<rparr>;
            (released, s) =
              (if incheck (pausetrig s) = 1 then
                 let s = check_conditions env s in
                 if laststate (pausetrig s) \<noteq> trigger (pausetrig s) then
                   let t = trigger (pausetrig s);
                       l = foldl (follow_bit t) (laststate (pausetrig s))
                         [TRIGSETBY_SIGNAL, TRIGSETBY_FLAGFILE, TRIGSETBY_CUSTOM, TRIGPAUSEBY_APPACTIVE,
                          TRIGPAUSEBY_SRCBATTERY, TRIGPAUSEBY_CPUTEMP]
                   in (l = 0, s\<lparr>pausetrig := (pausetrig s)\<lparr>laststate := l\<rparr>\<rparr>)
                 else (False, s)
               else (False, s));
            s = s\<lparr>pausetrig := (pausetrig s)\<lparr>incheck := incheck (pausetrig s) - 1\<rparr>\<rparr>
        in (CheckPauseRequestTriggerNoIO s, released, s))"

section \<open>Start and stop\<close>

definition trigstruct_zero :: trigstruct where
  "trigstruct_zero = \<lparr>flagfile = None, whenon = 0, whenoff = 0, incheck = 0, trigger = 0, laststate = 0, nextcheck = 0\<rparr>"

definition trigstatics_zero :: "(signal \<Rightarrow> bool) \<Rightarrow> trigstatics" where
  "trigstatics_zero h = \<lparr>doingmodes = False, exittrig = trigstruct_zero, pausetrig = trigstruct_zero,
     huptrig = trigstruct_zero, overrideinifiletime = 0, nextinifilecheck = 0, currinifiletime = 0, inifile = [],
     pauseplistbuffer = replicate 128 (CHR 0x00), pauseplist = [], lastactivep = 0, pause_if_no_mains_power = False,
     lothresh = 0, hithresh = 0, marking_high = False, handled = h\<rparr>"

definition DeinitializeTriggers :: "trigstatics \<Rightarrow> u32 \<times> trigstatics" where
  "DeinitializeTriggers s = (trigger (huptrig s), trigstatics_zero (handled s))"

text \<open>The signals to shut down are numbered: \<open>SIGQUIT\<close>, \<open>SIGSTOP\<close>, \<open>SIGABRT\<close>, \<open>SIGTERM\<close> and \<open>SIGINT\<close>.\<close>

definition init_signal_handlers :: "bool \<Rightarrow> trigstatics \<Rightarrow> trigstatics" where
  "init_signal_handlers modes s =
     (let h = (handled s)(SigHup := True);
          h = (if \<not> modes then h(SigPause := True, SigUnpause := True) else h);
          h = (\<lambda>sig. case sig of SigShutdown n \<Rightarrow> n < 5 \<or> h sig | _ \<Rightarrow> h sig)
      in s\<lparr>handled := h\<rparr>)"

text \<open>\<open>_init_trigfile\<close> with a buffer of 128 characters: the name that is left in the buffer, empty if none
  is. \<open>full_path\<close> is \<open>GetFullPathForFilename\<close>.\<close>

definition init_trigfile :: "(string \<Rightarrow> string option) \<Rightarrow> string option \<Rightarrow> string" where
  "init_trigfile full_path fn =
     (case fn of
        None \<Rightarrow> []
      | Some fn \<Rightarrow>
          let fn = trim_end (dropWhile c_isspace fn) in
          if fn \<noteq> [] \<and> length fn < 127 \<and> fn \<noteq> ''none'' then
            (case full_path fn of None \<Rightarrow> [] | Some p \<Rightarrow> if length p < 127 then p else [])
          else [])"

text \<open>The numbers of \<open>_init_cputemp\<close>: the digits before the point with their number, and the two behind
  it with rounding. The arithmetic wraps around at 32 bits.\<close>

definition digit_val :: "char \<Rightarrow> u32" where
  "digit_val c = of_nat (of_char c) - 48"

fun read_digits :: "string \<Rightarrow> u32 \<Rightarrow> nat \<Rightarrow> u32 \<times> nat \<times> string" where
  "read_digits (c # p) val len = (if c_isdigit c then read_digits p (val * 10 + digit_val c) (len + 1) else (val, len, c # p))"
| "read_digits [] val len = (val, len, [])"

definition next_digit :: "u32 \<times> string \<Rightarrow> u32 \<times> string" where
  "next_digit x =
     (let (val, p) = x in
      case p of
        c # p' \<Rightarrow> if c_isdigit c then (val * 10 + digit_val c, p') else (val * 10, p)
      | [] \<Rightarrow> (val * 10, p))"

definition read_fraction :: "u32 \<Rightarrow> string \<Rightarrow> u32 \<times> string" where
  "read_fraction val p =
     (let (val, p) = next_digit (next_digit (val, p));
          (val, p) =
            (case p of
               c # p' \<Rightarrow> if c_isdigit c \<and> (53::nat) \<le> of_char c then (val + 1, p') else (val, p)
             | [] \<Rightarrow> (val, p))
      in (val, dropWhile c_isdigit p))"

text \<open>The unit behind a number.\<close>

definition scale :: "u32 \<Rightarrow> string \<Rightarrow> u32 \<times> string" where
  "scale val p =
     (case p of
        c # p' \<Rightarrow>
          if c \<in> set ''FfRr'' then
            let val = (if c \<in> set ''Rr'' then val - 45967 else val);
                val = of_int (sint ((val - 3200) * 5) sdiv 9) + 27315
            in (val, p')
          else if c \<in> set ''Cc'' then (val + 27315, p')
          else if c \<in> set ''Kk'' then (val, p')
          else (val, p)
      | [] \<Rightarrow> (val, p))"

text \<open>One pass of the loop: \<open>Inl True\<close> is the return for a number that is no good, \<open>Inl False\<close> the \<open>break\<close> at the
  end of the text.\<close>

definition read_temp :: "string \<Rightarrow> bool + u32 \<times> string" where
  "read_temp p =
     (let p = dropWhile c_isspace p in
      if p = [] then Inl False
      else
        let neg = (hd p = CHR ''-'');
            p = (if hd p = CHR ''-'' \<or> hd p = CHR ''+'' then tl p else p);
            (val, len, p) = read_digits p 0 0
        in
        if len = 0 then Inl True
        else
          case (case p of
                  c # p' \<Rightarrow>
                    if c = CHR ''.'' then
                      if p' \<noteq> [] \<and> c_isdigit (hd p') then Some (read_fraction val p') else None
                    else Some (val * 100, p)
                | [] \<Rightarrow> Some (val * 100, p)) of
            None \<Rightarrow> Inl True
          | Some (val, p) \<Rightarrow>
              let val = (if neg then - val else val);
                  (val, p) = scale val (dropWhile c_isspace p)
              in if sint val < 0 then Inl True else Inr (val, dropWhile c_isspace p))"

text \<open>Both passes: \<open>None\<close> is a return from inside of the loop, and an absent number stays at -1.\<close>

definition read_temps :: "string \<Rightarrow> (u32 \<times> u32) option" where
  "read_temps p =
     (case read_temp p of
        Inl bad \<Rightarrow> if bad then None else Some (-1, -1)
      | Inr (k0, p) \<Rightarrow>
          (case p of
             c # p' \<Rightarrow>
               if c = CHR '':'' then
                 (case read_temp p' of
                    Inl bad \<Rightarrow> if bad then None else Some (k0, -1)
                  | Inr (k1, _) \<Rightarrow> Some (k0, k1))
               else Some (k0, -1)
           | [] \<Rightarrow> Some (k0, -1)))"

definition init_cputemp :: "string \<Rightarrow> trigstatics \<Rightarrow> trigstatics" where
  "init_cputemp p s =
     (let s = s\<lparr>hithresh := 0, lothresh := 0, marking_high := False\<rparr> in
      case read_temps p of
        None \<Rightarrow> s
      | Some (k0, k1) \<Rightarrow>
          if sint k0 > 1 then
            let (k0, k1) = (if sint k1 < 0 then (k0 - of_int (sint k0 sdiv 10), k0) else (k0, k1))
            in s\<lparr>lothresh := k0, hithresh := k1\<rparr>
          else s)"

text \<open>\<open>_init_pauseplist\<close>: the names between bars, without the blanks at their ends. The loop stops at a
  name that does not fit into the rest of the buffer, and after 15 names.\<close>

definition plist_sep :: "char \<Rightarrow> bool" where
  "plist_sep c \<longleftrightarrow> c_isspace c \<or> c = CHR ''|''"

lemma plist_progress:
  assumes "dropWhile plist_sep p \<noteq> []"
  shows "length (dropWhile (\<lambda>c. c \<noteq> CHR ''|'') (dropWhile plist_sep p)) < length p"
proof -
  obtain c q where cq: "dropWhile plist_sep p = c # q" using assms by (cases "dropWhile plist_sep p") auto
  then have "\<not> plist_sep c" by (simp add: dropWhile_eq_Cons_conv)
  then have "c \<noteq> CHR ''|''" by (auto simp: plist_sep_def)
  then have "length (dropWhile (\<lambda>c. c \<noteq> CHR ''|'') (c # q)) \<le> length q" by (simp add: length_dropWhile_le)
  also have "\<dots> < length (dropWhile plist_sep p)" using cq by simp
  also have "\<dots> \<le> length p" by (rule length_dropWhile_le)
  finally show ?thesis using cq by simp
qed

function init_plist_loop :: "string \<Rightarrow> nat \<Rightarrow> string \<Rightarrow> nat list \<Rightarrow> string \<times> nat list" where
  "init_plist_loop p wpos buf names =
     (let p = dropWhile plist_sep p in
      if p = [] then (buf, names)
      else
        let name = trim_end (takeWhile (\<lambda>c. c \<noteq> CHR ''|'') p);
            p = dropWhile (\<lambda>c. c \<noteq> CHR ''|'') p;
            len = length name
        in
        if len = 0 then init_plist_loop p wpos buf names
        else if wpos + len \<ge> 128 - 2 then (buf, names)
        else
          let buf = take wpos buf @ name @ [CHR 0x00] @ drop (wpos + len + 1) buf;
              names = names @ [wpos]
          in if length names = 15 then (buf, names)
             else init_plist_loop p (wpos + len + 1) buf names)"
  by pat_completeness auto
termination
  by (relation "measure (\<lambda>(p, wpos, buf, names). length p)") (auto simp: plist_progress)

declare init_plist_loop.simps [simp del]

definition init_pauseplist :: "string \<Rightarrow> trigstatics \<Rightarrow> trigstatics" where
  "init_pauseplist plist s =
     (let (buf, names) = init_plist_loop plist 0 (pauseplistbuffer s) []
      in s\<lparr>pauseplistbuffer := buf, pauseplist := names\<rparr>)"

text \<open>The arguments of \<open>InitializeTriggers\<close>.\<close>

record trig_args =
  ta_doingmodes :: bool
  ta_exitfile :: "string option"
  ta_pausefile :: "string option"
  ta_pauseplist :: string
  ta_restartoninichange :: bool
  ta_inifile :: "string option"
  ta_watchcputempthresh :: bool
  ta_cputempthresh :: "string option"
  ta_pauseifnomainspower :: bool

definition flag_name :: "string \<Rightarrow> string option" where
  "flag_name buffer = (if buffer = [] then None else Some buffer)"

definition InitializeTriggers :: "(string \<Rightarrow> string option) \<Rightarrow> trig_args \<Rightarrow> trigstatics \<Rightarrow> trigstatics" where
  "InitializeTriggers full_path a s =
     (let s = trigstatics_zero (handled s);
          s = s\<lparr>exittrig := (exittrig s)\<lparr>whenon := 0, whenoff := EXITFILE_CHECKTIME\<rparr>,
                pausetrig := (pausetrig s)\<lparr>whenon := PAUSEFILE_CHECKTIME_WHENON, whenoff := PAUSEFILE_CHECKTIME_WHENOFF\<rparr>\<rparr>;
          s = init_signal_handlers (ta_doingmodes a) s;
          s = s\<lparr>doingmodes := ta_doingmodes a\<rparr>
      in
      if ta_doingmodes a then s
      else
        let s = s\<lparr>exittrig := (exittrig s)\<lparr>flagfile := flag_name (init_trigfile full_path (ta_exitfile a))\<rparr>,
                  pausetrig := (pausetrig s)\<lparr>flagfile := flag_name (init_trigfile full_path (ta_pausefile a))\<rparr>\<rparr>;
            s = (if ta_restartoninichange a \<and> ta_inifile a \<noteq> None
                 then s\<lparr>inifile := init_trigfile full_path (ta_inifile a)\<rparr> else s);
            s = init_pauseplist (ta_pauseplist a) s;
            s = (case ta_cputempthresh a of Some t \<Rightarrow> if ta_watchcputempthresh a then init_cputemp t s else s | None \<Rightarrow> s)
        in s\<lparr>pause_if_no_mains_power := ta_pauseifnomainspower a\<rparr>)"

text \<open>The client between \<open>InitializeTriggers\<close> and \<open>DeinitializeTriggers\<close>: signals for which the handler is
  installed, the checks, and the calls of other parts of the client.\<close>

inductive trig_step :: "trigstatics \<Rightarrow> trigstatics \<Rightarrow> bool" where
  signal: "handled s sig \<Longrightarrow> trig_step s (CliSignalHandler sig s)"
| raise_exit: "trig_step s (snd (RaiseExitRequestTrigger s))"
| raise_restart: "trig_step s (snd (RaiseRestartRequestTrigger s))"
| raise_pause: "trig_step s (snd (RaisePauseRequestTrigger s))"
| clear_pause: "trig_step s (snd (ClearPauseRequestTrigger s))"
| override: "trig_step s (snd (OverrideNextConffileChangeTrigger s))"
| check_exit: "trig_step s (snd (CheckExitRequestTrigger env s))"
| check_pause: "trig_step s (snd (snd (CheckPauseRequestTrigger env s)))"

inductive trig_run :: "trigstatics \<Rightarrow> trigstatics \<Rightarrow> bool" where
  refl: "trig_run s s"
| step: "trig_run s t \<Longrightarrow> trig_step t u \<Longrightarrow> trig_run s u"

end
