(* ===== verification/TriggerLaws.thy ===== *)
theory TriggerLaws
  imports Triggers
begin

text \<open>
  What the triggers do: the flags as bits, an invariant of all steps, and what a check of the requests to
  pause makes of its environment.
\<close>

section \<open>Flags as bits\<close>

named_theorems trig_bits

definition flag :: "nat \<Rightarrow> u32" where
  "flag k = 2 ^ k"

lemma flag_values [trig_bits]:
  "TRIGSETBY_SIGNAL = flag 0" "TRIGSETBY_FLAGFILE = flag 1" "TRIGSETBY_CUSTOM = flag 2"
  "TRIGPAUSEBY_APPACTIVE = flag 4" "TRIGPAUSEBY_SRCBATTERY = flag 5" "TRIGPAUSEBY_CPUTEMP = flag 6"
  by (simp_all add: TRIGSETBY_SIGNAL_def TRIGSETBY_FLAGFILE_def TRIGSETBY_CUSTOM_def TRIGPAUSEBY_APPACTIVE_def
    TRIGPAUSEBY_SRCBATTERY_def TRIGPAUSEBY_CPUTEMP_def flag_def)

lemma bit_flag: "k < 32 \<Longrightarrow> bit (flag k) n \<longleftrightarrow> n = k"
  by (auto simp: flag_def bit_exp_iff)

lemma has_flag [trig_bits]: "x AND flag k = 0 \<longleftrightarrow> \<not> bit x k"
  unfolding flag_def by (rule and_exp_eq_0_iff_not_bit)

lemma bit_set_flag [trig_bits]: "k < 32 \<Longrightarrow> bit (x OR flag k) n \<longleftrightarrow> bit x n \<or> n = k"
  by (auto simp: bit_or_iff bit_flag)

lemma bit_clear_flag [trig_bits]: "k < 32 \<Longrightarrow> bit (x AND NOT (flag k)) n \<longleftrightarrow> bit x n \<and> n \<noteq> k"
  by (auto simp: bit_and_iff bit_not_iff bit_flag dest: bit_imp_le_length)

lemma bit_follow: "k < 32 \<Longrightarrow> bit (follow_bit t l (flag k)) n \<longleftrightarrow> (if n = k then bit t n else bit l n)"
  by (auto simp: follow_bit_def trig_bits)

text \<open>The flags that this build ever sets in the trigger to pause.\<close>

definition pause_flags :: "u32 \<Rightarrow> bool" where
  "pause_flags x \<longleftrightarrow> (\<forall>n. bit x n \<longrightarrow> n \<in> {0, 1, 4, 5, 6})"

lemma pause_flags_set:
  assumes "pause_flags x" "k \<in> {0, 1, 4, 5, 6}"
  shows "pause_flags (x OR flag k)"
  unfolding pause_flags_def
proof (intro allI impI)
  fix n
  assume n: "bit (x OR flag k) n"
  have "k < 32" using assms(2) by auto
  then have "bit x n \<or> n = k" using n by (simp add: trig_bits)
  then show "n \<in> {0, 1, 4, 5, 6}" using assms unfolding pause_flags_def by blast
qed

lemma pause_flags_clear: "pause_flags x \<Longrightarrow> k < 32 \<Longrightarrow> pause_flags (x AND NOT (flag k))"
  by (auto simp: pause_flags_def trig_bits)

text \<open>The comparison of the two states of the trigger ends with the same flags in both.\<close>

lemma follow_all:
  assumes "pause_flags t" "pause_flags l"
  shows "foldl (follow_bit t) l [TRIGSETBY_SIGNAL, TRIGSETBY_FLAGFILE, TRIGSETBY_CUSTOM, TRIGPAUSEBY_APPACTIVE,
    TRIGPAUSEBY_SRCBATTERY, TRIGPAUSEBY_CPUTEMP] = t"
proof (rule bit_eqI)
  fix n
  show "bit (foldl (follow_bit t) l [TRIGSETBY_SIGNAL, TRIGSETBY_FLAGFILE, TRIGSETBY_CUSTOM, TRIGPAUSEBY_APPACTIVE,
    TRIGPAUSEBY_SRCBATTERY, TRIGPAUSEBY_CPUTEMP]) n = bit t n"
    using assms by (auto simp: flag_values bit_follow pause_flags_def)
qed

lemma public_mask: "CheckPauseRequestTriggerNoIO s = 0 \<longleftrightarrow> trigger (pausetrig s) = 0"
proof -
  have "x AND m = 0 \<and> x AND NOT m = 0 \<longleftrightarrow> x = 0" for x m :: u32
    by (auto simp: bit_eq_iff bit_and_iff bit_not_iff dest: bit_imp_le_length)
  moreover have "a OR (if b then TRIGSETBY_CUSTOM else 0) = 0 \<longleftrightarrow> a = 0 \<and> \<not> b" for a b
    by (simp add: TRIGSETBY_CUSTOM_def or_eq_0_iff)
  ultimately show ?thesis unfolding CheckPauseRequestTriggerNoIO_def by blast
qed

section \<open>The invariant\<close>

definition trig_inv :: "trigstatics \<Rightarrow> bool" where
  "trig_inv s \<longleftrightarrow> incheck (exittrig s) = 0 \<and> incheck (pausetrig s) = 0 \<and>
     (trigger (huptrig s) \<noteq> 0 \<longrightarrow> bit (trigger (exittrig s)) 0) \<and>
     (laststate (exittrig s) \<noteq> 0 \<longrightarrow> trigger (exittrig s) \<noteq> 0) \<and>
     pause_flags (trigger (pausetrig s)) \<and> pause_flags (laststate (pausetrig s)) \<and>
     (bit (trigger (pausetrig s)) 4 \<longrightarrow> lastactivep s < length (pauseplist s))"

text \<open>What a check of the requests to exit leaves alone.\<close>

definition exit_frame :: "trigstatics \<Rightarrow> trigstatics \<Rightarrow> bool" where
  "exit_frame s t \<longleftrightarrow> pausetrig t = pausetrig s \<and> doingmodes t = doingmodes s \<and> pauseplist t = pauseplist s \<and>
     pauseplistbuffer t = pauseplistbuffer s \<and> lastactivep t = lastactivep s \<and> lothresh t = lothresh s \<and>
     hithresh t = hithresh s \<and> marking_high t = marking_high s \<and> pause_if_no_mains_power t = pause_if_no_mains_power s \<and>
     inifile t = inifile s \<and> handled t = handled s"

lemmas raise_defs = RaiseExitRequestTrigger_def RaiseRestartRequestTrigger_def ClearRestartRequestTrigger_def
  RaisePauseRequestTrigger_def ClearPauseRequestTrigger_def trig_raise_def trig_clear_def

lemma inifile_frame: "exit_frame s (CheckIniFileChangeStuff env s)"
  by (simp add: CheckIniFileChangeStuff_def exit_frame_def raise_defs Let_def split: option.split)

lemma check_exit_frame: "CheckExitRequestTrigger env s = (e, t) \<Longrightarrow> exit_frame s t"
  using inifile_frame by (auto simp: CheckExitRequestTrigger_def exit_frame_def Let_def split: if_splits)

lemma check_exit_value: "CheckExitRequestTrigger env s = (e, t) \<Longrightarrow> e = trigger (exittrig t)"
  by (auto simp: CheckExitRequestTrigger_def Let_def)

lemma raise_bit: "bit (x OR TRIGSETBY_SIGNAL) 0" "x OR TRIGSETBY_SIGNAL \<noteq> 0"
  by (simp_all add: trig_bits or_eq_0_iff) (simp add: flag_def)

lemma inifile_effect:
  "exittrig (CheckIniFileChangeStuff env s) = exittrig s \<and> huptrig (CheckIniFileChangeStuff env s) = huptrig s \<or>
   (\<exists>tr. exittrig (CheckIniFileChangeStuff env s) = (exittrig s)\<lparr>trigger := tr\<rparr> \<and> bit tr 0)"
  using raise_bit by (auto simp: CheckIniFileChangeStuff_def Let_def raise_defs split: option.split)

lemma bit_not_0: "bit (x :: u32) n \<Longrightarrow> x \<noteq> 0"
  by auto

definition poll_exit :: "trig_env \<Rightarrow> trigstatics \<Rightarrow> trigstruct" where
  "poll_exit env s = PollExternalTrigger (te_access env) (te_clock_exit env) ((exittrig s)\<lparr>incheck := 1\<rparr>) False"

lemma poll_exit_fields: "incheck (poll_exit env s) = 1" "laststate (poll_exit env s) = laststate (exittrig s)"
  by (auto simp: poll_exit_def PollExternalTrigger_def split: option.split)

lemma check_exit_cases:
  assumes "CheckExitRequestTrigger env s = (e, t)" "incheck (exittrig s) = 0"
  obtains (seen) "laststate (exittrig s) \<noteq> 0" and "t = s"
  | (raised) "trigger (exittrig s) \<noteq> 0" "t = s\<lparr>exittrig := (exittrig s)\<lparr>laststate := 1\<rparr>\<rparr>"
  | (found) "trigger (exittrig s) = 0" "trigger (poll_exit env s) \<noteq> 0"
      "t = s\<lparr>exittrig := (poll_exit env s)\<lparr>laststate := 1, incheck := 0\<rparr>\<rparr>"
  | (ini) u where "trigger (exittrig s) = 0" "trigger (poll_exit env s) = 0" "laststate (exittrig s) = 0"
      "u = CheckIniFileChangeStuff env (s\<lparr>exittrig := poll_exit env s\<rparr>)"
      "t = u\<lparr>exittrig := (exittrig u)\<lparr>laststate := (if trigger (exittrig u) \<noteq> 0 then 1 else 0), incheck := incheck (exittrig u) - 1\<rparr>\<rparr>"
proof -
  let ?x = "exittrig s" and ?p = "poll_exit env s"
  have up: "?x\<lparr>laststate := 1, incheck := 0\<rparr> = ?x\<lparr>laststate := 1\<rparr>" using assms(2) by (intro trigstruct.equality) simp_all
  note run = assms(1) [unfolded CheckExitRequestTrigger_def Let_def]
  consider "laststate ?x \<noteq> 0" | "laststate ?x = 0" "trigger ?x \<noteq> 0" | "laststate ?x = 0" "trigger ?x = 0" "trigger ?p \<noteq> 0"
    | "laststate ?x = 0" "trigger ?x = 0" "trigger ?p = 0" by blast
  then show ?thesis
  proof cases
    case 1
    moreover have "t = s" using run 1 by simp
    ultimately show ?thesis by (rule seen)
  next
    case 2
    moreover have "t = s\<lparr>exittrig := ?x\<lparr>laststate := 1\<rparr>\<rparr>" using run 2 assms(2) up by simp
    ultimately show ?thesis by (intro raised)
  next
    case 3
    then have "t = s\<lparr>exittrig := ?p\<lparr>laststate := 1, incheck := 0\<rparr>\<rparr>" using run assms(2) poll_exit_fields(1) [of env s] by (simp add: poll_exit_def)
    then show ?thesis using 3 by (intro found)
  next
    case 4
    define u where "u = CheckIniFileChangeStuff env (s\<lparr>exittrig := ?p\<rparr>)"
    have l: "laststate (exittrig u) = 0"
      using inifile_effect [of env "s\<lparr>exittrig := ?p\<rparr>"] 4(1) poll_exit_fields(2) [of env s] by (auto simp: u_def)
    have "t = (if trigger (exittrig u) \<noteq> 0 then u\<lparr>exittrig := (exittrig u)\<lparr>laststate := 1, incheck := incheck (exittrig u) - 1\<rparr>\<rparr>
        else u\<lparr>exittrig := (exittrig u)\<lparr>incheck := incheck (exittrig u) - 1\<rparr>\<rparr>)"
      using run assms(2) 4 unfolding u_def poll_exit_def by (cases "trigger (exittrig u) = 0") (auto simp: u_def poll_exit_def)
    moreover have "(exittrig u)\<lparr>laststate := 0, incheck := n\<rparr> = (exittrig u)\<lparr>incheck := n\<rparr>" for n
      using l by (intro trigstruct.equality) simp_all
    ultimately show ?thesis by (intro ini [OF 4(2,3,1) u_def]) simp
  qed
qed

lemma check_exit_inv:
  assumes "trig_inv s" "CheckExitRequestTrigger env s = (e, t)"
  shows "trig_inv t \<and> (trigger (exittrig s) \<noteq> 0 \<longrightarrow> trigger (exittrig t) = trigger (exittrig s))"
proof -
  have z: "incheck (exittrig s) = 0" using assms(1) by (simp add: trig_inv_def)
  note fr = check_exit_frame [OF assms(2)]
  from assms(2) z show ?thesis
  proof (cases rule: check_exit_cases)
    case (ini u)
    have "huptrig u = huptrig s \<or> bit (trigger (exittrig u)) 0" "incheck (exittrig u) = 1"
      using inifile_effect [of env "s\<lparr>exittrig := poll_exit env s\<rparr>"] poll_exit_fields(1) [of env s] ini(4) by auto
    then show ?thesis using fr assms(1) ini by (auto simp: trig_inv_def exit_frame_def)
  next
    case found
    then show ?thesis using fr assms(1) by (auto simp: trig_inv_def exit_frame_def)
  qed (use assms(1) in \<open>auto simp: trig_inv_def\<close>)
qed

section \<open>Programs\<close>

lemma scan_plist_Some:
  "scan_plist pids nc k pps = Some i \<Longrightarrow> k \<le> i \<and> i < k + length pps \<and> pids (pps ! (i - k)) > 0"
proof (induction pids nc k pps rule: scan_plist.induct)
  case (2 pids nc k pp pps)
  show ?case
  proof (cases "Some k \<noteq> nc \<and> pids pp > 0")
    case False
    then have "Suc k \<le> i \<and> i < Suc k + length pps \<and> pids (pps ! (i - Suc k)) > 0" using 2 by (auto split: if_splits)
    then show ?thesis by (auto simp: nth_Cons')
  qed (use 2(2) in auto)
qed simp

lemma scan_plist_None:
  "scan_plist pids nc k pps = None \<Longrightarrow> j < length pps \<Longrightarrow> Some (k + j) = nc \<or> pids (pps ! j) \<le> 0"
proof (induction pids nc k pps arbitrary: j rule: scan_plist.induct)
  case (2 pids nc k pp pps)
  then show ?case by (cases j) (auto split: if_splits)
qed simp

definition guarded :: "trig_env \<Rightarrow> trigstatics \<Rightarrow> bool" where
  "guarded env s \<longleftrightarrow> (\<exists>p\<in>set (pauseplist s). te_pids env (plist_name s p) > 0)"

lemma guarded_nth: "guarded env s \<longleftrightarrow> (\<exists>i<length (pauseplist s). te_pids env (plist_name s (pauseplist s ! i)) > 0)"
  unfolding guarded_def by (metis in_set_conv_nth)

lemma check_programs_effect:
  assumes "bit (trigger (pausetrig s)) 4 \<Longrightarrow> lastactivep s < length (pauseplist s)"
  obtains tr k where
    "check_programs env s = s\<lparr>pausetrig := (pausetrig s)\<lparr>trigger := tr\<rparr>, lastactivep := k\<rparr>"
    "bit tr 4 \<longleftrightarrow> guarded env s" "bit tr 4 \<Longrightarrow> k < length (pauseplist s)"
    "\<And>n. n \<noteq> 4 \<Longrightarrow> bit tr n = bit (trigger (pausetrig s)) n"
proof (cases "pauseplist s = []")
  case True
  then show ?thesis using assms by (intro that [where tr = "trigger (pausetrig s)" and k = "lastactivep s"]) (auto simp: check_programs_def guarded_def)
next
  case ne: False
  let ?tr = "trigger (pausetrig s)" and ?pp = "map (plist_name s) (pauseplist s)" and ?k = "lastactivep s"
  let ?gone = "bit ?tr 4 \<and> te_pids env (?pp ! ?k) \<le> 0"
  define nc where "nc = (if ?gone then Some ?k else None)"
  show ?thesis
  proof (cases "bit ?tr 4 \<and> \<not> ?gone")
    case True
    then have "guarded env s" using assms by (auto simp: guarded_nth intro!: exI [of _ ?k])
    moreover have "check_programs env s = s\<lparr>pausetrig := (pausetrig s)\<lparr>trigger := ?tr\<rparr>, lastactivep := ?k\<rparr>"
      using True ne by (simp add: check_programs_def Let_def trig_bits)
    ultimately show ?thesis using True assms by (intro that [where tr = ?tr and k = ?k]) auto
  next
    case False
    let ?tr0 = "if ?gone then ?tr AND NOT (flag 4) else ?tr"
    have run: "check_programs env s = (case scan_plist (te_pids env) nc 0 ?pp of
        None \<Rightarrow> s\<lparr>pausetrig := (pausetrig s)\<lparr>trigger := ?tr0\<rparr>, lastactivep := (if ?gone then 0 else ?k)\<rparr>
      | Some i \<Rightarrow> s\<lparr>pausetrig := (pausetrig s)\<lparr>trigger := ?tr0 OR flag 4\<rparr>, lastactivep := i\<rparr>)"
      using False ne by (auto simp: check_programs_def Let_def trig_bits nc_def split: option.split)
    show ?thesis
    proof (cases "scan_plist (te_pids env) nc 0 ?pp")
      case None
      have "\<not> guarded env s" unfolding guarded_nth
      proof (intro notI, elim exE conjE)
        fix j
        assume j: "j < length (pauseplist s)" "te_pids env (plist_name s (pauseplist s ! j)) > 0"
        then have "Some j = nc" using scan_plist_None [OF None, of j] by auto
        then show False using j by (auto simp: nc_def split: if_splits)
      qed
      then show ?thesis using run None False
        by (intro that [where tr = ?tr0 and k = "if ?gone then 0 else ?k"]) (auto simp: trig_bits)
    next
      case (Some i)
      then have "i < length (pauseplist s)" "guarded env s"
        using scan_plist_Some [OF Some] by (auto simp: guarded_nth intro!: exI [of _ i])
      then show ?thesis using run Some by (intro that [where tr = "?tr0 OR flag 4" and k = i]) (auto simp: trig_bits)
    qed
  qed
qed

section \<open>The check of the requests to pause\<close>

lemma set_pause_bit_effect:
  obtains tr where "set_pause_bit (flag k) v s = s\<lparr>pausetrig := (pausetrig s)\<lparr>trigger := tr\<rparr>\<rparr>"
    "k < 32 \<Longrightarrow> bit tr = (bit (trigger (pausetrig s)))(k := (if v > 0 then True else if v = 0 then False else bit (trigger (pausetrig s)) k))"
proof -
  let ?x = "trigger (pausetrig s)"
  define tr where "tr = (if v > 0 then ?x OR flag k else if v = 0 then ?x AND NOT (flag k) else ?x)"
  have "set_pause_bit (flag k) v s = s\<lparr>pausetrig := (pausetrig s)\<lparr>trigger := tr\<rparr>\<rparr>"
    by (auto simp: set_pause_bit_def tr_def)
  moreover have "bit tr = (bit ?x)(k := (if v > 0 then True else if v = 0 then False else bit ?x k))" if "k < 32"
    using that by (auto simp: tr_def fun_eq_iff trig_bits)
  ultimately show ?thesis by (rule that)
qed

definition flag_file_seen :: "trig_env \<Rightarrow> trigstruct \<Rightarrow> bool" where
  "flag_file_seen env trig = (case (flagfile trig, te_clock_pause env) of
       (Some f, Some now) \<Rightarrow> if now \<ge> nextcheck trig then te_access env f else bit (trigger trig) 1
     | _ \<Rightarrow> bit (trigger trig) 1)"

lemma poll_pause_effect:
  obtains tr nx where "PollExternalTrigger (te_access env) (te_clock_pause env) trig True = trig\<lparr>nextcheck := nx, trigger := tr\<rparr>"
    "bit tr = (bit (trigger trig))(1 := flag_file_seen env trig)"
proof -
  let ?t = "PollExternalTrigger (te_access env) (te_clock_pause env) trig True"
  have "?t = trig\<lparr>nextcheck := nextcheck ?t, trigger := trigger ?t\<rparr>"
    by (auto simp: PollExternalTrigger_def split: option.split)
  moreover have "bit (trigger ?t) = (bit (trigger trig))(1 := flag_file_seen env trig)"
    by (auto simp: PollExternalTrigger_def flag_file_seen_def fun_eq_iff trig_bits split: option.split)
  ultimately show ?thesis by (rule that)
qed

lemma temperature_frame: "\<exists>h l m. snd (CPUTemperaturePoll env s) = s\<lparr>hithresh := h, lothresh := l, marking_high := m\<rparr>"
proof (rule exI)+
  show "snd (CPUTemperaturePoll env s) = s\<lparr>hithresh := hithresh (snd (CPUTemperaturePoll env s)),
    lothresh := lothresh (snd (CPUTemperaturePoll env s)), marking_high := marking_high (snd (CPUTemperaturePoll env s))\<rparr>"
    by (auto simp: CPUTemperaturePoll_def Let_def)
qed

text \<open>The value of a condition that may be unknown.\<close>

definition known_or :: "int \<Rightarrow> bool \<Rightarrow> bool" where
  "known_or v b = (if v > 0 then True else if v = 0 then False else b)"

definition pause_bits :: "trig_env \<Rightarrow> trigstatics \<Rightarrow> nat \<Rightarrow> bool" where
  "pause_bits env s = (bit (trigger (pausetrig s)))(4 := guarded env s,
     5 := known_or (IsRunningOnBattery env s) (bit (trigger (pausetrig s)) 5),
     6 := known_or (fst (CPUTemperaturePoll env s)) (bit (trigger (pausetrig s)) 6),
     1 := flag_file_seen env (pausetrig s))"

lemma pause_conditions:
  assumes "bit (trigger (pausetrig s)) 4 \<Longrightarrow> lastactivep s < length (pauseplist s)"
  obtains tr nx k h l m where
    "check_conditions env s =
     s\<lparr>pausetrig := (pausetrig s)\<lparr>trigger := tr, nextcheck := nx\<rparr>, lastactivep := k, hithresh := h, lothresh := l, marking_high := m\<rparr>"
    "bit tr = pause_bits env s" "bit tr 4 \<Longrightarrow> k < length (pauseplist s)"
proof -
  obtain t1 k where 1: "check_programs env s = s\<lparr>pausetrig := (pausetrig s)\<lparr>trigger := t1\<rparr>, lastactivep := k\<rparr>"
      "bit t1 4 \<longleftrightarrow> guarded env s" "bit t1 4 \<Longrightarrow> k < length (pauseplist s)" "\<And>n. n \<noteq> 4 \<Longrightarrow> bit t1 n = bit (trigger (pausetrig s)) n"
    by (rule check_programs_effect [of s env, OF assms]) blast+
  let ?s1 = "s\<lparr>pausetrig := (pausetrig s)\<lparr>trigger := t1\<rparr>, lastactivep := k\<rparr>"
  have b: "IsRunningOnBattery env ?s1 = IsRunningOnBattery env s" by (simp add: IsRunningOnBattery_def)
  obtain t2 where 2: "set_pause_bit (flag 5) (IsRunningOnBattery env s) ?s1 = ?s1\<lparr>pausetrig := (pausetrig ?s1)\<lparr>trigger := t2\<rparr>\<rparr>"
      "bit t2 = (bit t1)(5 := known_or (IsRunningOnBattery env s) (bit t1 5))"
    by (rule set_pause_bit_effect [of 5 "IsRunningOnBattery env s" ?s1]) (auto simp: known_or_def)
  let ?s2 = "?s1\<lparr>pausetrig := (pausetrig ?s1)\<lparr>trigger := t2\<rparr>\<rparr>"
  obtain h l m where 3: "snd (CPUTemperaturePoll env ?s2) = ?s2\<lparr>hithresh := h, lothresh := l, marking_high := m\<rparr>"
    using temperature_frame by blast
  have c: "fst (CPUTemperaturePoll env ?s2) = fst (CPUTemperaturePoll env s)" by (simp add: CPUTemperaturePoll_def Let_def)
  have c3: "CPUTemperaturePoll env ?s2 = (fst (CPUTemperaturePoll env s), ?s2\<lparr>hithresh := h, lothresh := l, marking_high := m\<rparr>)"
    using 3 c by (metis prod.collapse)
  let ?s3 = "?s2\<lparr>hithresh := h, lothresh := l, marking_high := m\<rparr>"
  obtain t4 where 4: "set_pause_bit (flag 6) (fst (CPUTemperaturePoll env s)) ?s3 = ?s3\<lparr>pausetrig := (pausetrig ?s3)\<lparr>trigger := t4\<rparr>\<rparr>"
      "bit t4 = (bit t2)(6 := known_or (fst (CPUTemperaturePoll env s)) (bit t2 6))"
    by (rule set_pause_bit_effect [of 6 "fst (CPUTemperaturePoll env s)" ?s3]) (auto simp: known_or_def)
  let ?s4 = "?s3\<lparr>pausetrig := (pausetrig ?s3)\<lparr>trigger := t4\<rparr>\<rparr>"
  obtain t5 nx where 5: "PollExternalTrigger (te_access env) (te_clock_pause env) (pausetrig ?s4) True = (pausetrig ?s4)\<lparr>nextcheck := nx, trigger := t5\<rparr>"
      "bit t5 = (bit t4)(1 := flag_file_seen env (pausetrig ?s4))"
    by (rule poll_pause_effect [of env "pausetrig ?s4"]) auto
  have f: "flag_file_seen env (pausetrig ?s4) = flag_file_seen env (pausetrig s)"
    using 1(4) 2(2) 4(2) by (simp add: flag_file_seen_def split: option.split)
  show ?thesis
  proof (rule that [where tr = t5 and nx = nx and k = k and h = h and l = l and m = m])
    show "bit t5 = pause_bits env s"
      using 1(2,4) 2(2) 4(2) 5(2) f by (auto simp: pause_bits_def fun_eq_iff)
    show "bit t5 4 \<Longrightarrow> k < length (pauseplist s)" using 1(3) 2(2) 4(2) 5(2) by auto
  qed (use c3 4(1) 5(1) in \<open>simp add: check_conditions_def 1(1) flag_values b 2(1)\<close>)
qed

lemma pause_bits_flags: "pause_flags (trigger (pausetrig s)) \<Longrightarrow> bit tr = pause_bits env s \<Longrightarrow> pause_flags tr"
  by (auto simp: pause_flags_def pause_bits_def split: if_splits)

lemma check_pause_effect:
  assumes "trig_inv s" "CheckExitRequestTrigger env s = (0, u)" "\<not> doingmodes s"
  obtains tr nx k h l m where
    "CheckPauseRequestTrigger env s = (CheckPauseRequestTriggerNoIO (u\<lparr>pausetrig := (pausetrig u)\<lparr>trigger := tr\<rparr>\<rparr>),
       laststate (pausetrig s) \<noteq> tr \<and> tr = 0,
       u\<lparr>pausetrig := (pausetrig u)\<lparr>trigger := tr, laststate := tr, nextcheck := nx\<rparr>, lastactivep := k, hithresh := h, lothresh := l, marking_high := m\<rparr>)"
    "bit tr = pause_bits env s" "bit tr 4 \<Longrightarrow> k < length (pauseplist s)" "pause_flags tr"
proof -
  note fr = check_exit_frame [OF assms(2), unfolded exit_frame_def]
  have inv: "trig_inv u" using check_exit_inv [OF assms(1,2)] by simp
  define v where "v = u\<lparr>pausetrig := (pausetrig u)\<lparr>incheck := 1\<rparr>\<rparr>"
  have "bit (trigger (pausetrig v)) 4 \<Longrightarrow> lastactivep v < length (pauseplist v)"
    using inv by (simp add: trig_inv_def v_def)
  then obtain tr nx k h l m where c:
    "check_conditions env v =
     v\<lparr>pausetrig := (pausetrig v)\<lparr>trigger := tr, nextcheck := nx\<rparr>, lastactivep := k, hithresh := h, lothresh := l, marking_high := m\<rparr>"
    "bit tr = pause_bits env v" "bit tr 4 \<Longrightarrow> k < length (pauseplist v)"
    by (rule pause_conditions [of v env]) blast+
  have same: "pause_bits env v = pause_bits env s" "pauseplist v = pauseplist s"
    using fr by (simp_all add: pause_bits_def v_def guarded_def plist_name_def IsRunningOnBattery_def CPUTemperaturePoll_def Let_def
      flag_file_seen_def split: option.split)
  have fl: "pause_flags tr" using pause_bits_flags [of s tr env] c(2) same(1) assms(1) by (simp add: trig_inv_def)
  have al: "foldl (follow_bit tr) (laststate (pausetrig u)) [TRIGSETBY_SIGNAL, TRIGSETBY_FLAGFILE, TRIGSETBY_CUSTOM,
      TRIGPAUSEBY_APPACTIVE, TRIGPAUSEBY_SRCBATTERY, TRIGPAUSEBY_CPUTEMP] = tr"
    using follow_all [OF fl] inv by (simp add: trig_inv_def)
  have z: "incheck (pausetrig u) = 0" using inv by (simp add: trig_inv_def)
  have up: "(pausetrig u)\<lparr>incheck := 0, trigger := tr, nextcheck := nx\<rparr> = (pausetrig u)\<lparr>trigger := tr, nextcheck := nx\<rparr>"
    "laststate (pausetrig u) = tr \<Longrightarrow> (pausetrig u)\<lparr>trigger := tr, nextcheck := nx, laststate := tr\<rparr> = (pausetrig u)\<lparr>trigger := tr, nextcheck := nx\<rparr>"
    using z by (auto intro!: trigstruct.equality)
  have "CheckPauseRequestTrigger env s = (CheckPauseRequestTriggerNoIO (u\<lparr>pausetrig := (pausetrig u)\<lparr>trigger := tr\<rparr>\<rparr>),
       laststate (pausetrig s) \<noteq> tr \<and> tr = 0,
       u\<lparr>pausetrig := (pausetrig u)\<lparr>trigger := tr, laststate := tr, nextcheck := nx\<rparr>, lastactivep := k, hithresh := h, lothresh := l, marking_high := m\<rparr>)"
    using assms(2,3) fr z c(1) al up by (auto simp: CheckPauseRequestTrigger_def Let_def v_def CheckPauseRequestTriggerNoIO_def)
  then show ?thesis using c(2,3) same fl by (intro that) auto
qed

section \<open>Every step\<close>

lemma init_cputemp_frame: "\<exists>h l. init_cputemp p s = s\<lparr>hithresh := h, lothresh := l, marking_high := False\<rparr>"
proof (rule exI)+
  show "init_cputemp p s = s\<lparr>hithresh := hithresh (init_cputemp p s), lothresh := lothresh (init_cputemp p s), marking_high := False\<rparr>"
    by (auto simp: init_cputemp_def Let_def split: option.split)
qed

lemma initialize_fields:
  "incheck (exittrig (InitializeTriggers fp a s)) = 0" "incheck (pausetrig (InitializeTriggers fp a s)) = 0"
  "trigger (exittrig (InitializeTriggers fp a s)) = 0" "trigger (pausetrig (InitializeTriggers fp a s)) = 0"
  "trigger (huptrig (InitializeTriggers fp a s)) = 0" "laststate (exittrig (InitializeTriggers fp a s)) = 0"
  "laststate (pausetrig (InitializeTriggers fp a s)) = 0" "lastactivep (InitializeTriggers fp a s) = 0"
proof -
  let ?t = "InitializeTriggers fp a s"
  have "incheck (exittrig ?t) = 0 \<and> incheck (pausetrig ?t) = 0 \<and> trigger (exittrig ?t) = 0 \<and> trigger (pausetrig ?t) = 0 \<and>
    trigger (huptrig ?t) = 0 \<and> laststate (exittrig ?t) = 0 \<and> laststate (pausetrig ?t) = 0 \<and> lastactivep ?t = 0"
  proof -
    have c: "exittrig (init_cputemp p w) = exittrig w \<and> pausetrig (init_cputemp p w) = pausetrig w \<and> huptrig (init_cputemp p w) = huptrig w
        \<and> lastactivep (init_cputemp p w) = lastactivep w" for p w
      using init_cputemp_frame [of p w] by auto
    show ?thesis
      by (simp add: InitializeTriggers_def Let_def init_signal_handlers_def trigstatics_zero_def trigstruct_zero_def c
        init_pauseplist_def split: option.split prod.split)
  qed
  then show "incheck (exittrig ?t) = 0" "incheck (pausetrig ?t) = 0" "trigger (exittrig ?t) = 0" "trigger (pausetrig ?t) = 0"
    "trigger (huptrig ?t) = 0" "laststate (exittrig ?t) = 0" "laststate (pausetrig ?t) = 0" "lastactivep ?t = 0" by blast+
qed

lemma initialize_inv: "trig_inv (InitializeTriggers fp a s)"
  by (simp add: trig_inv_def initialize_fields pause_flags_def)

lemma pause_flags_signal: "pause_flags x \<Longrightarrow> pause_flags (x OR TRIGSETBY_SIGNAL)" "pause_flags x \<Longrightarrow> pause_flags (x AND NOT TRIGSETBY_SIGNAL)"
  by (simp_all add: flag_values pause_flags_set pause_flags_clear)

lemma signal_bits: "bit (x OR TRIGSETBY_SIGNAL) 4 \<longleftrightarrow> bit x 4" "bit (x AND NOT TRIGSETBY_SIGNAL) 4 \<longleftrightarrow> bit x 4"
  by (simp_all add: trig_bits)

lemma check_pause_inv:
  assumes "trig_inv s" "CheckPauseRequestTrigger env s = (r, b, t)"
  shows "trig_inv t \<and> (trigger (exittrig s) \<noteq> 0 \<longrightarrow> trigger (exittrig t) \<noteq> 0)"
proof -
  obtain e u where c: "CheckExitRequestTrigger env s = (e, u)" by (rule prod.exhaust)
  note i = check_exit_inv [OF assms(1) c] and f = check_exit_frame [OF c]
  show ?thesis
  proof (cases "e \<noteq> 0 \<or> doingmodes s")
    case True
    moreover have "doingmodes u = doingmodes s" using f by (simp add: exit_frame_def)
    ultimately have "CheckPauseRequestTrigger env s = (0, False, u)"
      by (cases "e = 0") (simp_all add: CheckPauseRequestTrigger_def c)
    then have "t = u" using assms(2) by simp
    then show ?thesis using i by auto
  next
    case False
    then have c0: "CheckExitRequestTrigger env s = (0, u)" "\<not> doingmodes s" using c by auto
    obtain tr nx k h l m where
      "CheckPauseRequestTrigger env s = (CheckPauseRequestTriggerNoIO (u\<lparr>pausetrig := (pausetrig u)\<lparr>trigger := tr\<rparr>\<rparr>),
       laststate (pausetrig s) \<noteq> tr \<and> tr = 0,
       u\<lparr>pausetrig := (pausetrig u)\<lparr>trigger := tr, laststate := tr, nextcheck := nx\<rparr>, lastactivep := k, hithresh := h, lothresh := l, marking_high := m\<rparr>)"
      "bit tr 4 \<Longrightarrow> k < length (pauseplist s)" "pause_flags tr"
      by (rule check_pause_effect [OF assms(1) c0]) blast
    then show ?thesis using assms(2) i f by (auto simp: trig_inv_def exit_frame_def)
  qed
qed

lemma trig_step_inv:
  assumes "trig_step s t" "trig_inv s"
  shows "trig_inv t \<and> (trigger (exittrig s) \<noteq> 0 \<longrightarrow> trigger (exittrig t) \<noteq> 0)"
  using assms
proof (cases rule: trig_step.cases)
  case (signal sig)
  then show ?thesis using assms(2)
    by (cases sig) (auto simp: CliSignalHandler_def raise_defs trig_inv_def Let_def raise_bit pause_flags_signal signal_bits
      dest: bit_not_0)
next
  case (check_exit env)
  obtain e u where c: "CheckExitRequestTrigger env s = (e, u)" by (rule prod.exhaust)
  then show ?thesis using check_exit_inv [OF assms(2) c] check_exit by auto
next
  case (check_pause env)
  obtain r b u where c: "CheckPauseRequestTrigger env s = (r, b, u)" by (metis prod.exhaust)
  then show ?thesis using check_pause_inv [OF assms(2) c] check_pause by auto
qed (use assms(2) in \<open>auto simp: raise_defs trig_inv_def OverrideNextConffileChangeTrigger_def raise_bit pause_flags_signal signal_bits\<close>)

lemma trig_run_inv: "trig_run s t \<Longrightarrow> trig_inv s \<Longrightarrow> trig_inv t \<and> (trigger (exittrig s) \<noteq> 0 \<longrightarrow> trigger (exittrig t) \<noteq> 0)"
  by (induction rule: trig_run.induct) (use trig_step_inv in blast)+

end
