(* ===== verification/TriggerProps.thy ===== *)
theory TriggerProps
  imports TriggerLaws
begin

text \<open>
  The properties of the triggers: requests to exit stay, a client pauses exactly while one of its
  conditions holds, a change of the ini file restarts it once, and the list of programs to watch
  stays in its buffer.
\<close>

section \<open>The list of programs\<close>

text \<open>What the list means: the texts between bars without the blanks around them, empty ones left out.\<close>

fun split_bars :: "string \<Rightarrow> string list" where
  "split_bars [] = [[]]"
| "split_bars (c # cs) = (if c = CHR ''|'' then [] # split_bars cs else (c # hd (split_bars cs)) # tl (split_bars cs))"

definition trim :: "string \<Rightarrow> string" where
  "trim s = trim_end (dropWhile c_isspace s)"

definition guard_names :: "string \<Rightarrow> string list" where
  "guard_names p = filter (\<lambda>n. n \<noteq> []) (map trim (split_bars p))"

lemma split_bars_ne: "split_bars p \<noteq> []"
  by (cases p) auto

lemma split_bars_word: "split_bars p = takeWhile (\<lambda>c. c \<noteq> CHR ''|'') p #
    (case dropWhile (\<lambda>c. c \<noteq> CHR ''|'') p of [] \<Rightarrow> [] | _ # r \<Rightarrow> split_bars r)"
  by (induction p) auto

lemma guard_names_sep: "plist_sep c \<Longrightarrow> guard_names (c # p) = guard_names p"
proof (cases "c = CHR ''|''")
  case True
  then show ?thesis by (simp add: guard_names_def trim_def trim_end_def)
next
  case False
  assume "plist_sep c"
  then have sp: "c_isspace c" using False by (simp add: plist_sep_def)
  obtain w ws where w: "split_bars p = w # ws" using split_bars_ne by (cases "split_bars p") auto
  then show ?thesis using False sp by (simp add: guard_names_def trim_def)
qed

lemma guard_names_skip: "guard_names (dropWhile plist_sep p) = guard_names p"
  by (induction p) (simp_all add: guard_names_sep)

lemma guard_names_word:
  assumes "dropWhile plist_sep p = q" "q \<noteq> []"
  shows "guard_names p = trim_end (takeWhile (\<lambda>c. c \<noteq> CHR ''|'') q) # guard_names (dropWhile (\<lambda>c. c \<noteq> CHR ''|'') q)"
    and "trim_end (takeWhile (\<lambda>c. c \<noteq> CHR ''|'') q) \<noteq> []"
proof -
  let ?w = "takeWhile (\<lambda>c. c \<noteq> CHR ''|'') q"
  obtain c r where c: "q = c # r" using assms(2) by (cases q) auto
  then have ns: "\<not> plist_sep c" using assms(1) by (simp add: dropWhile_eq_Cons_conv)
  then have b: "c \<noteq> CHR ''|''" "\<not> c_isspace c" by (auto simp: plist_sep_def)
  then show ne: "trim_end ?w \<noteq> []" by (simp add: c trim_end_def dropWhile_append)
  have t: "trim ?w = trim_end ?w" using b by (simp add: c trim_def)
  have rest: "guard_names (dropWhile (\<lambda>c. c \<noteq> CHR ''|'') q) =
      filter (\<lambda>n. n \<noteq> []) (map trim (case dropWhile (\<lambda>c. c \<noteq> CHR ''|'') q of [] \<Rightarrow> [] | _ # r \<Rightarrow> split_bars r))"
  proof (cases "dropWhile (\<lambda>c. c \<noteq> CHR ''|'') q")
    case Nil
    show ?thesis unfolding Nil by (simp add: guard_names_def trim_def trim_end_def)
  next
    case (Cons d s)
    then have "plist_sep d" by (auto simp: dropWhile_eq_Cons_conv plist_sep_def)
    then show ?thesis using Cons by (simp add: guard_names_sep) (simp add: guard_names_def)
  qed
  have "guard_names p = guard_names q" using assms(1) guard_names_skip by metis
  also have "\<dots> = trim_end ?w # guard_names (dropWhile (\<lambda>c. c \<noteq> CHR ''|'') q)"
    unfolding rest unfolding guard_names_def by (subst split_bars_word) (simp add: t ne)
  finally show "guard_names p = trim_end ?w # guard_names (dropWhile (\<lambda>c. c \<noteq> CHR ''|'') q)" .
qed

text \<open>A buffer holds a name, with its null character, at an offset and before a position.\<close>

definition holds_name :: "string \<Rightarrow> nat \<Rightarrow> nat \<Rightarrow> string \<Rightarrow> bool" where
  "holds_name buf w p n \<longleftrightarrow> take (length n + 1) (drop p buf) = n @ [CHR 0x00] \<and> CHR 0x00 \<notin> set n \<and> p + length n + 1 \<le> w"

lemma holds_name_frame:
  "holds_name buf w p n \<Longrightarrow> take w buf' = take w buf \<Longrightarrow> w \<le> w' \<Longrightarrow> holds_name buf' w' p n"
proof -
  let ?k = "length n + 1"
  assume w: "holds_name buf w p n" "take w buf' = take w buf" "w \<le> w'"
  then have "p + ?k \<le> w" by (simp add: holds_name_def)
  then have "take (p + ?k) buf' = take (p + ?k) buf" using w(2) by (metis min.absorb1 take_take)
  then have "take ?k (drop p buf') = take ?k (drop p buf)" by (metis add.commute take_drop)
  then show ?thesis using w by (simp add: holds_name_def)
qed

lemma holds_name_new:
  assumes "wpos \<le> length buf" "CHR 0x00 \<notin> set n"
  shows "holds_name (take wpos buf @ n @ [CHR 0x00] @ rest) (wpos + length n + 1) wpos n"
  using assms by (simp add: holds_name_def)

lemma plist_name_holds:
  assumes "holds_name (pauseplistbuffer s) w p n"
  shows "plist_name s p = n"
proof -
  let ?d = "drop p (pauseplistbuffer s)"
  have d: "?d = n @ CHR 0x00 # drop (length n + 1) ?d"
    using assms unfolding holds_name_def by (metis append_take_drop_id append.assoc append_Cons append_Nil)
  have "\<forall>c\<in>set n. c \<noteq> CHR 0x00" using assms by (auto simp: holds_name_def)
  then show ?thesis unfolding plist_name_def by (subst d) (simp add: takeWhile_append2)
qed

lemma trim_end_subset: "set (trim_end n) \<subseteq> set n"
  by (auto simp: trim_end_def dest: set_dropWhileD)

lemma init_plist_loop_step:
  assumes "dropWhile plist_sep p = q" "q \<noteq> []" "trim_end (takeWhile (\<lambda>c. c \<noteq> CHR ''|'') q) = n" "n \<noteq> []"
  shows "init_plist_loop p wpos buf names =
    (if 126 \<le> wpos + length n then (buf, names)
     else let buf = take wpos buf @ n @ [CHR 0x00] @ drop (wpos + length n + 1) buf
       in if length names = 14 then (buf, names @ [wpos])
          else init_plist_loop (dropWhile (\<lambda>c. c \<noteq> CHR ''|'') q) (wpos + length n + 1) buf (names @ [wpos]))"
  by (subst init_plist_loop.simps) (simp add: assms Let_def del: dropWhile_eq_Nil_conv)

lemma init_plist_loop_ok:
  assumes "init_plist_loop p wpos buf names = (buf', names')" "length buf = 128" "wpos \<le> 126" "length names < 15"
    "CHR 0x00 \<notin> set p" "list_all2 (holds_name buf wpos) names ns"
  shows "length buf' = 128 \<and> length names' \<le> 15 \<and> (\<exists>k. list_all2 (holds_name buf' 127) names' (ns @ take k (guard_names p)) \<and>
    (wpos + (\<Sum>n\<leftarrow>guard_names p. length n + 1) \<le> 126 \<and> length names + length (guard_names p) \<le> 15 \<longrightarrow> length (guard_names p) \<le> k))"
  using assms
proof (induction p wpos buf names arbitrary: ns rule: init_plist_loop.induct)
  case (1 p wpos buf names)
  let ?q = "dropWhile plist_sep p"
  have mono: "list_all2 (holds_name buf 127) names ns"
    using "1.prems"(3,6) by (auto elim!: list_all2_mono intro: holds_name_frame)
  show ?case
  proof (cases "?q = []")
    case True
    have "guard_names p = []" using guard_names_skip [of p] unfolding True by (simp add: guard_names_def trim_def trim_end_def)
    then show ?thesis using "1.prems" True mono by (simp add: init_plist_loop.simps [of p])
  next
    case q: False
    let ?n = "trim_end (takeWhile (\<lambda>c. c \<noteq> CHR ''|'') ?q)" and ?r = "dropWhile (\<lambda>c. c \<noteq> CHR ''|'') ?q"
    note g = guard_names_word [OF HOL.refl q]
    show ?thesis
    proof (cases "wpos + length ?n \<ge> 126")
      case True
      then have "(buf', names') = (buf, names)" using "1.prems"(1) init_plist_loop_step [OF HOL.refl q HOL.refl g(2)] by simp
      then show ?thesis using "1.prems" mono True g by (auto intro!: exI [of _ 0])
    next
      case fits: False
      let ?buf = "take wpos buf @ ?n @ [CHR 0x00] @ drop (wpos + length ?n + 1) buf" and ?w = "wpos + length ?n + 1"
      have sub: "set ?n \<subseteq> set p" "set ?r \<subseteq> set p"
        using trim_end_subset by (auto dest!: set_dropWhileD set_takeWhileD dest: subsetD)
      have len: "length ?buf = 128" using "1.prems"(2) fits by simp
      have tk: "take wpos ?buf = take wpos buf" using "1.prems"(2,3) by simp
      have "list_all2 (holds_name ?buf ?w) names ns"
        using "1.prems"(6) by (rule list_all2_mono) (erule holds_name_frame [OF _ tk]; simp)
      moreover have "holds_name ?buf ?w wpos ?n" using "1.prems"(2,3,5) sub by (intro holds_name_new) auto
      ultimately have all: "list_all2 (holds_name ?buf ?w) (names @ [wpos]) (ns @ [?n])" by (simp add: list_all2_appendI)
      show ?thesis
      proof (cases "length (names @ [wpos]) = 15")
        case True
        then have "(buf', names') = (?buf, names @ [wpos])" using "1.prems"(1) init_plist_loop_step [OF HOL.refl q HOL.refl g(2)] fits by (simp add: Let_def)
        moreover have "list_all2 (holds_name ?buf 127) (names @ [wpos]) (ns @ [?n])"
          using all fits by (auto elim!: list_all2_mono intro: holds_name_frame)
        ultimately show ?thesis using True len g by (auto intro!: exI [of _ 1])
      next
        case False
        then have run: "init_plist_loop ?r ?w ?buf (names @ [wpos]) = (buf', names')"
          using "1.prems"(1) init_plist_loop_step [OF HOL.refl q HOL.refl g(2)] fits by (simp add: Let_def)
        have "length names < 14" using False "1.prems"(4) by simp
        then have "length buf' = 128 \<and> length names' \<le> 15 \<and> (\<exists>k. list_all2 (holds_name buf' 127) names' ((ns @ [?n]) @ take k (guard_names ?r)) \<and>
          (?w + (\<Sum>n\<leftarrow>guard_names ?r. length n + 1) \<le> 126 \<and> length (names @ [wpos]) + length (guard_names ?r) \<le> 15 \<longrightarrow> length (guard_names ?r) \<le> k))"
          using "1.IH"(2) [OF HOL.refl q HOL.refl HOL.refl HOL.refl _ _ HOL.refl HOL.refl _ run len _ _ _ all] g(2) fits False "1.prems"(5) sub(2) by auto
        then obtain k where k: "length buf' = 128" "length names' \<le> 15" "list_all2 (holds_name buf' 127) names' ((ns @ [?n]) @ take k (guard_names ?r))"
          "?w + (\<Sum>n\<leftarrow>guard_names ?r. length n + 1) \<le> 126 \<and> length (names @ [wpos]) + length (guard_names ?r) \<le> 15 \<longrightarrow> length (guard_names ?r) \<le> k" by blast
        then show ?thesis using g(1) by (intro conjI exI [of _ "Suc k"]) auto
      qed
    qed
  qed
qed

section \<open>The temperature\<close>

lemma last_above:
  "(\<exists>i<length (xs @ [x]). P ((xs @ [x]) ! i) \<and> (\<forall>j. i < j \<and> j < length (xs @ [x]) \<longrightarrow> Q ((xs @ [x]) ! j))) \<longleftrightarrow>
   P x \<or> Q x \<and> (\<exists>i<length xs. P (xs ! i) \<and> (\<forall>j. i < j \<and> j < length xs \<longrightarrow> Q (xs ! j)))" (is "?l \<longleftrightarrow> ?r")
proof
  assume ?l
  then obtain i where i: "i < Suc (length xs)" "P ((xs @ [x]) ! i)" "\<And>j. i < j \<Longrightarrow> j < Suc (length xs) \<Longrightarrow> Q ((xs @ [x]) ! j)" by auto
  show ?r
  proof (cases "i = length xs")
    case False
    then have "i < length xs" using i(1) by simp
    moreover have "Q x" using i(3) [of "length xs"] calculation by simp
    moreover have "Q (xs ! j)" if "i < j" "j < length xs" for j using i(3) [of j] that by (simp add: nth_append)
    ultimately show ?thesis using i(2) by (auto simp: nth_append)
  qed (use i(2) in simp)
next
  assume ?r
  then consider "P x" | i where "Q x" "i < length xs" "P (xs ! i)" "\<forall>j. i < j \<and> j < length xs \<longrightarrow> Q (xs ! j)" by blast
  then show ?l
  proof cases
    case 1
    then show ?thesis by (intro exI [of _ "length xs"]) (simp, linarith)
  next
    case (2 i)
    then show ?thesis by (intro exI [of _ i]) (auto simp: nth_append less_Suc_eq)
  qed
qed

text \<open>Between the two thresholds the mark stays as it was.\<close>

lemma temperature_hysteresis:
  assumes "0 < sint (lothresh s)" "sint (lothresh s) \<le> sint (hithresh s)" "\<not> marking_high s" "\<forall>e\<in>set envs. 0 \<le> te_cputemp e"
  defines "t \<equiv> fold (\<lambda>e s. snd (CPUTemperaturePoll e s)) envs s"
  shows "lothresh t = lothresh s \<and> hithresh t = hithresh s \<and>
    (marking_high t \<longleftrightarrow> (\<exists>i<length envs. sint (hithresh s) \<le> te_cputemp (envs ! i) \<and>
      (\<forall>j. i < j \<and> j < length envs \<longrightarrow> sint (lothresh s) \<le> te_cputemp (envs ! j))))"
  using assms(4) unfolding t_def
proof (induction envs rule: rev_induct)
  case (snoc e es)
  let ?t = "fold (\<lambda>e s. snd (CPUTemperaturePoll e s)) es s"
  have ih: "lothresh ?t = lothresh s" "hithresh ?t = hithresh s"
    "marking_high ?t \<longleftrightarrow> (\<exists>i<length es. sint (hithresh s) \<le> te_cputemp (es ! i) \<and>
      (\<forall>j. i < j \<and> j < length es \<longrightarrow> sint (lothresh s) \<le> te_cputemp (es ! j)))" using snoc by auto
  have e: "0 \<le> te_cputemp e" using snoc.prems by simp
  have step: "lothresh (snd (CPUTemperaturePoll e ?t)) = lothresh s" "hithresh (snd (CPUTemperaturePoll e ?t)) = hithresh s"
    "marking_high (snd (CPUTemperaturePoll e ?t)) \<longleftrightarrow> sint (hithresh s) \<le> te_cputemp e \<or> sint (lothresh s) \<le> te_cputemp e \<and> marking_high ?t"
    using ih(1,2) e assms(1,2) by (auto simp: CPUTemperaturePoll_def Let_def)
  have "marking_high (snd (CPUTemperaturePoll e ?t)) \<longleftrightarrow> sint (hithresh s) \<le> te_cputemp e \<or> sint (lothresh s) \<le> te_cputemp e \<and>
      (\<exists>i<length es. sint (hithresh s) \<le> te_cputemp (es ! i) \<and> (\<forall>j. i < j \<and> j < length es \<longrightarrow> sint (lothresh s) \<le> te_cputemp (es ! j)))"
    unfolding step(3) ih(3) ..
  then show ?case using step(1,2) last_above [of es e "\<lambda>e. sint (hithresh s) \<le> te_cputemp e" "\<lambda>e. sint (lothresh s) \<le> te_cputemp e"]
    by simp
qed (use assms(3) in simp)

section \<open>The ini file\<close>

definition restart_raised :: "trigstatics \<Rightarrow> bool" where
  "restart_raised s \<longleftrightarrow> bit (trigger (huptrig s)) 0 \<and> bit (trigger (exittrig s)) 0"

text \<open>After one override every check with the new time of the file takes it for the old one.\<close>

lemma override_run:
  assumes "\<forall>e\<in>set envs. te_mtime e (inifile s) = m" "m \<noteq> 1"
    "overrideinifiletime s = 1 \<or> overrideinifiletime s = 0 \<and> currinifiletime s \<in> {0, m}"
  shows "huptrig (fold CheckIniFileChangeStuff envs s) = huptrig s \<and> exittrig (fold CheckIniFileChangeStuff envs s) = exittrig s"
  using assms
proof (induction envs arbitrary: s)
  case (Cons e es)
  let ?t = "CheckIniFileChangeStuff e s"
  have m: "te_mtime e (inifile s) = m" using Cons.prems(1) by simp
  have t: "inifile ?t = inifile s" using inifile_frame by (simp add: exit_frame_def)
  have "huptrig ?t = huptrig s \<and> exittrig ?t = exittrig s \<and>
      (overrideinifiletime ?t = 1 \<or> overrideinifiletime ?t = 0 \<and> currinifiletime ?t \<in> {0, m})"
    using m Cons.prems(2,3) by (simp add: CheckIniFileChangeStuff_def Let_def split: option.split) linarith
  then show ?case using Cons.IH [of ?t] Cons.prems t by simp
qed simp

section \<open>Properties\<close>

text \<open>The arguments of a client for the witnesses, and what it sees when nothing is going on.\<close>

definition test_args :: trig_args where
  "test_args = \<lparr>ta_doingmodes = False, ta_exitfile = None, ta_pausefile = Some ''pause'', ta_pauseplist = ''game | cad'',
     ta_restartoninichange = True, ta_inifile = Some ''dnetc.ini'', ta_watchcputempthresh = False,
     ta_cputempthresh = None, ta_pauseifnomainspower = False\<rparr>"

definition test_start :: trigstatics where
  "test_start = InitializeTriggers Some test_args (trigstatics_zero (\<lambda>_. False))"

definition quiet_env :: "int \<Rightarrow> nat \<Rightarrow> trig_env" where
  "quiet_env now m = \<lparr>te_clock_exit = Some now, te_clock_ini = Some now, te_clock_pause = Some now, te_access = \<lambda>_. False,
     te_mtime = \<lambda>_. m, te_pids = \<lambda>_. 0, te_acline = None, te_cputemp = -1\<rparr>"

text \<open>C6: A request to exit stays. In whatever order signals come in, checks are made and other parts of the
  client raise and clear triggers, a request to exit is never withdrawn, a client with one is never
  paused, and a request to restart is a request to exit too.\<close>

theorem exit_request_is_permanent:
  assumes "trig_run (InitializeTriggers full_path args s0) s" "trig_run s t"
  shows "(trigger (huptrig t) \<noteq> 0 \<longrightarrow> trigger (exittrig t) \<noteq> 0) \<and>
    (trigger (exittrig s) \<noteq> 0 \<longrightarrow> trigger (exittrig t) \<noteq> 0 \<and> fst (CheckPauseRequestTrigger env t) = 0)"
proof -
  have s: "trig_inv s" using trig_run_inv [OF assms(1) initialize_inv] by simp
  then have t: "trig_inv t" "trigger (exittrig s) \<noteq> 0 \<longrightarrow> trigger (exittrig t) \<noteq> 0" using trig_run_inv [OF assms(2)] by auto
  obtain e u where c: "CheckExitRequestTrigger env t = (e, u)" by (rule prod.exhaust)
  have "fst (CheckPauseRequestTrigger env t) = 0" if "trigger (exittrig t) \<noteq> 0"
    using check_exit_inv [OF t(1) c] check_exit_value [OF c] that by (simp add: CheckPauseRequestTrigger_def c)
  then show ?thesis using t by (auto simp: trig_inv_def)
qed

theorem exit_request_is_permanent_witness:
  "let s = CliSignalHandler SigHup test_start; t = snd (snd (CheckPauseRequestTrigger (quiet_env 0 0) s)) in
     trigger (huptrig s) \<noteq> 0 \<and> trigger (exittrig t) \<noteq> 0"
proof -
  let ?s = "CliSignalHandler SigHup test_start" and ?e = "quiet_env 0 0"
  have r: "trig_run test_start ?s" "trig_run ?s (snd (snd (CheckPauseRequestTrigger ?e ?s)))"
    by (rule trig_run.step [OF trig_run.refl] trig_step.signal trig_step.check_pause | code_simp)+
  have "trigger (huptrig ?s) \<noteq> 0" "trigger (exittrig ?s) \<noteq> 0" by code_simp+
  then show ?thesis using exit_request_is_permanent [OF r(1) [unfolded test_start_def] r(2) [unfolded test_start_def], folded test_start_def]
    by (simp add: Let_def)
qed

text \<open>C5: A client is paused exactly while one of its conditions holds. In every state it can reach, a check that
  finds no request to exit leaves the user's request as it was, and sets the flag for programs if one
  of the list runs, the one for the power if the client is on battery, the one for the temperature if
  that is marked high, the one for the file if it was there when it was last looked for. The answer
  is not zero if one is set; and all that was on hold is released exactly in the check that finds the
  last one gone.\<close>

theorem pause_follows_conditions:
  assumes "trig_run (InitializeTriggers full_path args s0) s" "CheckPauseRequestTrigger env s = (r, released, t)"
    and "trigger (exittrig t) = 0" "\<not> doingmodes s"
  defines "T \<equiv> bit (trigger (pausetrig t))" and "S \<equiv> bit (trigger (pausetrig s))"
  shows "T 0 = S 0 \<and> T 1 = flag_file_seen env (pausetrig s) \<and>
    (T 4 \<longleftrightarrow> (\<exists>p\<in>set (pauseplist s). te_pids env (plist_name s p) > 0)) \<and>
    T 5 = known_or (IsRunningOnBattery env s) (S 5) \<and> T 6 = known_or (fst (CPUTemperaturePoll env s)) (S 6) \<and>
    (r = 0 \<longleftrightarrow> \<not> (\<exists>k\<in>{0, 1, 4, 5, 6}. T k)) \<and>
    (released \<longleftrightarrow> r = 0 \<and> laststate (pausetrig s) \<noteq> 0) \<and> laststate (pausetrig t) = trigger (pausetrig t)"
proof -
  have inv: "trig_inv s" using trig_run_inv [OF assms(1) initialize_inv] by simp
  obtain e u where c: "CheckExitRequestTrigger env s = (e, u)" by (rule prod.exhaust)
  have "e = 0"
  proof (rule ccontr)
    assume "e \<noteq> 0"
    then have "t = u" using assms(2) by (simp add: CheckPauseRequestTrigger_def c)
    then show False using check_exit_value [OF c] assms(3) \<open>e \<noteq> 0\<close> by simp
  qed
  then obtain tr nx k h l m where p:
    "CheckPauseRequestTrigger env s = (CheckPauseRequestTriggerNoIO (u\<lparr>pausetrig := (pausetrig u)\<lparr>trigger := tr\<rparr>\<rparr>),
       laststate (pausetrig s) \<noteq> tr \<and> tr = 0,
       u\<lparr>pausetrig := (pausetrig u)\<lparr>trigger := tr, laststate := tr, nextcheck := nx\<rparr>, lastactivep := k, hithresh := h, lothresh := l, marking_high := m\<rparr>)"
    "bit tr = pause_bits env s" "pause_flags tr"
    using check_pause_effect [OF inv _ assms(4)] c by metis
  have tr: "trigger (pausetrig t) = tr" "laststate (pausetrig t) = tr" "released \<longleftrightarrow> laststate (pausetrig s) \<noteq> tr \<and> tr = 0"
    using assms(2) p(1) by auto
  have "r = CheckPauseRequestTriggerNoIO (u\<lparr>pausetrig := (pausetrig u)\<lparr>trigger := tr\<rparr>\<rparr>)" using assms(2) p(1) by simp
  then have r: "r = 0 \<longleftrightarrow> tr = 0" by (simp add: public_mask)
  moreover have "tr = 0 \<longleftrightarrow> (\<forall>n. \<not> bit tr n)" by (metis bit_0_eq bit_eq_iff bot_apply bot_bool_def)
  then have "tr = 0 \<longleftrightarrow> \<not> (\<exists>k\<in>{0, 1, 4, 5, 6}. bit tr k)" using p(3) unfolding pause_flags_def by blast
  ultimately show ?thesis unfolding T_def S_def tr p(2) by (auto simp: pause_bits_def guarded_def)
qed

theorem pause_follows_conditions_witness:
  "let s = snd (RaisePauseRequestTrigger test_start); e = quiet_env 0 0; (r, released, t) = CheckPauseRequestTrigger e s in
     r = 1 \<and> \<not> released \<and> bit (trigger (pausetrig t)) 0"
proof -
  let ?s = "snd (RaisePauseRequestTrigger test_start)" and ?e = "quiet_env 0 0"
  have s: "trig_run test_start ?s" by (rule trig_run.step [OF trig_run.refl trig_step.raise_pause])
  obtain r b t where c: "CheckPauseRequestTrigger ?e ?s = (r, b, t)" by (metis prod.exhaust)
  have v: "trigger (exittrig (snd (snd (CheckPauseRequestTrigger ?e ?s)))) = 0 \<and> \<not> doingmodes ?s \<and> bit (trigger (pausetrig ?s)) 0 \<and>
    fst (CheckPauseRequestTrigger ?e ?s) = 1" by code_simp
  note q = pause_follows_conditions [OF s [unfolded test_start_def] c [unfolded test_start_def], folded test_start_def]
  have "bit (trigger (pausetrig t)) 0" "b \<longleftrightarrow> r = 0 \<and> laststate (pausetrig ?s) \<noteq> 0" using q v c by auto
  then show ?thesis using v c by simp
qed

text \<open>C7: A change of the ini file restarts the client, once it has been noticed and has been there for two
  checks; but not after \<open>OverrideNextConffileChangeTrigger\<close>, however many checks follow.\<close>

theorem ini_change_restarts:
  assumes "inifile s \<noteq> []" "overrideinifiletime s = 0" "currinifiletime s \<notin> {0, 1}"
    and "te_clock_ini ea = Some nowa" "nextinifilecheck s < nowa"
    and "te_mtime ea (inifile s) = m" "m \<noteq> currinifiletime s" "m \<notin> {0, 1}"
    and "te_clock_ini eb = Some nowb" "nowa + 5 < nowb" "te_mtime eb (inifile s) \<noteq> 0"
    and "\<forall>e\<in>set envs. te_mtime e (inifile s) = m"
  shows "restart_raised (CheckIniFileChangeStuff eb (CheckIniFileChangeStuff ea s)) \<and>
    (let t = fold CheckIniFileChangeStuff envs (snd (OverrideNextConffileChangeTrigger s))
     in huptrig t = huptrig s \<and> exittrig t = exittrig s)"
proof -
  have 1: "CheckIniFileChangeStuff ea s = s\<lparr>nextinifilecheck := nowa + 5, currinifiletime := 1\<rparr>"
    using assms by (simp add: CheckIniFileChangeStuff_def)
  have "restart_raised (CheckIniFileChangeStuff eb (CheckIniFileChangeStuff ea s))"
    unfolding 1 using assms raise_bit(1) by (simp add: CheckIniFileChangeStuff_def raise_defs restart_raised_def Let_def)
  moreover have "overrideinifiletime (snd (OverrideNextConffileChangeTrigger s)) = 1"
    using assms(2) by (simp add: OverrideNextConffileChangeTrigger_def)
  then have "huptrig (fold CheckIniFileChangeStuff envs (snd (OverrideNextConffileChangeTrigger s))) = huptrig s \<and>
      exittrig (fold CheckIniFileChangeStuff envs (snd (OverrideNextConffileChangeTrigger s))) = exittrig s"
    using override_run [of envs "snd (OverrideNextConffileChangeTrigger s)" m] assms(8,12)
    by (simp add: OverrideNextConffileChangeTrigger_def)
  ultimately show ?thesis by (simp add: Let_def)
qed

theorem ini_change_restarts_witness:
  "let s = CheckIniFileChangeStuff (quiet_env 1 1000) test_start in
     restart_raised (CheckIniFileChangeStuff (quiet_env 13 2000) (CheckIniFileChangeStuff (quiet_env 7 2000) s)) \<and>
     (let t = fold CheckIniFileChangeStuff [quiet_env 7 2000, quiet_env 13 2000, quiet_env 19 2000] (snd (OverrideNextConffileChangeTrigger s))
      in huptrig t = huptrig s \<and> exittrig t = exittrig s)"
proof -
  let ?s = "CheckIniFileChangeStuff (quiet_env 1 1000) test_start"
  have v: "inifile ?s \<noteq> [] \<and> overrideinifiletime ?s = 0 \<and> currinifiletime ?s = 1000 \<and> nextinifilecheck ?s = 6" by code_simp
  show ?thesis unfolding Let_def [of ?s]
    by (rule ini_change_restarts [where nowa = 7 and nowb = 13 and m = 2000]) (use v in \<open>auto simp: quiet_env_def\<close>)
qed

text \<open>C8: The list of programs to watch stays in its buffer of 128 characters and its table of 16 names,
  whatever its length. The names are the first of those between the bars of the text, without the
  blanks around them, each with its null character inside of the buffer; and all of them if they fit.\<close>

theorem pauseplist_in_buffer:
  assumes "length (pauseplistbuffer s) = 128" "CHR 0x00 \<notin> set plist"
  defines "t \<equiv> init_pauseplist plist s"
  shows "length (pauseplistbuffer t) = 128 \<and> length (pauseplist t) < 16 \<and>
    (\<forall>p\<in>set (pauseplist t). p + length (plist_name t p) < 127) \<and>
    (\<exists>k. map (plist_name t) (pauseplist t) = take k (guard_names plist) \<and>
      ((\<Sum>n\<leftarrow>guard_names plist. length n + 1) \<le> 126 \<and> length (guard_names plist) \<le> 15 \<longrightarrow> length (guard_names plist) \<le> k))"
proof -
  obtain buf' names' where l: "init_plist_loop plist 0 (pauseplistbuffer s) [] = (buf', names')" by (rule prod.exhaust)
  then have t: "pauseplistbuffer t = buf'" "pauseplist t = names'" by (simp_all add: t_def init_pauseplist_def)
  from init_plist_loop_ok [OF l assms(1) _ _ assms(2), of "[]"] obtain k where k:
    "length buf' = 128" "length names' \<le> 15" "list_all2 (holds_name buf' 127) names' (take k (guard_names plist))"
    "(\<Sum>n\<leftarrow>guard_names plist. length n + 1) \<le> 126 \<and> length (guard_names plist) \<le> 15 \<longrightarrow> length (guard_names plist) \<le> k" by auto
  have ph: "plist_name t p = n \<and> p + length n < 127" if "holds_name buf' 127 p n" for p n
    using plist_name_holds [of t 127 p n] that t(1) by (simp add: holds_name_def)
  have "list_all2 (\<lambda>p n. plist_name t p = n \<and> p + length n < 127) names' (take k (guard_names plist))"
    by (rule list_all2_mono [OF k(3)]) (rule ph)
  then have "map (plist_name t) names' = take k (guard_names plist) \<and> (\<forall>p\<in>set names'. p + length (plist_name t p) < 127)"
    by (induction rule: list_all2_induct) auto
  then show ?thesis using k by (auto simp: t)
qed

theorem pauseplist_in_buffer_witness:
  "let t = init_pauseplist ''game || cad '' (trigstatics_zero (\<lambda>_. False)) in map (plist_name t) (pauseplist t) = [''game'', ''cad'']"
proof -
  let ?z = "trigstatics_zero (\<lambda>_. False)" and ?p = "''game || cad ''"
  have a: "length (pauseplistbuffer ?z) = 128" "CHR 0x00 \<notin> set ?p" by (simp_all add: trigstatics_zero_def)
  have g: "guard_names ?p = [''game'', ''cad'']" by code_simp
  obtain k where "map (plist_name (init_pauseplist ?p ?z)) (pauseplist (init_pauseplist ?p ?z)) = take k (guard_names ?p)"
    "(\<Sum>n\<leftarrow>guard_names ?p. length n + 1) \<le> 126 \<and> length (guard_names ?p) \<le> 15 \<longrightarrow> length (guard_names ?p) \<le> k"
    using pauseplist_in_buffer [OF a] by blast
  then show ?thesis unfolding g by (simp add: Let_def)
qed

end
