(* ===== verification/Thresholds.thy ===== *)
theory Thresholds
  imports BuffStore Problem
begin

text \<open>
  How much work the client keeps: the statistics of \<open>common/clicdata.cpp\<close>, the thresholds of
  \<open>common/probfill.cpp\<close>, and the functions of \<open>common/buffbase.cpp\<close> that count buffers and say how much is
  to be fetched. \<open>config\<close> is what the user configures together with what the machine tells; the
  rates are those of \<open>nominal_rate_for_contest\<close>, \<open>BenchGetBestRate\<close> and of the benchmarks that \<open>TBenchmark\<close> and the
  selection of a core may do. The static variables of the files, and the time thresholds of the client, are in
  the state. \<open>CliClock\<close> and \<open>CliTimer\<close> are looked up by the number of calls done so far.
\<close>

section \<open>The data\<close>

record config =
  buffers_of :: client
  numcpu :: int
  blockcount :: int
  connectoften :: u32
  nonewblocks :: bool
  offlinemode :: bool
  noupdatefromfile :: bool
  remote_update_dir :: string
  inthreshold :: "nat \<Rightarrow> int"
  project_state :: "nat \<Rightarrow> u32"
  scheduledupdatetime :: u32
  detected_processors :: int
  lurk_watching :: bool
  lurk_passive :: bool
  lurk_connected :: bool
  nominal_rate :: "nat \<Rightarrow> u32"
  selcore_rate :: "nat \<Rightarrow> (u32 \<times> u32) option"
  best_rate :: "nat \<Rightarrow> u32 \<times> u32"
  bench_rate :: "nat \<Rightarrow> (u32 \<times> u32) option"

record contest_info =
  BlocksDone :: u32
  IterDone_hi :: u32
  IterDone_lo :: u32
  TimeDone_sec :: int
  TimeDone_usec :: int
  UnitsDone :: u32
  BestTime :: u32
  BestTimeWasForced :: bool

record buffer_count =
  bc_blk :: "bool \<Rightarrow> nat"
  bc_swu :: "bool \<Rightarrow> nat"
  bc_threshold :: u32
  bc_till_completion :: u32

record updstate = buffbase +
  u_clock :: "nat \<Rightarrow> int option"
  u_timer :: "nat \<Rightarrow> int"
  u_globals :: globals
  conStats :: "nat \<Rightarrow> contest_info"
  buffer_counts :: "nat \<Rightarrow> buffer_count"
  nominal_rates :: "nat \<Rightarrow> u32"
  timethreshold :: "nat \<Rightarrow> int"

definition CliClock :: "('a updstate_scheme, int option) state" where
  "CliClock = State (\<lambda>s. (u_clock s (d_calls s), tick s))"

definition CliTimer :: "('a updstate_scheme, int) state" where
  "CliTimer = State (\<lambda>s. (u_timer s (d_calls s), tick s))"

text \<open>Contest ids, with the flags of the projects of this build.\<close>

definition OGR_NG_id :: nat where "OGR_NG_id = 4"
definition RC5_72_id :: nat where "RC5_72_id = 5"
definition OGR_P2_id :: nat where "OGR_P2_id = 6"

definition PROJECT_UNSUPPORTED :: u32 where "PROJECT_UNSUPPORTED = 0x00000000"
definition PROJECT_OK :: u32 where "PROJECT_OK = 0x00000001"
definition PROJECTFLAG_TIME_THRESHOLD :: u32 where "PROJECTFLAG_TIME_THRESHOLD = 0x00000002"
definition PROJECTFLAG_PREFERRED_BLOCKSIZE :: u32 where "PROJECTFLAG_PREFERRED_BLOCKSIZE = 0x00000004"
definition PROJECTFLAG_RANDOM_BLOCKS :: u32 where "PROJECTFLAG_RANDOM_BLOCKS = 0x00000008"
definition PROJECTSTATE_USER_DISABLED :: u32 where "PROJECTSTATE_USER_DISABLED = 0x00000001"
definition PROJECTSTATE_SUSPENDED :: u32 where "PROJECTSTATE_SUSPENDED = 0x00000002"
definition PROJECTSTATE_CLOSED :: u32 where "PROJECTSTATE_CLOSED = 0x00000004"

definition ProjectGetFlags :: "nat \<Rightarrow> u32" where
  "ProjectGetFlags projectid =
     (let projectflags = [PROJECT_UNSUPPORTED, PROJECT_UNSUPPORTED, PROJECT_UNSUPPORTED, PROJECT_UNSUPPORTED, PROJECT_OK,
            PROJECT_OK OR PROJECTFLAG_TIME_THRESHOLD OR PROJECTFLAG_PREFERRED_BLOCKSIZE OR PROJECTFLAG_RANDOM_BLOCKS, PROJECT_OK]
      in if projectid < 7 \<and> (projectflags ! projectid) AND PROJECT_OK = PROJECT_OK then projectflags ! projectid
         else PROJECT_UNSUPPORTED)"

definition load_permitted :: "nat \<Rightarrow> bool" where
  "load_permitted c = (case project_of (of_nat c) of None \<Rightarrow> False | Some p \<Rightarrow> IsProblemLoadPermitted p)"

section \<open>Statistics\<close>

definition CliSetContestWorkUnitSpeed :: "nat \<Rightarrow> u32 \<Rightarrow> ('a updstate_scheme, bool) state" where
  "CliSetContestWorkUnitSpeed contestid sec = do {
     s \<leftarrow> State_Monad.get;
     let ci = conStats s contestid;
     if contestid < 7 \<and> sec \<noteq> 0 \<and> (BestTime ci = 0 \<or> BestTime ci > sec) then do {
       State_Monad.update (\<lambda>s. s\<lparr>conStats := (conStats s)(contestid := ci\<lparr>BestTime := sec\<rparr>)\<rparr>);
       State_Monad.return True }
     else State_Monad.return False }"

text \<open>\<open>ProjectSetSpeed\<close>; its return value is not used.\<close>

definition ProjectSetSpeed :: "nat \<Rightarrow> u32 \<times> u32 \<Rightarrow> ('a updstate_scheme, unit) state" where
  "ProjectSetSpeed projectid speed =
     (if projectid = OGR_NG_id \<or> projectid = OGR_P2_id \<or> projectid = RC5_72_id then do {
        let (wusizehi, wusizelo) = (if projectid = RC5_72_id then (1, 0) else (0, 0));
        let (speedhi, speedlo) = (if fst speed OR snd speed = 0 then (fst speed, 1) else speed);
        let ((sechi, seclo), _) = u64div wusizehi wusizelo speedhi speedlo;
        if seclo \<noteq> 0 \<and> sechi = 0 then do { CliSetContestWorkUnitSpeed projectid seclo; State_Monad.return () }
        else State_Monad.return () }
      else State_Monad.return ())"

text \<open>\<open>CliGetContestWorkUnitSpeed\<close>: the seconds for a work unit, and whether they come from a benchmark.\<close>

definition CliGetContestWorkUnitSpeed :: "config \<Rightarrow> nat \<Rightarrow> bool \<Rightarrow> ('a updstate_scheme, u32 \<times> bool) state" where
  "CliGetContestWorkUnitSpeed cfg contestid force =
     (if contestid < 7 then do {
        s \<leftarrow> State_Monad.get;
        (if BestTime (conStats s contestid) = 0 \<and> force then do {
           (case selcore_rate cfg contestid of
              None \<Rightarrow> State_Monad.return ()
            | Some rate \<Rightarrow> ProjectSetSpeed contestid rate);
           s \<leftarrow> State_Monad.get;
           (if BestTime (conStats s contestid) = 0 \<and> (fst (best_rate cfg contestid) \<noteq> 0 \<or> snd (best_rate cfg contestid) \<noteq> 0)
            then ProjectSetSpeed contestid (best_rate cfg contestid) else State_Monad.return ());
           s \<leftarrow> State_Monad.get;
           (if BestTime (conStats s contestid) = 0 then
              (case bench_rate cfg contestid of
                 None \<Rightarrow> State_Monad.return ()
               | Some rate \<Rightarrow> ProjectSetSpeed contestid rate)
            else State_Monad.return ());
           s \<leftarrow> State_Monad.get;
           (if BestTime (conStats s contestid) \<noteq> 0
            then State_Monad.update (\<lambda>s. s\<lparr>conStats := (conStats s)(contestid := (conStats s contestid)\<lparr>BestTimeWasForced := True\<rparr>)\<rparr>)
            else State_Monad.return ()) }
         else State_Monad.return ());
        s \<leftarrow> State_Monad.get;
        State_Monad.return (BestTime (conStats s contestid), BestTimeWasForced (conStats s contestid)) }
      else State_Monad.return (0, False))"

definition CliAddContestInfoSummaryData :: "u32 \<Rightarrow> u32 \<Rightarrow> int \<times> int \<Rightarrow> u32 \<Rightarrow> contest_info \<Rightarrow> contest_info" where
  "CliAddContestInfoSummaryData iter_hi iter_lo addtime addunits ci =
     (let ci = ci\<lparr>BlocksDone := BlocksDone ci + 1\<rparr>;
          iter_lo = iter_lo + IterDone_lo ci;
          ci = (if iter_lo < IterDone_lo ci then ci\<lparr>IterDone_hi := IterDone_hi ci + 1\<rparr> else ci);
          ci = ci\<lparr>IterDone_lo := iter_lo, IterDone_hi := IterDone_hi ci + iter_hi, UnitsDone := UnitsDone ci + addunits,
                  TimeDone_sec := TimeDone_sec ci + fst addtime, TimeDone_usec := TimeDone_usec ci + snd addtime\<rparr>
      in if TimeDone_usec ci > 1000000
         then ci\<lparr>TimeDone_sec := TimeDone_sec ci + TimeDone_usec ci div 1000000, TimeDone_usec := TimeDone_usec ci mod 1000000\<rparr>
         else ci)"

section \<open>Thresholds\<close>

definition get_num_c_and_p :: "config \<Rightarrow> globals \<Rightarrow> nat \<Rightarrow> u32 \<times> u32" where
  "get_num_c_and_p cfg g contestid =
     (let numcrunchers = sint (ProblemCountLoaded g (int contestid));
          numprocs = numcpu cfg;
          numprocs = (if numprocs < 0 then detected_processors cfg else numprocs);
          numprocs = (if numprocs < 1 then 1 else numprocs);
          numcrunchers = (if numcrunchers = 0 then numprocs else numcrunchers)
      in (of_int numcrunchers, of_int numprocs))"

text \<open>\<open>__get_thresh_secs\<close>: the second result is the number of crunchers, 0 if it has not been determined.\<close>

definition get_thresh_secs :: "config \<Rightarrow> nat \<Rightarrow> bool \<Rightarrow> u32 \<Rightarrow> ('a updstate_scheme, u32 \<times> u32) state" where
  "get_thresh_secs cfg contestid force stats_units = do {
     (sec, was_forced) \<leftarrow> CliGetContestWorkUnitSpeed cfg contestid force;
     s \<leftarrow> State_Monad.get;
     let (numcrunchers, numprocs) = get_num_c_and_p cfg (u_globals s) contestid;
     let divx = (if was_forced then numprocs else numcrunchers);
     State_Monad.return
       (if sec \<noteq> 0
        then (if stats_units \<noteq> 0 then (stats_units * sec) div (divx * 100) else (100 * 24 * 3600 * divx) div sec, numcrunchers)
        else (0, 0)) }"

text \<open>\<open>ProbfillCacheBufferCounts\<close>, which is called with a client and counts that are not negative.\<close>

definition ProbfillCacheBufferCounts :: "config \<Rightarrow> nat \<Rightarrow> bool \<Rightarrow> nat \<Rightarrow> nat \<Rightarrow> ('a updstate_scheme, unit) state" where
  "ProbfillCacheBufferCounts cfg cont_i is_out_type blk_count swu_count =
     (if cont_i < 7 then do {
        State_Monad.update (\<lambda>s. let bc = buffer_counts s cont_i in s\<lparr>buffer_counts := (buffer_counts s)(cont_i :=
          bc\<lparr>bc_blk := (bc_blk bc)(is_out_type := blk_count), bc_swu := (bc_swu bc)(is_out_type := swu_count)\<rparr>)\<rparr>);
        if \<not> is_out_type then do {
          (sec, _) \<leftarrow> get_thresh_secs cfg cont_i False (of_nat swu_count);
          State_Monad.update (\<lambda>s. s\<lparr>buffer_counts := (buffer_counts s)(cont_i := (buffer_counts s cont_i)\<lparr>bc_till_completion := sec\<rparr>)\<rparr>) }
        else State_Monad.return () }
      else State_Monad.return ())"

text \<open>The default of \<open>ClientGetInThreshold\<close>, for each cruncher.\<close>

definition default_threshold :: "nat \<Rightarrow> u32" where
  "default_threshold contestid =
     (if contestid = RC5_72_id then 6 * 4 * 100 else if contestid = OGR_NG_id then 24 * 100 else 1000)"

definition ClientGetInThreshold :: "config \<Rightarrow> nat \<Rightarrow> bool \<Rightarrow> ('a updstate_scheme, u32) state" where
  "ClientGetInThreshold cfg contestid force = do {
     State_Monad.update (\<lambda>s. s\<lparr>timethreshold := (timethreshold s)(OGR_P2_id := 0, OGR_NG_id := 0)\<rparr>);
     if contestid \<ge> 7 then State_Monad.return 1000
     else do {
       let bufthresh = (if inthreshold cfg contestid > 0 then of_int (inthreshold cfg contestid * 100) else 0);
       s \<leftarrow> State_Monad.get;
       (bufthresh, numcrunchers) \<leftarrow>
         (if timethreshold s contestid > 0 then do {
            (secs, numcrunchers) \<leftarrow> get_thresh_secs cfg contestid force 0;
            let timethresh = (if secs \<noteq> 0 then 1 + of_int (timethreshold s contestid) * secs div 24 else 0);
            State_Monad.return (if timethresh > bufthresh then timethresh else bufthresh, numcrunchers) }
          else State_Monad.return (bufthresh, 0));
       s \<leftarrow> State_Monad.get;
       let numcrunchers = (if numcrunchers < 1 then fst (get_num_c_and_p cfg (u_globals s) contestid) else numcrunchers);
       let bufthresh = (if bufthresh < 1 then default_threshold contestid * numcrunchers else bufthresh);
       let bufthresh = (if bufthresh < numcrunchers * 100 then numcrunchers * 100 else bufthresh);
       State_Monad.update (\<lambda>s. s\<lparr>buffer_counts := (buffer_counts s)(contestid := (buffer_counts s contestid)\<lparr>bc_threshold := bufthresh\<rparr>)\<rparr>);
       State_Monad.return bufthresh } }"

text \<open>\<open>__get_threshold_limit\<close>: the rate is rounded, and kept from the first call on.\<close>

definition round_rate :: "u32 \<Rightarrow> u32" where
  "round_rate rate =
     (if rate < 100 then 10 * ((rate + 5) div 10)
      else if rate < 1000 then 50 * ((rate + 25) div 50)
      else 100 * ((rate + 50) div 100))"

definition get_threshold_limit :: "config \<Rightarrow> nat \<Rightarrow> ('a updstate_scheme, u32) state" where
  "get_threshold_limit cfg contestid =
     (if contestid \<ge> 7 then State_Monad.return 1000
      else do {
        s \<leftarrow> State_Monad.get;
        (if nominal_rates s contestid = 0 then do {
           let rate = nominal_rate cfg contestid * 14;
           let rate = (if rate = 0 then 1000 else round_rate rate);
           State_Monad.update (\<lambda>s. s\<lparr>nominal_rates := (nominal_rates s)(contestid := rate)\<rparr>) }
         else State_Monad.return ());
        s \<leftarrow> State_Monad.get;
        State_Monad.return (nominal_rates s contestid) })"

section \<open>Counting buffers\<close>

definition BufferAssertIsBufferFull :: "config \<Rightarrow> nat \<Rightarrow> ('a updstate_scheme, bool) state" where
  "BufferAssertIsBufferFull cfg contestid =
     (if contestid < 7 then
        if \<not> nodiskbuffers (buffers_of cfg) then do {
          (rc, reccount, _) \<leftarrow> BufferCountFileRecords (buffer_file (buffers_of cfg) (contestid, False)) (of_nat contestid);
          if rc \<noteq> 0 then State_Monad.return True
          else do { limit \<leftarrow> get_threshold_limit cfg contestid; State_Monad.return (reccount \<ge> unat limit) } }
        else do {
          mb \<leftarrow> get_membuff (contestid, False);
          State_Monad.return (mb_maxcount mb \<ge> MEMBUFF_COUNT_MAX) }
      else State_Monad.return False)"

text \<open>\<open>GetBufferCount\<close>: the count, -1 on an error, and the units, which are 0 without \<open>want_swu\<close>.\<close>

definition GetBufferCount :: "config \<Rightarrow> nat \<Rightarrow> bool \<Rightarrow> bool \<Rightarrow> ('a updstate_scheme, int \<times> nat) state" where
  "GetBufferCount cfg contestid use_out_file want_swu =
     (if CheckBuffLimits (buffers_of cfg) \<or> \<not> contestid < 7 then State_Monad.return (-1, 0)
      else do {
        (rc, reccount, swu) \<leftarrow>
          (if \<not> nodiskbuffers (buffers_of cfg)
           then BufferCountFileRecords (buffer_file (buffers_of cfg) (contestid, use_out_file)) (of_nat contestid)
           else BufferCountMemRecords (contestid, use_out_file) (of_nat contestid) want_swu);
        (if rc = 0 \<and> want_swu then ProbfillCacheBufferCounts cfg contestid use_out_file reccount swu else State_Monad.return ());
        State_Monad.return (if rc \<noteq> 0 then (-1, 0) else (int reccount, if want_swu then swu else 0)) })"

text \<open>\<open>BufferReComputeUnitsToFetch\<close>, with the number of packets as the \<open>int\<close> it is stored in.\<close>

definition BufferReComputeUnitsToFetch :: "config \<Rightarrow> nat \<Rightarrow> ('a updstate_scheme, nat) state" where
  "BufferReComputeUnitsToFetch cfg contestid = do {
     full \<leftarrow> BufferAssertIsBufferFull cfg contestid;
     if full then State_Monad.return 0
     else do {
       (packets, swucount) \<leftarrow> GetBufferCount cfg contestid False True;
       if packets < 0 then State_Monad.return 0
       else do {
         swuthresh \<leftarrow> ClientGetInThreshold cfg contestid True;
         limit \<leftarrow> get_threshold_limit cfg contestid;
         s \<leftarrow> State_Monad.get;
         let maxthresh = limit * 100;
         let swuthresh = (if swuthresh > maxthresh then maxthresh else swuthresh);
         let swucount = (if swucount = 0 then nat packets * 100 else swucount);
         State_Monad.return
           (if swucount < unat swuthresh then unat swuthresh - swucount
            else
              let numcrunchers = sint (ProblemCountLoaded (u_globals s) (int contestid));
                  numcrunchers = (if numcrunchers < 1 then
                      let n = (if numcpu cfg < 0 then detected_processors cfg else numcpu cfg) in if n < 1 then 1 else n
                    else numcrunchers)
              in if packets < numcrunchers then nat (100 * (numcrunchers - packets)) else 0) } } }"

end
