(* ===== verification/BuffUpdate.thy ===== *)
theory BuffUpdate
  imports Thresholds
begin

text \<open>
  Fetching work from a remote buffer and flushing results to one, the second half of
  \<open>common/buffbase.cpp\<close>. A loop returns \<open>None\<close> if it does not return; an end of \<open>Fault\<close> is a
  division by zero, with which the process ends. What \<open>BufferUpdate\<close> keeps between its calls is a record
  of its own. The names of remote files are those before \<open>__finalize_fixup\<close>.
\<close>

section \<open>Is an update needed?\<close>

record update_info =
  last_buffupd_time :: u32
  last_buffupd_failed_time :: int
  buffupd_retry_delay :: int
  net_update_status :: bool
  remote_update_status :: bool

definition BUFFERUPDATE_FETCH :: u32 where "BUFFERUPDATE_FETCH = 0x01"
definition BUFFERUPDATE_FLUSH :: u32 where "BUFFERUPDATE_FLUSH = 0x02"
definition BUFFUPDCHECK_TOPOFF :: u32 where "BUFFUPDCHECK_TOPOFF = 0x20"
definition BUFFUPDCHECK_EITHER :: u32 where "BUFFUPDCHECK_EITHER = 0x40"

definition has_flag :: "u32 \<Rightarrow> u32 \<Rightarrow> bool" where
  "has_flag flags f \<longleftrightarrow> flags AND f \<noteq> 0"

definition update_flags :: "bool \<Rightarrow> bool \<Rightarrow> u32" where
  "update_flags fetch flush = (if fetch then BUFFERUPDATE_FETCH else 0) OR (if flush then BUFFERUPDATE_FLUSH else 0)"

text \<open>Whether the states that a key server told have expired, of closed and of suspended projects.\<close>

definition states_expired :: "config \<Rightarrow> update_info \<Rightarrow> ('a updstate_scheme, bool \<times> bool) state" where
  "states_expired cfg u =
     (if last_buffupd_time u = 0 then State_Monad.return (True, True)
      else do {
        timer \<leftarrow> (if scheduledupdatetime cfg \<noteq> 0 then CliTimer else State_Monad.return 0);
        if scheduledupdatetime cfg \<noteq> 0 \<and> timer \<ge> uint (scheduledupdatetime cfg) then State_Monad.return (True, True)
        else do {
          clock \<leftarrow> CliClock;
          State_Monad.return (False, case clock of None \<Rightarrow> False
            | Some tv \<Rightarrow> tv > uint (last_buffupd_time u + 15 * 60)) } })"

definition need_flush_of :: "config \<Rightarrow> nat \<Rightarrow> ('a updstate_scheme, bool) state" where
  "need_flush_of cfg projectid = do {
     (n, _) \<leftarrow> GetBufferCount cfg projectid True False;
     State_Monad.return (n > 0) }"

definition need_fetch_of :: "config \<Rightarrow> bool \<Rightarrow> nat \<Rightarrow> ('a updstate_scheme, bool) state" where
  "need_fetch_of cfg topoff projectid = do {
     full \<leftarrow> BufferAssertIsBufferFull cfg projectid;
     if full then State_Monad.return False
     else do {
       (pktcount, swucount) \<leftarrow> GetBufferCount cfg projectid False True;
       if pktcount \<le> 0 then State_Monad.return True
       else if topoff then do {
         let swucount = (if swucount = 0 then nat pktcount * 100 else swucount);
         thresh \<leftarrow> ClientGetInThreshold cfg projectid True;
         State_Monad.return (swucount < unat thresh) }
       else State_Monad.return False } }"

text \<open>The loop of \<open>BufferCheckIfUpdateNeeded\<close>: \<open>expired\<close> is \<open>None\<close> while it is undetermined, and the
  result is what is needed, a flush and a fetch.\<close>

fun check_needed :: "config \<Rightarrow> update_info \<Rightarrow> u32 \<Rightarrow> bool \<Rightarrow> nat list \<Rightarrow> (bool \<times> bool) option \<Rightarrow> bool \<Rightarrow> bool \<Rightarrow>
    ('a updstate_scheme, bool \<times> bool) state" where
  "check_needed cfg u flags ignore_closed [] expired need_flush need_fetch = State_Monad.return (need_flush, need_fetch)"
| "check_needed cfg u flags ignore_closed (p # ps) expired need_flush need_fetch =
     (if ProjectGetFlags p = PROJECT_UNSUPPORTED \<or> project_state cfg p AND PROJECTSTATE_USER_DISABLED \<noteq> 0 \<or> \<not> load_permitted p
      then check_needed cfg u flags ignore_closed ps expired need_flush need_fetch
      else do {
        let proj_state = project_state cfg p;
        let either = (has_flag flags BUFFERUPDATE_FETCH \<and> has_flag flags BUFFERUPDATE_FLUSH \<and> has_flag flags BUFFUPDCHECK_EITHER);
        (expired, fetchable, flushable) \<leftarrow>
          (if \<not> ignore_closed \<and> proj_state AND (PROJECTSTATE_CLOSED OR PROJECTSTATE_SUSPENDED) \<noteq> 0 then do {
             (closed_expired, suspend_expired) \<leftarrow> (case expired of None \<Rightarrow> states_expired cfg u | Some e \<Rightarrow> State_Monad.return e);
             State_Monad.return (Some (closed_expired, suspend_expired),
               if proj_state AND PROJECTSTATE_CLOSED \<noteq> 0 then (closed_expired, closed_expired)
               else (suspend_expired, True)) }
           else State_Monad.return (expired, True, True));
        flush \<leftarrow> (if has_flag flags BUFFERUPDATE_FLUSH \<and> \<not> need_flush \<and> flushable
                  then need_flush_of cfg p else State_Monad.return False);
        let need_flush = (need_flush \<or> flush);
        let need_fetch = (need_fetch \<or> flush \<and> either);
        let try_fetch = (has_flag flags BUFFERUPDATE_FETCH \<and> \<not> need_fetch \<and> fetchable);
        fetch \<leftarrow> (if try_fetch then need_fetch_of cfg (has_flag flags BUFFUPDCHECK_TOPOFF) p else State_Monad.return False);
        let need_fetch = (need_fetch \<or> fetch);
        let need_flush = (need_flush \<or> try_fetch \<and> need_fetch \<and> either);
        if need_flush \<and> need_fetch then State_Monad.return (need_flush, need_fetch)
        else check_needed cfg u flags ignore_closed ps expired need_flush need_fetch })"

definition BufferCheckIfUpdateNeeded :: "config \<Rightarrow> update_info \<Rightarrow> nat option \<Rightarrow> u32 \<Rightarrow> ('a updstate_scheme, u32) state" where
  "BufferCheckIfUpdateNeeded cfg u contestid flags =
     (if \<not> has_flag flags BUFFERUPDATE_FETCH \<and> \<not> has_flag flags BUFFERUPDATE_FLUSH then State_Monad.return 0
      else do {
        let (ignore_closed, ps) =
          (case contestid of Some c \<Rightarrow> if c < 7 then (True, [c]) else (False, [0..<7]) | None \<Rightarrow> (False, [0..<7]));
        (need_flush, need_fetch) \<leftarrow> check_needed cfg u flags ignore_closed ps None False False;
        State_Monad.return (update_flags need_fetch need_flush) })"

section \<open>Names of remote files\<close>

definition GetFilenameBaseOffset :: "string \<Rightarrow> nat" where
  "GetFilenameBaseOffset p = length p - length (takeWhile (\<lambda>c. c \<noteq> CHR ''/'') (rev p))"

definition GetFullPathForFilenameAndDir :: "string \<Rightarrow> string \<Rightarrow> string" where
  "GetFullPathForFilenameAndDir fname dir =
     (if take 1 fname = ''/'' then fname
      else if length dir + 1 + length fname + 1 \<ge> 512 then []
      else dir @ (if length dir > GetFilenameBaseOffset dir then ''/'' else []) @ fname)"

text \<open>\<open>__get_remote_filename\<close> into a buffer of 266 bytes; \<open>None\<close> is the return of 0 at its start.\<close>

definition get_remote_filename :: "config \<Rightarrow> nat \<Rightarrow> bool \<Rightarrow> string option" where
  "get_remote_filename cfg project use_out =
     (if noupdatefromfile cfg \<or> remote_update_dir cfg = [] then None
      else
        let localname = (if use_out then out_buffer_basename (buffers_of cfg) else in_buffer_basename (buffers_of cfg));
            defaultname = (if use_out then ''buff-out'' else ''buff-in'');
            localname = (if localname \<noteq> [] then drop (GetFilenameBaseOffset localname) localname else defaultname);
            buffer = take 265 (GetFullPathForFilenameAndDir localname (remote_update_dir cfg));
            suffix = map c_tolower (''.'' @ ProjectGetFileExtension project)
        in Some (take 265 (buffer @ suffix)))"

section \<open>Fetching\<close>

definition MAX_REMOTE_BUFFER_WARNINGS :: nat where "MAX_REMOTE_BUFFER_WARNINGS = 3"

text \<open>The variables of a loop, and how a pass through it ends: \<open>Finished\<close> by a \<open>break\<close> or the condition
  of the loop, \<open>Remote_error\<close> by one that counts an error, \<open>Local_error\<close> by one that fails.\<close>

record transfer =
  left :: nat
  trans_pkts :: nat
  trans_su :: nat
  count_last :: int
  warnings :: nat

datatype transfer_end = Finished | Remote_error | Local_error | Fault

definition swu_or_0 :: "work_record \<Rightarrow> nat" where
  "swu_or_0 r = (case snd (BufferGetRecordInfo r) of None \<Rightarrow> 0 | Some u \<Rightarrow> unat u)"

text \<open>The end of a pass: the percentage that is printed, and the condition of the loop.\<close>

definition fetch_percent :: "transfer \<Rightarrow> nat option" where
  "fetch_percent ft =
     (let (donesofar, totrans) =
        (if trans_su ft \<noteq> 0 then (trans_su ft div 100, (trans_su ft + left ft) div 100)
         else (trans_pkts ft, trans_pkts ft + left ft div 100))
      in if totrans = 0 then None else Some (donesofar * 10000 div totrans))"

definition end_of_pass :: "transfer \<Rightarrow> transfer_end option \<times> transfer" where
  "end_of_pass ft =
     (if trans_pkts ft \<noteq> 0 \<and> fetch_percent ft = None then (Some Fault, ft)
      else (if left ft > 0 then None else Some Finished, ft))"

text \<open>A record that is now in the buffer, whose count is \<open>inbuffer_count\<close>.\<close>

definition fetched :: "transfer \<Rightarrow> int \<Rightarrow> nat \<Rightarrow> nat \<Rightarrow> transfer_end option \<times> transfer" where
  "fetched ft inbuffer_count remaining swucount =
     (let same = (trans_pkts ft > 0 \<and> count_last ft \<ge> inbuffer_count) in
      if same \<and> \<not> warnings ft < MAX_REMOTE_BUFFER_WARNINGS then (Some Finished, ft)
      else
        let ft = ft\<lparr>warnings := warnings ft + (if same then 1 else 0), count_last := inbuffer_count,
              trans_pkts := trans_pkts ft + 1, trans_su := trans_su ft + swucount\<rparr>;
            swucount = (if swucount = 0 then 100 else swucount)
        in end_of_pass (ft\<lparr>left := (if remaining = 0 \<or> swucount > left ft then 0 else left ft - swucount)\<rparr>))"

definition fetch_record :: "config \<Rightarrow> nat \<Rightarrow> string \<Rightarrow> transfer \<Rightarrow> ('a updstate_scheme, transfer_end option \<times> transfer) state" where
  "fetch_record cfg contestid remote ft = do {
     (res, wrdata, n) \<leftarrow> BufferGetFileRecord remote BUFFER_FLAGS_REMOTEBUF;
     let remaining = (case n of None \<Rightarrow> 0 | Some n \<Rightarrow> n);
     if res < 0 then State_Monad.return (Some Remote_error, ft)
     else if res > 0 then State_Monad.return (Some Finished, ft)
     else if wr_contest wrdata \<noteq> of_nat contestid then do {
       BufferPutFileRecord remote wrdata False BUFFER_FLAGS_REMOTEBUF;
       State_Monad.return (Some Finished, ft) }
     else do {
       inbuffer_count \<leftarrow> PutBufferRecord (buffers_of cfg) wrdata;
       if inbuffer_count < 0 then do {
         BufferPutFileRecord remote wrdata False BUFFER_FLAGS_REMOTEBUF;
         State_Monad.return (Some Local_error, ft) }
       else State_Monad.return (fetched ft inbuffer_count remaining (swu_or_0 wrdata)) } }"

definition fetch_pass :: "config \<Rightarrow> bool \<Rightarrow> nat \<Rightarrow> string \<Rightarrow> transfer \<Rightarrow> ('a updstate_scheme, transfer_end option \<times> transfer) state" where
  "fetch_pass cfg break_pending contestid remote ft = do {
     stop \<leftarrow> (if \<not> break_pending then CheckExitRequestTriggerNoIO else State_Monad.return False);
     if stop then State_Monad.return (Some Finished, ft)
     else do {
       lefttotrans \<leftarrow> BufferReComputeUnitsToFetch cfg contestid;
       if lefttotrans > 0 then fetch_record cfg contestid remote (ft\<lparr>left := lefttotrans\<rparr>)
       else State_Monad.return (end_of_pass (ft\<lparr>left := 0\<rparr>)) } }"

partial_function (option) fetch_loop ::
  "config \<Rightarrow> bool \<Rightarrow> nat \<Rightarrow> string \<Rightarrow> transfer \<Rightarrow> 'a updstate_scheme \<Rightarrow> ((transfer_end \<times> transfer) \<times> 'a updstate_scheme) option" where
  "fetch_loop cfg break_pending contestid remote ft s =
     (let ((e, ft), s) = run_state (fetch_pass cfg break_pending contestid remote ft) s in
      case e of None \<Rightarrow> fetch_loop cfg break_pending contestid remote ft s | Some e \<Rightarrow> Some ((e, ft), s))"

definition no_transfer :: transfer where
  "no_transfer = \<lparr>left = 1, trans_pkts = 0, trans_su = 0, count_last = -1, warnings = 0\<rparr>"

text \<open>The loop over the contests, with the packets so far and whether there were errors; the result of
  \<open>Fault\<close> is \<open>None\<close>.\<close>

definition transferred :: "bool \<Rightarrow> nat \<Rightarrow> int" where
  "transferred failed pkts = (if failed then - (int pkts + 1) else int pkts)"

fun fetch_contests :: "config \<Rightarrow> bool \<Rightarrow> (nat \<Rightarrow> bool) \<Rightarrow> nat list \<Rightarrow> nat \<Rightarrow> bool \<Rightarrow> 'a updstate_scheme \<Rightarrow>
    (int option \<times> 'a updstate_scheme) option" where
  "fetch_contests cfg break_pending loaderflags [] pkts errors s = Some (Some (transferred errors pkts), s)"
| "fetch_contests cfg break_pending loaderflags (c # cs) pkts errors s =
     (if ProjectGetFlags c = PROJECT_UNSUPPORTED then fetch_contests cfg break_pending loaderflags cs pkts errors s
      else
        let (stop, s) = (if \<not> break_pending then run_state CheckExitRequestTriggerNoIO s else (False, s)) in
        if stop then Some (Some (transferred errors pkts), s)
        else if loaderflags c then fetch_contests cfg break_pending loaderflags cs pkts errors s
        else
          (case get_remote_filename cfg c False of
             None \<Rightarrow> fetch_contests cfg break_pending loaderflags cs pkts errors s
           | Some remote \<Rightarrow>
               (case fetch_loop cfg break_pending c remote no_transfer s of
                  None \<Rightarrow> None
                | Some ((Fault, ft), s) \<Rightarrow> Some (None, s)
                | Some ((Local_error, ft), s) \<Rightarrow> Some (Some (transferred True (pkts + trans_pkts ft)), s)
                | Some ((e, ft), s) \<Rightarrow>
                    fetch_contests cfg break_pending loaderflags cs (pkts + trans_pkts ft) (errors \<or> e = Remote_error) s)))"

definition BufferFetchFile :: "config \<Rightarrow> bool \<Rightarrow> (nat \<Rightarrow> bool) \<Rightarrow> 'a updstate_scheme \<Rightarrow> (int option \<times> 'a updstate_scheme) option" where
  "BufferFetchFile cfg break_pending loaderflags s = fetch_contests cfg break_pending loaderflags [0..<7] 0 False s"

section \<open>Flushing\<close>

text \<open>A record that is now in the remote file; \<open>totrans\<close> is what \<open>GetBufferRecord\<close> returned.\<close>

definition flushed :: "transfer \<Rightarrow> int \<Rightarrow> nat \<Rightarrow> transfer_end option \<times> transfer" where
  "flushed ft totrans swucount =
     (let same = (trans_pkts ft > 0 \<and> count_last ft \<le> totrans) in
      if same \<and> \<not> warnings ft < MAX_REMOTE_BUFFER_WARNINGS then (Some Finished, ft)
      else (if totrans > 0 then None else Some Finished,
        ft\<lparr>warnings := warnings ft + (if same then 1 else 0), count_last := totrans,
           trans_pkts := trans_pkts ft + 1, trans_su := trans_su ft + swucount\<rparr>))"

definition flush_record :: "config \<Rightarrow> string \<Rightarrow> transfer \<Rightarrow> int \<Rightarrow> work_record \<Rightarrow>
    ('a updstate_scheme, transfer_end option \<times> transfer) state" where
  "flush_record cfg remote ft totrans wrdata = do {
     (rc, _) \<leftarrow> BufferPutFileRecord remote wrdata False BUFFER_FLAGS_REMOTEBUF;
     if rc \<noteq> 0 then do {
       PutBufferRecord (buffers_of cfg) wrdata;
       State_Monad.return (Some Local_error, ft) }
     else State_Monad.return (flushed ft totrans (swu_or_0 wrdata)) }"

partial_function (option) flush_loop ::
  "config \<Rightarrow> bool \<Rightarrow> nat \<Rightarrow> string \<Rightarrow> transfer \<Rightarrow> 'a updstate_scheme \<Rightarrow> ((transfer_end \<times> transfer) \<times> 'a updstate_scheme) option" where
  "flush_loop cfg break_pending contestid remote ft s =
     (let (stop, s) = (if \<not> break_pending then run_state CheckExitRequestTriggerNoIO s else (False, s)) in
      if stop then Some ((Finished, ft), s)
      else
        (case GetBufferRecord (buffers_of cfg) (of_nat contestid) True s of
           None \<Rightarrow> None
         | Some ((totrans, wrdata), s) \<Rightarrow>
             if totrans < 0 then Some ((Finished, ft), s)
             else
               let ((e, ft), s) = run_state (flush_record cfg remote ft totrans wrdata) s in
               case e of None \<Rightarrow> flush_loop cfg break_pending contestid remote ft s | Some e \<Rightarrow> Some ((e, ft), s)))"

fun flush_contests :: "config \<Rightarrow> bool \<Rightarrow> (nat \<Rightarrow> bool) \<Rightarrow> nat list \<Rightarrow> nat \<Rightarrow> 'a updstate_scheme \<Rightarrow>
    (int \<times> 'a updstate_scheme) option" where
  "flush_contests cfg break_pending loaderflags [] pkts s = Some (transferred False pkts, s)"
| "flush_contests cfg break_pending loaderflags (c # cs) pkts s =
     (if ProjectGetFlags c = PROJECT_UNSUPPORTED then flush_contests cfg break_pending loaderflags cs pkts s
      else
        let (stop, s) = (if \<not> break_pending then run_state CheckExitRequestTriggerNoIO s else (False, s)) in
        if stop then Some (transferred False pkts, s)
        else if loaderflags c then flush_contests cfg break_pending loaderflags cs pkts s
        else
          (case get_remote_filename cfg c True of
             None \<Rightarrow> flush_contests cfg break_pending loaderflags cs pkts s
           | Some remote \<Rightarrow>
               (case flush_loop cfg break_pending c remote no_transfer s of
                  None \<Rightarrow> None
                | Some ((e, ft), s) \<Rightarrow>
                    let s = (if trans_pkts ft \<noteq> 0 then snd (run_state (GetBufferCount cfg c True True) s) else s) in
                    if e = Local_error then Some (transferred True (pkts + trans_pkts ft), s)
                    else flush_contests cfg break_pending loaderflags cs (pkts + trans_pkts ft) s)))"

definition BufferFlushFile :: "config \<Rightarrow> bool \<Rightarrow> (nat \<Rightarrow> bool) \<Rightarrow> 'a updstate_scheme \<Rightarrow> (int \<times> 'a updstate_scheme) option" where
  "BufferFlushFile cfg break_pending loaderflags s = flush_contests cfg break_pending loaderflags [0..<7] 0 s"

section \<open>The update\<close>

text \<open>The kinds of updates that are allowed, by file and over the net, and the requests that remain.\<close>

definition update_modes :: "config \<Rightarrow> bool \<Rightarrow> u32 \<Rightarrow> bool \<times> bool \<times> u32" where
  "update_modes cfg interactive req_flags =
     (let by_file = (\<not> noupdatefromfile cfg \<and> remote_update_dir cfg \<noteq> [])
      in if interactive then (by_file, \<not> by_file, req_flags)
         else if blockcount cfg < 0 then (by_file, False, 0)
         else if \<not> offlinemode cfg
         then (by_file, if lurk_watching cfg \<and> lurk_passive cfg then lurk_connected cfg else True, req_flags)
         else (by_file, False, req_flags))"

definition fill_always :: "config \<Rightarrow> bool \<Rightarrow> bool" where
  "fill_always cfg interactive \<longleftrightarrow> connectoften cfg \<noteq> 0 \<or> interactive \<or>
     (\<not> interactive \<and> \<not> blockcount cfg < 0 \<and> \<not> offlinemode cfg \<and> lurk_watching cfg)"

definition check_flags :: "config \<Rightarrow> bool \<Rightarrow> u32 \<Rightarrow> u32" where
  "check_flags cfg interactive req_flags =
     update_flags (has_flag req_flags BUFFERUPDATE_FETCH) (has_flag req_flags BUFFERUPDATE_FLUSH)
       OR (if fill_always cfg interactive then BUFFUPDCHECK_TOPOFF else 0)"

text \<open>The transfers over files: whether something was fetched, whether something was flushed, and whether
  there was an error; \<open>None\<close> is a fault.\<close>

definition file_flush :: "config \<Rightarrow> bool \<Rightarrow> (nat \<Rightarrow> bool) \<Rightarrow> bool \<Rightarrow> 'a updstate_scheme \<Rightarrow>
    ((bool \<times> bool \<times> bool) option \<times> 'a updstate_scheme) option" where
  "file_flush cfg break_pending loaderflags didfetch s =
     (case BufferFlushFile cfg break_pending loaderflags s of
        None \<Rightarrow> None
      | Some (n, s) \<Rightarrow> Some (Some (didfetch, n < -1 \<or> n > 0, n < 0), s))"

definition file_update :: "config \<Rightarrow> bool \<Rightarrow> (nat \<Rightarrow> bool) \<Rightarrow> u32 \<Rightarrow> 'a updstate_scheme \<Rightarrow>
    ((bool \<times> bool \<times> bool) option \<times> 'a updstate_scheme) option" where
  "file_update cfg break_pending loaderflags req_flags s =
     (if has_flag req_flags BUFFERUPDATE_FETCH then
        (case BufferFetchFile cfg break_pending loaderflags s of
           None \<Rightarrow> None
         | Some (None, s) \<Rightarrow> Some (None, s)
         | Some (Some n, s) \<Rightarrow>
             if n \<ge> 0 \<and> has_flag req_flags BUFFERUPDATE_FLUSH then file_flush cfg break_pending loaderflags (n > 0) s
             else Some (Some (n < -1 \<or> n > 0, False, n < 0), s))
      else if has_flag req_flags BUFFERUPDATE_FLUSH then file_flush cfg break_pending loaderflags False s
      else Some (Some (False, False, False), s))"

text \<open>The delay after an update that transferred nothing.\<close>

definition next_delay :: "int \<Rightarrow> int" where
  "next_delay d = (if d < 30 then 30 else if d \<le> 1800 then d * 2 else 3600)"

definition update_times :: "bool \<Rightarrow> int option \<Rightarrow> update_info \<Rightarrow> update_info" where
  "update_times did clock u =
     (let u = (case clock of
           None \<Rightarrow> u
         | Some tv \<Rightarrow>
             let tv = (if tv = 0 then 1 else tv) in
             if did then u\<lparr>last_buffupd_time := of_int tv\<rparr>
             else u\<lparr>last_buffupd_failed_time := tv, buffupd_retry_delay := next_delay (buffupd_retry_delay u)\<rparr>)
      in if did then u\<lparr>last_buffupd_failed_time := 0, buffupd_retry_delay := 0\<rparr> else u)"

text \<open>\<open>BufferNetUpdate\<close> is the one of \<open>common/buffpub.cpp\<close>, which does nothing and returns 0.\<close>

definition BufferNetUpdate :: u32 where "BufferNetUpdate = 0"

definition update_with :: "config \<Rightarrow> update_info \<Rightarrow> bool \<Rightarrow> bool \<times> bool \<times> u32 \<Rightarrow> bool \<Rightarrow> 'a updstate_scheme \<Rightarrow>
    ((int option \<times> update_info) \<times> 'a updstate_scheme) option" where
  "update_with cfg u interactive modes break_pending s =
     (let (by_file, by_net, req_flags) = modes;
          loaderflags = (\<lambda>p. project_state cfg p AND PROJECTSTATE_USER_DISABLED \<noteq> 0);
          (needed, s) = (if has_flag req_flags BUFFERUPDATE_FETCH \<or> has_flag req_flags BUFFERUPDATE_FLUSH
             then run_state (BufferCheckIfUpdateNeeded cfg u None (check_flags cfg interactive req_flags)) s else (0, s));
          needs = has_flag needed BUFFERUPDATE_FETCH \<or> has_flag needed BUFFERUPDATE_FLUSH;
          u = (if needs \<and> by_net then u\<lparr>net_update_status := False\<rparr> else u)
      in
      (case (if needs \<and> by_file then file_update cfg break_pending loaderflags req_flags s
             else Some (Some (False, False, False), s)) of
         None \<Rightarrow> None
       | Some (None, s) \<Rightarrow> Some ((None, u), s)
       | Some (Some (didfetch, didflush, transerror), s) \<Rightarrow>
           let net_fetch = (needs \<and> by_net \<and> has_flag BufferNetUpdate BUFFERUPDATE_FETCH);
               net_flush = (needs \<and> by_net \<and> has_flag BufferNetUpdate BUFFERUPDATE_FLUSH);
               didfetch = (didfetch \<or> net_fetch); didflush = (didflush \<or> net_flush);
               u = (if needs \<and> by_file then u\<lparr>remote_update_status := transerror\<rparr> else u);
               (clock, s) = run_state CliClock s;
               u = update_times (didfetch \<or> didflush) clock u;
               failed = (by_file = (needs \<and> by_file \<and> transerror) \<and> \<not> by_net \<and> \<not> didfetch \<and> \<not> didflush)
           in Some ((Some (if failed then -1 else uint (update_flags didfetch didflush)), u), s)))"

definition BufferUpdate :: "config \<Rightarrow> update_info \<Rightarrow> u32 \<Rightarrow> bool \<Rightarrow> 'a updstate_scheme \<Rightarrow>
    ((int option \<times> update_info) \<times> 'a updstate_scheme) option" where
  "BufferUpdate cfg u req_flags interactive s =
     (let (break_pending, s) = run_state CheckExitRequestTriggerNoIO s;
          (clock, s) = (if last_buffupd_failed_time u \<noteq> 0 then run_state CliClock s else (None, s));
          modes = update_modes cfg interactive req_flags
      in if (case clock of None \<Rightarrow> False
           | Some tv \<Rightarrow> last_buffupd_failed_time u + buffupd_retry_delay u > (if tv = 0 then 1 else tv))
         then Some ((Some 0, u), s)
         else if \<not> fst modes \<and> \<not> fst (snd modes) then Some ((Some (-1), u), s)
         else update_with cfg u interactive modes break_pending s)"

end
