(* ===== verification/Transfers.thy ===== *)
theory Transfers
  imports BuffUpdate
begin

text \<open>
  What the functions of \<open>BuffUpdate\<close> do to the work that a client holds. Most leave the buffers alone:
  they count, or work on remote files. A record is put into a buffer or taken out of it by the
  functions of \<open>BuffBase\<close>, whose laws are those of \<open>BuffStore\<close>.
\<close>

section \<open>What a function leaves as it is\<close>

definition leaves :: "('s \<Rightarrow> 'b) \<Rightarrow> ('s, 'a) state \<Rightarrow> bool" where
  "leaves f m \<longleftrightarrow> (\<forall>s. f (snd (run_state m s)) = f s)"

named_theorems leave

lemma leaves_return [leave]: "leaves f (State_Monad.return x)"
  by (simp add: leaves_def State_Monad.return_def)

lemma leaves_bind [leave]: "leaves f m \<Longrightarrow> (\<And>x. leaves f (k x)) \<Longrightarrow> leaves f (State_Monad.bind m k)"
  unfolding leaves_def State_Monad.bind_def by (auto split: prod.split) (metis snd_conv)+

lemma leaves_if [leave]: "leaves f m \<Longrightarrow> leaves f n \<Longrightarrow> leaves f (if b then m else n)"
  by simp

lemma leaves_option [leave]: "leaves f m \<Longrightarrow> (\<And>x. leaves f (k x)) \<Longrightarrow> leaves f (case y of None \<Rightarrow> m | Some x \<Rightarrow> k x)"
  by (simp split: option.split)

lemma leaves_prod [leave]: "(\<And>x y. leaves f (k x y)) \<Longrightarrow> leaves f (case z of (x, y) \<Rightarrow> k x y)"
  by (simp split: prod.split)

lemma leaves_split [leave]: "(\<And>x y. leaves f (k x y v)) \<Longrightarrow> leaves f ((case z of (x, y) \<Rightarrow> k x y) v)"
  by (simp split: prod.split)

lemma leaves_get [leave]: "leaves f State_Monad.get"
  by (simp add: leaves_def State_Monad.get_def)

lemma leaves_State: "(\<And>s. f (snd (g s)) = f s) \<Longrightarrow> leaves f (State g)"
  by (simp add: leaves_def)

lemma leaves_update: "(\<And>s. f (g s) = f s) \<Longrightarrow> leaves f (State_Monad.update g)"
  by (simp add: leaves_def State_Monad.update_def State_Monad.get_def State_Monad.set_def State_Monad.bind_def)

section \<open>Functions on files and the buffers in memory\<close>

lemma leaves_calls [leave]:
  "leaves membufftable io_call" "leaves membufftable (file_content f)" "leaves membufftable (store_file f c)"
  "leaves membufftable set_moo_output_mode" "leaves membufftable get_moo_output_mode"
  by (simp_all add: leaves_def io_call_def file_content_def store_file_def set_moo_output_mode_def
    get_moo_output_mode_def set_file_def)

lemma leaves_library [leave]:
  "leaves membufftable (access_ok f)" "leaves membufftable (fopen_r f)" "leaves membufftable (fopen_w f)"
  "leaves membufftable fseek" "leaves membufftable (ftell_end f)" "leaves membufftable (fread f p n)"
  "leaves membufftable (fwrite f p b)" "leaves membufftable (remove_file f)"
  unfolding access_ok_def fopen_r_def fopen_w_def fseek_def ftell_end_def fread_def fwrite_def remove_file_def
  by (intro leave)+

lemma leaves_files [leave]:
  "leaves membufftable (BufferZapFileRecords f)" "leaves membufftable (open_or_create f)"
  "leaves membufftable (BufferOpenFile f flags)" "leaves membufftable (moo_file_detect f)" "leaves membufftable (moo_file_missing f)"
  "leaves membufftable (moo_reccount f)" "leaves membufftable (moo_open_put f)" "leaves membufftable (moo_read_one_record f i)"
  "leaves membufftable (moo_put_packet f i p n)" "leaves membufftable (stock_put_at f r w x)"
  unfolding BufferZapFileRecords_def open_or_create_def BufferOpenFile_def moo_file_detect_def moo_file_missing_def
    moo_reccount_def moo_open_put_def moo_read_one_record_def moo_put_packet_def stock_put_at_def Let_def
  by (intro leave)+

lemma leaves_scans [leave]:
  "leaves membufftable (moo_count_records f i n ct p u)" "leaves membufftable (moo_find_slot f i n)"
  "leaves membufftable (put_scan f w i n p u)" "leaves membufftable (count_scan f ct i n p u)"
  "leaves membufftable (moo_get_scan f i n)" "leaves membufftable (get_scan f i n p)"
proof -
  show "leaves membufftable (moo_count_records f i n ct p u)"
    by (induction n arbitrary: i p u) (simp_all only: moo_count_records.simps Let_def, (intro leave | assumption)+)
  show "leaves membufftable (moo_find_slot f i n)"
    by (induction n arbitrary: i) (simp_all only: moo_find_slot.simps, (intro leave | assumption)+)
  show "leaves membufftable (put_scan f w i n p u)"
    by (induction n arbitrary: i p u) (simp_all only: put_scan.simps, (intro leave | assumption)+)
  show "leaves membufftable (count_scan f ct i n p u)"
    by (induction n arbitrary: i p u) (simp_all only: count_scan.simps Let_def, (intro leave | assumption)+)
  show "leaves membufftable (moo_get_scan f i n)"
    by (induction n arbitrary: i) (simp_all only: moo_get_scan.simps, (intro leave | assumption)+)
  show "leaves membufftable (get_scan f i n p)"
    by (induction n arbitrary: i p) (simp_all only: get_scan.simps, (intro leave | assumption)+)
qed

lemma leaves_put [leave]: "leaves membufftable (BufferPutFileRecord f r w flags)"
  unfolding BufferPutFileRecord_def moo_put_record_def moo_write_one_record_def stock_put_record_def stock_put_slots_def Let_def
  by (intro leave)+

lemma leaves_count [leave]: "leaves membufftable (BufferCountFileRecords f ct)"
  unfolding BufferCountFileRecords_def moo_count_file_def stock_count_file_def
  by (intro leave)+

lemma leaves_get_record [leave]: "leaves membufftable (BufferGetFileRecord f flags)"
  unfolding BufferGetFileRecord_def moo_get_file_def moo_count_rest_def stock_get_file_def stock_get_slots_def Let_def
  by (intro leave)+

section \<open>Functions that leave the work alone\<close>

definition harmless :: "client \<Rightarrow> ('a buffbase_scheme, 'b) state \<Rightarrow> bool" where
  "harmless c m \<longleftrightarrow> (\<forall>s x s'. store_inv c s \<longrightarrow> run_state m s = (x, s') \<longrightarrow>
     store_inv c s' \<and> held c s' = held c s \<and> (\<not> nodiskbuffers c \<longrightarrow> no_fail s' = no_fail s))"

lemma harmlessD:
  assumes "harmless c m" "run_state m s = (x, s')" "store_inv c s"
  shows "store_inv c s'" "held c s' = held c s" "\<not> nodiskbuffers c \<Longrightarrow> no_fail s' = no_fail s"
  using assms by (simp_all add: harmless_def)

lemma harmless_return [leave]: "harmless c (State_Monad.return x)"
  by (simp add: harmless_def State_Monad.return_def)

lemma harmless_bind [leave]: "harmless c m \<Longrightarrow> (\<And>x. harmless c (k x)) \<Longrightarrow> harmless c (State_Monad.bind m k)"
proof -
  assume m: "harmless c m" and k: "\<And>x. harmless c (k x)"
  show ?thesis unfolding harmless_def
  proof (intro allI impI)
    fix s y s'
    assume s: "store_inv c s" "run_state (State_Monad.bind m k) s = (y, s')"
    obtain x s1 where r: "run_state m s = (x, s1)" by (rule prod.exhaust)
    then have "run_state (k x) s1 = (y, s')" using s(2) by (simp add: State_Monad.bind_def)
    then show "store_inv c s' \<and> held c s' = held c s \<and> (\<not> nodiskbuffers c \<longrightarrow> no_fail s' = no_fail s)"
      using harmlessD [OF m r s(1)] harmlessD [OF k, of x s1 y s'] by simp
  qed
qed

lemma harmless_if [leave]: "harmless c m \<Longrightarrow> harmless c n \<Longrightarrow> harmless c (if b then m else n)"
  by simp

lemma harmless_option [leave]: "harmless c m \<Longrightarrow> (\<And>x. harmless c (k x)) \<Longrightarrow> harmless c (case y of None \<Rightarrow> m | Some x \<Rightarrow> k x)"
  by (simp split: option.split)

lemma harmless_prod [leave]: "(\<And>x y. harmless c (k x y)) \<Longrightarrow> harmless c (case z of (x, y) \<Rightarrow> k x y)"
  by (simp split: prod.split)

definition stock_view :: "'a buffbase_scheme \<Rightarrow> (string \<Rightarrow> u8 list option) \<times> (nat \<Rightarrow> bool) \<times> bool \<times> (nat \<times> bool \<Rightarrow> membuffstruct)" where
  "stock_view s = (d_files s, d_fails s, moo_output_mode s, membufftable s)"

lemma stock_view_eq:
  assumes "stock_view s' = stock_view s"
  shows "store_inv c s' = store_inv c s" "held c s' = held c s" "no_fail s' = no_fail s"
proof -
  have v: "d_files s' = d_files s" "d_fails s' = d_fails s" "moo_output_mode s' = moo_output_mode s" "membufftable s' = membufftable s"
    using assms by (simp_all add: stock_view_def)
  have r: "recs s' f = recs s f" for f using v by (simp add: recs_def)
  have h: "mem_holds s' = mem_holds s" "disk_holds c s' = disk_holds c s"
    using v r by (simp_all add: fun_eq_iff mem_holds_def disk_holds_def)
  show "store_inv c s' = store_inv c s" "held c s' = held c s" "no_fail s' = no_fail s"
    using v r h by (simp_all add: store_inv_def held_def mem_inv_def disk_inv_def stock_disk_def no_fail_def)
qed

lemma leaves_harmless: "leaves stock_view m \<Longrightarrow> harmless c m"
  unfolding harmless_def leaves_def using stock_view_eq by (metis snd_conv)

lemma memory_view:
  assumes "nodiskbuffers c" "membufftable s' = membufftable s"
  shows "store_inv c s' = store_inv c s" "held c s' = held c s"
proof -
  have "mem_holds s' = mem_holds s" using assms by (simp add: fun_eq_iff mem_holds_def)
  then show "store_inv c s' = store_inv c s" "held c s' = held c s"
    using assms by (simp_all add: store_inv_def held_def mem_inv_def)
qed

lemma leaves_memory: "nodiskbuffers c \<Longrightarrow> leaves membufftable m \<Longrightarrow> harmless c m"
  unfolding harmless_def leaves_def using memory_view by (metis snd_conv)

text \<open>For a client with files: any file may change as long as its records do not.\<close>

lemma disk_view:
  assumes "\<not> nodiskbuffers c" "store_inv c s" "stock_disk s'" "frame f s s'" "recs s' f = recs s f"
  shows "store_inv c s' \<and> held c s' = held c s \<and> no_fail s' = no_fail s"
proof -
  have r: "recs s' g = recs s g" for g
    using assms(4,5) frame_recs [of f s s' g] by (cases "g = f") auto
  have "disk_holds c s' = disk_holds c s" using r by (simp add: fun_eq_iff disk_holds_def)
  then show ?thesis using assms r frame_no_fail [OF assms(4)] by (simp add: store_inv_def held_def disk_inv_def)
qed

lemma harmless_count [leave]: "harmless c (BufferCountFileRecords f ct)"
proof (cases "nodiskbuffers c")
  case True
  then show ?thesis by (intro leaves_memory leave)
next
  case False
  show ?thesis unfolding harmless_def
  proof (intro allI impI)
    fix s x s'
    assume a: "store_inv c s" "run_state (BufferCountFileRecords f ct) s = (x, s')"
    then have st: "stock_disk s" using False by (simp add: store_inv_def disk_inv_def)
    from wpD [OF wp_BufferCountFileRecords [OF st] a(2)]
    have "stock_disk s'" "frame f s s'" "recs s' f = recs s f" by (auto simp: count_ok_def)
    from disk_view [OF False a(1) this]
    show "store_inv c s' \<and> held c s' = held c s \<and> (\<not> nodiskbuffers c \<longrightarrow> no_fail s' = no_fail s)" by simp
  qed
qed

section \<open>Thresholds\<close>

lemma leaves_updates [leave]:
  "leaves stock_view (State_Monad.update (\<lambda>s. s\<lparr>conStats := f1 s\<rparr>))"
  "leaves stock_view (State_Monad.update (\<lambda>s. s\<lparr>buffer_counts := f2 s\<rparr>))"
  "leaves stock_view (State_Monad.update (\<lambda>s. s\<lparr>nominal_rates := f3 s\<rparr>))"
  "leaves stock_view (State_Monad.update (\<lambda>s. s\<lparr>timethreshold := f4 s\<rparr>))"
  by (rule leaves_update, simp add: stock_view_def)+

lemma leaves_clocks [leave]:
  "leaves stock_view CliClock" "leaves stock_view CliTimer" "leaves stock_view CheckExitRequestTriggerNoIO" "leaves stock_view (get_membuff i)"
  by (simp_all add: leaves_def CliClock_def CliTimer_def CheckExitRequestTriggerNoIO_def get_membuff_def stock_view_def tick_def)

lemma leaves_set_speed [leave]: "leaves stock_view (CliSetContestWorkUnitSpeed c sec)"
  unfolding CliSetContestWorkUnitSpeed_def Let_def by (intro leave)

lemma leaves_project_speed [leave]: "leaves stock_view (ProjectSetSpeed c r)"
  unfolding ProjectSetSpeed_def Let_def by (intro leave)

lemma leaves_get_speed [leave]: "leaves stock_view (CliGetContestWorkUnitSpeed cfg c force)"
  unfolding CliGetContestWorkUnitSpeed_def Let_def by (intro leave)

lemma leaves_secs [leave]: "leaves stock_view (get_thresh_secs cfg c force u)"
  unfolding get_thresh_secs_def Let_def by (intro leave)

lemma leaves_thresholds [leave]:
  "leaves stock_view (ProbfillCacheBufferCounts cfg c out n u)" "leaves stock_view (ClientGetInThreshold cfg c force)"
  "leaves stock_view (get_threshold_limit cfg c)" "leaves stock_view (BufferCountMemRecords i ct want)"
proof -
  show "leaves stock_view (ProbfillCacheBufferCounts cfg c out n u)"
    unfolding ProbfillCacheBufferCounts_def Let_def by (intro leave)
  show "leaves stock_view (ClientGetInThreshold cfg c force)"
    unfolding ClientGetInThreshold_def Let_def by (intro leave)
  show "leaves stock_view (get_threshold_limit cfg c)"
    unfolding get_threshold_limit_def Let_def by (intro leave)
  show "leaves stock_view (BufferCountMemRecords i ct want)"
    unfolding BufferCountMemRecords_def by (intro leave)
qed

lemma harmless_get [leave]: "harmless c State_Monad.get"
  by (intro leaves_harmless leave)

lemmas harmless_views [leave] = leaves_thresholds [THEN leaves_harmless] leaves_clocks [THEN leaves_harmless]

lemma harmless_needs [leave]:
  "harmless c (BufferAssertIsBufferFull cfg p)" "harmless c (GetBufferCount cfg p out want)"
proof -
  show "harmless c (BufferAssertIsBufferFull cfg p)"
    unfolding BufferAssertIsBufferFull_def by (intro leave)
  show "harmless c (GetBufferCount cfg p out want)"
    unfolding GetBufferCount_def Let_def by (intro leave)
qed

lemma harmless_recompute [leave]: "harmless c (BufferReComputeUnitsToFetch cfg p)"
  unfolding BufferReComputeUnitsToFetch_def Let_def by (intro leave)

lemma harmless_check_needed [leave]: "harmless c (check_needed cfg u flags ig ps ex nfl nfe)"
proof (induction ps arbitrary: ex nfl nfe)
  case Nil
  show ?case by (simp only: check_needed.simps) (intro leave)
next
  case (Cons p ps)
  show ?case
    unfolding check_needed.simps Let_def states_expired_def need_flush_of_def need_fetch_of_def
    by (intro leave | rule Cons.IH)+
qed

lemma harmless_check [leave]: "harmless c (BufferCheckIfUpdateNeeded cfg u p flags)"
  unfolding BufferCheckIfUpdateNeeded_def Let_def by (intro leave)

section \<open>Remote files\<close>

text \<open>On a disk with files of the client alone, a remote file is not even opened.\<close>

lemma remote_refused: "BufferOpenFile f BUFFER_FLAGS_REMOTEBUF = State_Monad.return None"
  by (simp add: BufferOpenFile_def BUFFER_FLAGS_REMOTEBUF_def)

lemma remote_get_refused:
  assumes "stock_disk s" "run_state (BufferGetFileRecord f BUFFER_FLAGS_REMOTEBUF) s = ((rc, r, n), s')"
  shows "rc = -1 \<and> same s s'"
proof -
  have "wp (BufferGetFileRecord f BUFFER_FLAGS_REMOTEBUF) (\<lambda>x s'. fst x = -1 \<and> same s s') s"
    unfolding BufferGetFileRecord_def wp_bind
    by (rule wp_mono [OF stock_not_moo [OF assms(1)]])
      (simp add: stock_get_file_def remote_refused wps del: One_nat_def)
  from wpD [OF this assms(2)] show ?thesis by simp
qed

lemma remote_put_refused:
  assumes "stock_disk s" "run_state (BufferPutFileRecord f r w BUFFER_FLAGS_REMOTEBUF) s = ((rc, n), s')"
  shows "rc = -1 \<and> same s s'"
proof -
  have "moo_output_mode s' = False" if "same s s'" for s'
    using same_moo [OF that] assms(1) by (simp add: stock_disk_def)
  then have "wp (BufferPutFileRecord f r w BUFFER_FLAGS_REMOTEBUF) (\<lambda>x s'. fst x = -1 \<and> same s s') s"
    unfolding BufferPutFileRecord_def wp_bind
    by (intro wp_mono [OF stock_not_moo [OF assms(1)]])
      (simp add: stock_put_record_def remote_refused wps get_moo_output_mode_def)
  from wpD [OF this assms(2)] show ?thesis by simp
qed

lemma same_view: "same s s' \<Longrightarrow> stock_view s' = stock_view (s :: 'a buffbase_scheme) \<and> store_inv c s' = store_inv c s
    \<and> held c s' = held c s \<and> no_fail s' = no_fail s"
proof -
  assume a: "same s s'"
  have "stock_view s' = stock_view s"
    using a by (cases s; cases s') (auto simp: same_def stock_view_def)
  then show ?thesis using stock_view_eq by blast
qed

lemma store_stock: "store_inv c s \<Longrightarrow> \<not> nodiskbuffers c \<Longrightarrow> stock_disk s"
  by (simp add: store_inv_def disk_inv_def)

lemma harmless_remote [leave]:
  "harmless c (BufferGetFileRecord f BUFFER_FLAGS_REMOTEBUF)" "harmless c (BufferPutFileRecord f r w BUFFER_FLAGS_REMOTEBUF)"
proof -
  show "harmless c (BufferGetFileRecord f BUFFER_FLAGS_REMOTEBUF)"
  proof (cases "nodiskbuffers c")
    case False
    show ?thesis unfolding harmless_def
    proof (intro allI impI)
      fix s x s'
      assume a: "store_inv c s" "run_state (BufferGetFileRecord f BUFFER_FLAGS_REMOTEBUF) s = (x, s')"
      obtain rc q n where "x = (rc, q, n)" by (rule prod_cases3)
      then have "same s s'" using remote_get_refused [OF store_stock [OF a(1) False]] a(2) by simp
      then show "store_inv c s' \<and> held c s' = held c s \<and> (\<not> nodiskbuffers c \<longrightarrow> no_fail s' = no_fail s)"
        using same_view a(1) by blast
    qed
  qed (intro leaves_memory leave)
  show "harmless c (BufferPutFileRecord f r w BUFFER_FLAGS_REMOTEBUF)"
  proof (cases "nodiskbuffers c")
    case False
    show ?thesis unfolding harmless_def
    proof (intro allI impI)
      fix s x s'
      assume a: "store_inv c s" "run_state (BufferPutFileRecord f r w BUFFER_FLAGS_REMOTEBUF) s = (x, s')"
      obtain rc n where "x = (rc, n)" by (rule prod.exhaust)
      then have "same s s'" using remote_put_refused [OF store_stock [OF a(1) False]] a(2) by simp
      then show "store_inv c s' \<and> held c s' = held c s \<and> (\<not> nodiskbuffers c \<longrightarrow> no_fail s' = no_fail s)"
        using same_view a(1) by blast
    qed
  qed (intro leaves_memory leave)
qed

section \<open>Records put into a buffer\<close>

lemma PutBufferRecord_law:
  assumes "store_inv c s" "run_state (PutBufferRecord c r) s = (n, s')" "\<not> nodiskbuffers c \<longrightarrow> storable r"
  shows "store_inv c s'" "0 \<le> n \<and> held c s' = add_mset r (held c s) \<or> n = -1 \<and> held c s' = held c s"
    "\<not> nodiskbuffers c \<and> no_fail s \<longrightarrow> no_fail s' \<and> (known_state r \<and> \<not> CheckBuffLimits c \<longrightarrow> 0 \<le> n)"
proof -
  have "store_inv c s' \<and> (0 \<le> n \<and> held c s' = add_mset r (held c s) \<or> n = -1 \<and> held c s' = held c s) \<and>
    (\<not> nodiskbuffers c \<and> no_fail s \<longrightarrow> no_fail s' \<and> (known_state r \<and> \<not> CheckBuffLimits c \<longrightarrow> 0 \<le> n))"
  proof (cases "unat (wr_contest r) < WorkRecord.CONTEST_COUNT \<and> known_state r \<and> \<not> CheckBuffLimits c")
    case False
    then have "run_state (PutBufferRecord c r) s = (-1, s)"
      unfolding PutBufferRecord_def by (auto simp: State_Monad.return_def)
    then have "n = -1 \<and> s' = s" using assms(2) by simp
    then show ?thesis using assms(1,3) False storable_contest by blast
  next
    case True
    have b: "home r \<in> buffers" using True by (simp add: home_def buffers_def)
    obtain rc k where p: "run_state (store_put c (home r) r True) s = ((rc, k), s')"
        and n: "n = (if rc = 0 then (case k of None \<Rightarrow> 0 | Some k \<Rightarrow> int k) else -1)"
      using True assms(2) by (auto simp: PutBufferRecord_def State_Monad.bind_def State_Monad.return_def split: prod.splits)
    have neg: "0 \<le> n \<longleftrightarrow> rc = 0" "rc \<noteq> 0 \<longrightarrow> n = -1" using n by (auto split: option.splits)
    show ?thesis
    proof (cases "nodiskbuffers c")
      case d: True
      have "mem_inv c s" using assms(1) d by (simp add: store_inv_def)
      from mem_put_law [OF this b conjunct1 [OF True] p] d neg show ?thesis
        using everything_upd [OF b] by (auto simp: store_inv_def held_def)
    next
      case d: False
      have "disk_inv c s" "storable r" using assms(1,3) d by (simp_all add: store_inv_def)
      from disk_put_law [OF this(1) b this(2) p] d neg show ?thesis
        using everything_upd [OF b] by (auto simp: store_inv_def held_def)
    qed
  qed
  then show "store_inv c s'" "0 \<le> n \<and> held c s' = add_mset r (held c s) \<or> n = -1 \<and> held c s' = held c s"
    "\<not> nodiskbuffers c \<and> no_fail s \<longrightarrow> no_fail s' \<and> (known_state r \<and> \<not> CheckBuffLimits c \<longrightarrow> 0 \<le> n)" by blast+
qed

text \<open>A record that was held is storable, and the memory is bounded.\<close>

lemma held_storable: "store_inv c s \<Longrightarrow> \<not> nodiskbuffers c \<Longrightarrow> r \<in># held c s \<Longrightarrow> storable r"
  by (auto simp: store_inv_def held_def everything_def disk_inv_def disk_holds_def set_mset_sum)

lemma memory_bound:
  assumes "store_inv c s" "nodiskbuffers c"
  shows "size (held c s) \<le> 14 * MEMBUFF_COUNT_MAX"
proof -
  have "size (mem_holds s i) \<le> MEMBUFF_COUNT_MAX" if "i \<in> buffers" for i
    using assms that by (fastforce simp: store_inv_def mem_inv_def mem_ok_def mem_holds_def mem_recs_def)
  then have "(\<Sum>i\<in>buffers. size (mem_holds s i)) \<le> card buffers * MEMBUFF_COUNT_MAX"
    using sum_bounded_above [of buffers "\<lambda>i. size (mem_holds s i)" MEMBUFF_COUNT_MAX] by simp
  moreover have "card buffers = 14" by (simp add: buffers_def card_cartesian_product WorkRecord.CONTEST_COUNT_def)
  moreover have "size (held c s) = (\<Sum>i\<in>buffers. size (mem_holds s i))"
    using assms(2) by (simp add: held_def everything_def size_multiset_sum)
  ultimately show ?thesis by simp
qed

end
