(* ===== verification/FetchFlush.thy ===== *)
theory FetchFlush
  imports Transfers
begin

text \<open>
  The loops that fetch and flush: what a pass does to the work that is held, that the loops end, and
  what the functions over all contests have moved when they return. Then the properties of updates.
\<close>

section \<open>Fetching\<close>

text \<open>A record of which the percentage cannot be computed if it is the first one that counts.\<close>

definition fatal :: "work_record \<Rightarrow> bool" where
  "fatal r \<longleftrightarrow> 0 < swu_or_0 r \<and> swu_or_0 r < 100"

definition sound :: "transfer \<Rightarrow> bool" where
  "sound ft \<longleftrightarrow> trans_su ft = 0 \<or> 100 \<le> trans_su ft"

lemma end_of_pass_cases:
  assumes "end_of_pass ft = (e, ft')"
  shows "ft' = ft" "e \<in> {None, Some Finished, Some Fault}" "e = None \<Longrightarrow> 0 < left ft" "sound ft \<Longrightarrow> e \<noteq> Some Fault"
proof -
  have f: "fetch_percent ft \<noteq> None" if "sound ft" "trans_pkts ft \<noteq> 0"
    using that by (auto simp: fetch_percent_def sound_def Let_def div_eq_0_iff)
  show "ft' = ft" "e \<in> {None, Some Finished, Some Fault}" "e = None \<Longrightarrow> 0 < left ft" "sound ft \<Longrightarrow> e \<noteq> Some Fault"
    using assms f by (auto simp: end_of_pass_def split: if_splits)
qed

text \<open>A pass that gained the records \<open>G\<close>: it counts them, except the last one if it ends for a loop in
  the settings, and goes on only if it gained one.\<close>

definition gained :: "client \<Rightarrow> 'a updstate_scheme \<Rightarrow> work_record multiset \<Rightarrow> 'a updstate_scheme \<Rightarrow> bool" where
  "gained c s G s' \<longleftrightarrow> store_inv c s' \<and> held c s' = held c s + G \<and>
     (\<not> nodiskbuffers c \<longrightarrow> G = {#} \<and> no_fail s' = no_fail s)"

definition counted :: "transfer \<Rightarrow> transfer_end option \<Rightarrow> transfer \<Rightarrow> work_record multiset \<Rightarrow> bool" where
  "counted ft e ft' G \<longleftrightarrow> trans_pkts ft' \<le> trans_pkts ft + size G \<and> trans_pkts ft + size G \<le> trans_pkts ft' + (if e = None then 0 else 1) \<and>
     (e = None \<longrightarrow> size G = 1) \<and> (sound ft \<longrightarrow> sound ft' \<and> e \<noteq> Some Fault \<or> (\<exists>r\<in>#G. fatal r))"

lemma counted_none: "e \<noteq> None \<Longrightarrow> e \<noteq> Some Fault \<Longrightarrow> counted ft e ft {#}"
  by (simp add: counted_def)

lemma fetched_counted:
  assumes "fetched ft n k (swu_or_0 r) = (e, ft')"
  shows "counted ft e ft' {#r#}"
proof -
  show ?thesis
  proof (cases "trans_pkts ft > 0 \<and> count_last ft \<ge> n \<and> \<not> warnings ft < MAX_REMOTE_BUFFER_WARNINGS")
    case True
    then show ?thesis using assms by (auto simp: fetched_def counted_def Let_def)
  next
    case False
    obtain w l where e: "end_of_pass (ft\<lparr>warnings := w, count_last := n, trans_pkts := trans_pkts ft + 1,
        trans_su := trans_su ft + swu_or_0 r, left := l\<rparr>) = (e, ft')"
      using assms False by (auto simp: fetched_def Let_def split: if_splits)
    show ?thesis using end_of_pass_cases [OF e] by (auto simp: counted_def sound_def fatal_def)
  qed
qed

lemma fetch_record_law:
  assumes "store_inv (buffers_of cfg) s" "run_state (fetch_record cfg c remote ft) s = ((e, ft'), s')"
  shows "\<exists>G. gained (buffers_of cfg) s G s' \<and> counted ft e ft' G"
proof -
  let ?c = "buffers_of cfg"
  obtain res r n s1 where g: "run_state (BufferGetFileRecord remote BUFFER_FLAGS_REMOTEBUF) s = ((res, r, n), s1)"
    by (metis prod.exhaust)
  note h1 = harmlessD [OF harmless_remote(1) g assms(1)]
  have disk: "res = -1" if "\<not> nodiskbuffers ?c"
    using remote_get_refused [OF store_stock [OF assms(1) that] g] by simp
  obtain a s2 where p: "run_state (PutBufferRecord ?c r) s1 = (a, s2)" by (rule prod.exhaust)
  obtain x3 s3 where q: "run_state (BufferPutFileRecord remote r False BUFFER_FLAGS_REMOTEBUF) s1 = (x3, s3)" by (rule prod.exhaust)
  obtain x4 s4 where q4: "run_state (BufferPutFileRecord remote r False BUFFER_FLAGS_REMOTEBUF) s2 = (x4, s4)" by (rule prod.exhaust)
  have run: "run_state (fetch_record cfg c remote ft) s =
      (if res < 0 then ((Some Remote_error, ft), s1)
       else if res > 0 then ((Some Finished, ft), s1)
       else if wr_contest r \<noteq> of_nat c then ((Some Finished, ft), s3)
       else if a < 0 then ((Some Local_error, ft), s4)
       else (fetched ft a (case n of None \<Rightarrow> 0 | Some n \<Rightarrow> n) (swu_or_0 r), s2))"
    using g p q q4 by (simp add: fetch_record_def State_Monad.bind_def State_Monad.return_def Let_def)
  note h3 = harmlessD [OF harmless_remote(2) q h1(1)]
  consider (none) "ft' = ft" "e \<noteq> None" "e \<noteq> Some Fault" "s' = s1 \<or> s' = s3"
    | (bad) "ft' = ft" "e = Some Local_error" "s' = s4" "a < 0" "res = 0"
    | (put) "res = 0" "0 \<le> a" "fetched ft a (case n of None \<Rightarrow> 0 | Some n \<Rightarrow> n) (swu_or_0 r) = (e, ft')" "s' = s2"
    using run assms(2) by (auto split: if_splits)
  then show ?thesis
  proof cases
    case none
    then have "gained ?c s {#} s'" using h1 h3 by (auto simp: gained_def)
    then show ?thesis using counted_none none by blast
  next
    case bad
    have mem: "nodiskbuffers ?c" using disk bad by auto
    note pl = PutBufferRecord_law [OF h1(1) p]
    have i2: "store_inv ?c s2" "held ?c s2 = held ?c s1" using pl mem bad by auto
    have "gained ?c s {#} s'" using h1 i2 bad mem harmlessD [OF harmless_remote(2) q4 i2(1)] by (simp add: gained_def)
    then show ?thesis using counted_none bad by blast
  next
    case put
    have mem: "nodiskbuffers ?c" using disk put by auto
    note pl = PutBufferRecord_law [OF h1(1) p]
    have "gained ?c s {#r#} s'" using h1 pl mem put by (auto simp: gained_def)
    then show ?thesis using fetched_counted [OF put(3)] by blast
  qed
qed

lemma fetch_pass_law:
  assumes "store_inv (buffers_of cfg) s" "run_state (fetch_pass cfg bp c remote ft) s = ((e, ft'), s')"
  shows "\<exists>G. gained (buffers_of cfg) s G s' \<and> counted ft e ft' G"
proof -
  let ?c = "buffers_of cfg"
  obtain stop s1 where st: "run_state (if \<not> bp then CheckExitRequestTriggerNoIO else State_Monad.return False) s = (stop, s1)"
    by (rule prod.exhaust)
  have h1: "store_inv ?c s1" "held ?c s1 = held ?c s" "\<not> nodiskbuffers ?c \<Longrightarrow> no_fail s1 = no_fail s"
    using harmlessD [OF _ st assms(1)] by (simp_all add: leave)
  obtain l s2 where rc: "run_state (BufferReComputeUnitsToFetch cfg c) s1 = (l, s2)" by (rule prod.exhaust)
  note h2 = harmlessD [OF harmless_recompute rc h1(1)]
  have run: "run_state (fetch_pass cfg bp c remote ft) s =
      (if stop then ((Some Finished, ft), s1)
       else if l > 0 then run_state (fetch_record cfg c remote (ft\<lparr>left := l\<rparr>)) s2
       else (end_of_pass (ft\<lparr>left := 0\<rparr>), s2))"
    using st rc by (simp add: fetch_pass_def State_Monad.bind_def State_Monad.return_def)
  have left: "counted (ft\<lparr>left := l\<rparr>) e ft' G = counted ft e ft' G" for G
    by (simp add: counted_def sound_def)
  consider (stop) "e = Some Finished" "ft' = ft" "s' = s1"
    | (rec) "run_state (fetch_record cfg c remote (ft\<lparr>left := l\<rparr>)) s2 = ((e, ft'), s')"
    | (full) "end_of_pass (ft\<lparr>left := 0\<rparr>) = (e, ft')" "s' = s2"
    using run assms(2) by (auto split: if_splits)
  then show ?thesis
  proof cases
    case stop
    then show ?thesis using counted_none [of "Some Finished" ft] h1 by (auto simp: gained_def)
  next
    case rec
    then show ?thesis using fetch_record_law [OF h2(1) rec] h1 h2 left by (auto simp: gained_def)
  next
    case full
    have "counted ft e ft' {#}" using end_of_pass_cases [OF full(1)] by (auto simp: counted_def sound_def)
    then show ?thesis using full h1 h2 by (auto simp: gained_def)
  qed
qed

text \<open>The loop ends, since a pass that goes on leaves less room in memory.\<close>

definition fetch_end :: "transfer \<Rightarrow> transfer_end \<Rightarrow> transfer \<Rightarrow> work_record multiset \<Rightarrow> bool" where
  "fetch_end ft e ft' G \<longleftrightarrow> trans_pkts ft' \<le> trans_pkts ft + size G \<and> trans_pkts ft + size G \<le> Suc (trans_pkts ft') \<and>
     (sound ft \<longrightarrow> e \<noteq> Fault \<or> (\<exists>r\<in>#G. fatal r))"

lemma fetch_loop_ok:
  assumes "store_inv (buffers_of cfg) s"
  shows "\<exists>e ft' s' G. fetch_loop cfg bp c remote ft s = Some ((e, ft'), s') \<and> gained (buffers_of cfg) s G s' \<and> fetch_end ft e ft' G"
  using assms
proof (induction "14 * MEMBUFF_COUNT_MAX - size (held (buffers_of cfg) s)" arbitrary: s ft rule: less_induct)
  case less
  let ?c = "buffers_of cfg"
  obtain e ft1 s1 where p: "run_state (fetch_pass cfg bp c remote ft) s = ((e, ft1), s1)" by (metis prod.exhaust)
  obtain G where G: "gained ?c s G s1" "counted ft e ft1 G" using fetch_pass_law [OF less.prems p] by blast
  show ?case
  proof (cases e)
    case (Some x)
    then have "fetch_loop cfg bp c remote ft s = Some ((x, ft1), s1)" using p by (subst fetch_loop.simps) simp
    moreover have "fetch_end ft x ft1 G" using G(2) Some by (auto simp: fetch_end_def counted_def)
    ultimately show ?thesis using G(1) by blast
  next
    case None
    then have run: "fetch_loop cfg bp c remote ft s = fetch_loop cfg bp c remote ft1 s1" using p by (subst fetch_loop.simps) simp
    have g: "size G = 1" "store_inv ?c s1" "held ?c s1 = held ?c s + G" using G None by (auto simp: gained_def counted_def)
    then have mem: "nodiskbuffers ?c" using G(1) by (auto simp: gained_def)
    have "14 * MEMBUFF_COUNT_MAX - size (held ?c s1) < 14 * MEMBUFF_COUNT_MAX - size (held ?c s)"
      using g memory_bound [OF g(2) mem] by simp
    from less.hyps [OF this g(2), of ft1] obtain e' ft' s' H where
      H: "fetch_loop cfg bp c remote ft1 s1 = Some ((e', ft'), s')" "gained ?c s1 H s'" "fetch_end ft1 e' ft' H" by blast
    have "gained ?c s (G + H) s'" using H(2) g mem by (simp add: gained_def)
    moreover have "fetch_end ft e' ft' (G + H)" using H(3) G(2) None g(1) by (auto simp: fetch_end_def counted_def)
    moreover have "fetch_loop cfg bp c remote ft s = Some ((e', ft'), s')" using run H(1) by simp
    ultimately show ?thesis by blast
  qed
qed

lemma harmless_exit:
  assumes "(if \<not> bp then run_state CheckExitRequestTriggerNoIO s else (False, s)) = (stop, s1)" "store_inv c s"
  shows "store_inv c s1" "held c s1 = held c s" "\<not> nodiskbuffers c \<Longrightarrow> no_fail s1 = no_fail s"
  using assms harmlessD [OF harmless_views(7), of s stop s1 c] by (auto split: if_splits)

text \<open>All contests: each may have gained one record more than it counted.\<close>

definition fetch_result :: "int option \<Rightarrow> nat \<Rightarrow> nat \<Rightarrow> work_record multiset \<Rightarrow> bool" where
  "fetch_result res pkts contests G \<longleftrightarrow>
     (case res of None \<Rightarrow> \<exists>r\<in>#G. fatal r
      | Some n \<Rightarrow> \<exists>failed k. n = transferred failed (pkts + k) \<and> k \<le> size G \<and> size G \<le> k + contests)"

lemma fetch_contests_ok:
  assumes "store_inv (buffers_of cfg) s"
  shows "\<exists>res s' G. fetch_contests cfg bp lf cs pkts er s = Some (res, s') \<and> gained (buffers_of cfg) s G s' \<and>
    fetch_result res pkts (length cs) G"
  using assms
proof (induction cs arbitrary: pkts er s)
  case Nil
  then show ?case by (intro exI [of _ "Some (transferred er pkts)"] exI [of _ s] exI [of _ "{#}"])
    (auto simp: gained_def fetch_result_def intro!: exI [of _ er])
next
  case (Cons c cs)
  let ?c = "buffers_of cfg"
  have skip: "\<exists>res s' G. fetch_contests cfg bp lf cs p e s1 = Some (res, s') \<and> gained ?c s G s' \<and> fetch_result res pkts (Suc (length cs)) G"
    if gs: "gained ?c s H s1" and ps: "p = pkts + k" and ks: "k \<le> size H" "size H \<le> Suc k" for p k e s1 H
  proof -
    have "store_inv ?c s1" using gs by (simp add: gained_def)
    from Cons.IH [OF this, of p e] obtain res s' G where
      G: "fetch_contests cfg bp lf cs p e s1 = Some (res, s')" "gained ?c s1 G s'" "fetch_result res p (length cs) G" by blast
    have "gained ?c s (H + G) s'" using G(2) gs by (auto simp: gained_def)
    moreover have "fetch_result res pkts (Suc (length cs)) (H + G)"
    proof (cases res)
      case None
      then show ?thesis using G(3) by (auto simp: fetch_result_def)
    next
      case (Some n)
      then obtain f k' where "n = transferred f (pkts + (k + k'))" "k' \<le> size G" "size G \<le> k' + length cs"
        using G(3) ps by (auto simp: fetch_result_def ac_simps)
      moreover have "k + k' \<le> size (H + G)" "size (H + G) \<le> (k + k') + Suc (length cs)" using calculation ks by auto
      ultimately show ?thesis using Some unfolding fetch_result_def by auto
    qed
    ultimately show ?thesis using G(1) by blast
  qed
  have self: "gained ?c s {#} s" using Cons.prems by (simp add: gained_def)
  show ?case
  proof (cases "ProjectGetFlags c = PROJECT_UNSUPPORTED")
    case True
    then show ?thesis using skip [OF self, of pkts 0 er] by simp
  next
    case sup: False
    obtain stop s1 where st: "(if \<not> bp then run_state CheckExitRequestTriggerNoIO s else (False, s)) = (stop, s1)" by (rule prod.exhaust)
    have h1: "gained ?c s {#} s1" "store_inv ?c s1" using harmless_exit [OF st Cons.prems] by (simp_all add: gained_def)
    obtain e ft s2 G where f: "fetch_loop cfg bp c (the (get_remote_filename cfg c False)) no_transfer s1 = Some ((e, ft), s2)"
      "gained ?c s1 G s2" "fetch_end no_transfer e ft G" using fetch_loop_ok [OF h1(2)] by blast
    have G: "gained ?c s G s2" using f(2) h1 by (auto simp: gained_def)
    have k: "trans_pkts ft \<le> size G" "size G \<le> Suc (trans_pkts ft)" "e = Fault \<Longrightarrow> \<exists>r\<in>#G. fatal r"
      using f(3) by (auto simp: fetch_end_def no_transfer_def sound_def)
    have "fetch_contests cfg bp lf (c # cs) pkts er s =
       (if stop then Some (Some (transferred er pkts), s1)
        else if lf c \<or> get_remote_filename cfg c False = None then fetch_contests cfg bp lf cs pkts er s1
        else case e of Fault \<Rightarrow> Some (None, s2)
          | Local_error \<Rightarrow> Some (Some (transferred True (pkts + trans_pkts ft)), s2)
          | _ \<Rightarrow> fetch_contests cfg bp lf cs (pkts + trans_pkts ft) (er \<or> e = Remote_error) s2)"
      using sup st f(1) by (auto split: option.splits transfer_end.splits)
    then consider (stop) "fetch_contests cfg bp lf (c # cs) pkts er s = Some (Some (transferred er pkts), s1)"
      | (skip) "fetch_contests cfg bp lf (c # cs) pkts er s = fetch_contests cfg bp lf cs pkts er s1"
      | (fault) "fetch_contests cfg bp lf (c # cs) pkts er s = Some (None, s2)" "e = Fault"
      | (local) "fetch_contests cfg bp lf (c # cs) pkts er s = Some (Some (transferred True (pkts + trans_pkts ft)), s2)"
      | (go) e' where "fetch_contests cfg bp lf (c # cs) pkts er s = fetch_contests cfg bp lf cs (pkts + trans_pkts ft) e' s2"
      by (cases e) (auto split: if_splits)
    then show ?thesis
    proof cases
      case stop
      then show ?thesis using h1(1) by (auto simp: fetch_result_def intro!: exI [of _ er])
    next
      case skip': skip
      then show ?thesis using skip [OF h1(1), of pkts 0 er] by simp
    next
      case fault
      then show ?thesis using G k(3) by (auto simp: fetch_result_def)
    next
      case local
      have "fetch_result (Some (transferred True (pkts + trans_pkts ft))) pkts (length (c # cs)) G"
        using k by (auto simp: fetch_result_def intro!: exI [of _ True] exI [of _ "trans_pkts ft"])
      then show ?thesis using local G by blast
    next
      case go
      then show ?thesis using skip [OF G refl k(1,2), of e'] by simp
    qed
  qed
qed

section \<open>Flushing\<close>

text \<open>What became of the records: \<open>S\<close> was sent, \<open>L\<close> was lost.\<close>

definition parted :: "client \<Rightarrow> 'a updstate_scheme \<Rightarrow> work_record multiset \<Rightarrow> work_record multiset \<Rightarrow> 'a updstate_scheme \<Rightarrow> bool" where
  "parted c s S L s' \<longleftrightarrow> store_inv c s' \<and> held c s = held c s' + S + L \<and>
     (\<not> nodiskbuffers c \<longrightarrow> S = {#} \<and> (no_fail s \<longrightarrow> no_fail s' \<and> (\<forall>r\<in>#L. \<not> known_state r)))"

lemma parted_trans: "parted c s S L s1 \<Longrightarrow> parted c s1 S' L' s2 \<Longrightarrow> parted c s (S + S') (L + L') s2"
  by (auto simp: parted_def ac_simps)

lemma parted_harmless:
  "parted c s S L s1 \<Longrightarrow> harmless c m \<Longrightarrow> run_state m s1 = (x, s2) \<Longrightarrow> parted c s S L s2"
  using harmlessD [of c m s1 x s2] by (simp add: parted_def)

lemma flush_record_law:
  assumes "store_inv (buffers_of cfg) s" "\<not> nodiskbuffers (buffers_of cfg) \<longrightarrow> storable r"
    "run_state (flush_record cfg remote ft n r) s = ((e, ft'), s')"
  obtains (sent) "nodiskbuffers (buffers_of cfg)" "(e, ft') = flushed ft n (swu_or_0 r)" "store_inv (buffers_of cfg) s'"
      "held (buffers_of cfg) s' = held (buffers_of cfg) s"
  | (kept) "e = Some Local_error" "ft' = ft" "store_inv (buffers_of cfg) s'" "held (buffers_of cfg) s' = add_mset r (held (buffers_of cfg) s)"
      "\<not> nodiskbuffers (buffers_of cfg) \<and> no_fail s \<longrightarrow> no_fail s'"
  | (lost) "e = Some Local_error" "ft' = ft" "store_inv (buffers_of cfg) s'" "held (buffers_of cfg) s' = held (buffers_of cfg) s"
      "\<not> nodiskbuffers (buffers_of cfg) \<and> no_fail s \<longrightarrow> no_fail s' \<and> (known_state r \<longrightarrow> CheckBuffLimits (buffers_of cfg))"
proof -
  let ?c = "buffers_of cfg"
  obtain rc k s1 where p: "run_state (BufferPutFileRecord remote r False BUFFER_FLAGS_REMOTEBUF) s = ((rc, k), s1)"
    by (metis prod.exhaust)
  note h1 = harmlessD [OF harmless_remote(2) p assms(1)]
  have disk: "rc = -1" if "\<not> nodiskbuffers ?c"
    using remote_put_refused [OF store_stock [OF assms(1) that] p] by simp
  obtain a s2 where q: "run_state (PutBufferRecord ?c r) s1 = (a, s2)" by (rule prod.exhaust)
  note pl = PutBufferRecord_law [OF h1(1) q assms(2)]
  have run: "run_state (flush_record cfg remote ft n r) s =
      (if rc \<noteq> 0 then ((Some Local_error, ft), s2) else (flushed ft n (swu_or_0 r), s1))"
    using p q by (simp add: flush_record_def State_Monad.bind_def State_Monad.return_def)
  show ?thesis
  proof (cases "rc = 0")
    case True
    then show ?thesis using sent run assms(3) h1 disk by auto
  next
    case False
    then have r: "e = Some Local_error" "ft' = ft" "s' = s2" using run assms(3) by auto
    show ?thesis
    proof (cases "0 \<le> a")
      case True
      then show ?thesis using kept r pl h1 by auto
    next
      case False
      then show ?thesis using lost r pl h1 by auto
    qed
  qed
qed

lemma GetBufferRecord_limits:
  assumes "CheckBuffLimits c" "GetBufferRecord c ct out s = Some ((n, r), s')"
  shows "n = -1"
  using assms by (simp add: GetBufferRecord_def CheckExitRequestTriggerNoIO_def)

definition flush_end :: "nat \<Rightarrow> transfer \<Rightarrow> transfer \<Rightarrow> work_record multiset \<Rightarrow> bool" where
  "flush_end cid ft ft' S \<longleftrightarrow> trans_pkts ft' \<le> trans_pkts ft + size S \<and> trans_pkts ft + size S \<le> Suc (trans_pkts ft') \<and>
     (\<forall>r\<in>#S. home r = (cid, True) \<and> known_state r)"

lemma flushed_pkts:
  assumes "flushed ft n u = (e, ft')"
  shows "trans_pkts ft' \<le> Suc (trans_pkts ft)" "trans_pkts ft \<le> trans_pkts ft'" "e = None \<Longrightarrow> trans_pkts ft' = Suc (trans_pkts ft)"
  using assms by (auto simp: flushed_def Let_def split: if_splits)

lemma flush_loop_ok:
  assumes "store_inv (buffers_of cfg) s" "cid < 7"
  shows "\<exists>e ft' s' S L. flush_loop cfg bp cid remote ft s = Some ((e, ft'), s') \<and> parted (buffers_of cfg) s S L s' \<and> flush_end cid ft ft' S"
  using assms(1)
proof (induction "size (held (buffers_of cfg) s)" arbitrary: s ft rule: less_induct)
  case less
  let ?c = "buffers_of cfg"
  have id: "unat (of_nat cid :: u32) = cid" using assms(2) by (simp add: unat_of_nat)
  obtain stop s1 where st: "(if \<not> bp then run_state CheckExitRequestTriggerNoIO s else (False, s)) = (stop, s1)" by (rule prod.exhaust)
  note h1 = harmless_exit [OF st less.prems]
  have "unat (of_nat cid :: u32) < WorkRecord.CONTEST_COUNT" using assms(2) id by (simp add: WorkRecord.CONTEST_COUNT_def)
  from GetBufferRecord_law [OF h1(1) this, of True] obtain n r s2 lost where
    g: "GetBufferRecord ?c (of_nat cid) True s1 = Some ((n, r), s2)" "store_inv ?c s2"
      "held ?c s1 = held ?c s2 + (if 0 \<le> n then {#r#} else {#}) + lost"
      "0 \<le> n \<longrightarrow> home r = (cid, True) \<and> known_state r"
      "\<not> nodiskbuffers ?c \<and> no_fail s1 \<longrightarrow> no_fail s2 \<and> (\<forall>y\<in>#lost. \<not> known_state y)" using id by auto
  have p1: "parted ?c s {#} {#} s1" using h1 by (simp add: parted_def)
  obtain e ft1 s3 where q: "run_state (flush_record cfg remote ft n r) s2 = ((e, ft1), s3)" by (metis prod.exhaust)
  have run: "flush_loop cfg bp cid remote ft s =
      (if stop then Some ((Finished, ft), s1) else if n < 0 then Some ((Finished, ft), s2)
       else case e of None \<Rightarrow> flush_loop cfg bp cid remote ft1 s3 | Some e \<Rightarrow> Some ((e, ft1), s3))"
    using st g(1) q by (subst flush_loop.simps) simp
  consider (stop) "stop" | (none) "\<not> stop" "n < 0" | (rec) "\<not> stop" "0 \<le> n" by linarith
  then show ?case
  proof cases
    case stop
    then have "flush_loop cfg bp cid remote ft s = Some ((Finished, ft), s1)" using run by simp
    moreover have "flush_end cid ft ft {#}" by (simp add: flush_end_def)
    ultimately show ?thesis using p1 by blast
  next
    case none
    then have "flush_loop cfg bp cid remote ft s = Some ((Finished, ft), s2)" using run by simp
    moreover have "parted ?c s {#} lost s2" using none g h1 by (auto simp: parted_def)
    moreover have "flush_end cid ft ft {#}" by (simp add: flush_end_def)
    ultimately show ?thesis by blast
  next
    case rec
    have "storable r" if "\<not> nodiskbuffers ?c" using held_storable [OF h1(1) that, of r] g(3) rec by simp
    then have sto: "\<not> nodiskbuffers ?c \<longrightarrow> storable r" by blast
    have lim: "\<not> CheckBuffLimits ?c" using GetBufferRecord_limits [OF _ g(1)] rec by auto
    have kn: "home r = (cid, True)" "known_state r" using g(4) rec by auto
    from g(2) sto q show ?thesis
    proof (cases rule: flush_record_law)
      case sent
      have P: "parted ?c s {#r#} lost s3" using sent g rec h1 by (auto simp: parted_def)
      note fp = flushed_pkts [OF sent(2) [symmetric]]
      show ?thesis
      proof (cases e)
        case (Some x)
        have "flush_end cid ft ft1 {#r#}" using fp kn by (auto simp: flush_end_def)
        then show ?thesis using P run rec Some by auto
      next
        case None
        have "size (held ?c s3) < size (held ?c s)" using sent(4) g(3) rec h1(2) by simp
        from less.hyps [OF this sent(3), of ft1] obtain e' ft' s' S L where
          I: "flush_loop cfg bp cid remote ft1 s3 = Some ((e', ft'), s')" "parted ?c s3 S L s'" "flush_end cid ft1 ft' S" by blast
        have "flush_end cid ft ft' ({#r#} + S)" using I(3) fp(3) [OF None] kn by (auto simp: flush_end_def)
        moreover have "flush_loop cfg bp cid remote ft s = Some ((e', ft'), s')" using run rec None I(1) by simp
        ultimately show ?thesis using parted_trans [OF P I(2)] by blast
      qed
    next
      case kept
      have "parted ?c s {#} lost s3" using kept g rec h1 by (auto simp: parted_def)
      moreover have "flush_end cid ft ft1 {#}" using kept by (simp add: flush_end_def)
      moreover have "flush_loop cfg bp cid remote ft s = Some ((Local_error, ft1), s3)" using run rec kept by simp
      ultimately show ?thesis by blast
    next
      case lost': lost
      have "parted ?c s {#} (add_mset r lost) s3" using lost' lim g rec h1 kn by (auto simp: parted_def)
      moreover have "flush_end cid ft ft1 {#}" using lost' by (simp add: flush_end_def)
      moreover have "flush_loop cfg bp cid remote ft s = Some ((Local_error, ft1), s3)" using run rec lost' by simp
      ultimately show ?thesis by blast
    qed
  qed
qed

definition flush_result :: "int \<Rightarrow> nat \<Rightarrow> nat \<Rightarrow> work_record multiset \<Rightarrow> bool" where
  "flush_result n pkts contests S \<longleftrightarrow> (\<forall>r\<in>#S. snd (home r) \<and> known_state r) \<and>
     (\<exists>failed k. n = transferred failed (pkts + k) \<and> k \<le> size S \<and> size S \<le> k + contests)"

lemma flush_contests_ok:
  assumes "store_inv (buffers_of cfg) s" "\<forall>c\<in>set cs. c < 7"
  shows "\<exists>n s' S L. flush_contests cfg bp lf cs pkts s = Some (n, s') \<and> parted (buffers_of cfg) s S L s' \<and>
    flush_result n pkts (length cs) S"
  using assms
proof (induction cs arbitrary: pkts s)
  case Nil
  then show ?case by (intro exI [of _ "transferred False pkts"] exI [of _ s] exI [of _ "{#}"])
    (auto simp: parted_def flush_result_def intro!: exI [of _ False])
next
  case (Cons c cs)
  let ?c = "buffers_of cfg"
  have skip: "\<exists>n s' S L. flush_contests cfg bp lf cs p s1 = Some (n, s') \<and> parted ?c s S L s' \<and> flush_result n pkts (Suc (length cs)) S"
    if gs: "parted ?c s S L s1" and ps: "p = pkts + k" and ks: "k \<le> size S" "size S \<le> Suc k" "\<forall>r\<in>#S. snd (home r) \<and> known_state r"
    for p k s1 S L
  proof -
    have "store_inv ?c s1" "\<forall>c\<in>set cs. c < 7" using gs Cons.prems by (simp_all add: parted_def)
    from Cons.IH [OF this, of p] obtain n s' S' L' where
      G: "flush_contests cfg bp lf cs p s1 = Some (n, s')" "parted ?c s1 S' L' s'" "flush_result n p (length cs) S'" by blast
    obtain f k' where "n = transferred f (pkts + (k + k'))" "k' \<le> size S'" "size S' \<le> k' + length cs" "\<forall>r\<in>#S'. snd (home r) \<and> known_state r"
      using G(3) ps by (auto simp: flush_result_def ac_simps)
    moreover have "k + k' \<le> size (S + S')" "size (S + S') \<le> (k + k') + Suc (length cs)" using calculation ks by auto
    ultimately have "flush_result n pkts (Suc (length cs)) (S + S')" using ks(3) unfolding flush_result_def by auto
    then show ?thesis using G(1) parted_trans [OF gs G(2)] by blast
  qed
  have self: "parted ?c s {#} {#} s" using Cons.prems by (simp add: parted_def)
  show ?case
  proof (cases "ProjectGetFlags c = PROJECT_UNSUPPORTED")
    case True
    then show ?thesis using skip [OF self, of pkts 0] by simp
  next
    case sup: False
    obtain stop s1 where st: "(if \<not> bp then run_state CheckExitRequestTriggerNoIO s else (False, s)) = (stop, s1)" by (rule prod.exhaust)
    have h1: "parted ?c s {#} {#} s1" "store_inv ?c s1" using harmless_exit [OF st Cons.prems(1)] by (simp_all add: parted_def)
    have "c < 7" using Cons.prems by simp
    from flush_loop_ok [OF h1(2) this] obtain e ft s2 S L where
      f: "flush_loop cfg bp c (the (get_remote_filename cfg c True)) no_transfer s1 = Some ((e, ft), s2)"
      "parted ?c s1 S L s2" "flush_end c no_transfer ft S" by blast
    define s3 where "s3 = (if trans_pkts ft \<noteq> 0 then snd (run_state (GetBufferCount cfg c True True) s2) else s2)"
    have P2: "parted ?c s S L s2" using parted_trans [OF h1(1) f(2)] by simp
    have P3: "parted ?c s S L s3"
      unfolding s3_def using P2 parted_harmless [OF P2 harmless_needs(2), of cfg c True True] by (simp add: prod_eq_iff)
    have k: "trans_pkts ft \<le> size S" "size S \<le> Suc (trans_pkts ft)" "\<forall>r\<in>#S. snd (home r) \<and> known_state r"
      using f(3) by (auto simp: flush_end_def no_transfer_def)
    have "flush_contests cfg bp lf (c # cs) pkts s =
       (if stop then Some (transferred False pkts, s1)
        else if lf c \<or> get_remote_filename cfg c True = None then flush_contests cfg bp lf cs pkts s1
        else if e = Local_error then Some (transferred True (pkts + trans_pkts ft), s3)
        else flush_contests cfg bp lf cs (pkts + trans_pkts ft) s3)"
      using sup st f(1) by (auto simp: s3_def Let_def split: option.splits)
    then consider (stop) "flush_contests cfg bp lf (c # cs) pkts s = Some (transferred False pkts, s1)"
      | (skip) "flush_contests cfg bp lf (c # cs) pkts s = flush_contests cfg bp lf cs pkts s1"
      | (local) "flush_contests cfg bp lf (c # cs) pkts s = Some (transferred True (pkts + trans_pkts ft), s3)"
      | (go) "flush_contests cfg bp lf (c # cs) pkts s = flush_contests cfg bp lf cs (pkts + trans_pkts ft) s3"
      by (auto split: if_splits)
    then show ?thesis
    proof cases
      case stop
      have "flush_result (transferred False pkts) pkts (length (c # cs)) {#}"
        by (auto simp: flush_result_def intro!: exI [of _ False])
      then show ?thesis using stop h1(1) by blast
    next
      case skip': skip
      then show ?thesis using skip [OF h1(1), of pkts 0] by simp
    next
      case local
      have "flush_result (transferred True (pkts + trans_pkts ft)) pkts (length (c # cs)) S"
        using k by (auto simp: flush_result_def intro!: exI [of _ True] exI [of _ "trans_pkts ft"])
      then show ?thesis using local P3 by blast
    next
      case go
      then show ?thesis using skip [OF P3 refl k] by simp
    qed
  qed
qed

end
