(* ===== verification/UpdateProps.thy ===== *)
theory UpdateProps
  imports FetchFlush
begin

text \<open>
  The properties of fetching, flushing and updates: they return whichever calls fail, lose no work but that
  which cannot be put back, report only what was transferred, and wait longer and longer after failures.
\<close>

section \<open>The times of updates\<close>

definition backoff :: "update_info \<Rightarrow> bool" where
  "backoff u \<longleftrightarrow> (if last_buffupd_failed_time u = 0 then buffupd_retry_delay u = 0
     else buffupd_retry_delay u \<in> {30, 60, 120, 240, 480, 960, 1920, 3600})"


lemma backoff_status [simp]: "backoff (u\<lparr>net_update_status := a\<rparr>) = backoff u" "backoff (u\<lparr>remote_update_status := b\<rparr>) = backoff u"
  by (simp_all add: backoff_def)

section \<open>Updates over files\<close>



lemma BufferFetchFile_law:
  assumes "store_inv (buffers_of cfg) s"
  shows "\<exists>res s' G. BufferFetchFile cfg bp lf s = Some (res, s') \<and> gained (buffers_of cfg) s G s' \<and> fetch_result res 0 7 G"
  using fetch_contests_ok [OF assms, of bp lf "[0..<7]" 0 False] by (simp add: BufferFetchFile_def)








section \<open>A whole update\<close>







section \<open>A division by zero\<close>

text \<open>A packet that counts for less than one unit, if it is the last one of the remote file.\<close>

lemma fetch_faults:
  assumes "run_state (BufferGetFileRecord remote BUFFER_FLAGS_REMOTEBUF) s = ((0, r, Some 0), s1)" "wr_contest r = of_nat c"
    and "run_state (PutBufferRecord (buffers_of cfg) r) s1 = (n, s2)" "0 \<le> n" "fatal r"
  shows "\<exists>ft. run_state (fetch_record cfg c remote no_transfer) s = ((Some Fault, ft), s2)"
  using assms by (simp add: fetch_record_def State_Monad.bind_def State_Monad.return_def fetched_def no_transfer_def
    end_of_pass_def fetch_percent_def fatal_def Let_def)

lemma fatal_packet: "fatal (replicate 44 0 @ [0x29, 0x5C, 0x8F, 2] @ replicate 100 0 @ [5, 0, 0, 0] @ replicate 16 0)"
  by (simp add: fatal_def swu_or_0_def BufferGetRecordInfo_def WorkGetSWUCount_def wr_contest_def wr_resultcode_def wr_work_def
    bigcrypto_of_def rd32le_def nth_append bytes4_def shl_def project_of_def WorkRecord.CONTEST_COUNT_def)

section \<open>Properties\<close>

text \<open>For the witnesses: a client that exchanges work with a directory, and a state with given files.\<close>

definition test_config :: config where
  "test_config = \<lparr>buffers_of = test_client, numcpu = 1, blockcount = 0, connectoften = 0, nonewblocks = False, offlinemode = True,
     noupdatefromfile = False, remote_update_dir = ''/remote'', inthreshold = \<lambda>_. 0, project_state = \<lambda>_. PROJECTSTATE_USER_DISABLED,
     scheduledupdatetime = 0, detected_processors = 1, lurk_watching = False, lurk_passive = False, lurk_connected = False,
     nominal_rate = \<lambda>_. 0, selcore_rate = \<lambda>_. None, best_rate = \<lambda>_. (0, 0), bench_rate = \<lambda>_. None\<rparr>"

definition test_update_state :: "(string \<Rightarrow> u8 list option) \<Rightarrow> updstate" where
  "test_update_state fs = \<lparr>d_files = fs, d_fails = \<lambda>_. False, d_calls = 0, moo_output_mode = False,
     membufftable = \<lambda>_. \<lparr>mb_count = 0, mb_maxcount = 0, mb_buff = []\<rparr>, exit_request = \<lambda>_. False,
     u_clock = \<lambda>_. Some 7, u_timer = \<lambda>_. 0, u_globals = \<lparr>loaded_problems = replicate 8 0, rc5_72_random_subspace = 1340, ini_subspaces = [], s_using_ptime = True\<rparr>,
     conStats = \<lambda>_. \<lparr>BlocksDone = 0, IterDone_hi = 0, IterDone_lo = 0, TimeDone_sec = 0, TimeDone_usec = 0, UnitsDone = 0,
       BestTime = 0, BestTimeWasForced = False\<rparr>,
     buffer_counts = \<lambda>_. \<lparr>bc_blk = \<lambda>_. 0, bc_swu = \<lambda>_. 0, bc_threshold = 0, bc_till_completion = 0\<rparr>,
     nominal_rates = \<lambda>_. 0, timethreshold = \<lambda>_. 0\<rparr>"

definition no_update_yet :: update_info where
  "no_update_yet = \<lparr>last_buffupd_time = 0, last_buffupd_failed_time = 0, buffupd_retry_delay = 0,
     net_update_status = False, remote_update_status = False\<rparr>"


lemma test_update_ok:
  assumes "i \<in> buffers"
  defines "s \<equiv> test_update_state [buffer_file test_client i \<mapsto> test_record 1 @ test_record 2]"
  shows "store_inv (buffers_of test_config) s" "held (buffers_of test_config) s = {#test_record 1, test_record 2#}"
    "no_fail s" "\<not> nodiskbuffers (buffers_of test_config)" "backoff no_update_yet"
proof -
  have v: "stock_view s = stock_view (test_state [buffer_file test_client i \<mapsto> test_record 1 @ test_record 2])"
    by (simp add: s_def stock_view_def test_state_def test_update_state_def)
  show "store_inv (buffers_of test_config) s" "held (buffers_of test_config) s = {#test_record 1, test_record 2#}"
    using stock_view_eq [OF v] test_state_inv [OF assms(1), of 1 2] by (simp_all add: test_config_def)
  show "no_fail s" "\<not> nodiskbuffers (buffers_of test_config)" "backoff no_update_yet"
    by (simp_all add: s_def no_fail_def test_update_state_def test_config_def test_client_def backoff_def no_update_yet_def)
qed

text \<open>C3: \<open>BufferFetchFile\<close> always returns, and the work that is held only grows. Whichever calls fail, the
  input buffers gain at least the packets that it reports and at most one more for each contest. It
  divides by zero only if it fetched a packet that counts for less than one unit. A client with buffers in its own
  format fetches nothing at all: the function that opens a file refuses remote ones.\<close>

theorem BufferFetchFile_gains:
  assumes "store_inv (buffers_of cfg) s"
  shows "\<exists>res s' G. BufferFetchFile cfg break_pending loaderflags s = Some (res, s') \<and> store_inv (buffers_of cfg) s' \<and>
    held (buffers_of cfg) s' = held (buffers_of cfg) s + G \<and> (\<not> nodiskbuffers (buffers_of cfg) \<longrightarrow> G = {#}) \<and>
    (case res of None \<Rightarrow> \<exists>r\<in>#G. 0 < swu_or_0 r \<and> swu_or_0 r < 100
     | Some n \<Rightarrow> \<exists>failed k. n = transferred failed k \<and> k \<le> size G \<and> size G \<le> k + 7)"
  using BufferFetchFile_law [OF assms, of break_pending loaderflags] unfolding gained_def fetch_result_def fatal_def add_0
  by blast

theorem BufferFetchFile_gains_witness:
  "\<exists>res s' G. BufferFetchFile test_config False (\<lambda>_. False)
       (test_update_state [buffer_file test_client (5, True) \<mapsto> test_record 1 @ test_record 2]) = Some (res, s') \<and>
     held test_client s' = {#test_record 1, test_record 2#} \<and> res \<in> {Some 0, Some (-1)}"
proof -
  have b: "(5, True) \<in> buffers" by (simp add: buffers_def WorkRecord.CONTEST_COUNT_def)
  note t = test_update_ok [OF b]
  show ?thesis
    using BufferFetchFile_gains [OF t(1), of False "\<lambda>_. False"] t(2,4)
    by (auto simp: test_config_def transferred_def split: option.splits if_splits)
qed





text \<open>C4: an update that finds nothing to do counts as one that failed. It returns 0, but makes the client
  ignore every request for an update until the pause is over, whatever its buffers hold by then.\<close>

theorem idle_update_counts_as_failed:
  assumes "update_modes cfg interactive req_flags = (by_file, by_net, req)" "by_file \<or> by_net"
    and "has_flag req BUFFERUPDATE_FETCH \<or> has_flag req BUFFERUPDATE_FLUSH"
    and "last_buffupd_failed_time u = 0" "u_clock s1 (d_calls s1) = Some t" "0 < t"
    and "run_state (BufferCheckIfUpdateNeeded cfg u None (check_flags cfg interactive req)) (tick s) = (0, s1)"
  shows "\<exists>u'. BufferUpdate cfg u req_flags interactive s = Some ((Some 0, u'), tick s1) \<and>
    (\<forall>req' interactive' s2 t'. u_clock s2 (Suc (d_calls s2)) = Some t' \<and> 0 < t' \<and> t' < t + next_delay (buffupd_retry_delay u) \<longrightarrow>
      BufferUpdate cfg u' req' interactive' s2 = Some ((Some 0, u'), tick (tick s2)))"
proof -
  let ?u = "u\<lparr>last_buffupd_failed_time := t, buffupd_retry_delay := next_delay (buffupd_retry_delay u)\<rparr>"
  have z: "\<not> has_flag 0 f" for f by (simp add: has_flag_def)
  have "update_with cfg u interactive (by_file, by_net, req) bp (tick s) = Some ((Some 0, ?u), tick s1)" for bp
    using assms(2,3,5-7) by (simp add: update_with_def z CliClock_def update_times_def update_flags_def Let_def)
  then have "BufferUpdate cfg u req_flags interactive s = Some ((Some 0, ?u), tick s1)"
    using assms(1,2,4) by (simp add: BufferUpdate_def CheckExitRequestTriggerNoIO_def Let_def)
  moreover have "BufferUpdate cfg ?u req' interactive' s2 = Some ((Some 0, ?u), tick (tick s2))"
    if "u_clock s2 (Suc (d_calls s2)) = Some t'" "0 < t'" "t' < t + next_delay (buffupd_retry_delay u)" for req' interactive' s2 t'
    using that assms(6) by (simp add: BufferUpdate_def CheckExitRequestTriggerNoIO_def CliClock_def Let_def tick_def)
  ultimately show ?thesis by blast
qed

theorem idle_update_counts_as_failed_witness:
  "\<exists>u'. BufferUpdate test_config no_update_yet 3 False (test_update_state Map.empty)
       = Some ((Some 0, u'), tick (tick (test_update_state Map.empty))) \<and>
     BufferUpdate test_config u' 3 True (test_update_state Map.empty)
       = Some ((Some 0, u'), tick (tick (test_update_state Map.empty)))"
proof -
  let ?s = "test_update_state Map.empty"
  have m: "update_modes test_config False 3 = (True, False, 3)" by (simp add: update_modes_def test_config_def)
  have skip: "check_needed test_config u fl ig ps ex a b = State_Monad.return (a, b)" for u fl ig ps ex a b
    by (induction ps) (simp_all add: test_config_def PROJECTSTATE_USER_DISABLED_def)
  have "run_state (BufferCheckIfUpdateNeeded test_config no_update_yet None (check_flags test_config False 3)) (tick ?s) = (0, tick ?s)"
    by (simp add: BufferCheckIfUpdateNeeded_def skip State_Monad.bind_def State_Monad.return_def update_flags_def)
  note i = idle_update_counts_as_failed [OF m _ _ _ _ _ this, of 7]
  have c: "u_clock (tick ?s) (d_calls (tick ?s)) = Some 7" "u_clock ?s (Suc (d_calls ?s)) = Some 7"
    "last_buffupd_failed_time no_update_yet = 0" "next_delay (buffupd_retry_delay no_update_yet) = 30" "has_flag 3 BUFFERUPDATE_FETCH"
    by (simp_all add: test_update_state_def tick_def no_update_yet_def next_delay_def has_flag_def BUFFERUPDATE_FETCH_def)
  then obtain u' where u': "BufferUpdate test_config no_update_yet 3 False ?s = Some ((Some 0, u'), tick (tick ?s))"
    "\<forall>req' interactive' (s2 :: updstate) t'. u_clock s2 (Suc (d_calls s2)) = Some t' \<and> 0 < t' \<and> t' < 7 + 30 \<longrightarrow>
      BufferUpdate test_config u' req' interactive' s2 = Some ((Some 0, u'), tick (tick s2))"
    using i by auto
  have "BufferUpdate test_config u' 3 True ?s = Some ((Some 0, u'), tick (tick ?s))"
    using u'(2) [rule_format, of ?s 7 3 True] c(2) by simp
  then show ?thesis using u'(1) by blast
qed

end
