(* ===== verification/Spec2Isabelle.thy ===== *)
theory Spec2Isabelle
  imports Prelude U64Ops Bytes Rc5Key Rc5Core Work OgrInterface OgrBitmap OgrRuler OgrNg OgrStub Problem ProblemRc5 ProblemThreads SelfTest Base64 Moo521 PollSys DiskIO WorkRecord BuffFile BuffStock BuffBase BuffStore Checkpoint Hyunjin HyunjinCore HyunjinSearch HyunjinClient Triggers TriggerLaws TriggerProps Thresholds BuffUpdate Transfers FetchFlush UpdateProps
begin

text \<open>
  A verification library for the distributed.net client with the CUDA core \<open>hyunjin\<close> for RC5-72.
  Paths are relative to \<open>src/\<close>; \<open>common/\<close>, \<open>rc5-72/\<close> and \<open>ogr/\<close> stand for the directories under
  \<open>dnetc-client-base/\<close>.

  \<^bold>\<open>The program.\<close> The client keeps, for each contest, an input and an output buffer of work records, in
  memory or in files. Records are loaded into problems; a problem is run, for a number of iterations at a
  time, by a core that is a function behind a pointer: the cores of RC5-72 try the keys of a block one after
  the other, the cores of OGR place the marks of a Golomb ruler by backtracking. A finished problem is
  retrieved and its record goes to the output buffer; from time to time problems are saved to a checkpoint.
  A client without threads runs its problems as procedures of a polling loop. Signals, flag files,
  programs, the battery and the temperature make it pause, restart or exit. The CUDA core starts kernels of
  many threads, each of which tries four keys, and scans their results.

  \<^bold>\<open>Theories and sources.\<close>

  \<^item> \<open>Prelude\<close>: the integer types of \<open>common/cputypes.h\<close>, pairs of 32-bit halves, rotations, characters,
    folds, and the collections of lemmas. \<open>Bytes\<close>: the four bytes of a word. \<open>U64Ops\<close>: \<open>__u64mul\<close>, \<open>__u64div\<close>
    (both builds) and \<open>ProblemComputeRate\<close> of \<open>common/problem.cpp\<close>.
  \<^item> \<open>Rc5Key\<close>: keys, their two formats and the increment (\<open>common/problem.cpp\<close>, \<open>rc5-72/ansi/\<close>).
    \<open>Rc5Core\<close>: the cores \<open>rc5-72/ansi/r72-ref.cpp\<close>, \<open>r72ansi1.cpp\<close>, \<open>r72ansi2.cpp\<close>, \<open>r72ansi4.cpp\<close> with their
    macros expanded; the locale of the contract a core keeps, interpreted on each of them.
  \<^item> \<open>Hyunjin\<close>: \<open>src/hyunjin_r72_cuda.cu\<close> (device functions, kernel), \<open>src/hyunjin_r72.cpp\<close> (the driver and
    the function of the client). \<open>HyunjinCore\<close>, \<open>HyunjinSearch\<close>, \<open>HyunjinClient\<close>: its proof in three steps, the
    device functions and a launch, the passes of the driver, and the core as seen from the client.
  \<^item> \<open>OgrInterface\<close>: \<open>ogr/ansi/ogr-interface.h\<close>. \<open>OgrBitmap\<close>: \<open>ogrng-32.h\<close> with the macros that shift the
    bitmaps. \<open>OgrRuler\<close>: the abstract search for Golomb rulers, which no code is part of. \<open>OgrNg\<close>:
    \<open>found_one\<close> and \<open>ogr_search_bitmaps\<close> of \<open>ogr/ansi/ogrng_codebase.cpp\<close>; the loop is a \<open>while\<close> with a proof that
    it ends. \<open>OgrStub\<close>: \<open>ogr_init\<close>, \<open>ogr_create\<close>, \<open>ogr_getresult\<close>, \<open>ogr_cycle_entry\<close>, and the search as a whole.
  \<^item> \<open>Work\<close>: \<open>ContestWork\<close> and its functions in \<open>common/problem.cpp\<close>. \<open>Problem\<close>: \<open>ProblemLoadState\<close>,
    \<open>ProblemRetrieveState\<close>, \<open>ProblemRun\<close>, the counters, each a function on the three copies of a problem with
    the core as an argument. \<open>ProblemRc5\<close>: their proof for RC5-72. \<open>ProblemThreads\<close>: the two threads that
    share a problem as a step relation. \<open>SelfTest\<close>: the first test case of \<open>common/selftest.cpp\<close>.
  \<^item> \<open>WorkRecord\<close>: the 168 bytes of a record and their byte order on disk. \<open>Base64\<close>, \<open>Moo521\<close>:
    \<open>common/base64.cpp\<close>, \<open>common/moo521.cpp\<close>.
  \<^item> \<open>DiskIO\<close>: a disk whose calls fail as an oracle says, and weakest preconditions for programs over it.
    \<open>BuffFile\<close>: \<open>common/buffpub.cpp\<close>. \<open>BuffStock\<close>: the records of a file, and that the functions of
    \<open>BuffFile\<close> are operations on this bag. \<open>BuffBase\<close>: \<open>common/buffbase.cpp\<close> and the extensions of the file
    names. \<open>BuffStore\<close>: the interface of a store of records as a locale, interpreted on files, on memory and on
    what \<open>buffbase.cpp\<close> chooses between. \<open>Checkpoint\<close>: \<open>common/checkpt.cpp\<close>.
  \<^item> \<open>Thresholds\<close>: how much work is kept: the thresholds of \<open>common/probfill.cpp\<close>, the speeds of
    \<open>common/clicdata.cpp\<close>, the counts of \<open>common/buffbase.cpp\<close>. \<open>BuffUpdate\<close>: the rest of \<open>common/buffbase.cpp\<close>, whether an
    update is needed, the loops that fetch and flush over files, and \<open>BufferUpdate\<close>. \<open>Transfers\<close>: which of these leave the
    buffers alone. \<open>FetchFlush\<close>: the loops end and conserve work. \<open>UpdateProps\<close>: the properties of updates.
  \<^item> \<open>PollSys\<close>: \<open>common/pollsys.cpp\<close>.
  \<^item> \<open>Triggers\<close>: \<open>common/triggers.cpp\<close>. \<open>TriggerLaws\<close>: the invariant of its steps and the effect of its checks;
    \<open>TriggerProps\<close>: its properties.

  \<^bold>\<open>State and operations.\<close> A structure is a record with the fields of the source, an array a list or a
  function of its index, an integer a word of its width (\<open>u32\<close>, \<open>u64\<close>, \<open>u8\<close>) unless the code cannot
  leave the range of \<open>int\<close>. An operation is a function of the state to its result and the new state, in the
  state monad where it does input or output. Error returns are the values the code returns. Calls to the
  outside are arguments: the CUDA runtime says which call fails and in what order atomic operations take
  effect, the disk says which call of the C library fails, the environment of the triggers says what
  the clock, the battery, the list of programs and the sensors give. These oracles are indexed by the
  number of calls done so far, so that a property that holds for all of them holds whatever fails when.

  \<^bold>\<open>What the lemmas show.\<close> The cores, the portable ones and the one for CUDA, compute the
  same search of a range of keys, and a problem that is run with any core that keeps the contract finds the
  first key of its block or searches it completely, across saving and reloading. A search of OGR-NG,
  however it is cut into calls and stubs, ends and decides whether there is a ruler ahead of its stub. The
  buffer files implement a bag of records under failing calls; getting a record from them neither loses nor
  makes up work. Fetching and flushing return whichever calls fail, and conserve work in the same sense.
  The polling loop serves the highest priority, takes turns and returns. The triggers
  pause the client exactly while a condition holds and never forget a request to exit. The codecs are
  inverted by their decoders. Other properties exhibit what goes wrong: checkpoints that lose work,
  counts that are added twice after a failing CUDA call, a loop over two buffers in one file that does not
  end, a polling handle that is given back twice.

  \<^bold>\<open>Bounds and loops.\<close> Loops over arrays are structural. The loops that search are \<open>function\<close>s with a
  measure or a \<open>while\<close> whose termination is a lemma. The loops that take records from a buffer, fetch or flush are
  \<open>partial_function\<close>s, whose \<open>None\<close> means that the code does not return; that they do return is part of what
  is proved of them. \<open>run_repeat\<close> runs a problem a given number of times, and the properties give the number
  that is enough: a run does at least 32 keys, so 4097 runs are enough for the 131072 keys of the self-test.

  \<^bold>\<open>Build.\<close> Linux on AMD64 with 32-bit \<open>int\<close>, little-endian, without a build's own thresholds for GPUs, with
  \<open>LURK\<close> an argument. The
  OGR-NG core is its 32-bit form in C with the table of the first blank; OGR-P2 is compiled in for what the
  records and works do with it. The client is a single process, as far as its buffers go.

  \<^bold>\<open>Not modelled.\<close> Messages, logs and statistics that are only printed; the part of \<open>GetFullPathForFilename\<close>
  that makes a path of a name; the fields of a problem that only the scheduler reads. The network, mail,
  console, menus, the ini file and the command line, core selection, clocks and platform code are calls of
  the operating system with little logic between them. The cores in assembly and for vectors are not C++; the other
  cores for GPUs are replaced by the one of this repository. The core of OGR-P2, the 64-bit bitmaps
  of OGR-NG and the start of its tables are left out, and so are the research code, the test programs and the packaging.
\<close>

end
